(* ===== verification/Prelude.thy ===== *)
theory Prelude
  imports Main "HOL-Library.Word" "HOL-Library.Monad_Syntax"
begin

text \<open>
  Shared vocabulary of the development: the C integer types as words, the \<open>errno\<close> values the
  sources return, bit strings in on-air order (most significant bit first) and their relation
  to byte buffers, first-match scans over fixed arrays, and the slot-table interface that the
  LLC endpoint table, the MLE session table and the CMCE call table all implement.
\<close>

unbundle bit_operations_syntax

named_theorems bits_simps \<open>facts about bit strings and the byte buffers holding them\<close>
named_theorems codec_simps \<open>round trips of enumeration codes and byte codecs\<close>

section \<open>C types and return codes\<close>

type_synonym u8 = "8 word"
type_synonym u16 = "16 word"
type_synonym u32 = "32 word"
type_synonym u64 = "64 word"

text \<open>
  A C function that returns 0 (or a count) on success and a negative \<open>errno\<close> on failure returns
  an \<open>'a res\<close>: \<open>Inl e\<close> is the return value \<open>-e\<close>.  An outer \<open>option\<close> is used
  where the code can abort: \<open>None\<close> is a failed \<open>assert\<close> or an access outside an array.
\<close>

datatype errno =
    EINVAL | E2BIG | ENOSPC | EPROTO | EBUSY | ENOENT | ENOTSUP | EPERM | EIO | ENOMEM
  | EBADMSG | EMSGSIZE | EBADF | ENOSYS | EAGAIN | ECONNRESET | ETIMEDOUT | ENAMETOOLONG

type_synonym 'a res = "errno + 'a"

text \<open>The conversion \<open>(uint16_t) n\<close> of a size.\<close>

definition to_u16 :: "nat \<Rightarrow> nat" where
  "to_u16 n = n mod 65536"

lemma to_u16_small [simp]: "n < 65536 \<Longrightarrow> to_u16 n = n"
  by (simp add: to_u16_def)

text \<open>An array read; outside the array it is undefined behaviour, \<open>None\<close>.\<close>

definition arr_get :: "'a list \<Rightarrow> nat \<Rightarrow> 'a option" where
  "arr_get xs i = (if i < length xs then Some (xs ! i) else None)"

definition arr_set :: "'a list \<Rightarrow> nat \<Rightarrow> 'a \<Rightarrow> 'a list option" where
  "arr_set xs i v = (if i < length xs then Some (xs[i := v]) else None)"

lemma arr_get_in [simp]: "i < length xs \<Longrightarrow> arr_get xs i = Some (xs ! i)"
  by (simp add: arr_get_def)

lemma arr_set_in [simp]: "i < length xs \<Longrightarrow> arr_set xs i v = Some (xs[i := v])"
  by (simp add: arr_set_def)

lemma list_update_all: "(\<forall>x\<in>set xs. P x) \<Longrightarrow> P y \<Longrightarrow> \<forall>x\<in>set (xs[i := y]). P x"
  using set_update_subset_insert [of xs i y] by blast

lemma xor_cancel: "a XOR k = b XOR k \<longleftrightarrow> a = (b :: 'a::len word)"
  by (metis xor.assoc xor_self_eq xor.right_neutral)

section \<open>Bit strings\<close>

text \<open>
  \<open>word_bits n w\<close> are the low \<open>n\<close> bits of \<open>w\<close>, most significant first, and
  \<open>word_of_bits\<close> reads such a string back. \<open>bits_of\<close> is the bit string held by a byte
  buffer: bit 0 is the most significant bit of byte 0.
\<close>

definition word_bits :: "nat \<Rightarrow> 'a::len word \<Rightarrow> bool list" where
  "word_bits n w = map (\<lambda>i. bit w (n - 1 - i)) [0..<n]"

definition word_of_bits :: "bool list \<Rightarrow> 'a::len word" where
  "word_of_bits = foldl (\<lambda>w b. push_bit 1 w OR of_bool b) 0"

definition byte_bits :: "u8 \<Rightarrow> bool list" where
  "byte_bits = word_bits 8"

definition bits_of :: "u8 list \<Rightarrow> bool list" where
  "bits_of bs = concat (map byte_bits bs)"

definition overwrite :: "'a list \<Rightarrow> nat \<Rightarrow> 'a list \<Rightarrow> 'a list" where
  "overwrite B p xs = take p B @ xs @ drop (p + length xs) B"

lemma length_word_bits [simp]: "length (word_bits n w) = n"
  by (simp add: word_bits_def)

lemma nth_word_bits [simp]: "i < n \<Longrightarrow> word_bits n w ! i = bit w (n - 1 - i)"
  by (simp add: word_bits_def)

lemma word_bits_0 [simp]: "word_bits 0 w = []"
  by (simp add: word_bits_def)

lemma length_bits_of [simp]: "length (bits_of bs) = 8 * length bs"
  by (induction bs) (simp_all add: bits_of_def byte_bits_def)

lemma bits_of_append [simp]: "bits_of (xs @ ys) = bits_of xs @ bits_of ys"
  by (simp add: bits_of_def)

lemma bits_of_Nil [simp]: "bits_of [] = []"
  by (simp add: bits_of_def)

lemma bits_of_Cons: "bits_of (x # xs) = byte_bits x @ bits_of xs"
  by (simp add: bits_of_def)

lemma nth_bits_of [bits_simps]:
  "i < 8 * length bs \<Longrightarrow> bits_of bs ! i = bit (bs ! (i div 8)) (7 - i mod 8)"
proof (induction bs arbitrary: i)
  case Nil
  then show ?case by simp
next
  case (Cons b bs)
  show ?case
  proof (cases "i < 8")
    case True
    then show ?thesis
      by (simp add: bits_of_Cons byte_bits_def nth_append)
  next
    case False
    then have d: "i div 8 = Suc ((i - 8) div 8)" and m: "(i - 8) mod 8 = i mod 8"
      by (simp_all add: le_div_geq le_mod_geq)
    with False Cons show ?thesis
      by (simp add: bits_of_Cons byte_bits_def nth_append)
  qed
qed

lemma word_of_bits_snoc:
  "(word_of_bits (xs @ [b]) :: 'a::len word) = push_bit 1 (word_of_bits xs) OR of_bool b"
  by (simp add: word_of_bits_def)

lemma word_of_bits_Nil [simp]: "word_of_bits [] = 0"
  by (simp add: word_of_bits_def)

lemma bit_word_of_bits [bits_simps]:
  "bit (word_of_bits xs :: 'a::len word) i \<longleftrightarrow>
     i < LENGTH('a) \<and> i < length xs \<and> xs ! (length xs - 1 - i)"
proof (induction xs arbitrary: i rule: rev_induct)
  case Nil
  then show ?case by simp
next
  case (snoc b xs)
  show ?case
  proof (cases i)
    case 0
    then show ?thesis
      by (simp add: word_of_bits_snoc bit_simps nth_append bit_0 even_or_iff)
  next
    case (Suc j)
    then have "bit (word_of_bits (xs @ [b]) :: 'a word) i \<longleftrightarrow>
        Suc j < LENGTH('a) \<and> bit (word_of_bits xs :: 'a word) j"
      by (auto simp: word_of_bits_snoc bit_simps simp del: push_bit_Suc One_nat_def)
    also have "\<dots> \<longleftrightarrow> Suc j < LENGTH('a) \<and> j < length xs \<and> xs ! (length xs - 1 - j)"
      by (auto simp only: snoc)
    finally show ?thesis
      using Suc by (auto simp: nth_append)
  qed
qed

lemma word_of_bits_append:
  "(word_of_bits (xs @ ys) :: 'a::len word) = push_bit (length ys) (word_of_bits xs) OR word_of_bits ys"
  by (rule bit_word_eqI) (auto simp: bit_simps bits_simps nth_append)

lemma word_of_bits_word_bits:
  "(word_of_bits (word_bits n w) :: 'a::len word) = take_bit n (ucast (w :: 'b::len word))"
  by (rule bit_word_eqI) (auto simp: bit_simps bits_simps dest: bit_imp_le_length)

lemma word_bits_word_of_bits:
  "length xs \<le> LENGTH('a) \<Longrightarrow> word_bits (length xs) (word_of_bits xs :: 'a::len word) = xs"
  by (rule nth_equalityI) (auto simp: bits_simps)

lemma word_bits_add: "word_bits (a + b) w = word_bits a (drop_bit b w) @ word_bits b w"
  by (rule nth_equalityI) (auto simp: nth_append bit_simps algebra_simps)

lemma word_bits_and_mask: "word_bits n (w AND mask n) = word_bits n w"
  by (rule nth_equalityI) (auto simp: bit_simps dest: bit_imp_le_length)

lemma word_bits_ucast:
  "n \<le> LENGTH('b) \<Longrightarrow> word_bits n (ucast (w :: 'a::len word) :: 'b::len word) = word_bits n w"
  by (rule nth_equalityI) (auto simp: bit_simps dest: bit_imp_le_length)

lemma length_overwrite [simp]:
  "p + length xs \<le> length B \<Longrightarrow> length (overwrite B p xs) = length B"
  by (simp add: overwrite_def)

lemma nth_overwrite [bits_simps]:
  "p + length xs \<le> length B \<Longrightarrow> i < length B \<Longrightarrow>
   overwrite B p xs ! i = (if p \<le> i \<and> i < p + length xs then xs ! (i - p) else B ! i)"
  by (auto simp: overwrite_def nth_append)

lemma overwrite_Nil [simp]: "overwrite B p [] = B"
  by (simp add: overwrite_def)

lemma overwrite_overwrite:
  "p + length xs + length ys \<le> length B \<Longrightarrow>
   overwrite (overwrite B p xs) (p + length xs) ys = overwrite B p (xs @ ys)"
  by (rule nth_equalityI) (auto simp: bits_simps nth_append)

lemma take_overwrite: "p + length xs \<le> length B \<Longrightarrow>
   take (p + length xs) (overwrite B p xs) = take p B @ xs"
  by (simp add: overwrite_def)

lemma take_drop_overwrite: "p + length xs \<le> length B \<Longrightarrow>
   take (length xs) (drop p (overwrite B p xs)) = xs"
  by (simp add: overwrite_def)

lemma take_drop_eq_nth:
  "p + n \<le> length B \<Longrightarrow> take n (drop p B) = map (\<lambda>i. B ! (p + i)) [0..<n]"
  by (rule nth_equalityI) simp_all

lemma bit_pos_eq: "j = i \<longleftrightarrow> j div 8 = i div 8 \<and> 7 - j mod 8 = 7 - i mod (8 :: nat)"
proof
  assume a: "j div 8 = i div 8 \<and> 7 - j mod 8 = 7 - i mod 8"
  moreover have "j mod 8 < 8" "i mod 8 < 8" by simp_all
  ultimately have "j mod 8 = i mod 8" by linarith
  with a show "j = i" by (metis div_mult_mod_eq)
qed simp

lemma bits_of_zeros: "bits_of (replicate n 0) = replicate (8 * n) False"
proof (induction n)
  case (Suc n)
  have "byte_bits 0 = replicate 8 False" by (simp add: byte_bits_def word_bits_def numeral_eq_Suc)
  then show ?case using Suc by (simp add: bits_of_Cons flip: replicate_add)
qed simp

lemma bits_of_drop: "bits_of (drop n bs) = drop (8 * n) (bits_of bs)"
proof (induction n arbitrary: bs)
  case (Suc n)
  then show ?case by (cases bs) (simp_all add: bits_of_Cons byte_bits_def)
qed simp

section \<open>Scans and slot tables\<close>

text \<open>
  \<open>find_index P xs\<close> is the loop \<open>for (i = 0; i < N; ++i) if (P(xs[i])) return i;\<close> that
  the sources use on every fixed array.
\<close>

fun find_index :: "('a \<Rightarrow> bool) \<Rightarrow> 'a list \<Rightarrow> nat option" where
  "find_index P [] = None"
| "find_index P (x # xs) = (if P x then Some 0 else map_option Suc (find_index P xs))"

lemma find_index_Some_iff:
  "find_index P xs = Some i \<longleftrightarrow> i < length xs \<and> P (xs ! i) \<and> (\<forall>j<i. \<not> P (xs ! j))"
proof (induction xs arbitrary: i)
  case Nil
  then show ?case by simp
next
  case (Cons x xs)
  show ?case
    by (cases i) (auto simp: Cons nth_Cons less_Suc_eq_0_disj)
qed

lemma find_index_None_iff: "find_index P xs = None \<longleftrightarrow> (\<forall>x\<in>set xs. \<not> P x)"
  by (induction xs) auto

lemma find_index_SomeD:
  "find_index P xs = Some i \<Longrightarrow> i < length xs"
  "find_index P xs = Some i \<Longrightarrow> P (xs ! i)"
  by (auto simp: find_index_Some_iff)

definition slot_find :: "('r \<Rightarrow> bool) \<Rightarrow> ('r \<Rightarrow> 'k) \<Rightarrow> 'k \<Rightarrow> 'r list \<Rightarrow> nat option" where
  "slot_find used key k xs = find_index (\<lambda>r. used r \<and> key r = k) xs"

definition slot_free :: "('r \<Rightarrow> bool) \<Rightarrow> 'r list \<Rightarrow> nat option" where
  "slot_free used xs = find_index (\<lambda>r. \<not> used r) xs"

text \<open>At most one slot in use per key.\<close>

definition slot_inv :: "('r \<Rightarrow> bool) \<Rightarrow> ('r \<Rightarrow> 'k) \<Rightarrow> 'r list \<Rightarrow> bool" where
  "slot_inv used key xs \<longleftrightarrow>
     (\<forall>i<length xs. \<forall>j<length xs. used (xs ! i) \<longrightarrow> used (xs ! j) \<longrightarrow>
        key (xs ! i) = key (xs ! j) \<longrightarrow> i = j)"

lemma slot_findD:
  assumes "slot_find used key k xs = Some i"
  shows "i < length xs" "used (xs ! i)" "key (xs ! i) = k"
  using assms by (auto simp: slot_find_def find_index_Some_iff)

lemma slot_freeD:
  assumes "slot_free used xs = Some i"
  shows "i < length xs" "\<not> used (xs ! i)"
  using assms by (auto simp: slot_free_def find_index_Some_iff)

lemma slot_find_NoneD:
  "slot_find used key k xs = None \<Longrightarrow> i < length xs \<Longrightarrow> used (xs ! i) \<Longrightarrow> key (xs ! i) \<noteq> k"
  by (auto simp: slot_find_def find_index_None_iff)

lemma slot_find_unique:
  assumes "slot_inv used key xs" "i < length xs" "used (xs ! i)" "key (xs ! i) = k"
  shows "slot_find used key k xs = Some i"
  using assms unfolding slot_find_def find_index_Some_iff slot_inv_def
  by (metis order.strict_trans nat_neq_iff)

text \<open>Updating a slot without changing its key or its use keeps the table and every lookup.\<close>

lemma slot_inv_update:
  assumes "slot_inv used key xs" "used r \<longrightarrow> used (xs ! i) \<and> key r = key (xs ! i)"
  shows "slot_inv used key (xs[i := r])"
proof (cases "i < length xs")
  case True
  show ?thesis
    unfolding slot_inv_def
  proof (intro allI impI)
    fix a b
    assume "a < length (xs[i := r])" "b < length (xs[i := r])"
      and "used (xs[i := r] ! a)" "used (xs[i := r] ! b)"
      and "key (xs[i := r] ! a) = key (xs[i := r] ! b)"
    moreover have "used (xs ! c) \<and> key (xs[i := r] ! c) = key (xs ! c)"
      if "used (xs[i := r] ! c)" for c
      using that True assms(2) by (cases "c = i") simp_all
    ultimately show "a = b"
      using assms(1) unfolding slot_inv_def by simp
  qed
next
  case False
  with assms(1) show ?thesis
    by (simp add: list_update_beyond)
qed

lemma slot_find_update:
  assumes "i < length xs" "used r \<longleftrightarrow> used (xs ! i)" "used r \<longrightarrow> key r = key (xs ! i)"
  shows "slot_find used key k (xs[i := r]) = slot_find used key k xs"
proof -
  have "find_index P (xs[i := r]) = find_index P xs" if "P r = P (xs ! i)" for P
    using assms(1) that
  proof (induction xs arbitrary: i)
    case (Cons x xs)
    then show ?case by (cases i) auto
  qed simp
  with assms(2,3) show ?thesis
    unfolding slot_find_def by metis
qed

text \<open>
  The slot-table interface: a freshly initialised record is in use and carries the key it was
  allocated for. Every client that allocates through \<open>slot_free\<close> after a failed
  \<open>slot_find\<close> gets a table with unique keys.
\<close>

locale slot_table =
  fixes used :: "'r \<Rightarrow> bool" and key :: "'r \<Rightarrow> 'k" and fresh :: "'k \<Rightarrow> 'r"
  assumes used_fresh: "used (fresh k)" and key_fresh: "key (fresh k) = k"
begin

lemma alloc_inv:
  assumes inv: "slot_inv used key xs" and miss: "slot_find used key k xs = None"
    and free: "slot_free used xs = Some i"
  shows "slot_inv used key (xs[i := fresh k])"
proof -
  have "i < length xs"
    using free by (rule slot_freeD)
  moreover have "key (xs ! j) \<noteq> k" if "j < length xs" "used (xs ! j)" for j
    using slot_find_NoneD [OF miss that] .
  ultimately show ?thesis
    using inv unfolding slot_inv_def
    by (auto simp: nth_list_update used_fresh key_fresh)
qed

lemma alloc_find:
  assumes "slot_inv used key xs" "slot_find used key k xs = None" "slot_free used xs = Some i"
  shows "slot_find used key k (xs[i := fresh k]) = Some i"
proof (rule slot_find_unique)
  show "slot_inv used key (xs[i := fresh k])"
    using assms by (rule alloc_inv)
qed (use slot_freeD [OF assms(3)] in \<open>simp_all add: used_fresh key_fresh\<close>)

lemma alloc_find_other:
  assumes "slot_free used xs = Some i" "k' \<noteq> k"
  shows "slot_find used key k' (xs[i := fresh k]) = slot_find used key k' xs"
proof -
  have "find_index P (xs[i := r]) = find_index P xs"
    if "i < length xs" "\<not> P r" "\<not> P (xs ! i)" for P r
    using that
  proof (induction xs arbitrary: i)
    case (Cons x xs)
    then show ?case by (cases i) auto
  qed simp
  from this [of "\<lambda>r. used r \<and> key r = k'" "fresh k"] slot_freeD [OF assms(1)] assms(2) show ?thesis
    unfolding slot_find_def by (auto simp: key_fresh)
qed

end

section \<open>Bit sinks and bit sources\<close>

text \<open>
  The encoders write a sequence of fields, the decoders read one. \<open>put_fields\<close> and
  \<open>get_fields\<close> run such a sequence over any writer or reader; the locales state what a
  writer and a reader promise, and are interpreted on the \<open>BitBuffer\<close> of the core library, on
  the write cursor of the MM builder and on the read cursor of the MM parser.
\<close>

type_synonym field = "u32 \<times> nat"

fun put_fields :: "('s \<Rightarrow> u32 \<Rightarrow> nat \<Rightarrow> 's option) \<Rightarrow> field list \<Rightarrow> 's \<Rightarrow> 's option" where
  "put_fields put [] s = Some s"
| "put_fields put ((v, n) # fs) s = Option.bind (put s v n) (put_fields put fs)"

fun get_fields ::
  "('s \<Rightarrow> nat \<Rightarrow> (u32 \<times> 's) option) \<Rightarrow> nat list \<Rightarrow> 's \<Rightarrow> (u32 list \<times> 's) option" where
  "get_fields get [] s = Some ([], s)"
| "get_fields get (n # ns) s =
     Option.bind (get s n) (\<lambda>(v, s). Option.bind (get_fields get ns s) (\<lambda>(vs, s). Some (v # vs, s)))"

definition fits :: "nat \<Rightarrow> u32 \<Rightarrow> bool" where
  "fits n v \<longleftrightarrow> 1 \<le> n \<and> n \<le> 32 \<and> take_bit n v = v"

definition fields_ok :: "field list \<Rightarrow> bool" where
  "fields_ok fs \<longleftrightarrow> (\<forall>(v, n) \<in> set fs. fits n v)"

definition field_bits :: "field list \<Rightarrow> bool list" where
  "field_bits fs = concat (map (\<lambda>(v, n). word_bits n v) fs)"

lemma fields_ok_Nil [simp]: "fields_ok []"
  by (simp add: fields_ok_def)

lemma fields_ok_Cons [simp]: "fields_ok ((v, n) # fs) \<longleftrightarrow> fits n v \<and> fields_ok fs"
  by (simp add: fields_ok_def)

lemma fields_ok_append [simp]: "fields_ok (fs @ gs) \<longleftrightarrow> fields_ok fs \<and> fields_ok gs"
  by (auto simp: fields_ok_def)

lemma field_bits_Nil [simp]: "field_bits [] = []"
  by (simp add: field_bits_def)

lemma field_bits_Cons [simp]: "field_bits ((v, n) # fs) = word_bits n v @ field_bits fs"
  by (simp add: field_bits_def)

lemma field_bits_append [simp]: "field_bits (fs @ gs) = field_bits fs @ field_bits gs"
  by (simp add: field_bits_def)

lemma length_field_bits: "length (field_bits fs) = sum_list (map snd fs)"
  by (induction fs) auto

lemma put_fields_append:
  "put_fields put (fs @ gs) s = Option.bind (put_fields put fs s) (put_fields put gs)"
  by (induction fs arbitrary: s) (auto split: bind_splits)

lemma fits_and_mask [simp]: "1 \<le> n \<Longrightarrow> n \<le> 32 \<Longrightarrow> fits n (v AND mask n)"
  by (simp add: fits_def take_bit_take_bit flip: take_bit_eq_mask)

locale bit_sink =
  fixes inv :: "'s \<Rightarrow> bool" and room :: "'s \<Rightarrow> nat" and out :: "'s \<Rightarrow> bool list"
    and put :: "'s \<Rightarrow> u32 \<Rightarrow> nat \<Rightarrow> 's option"
  assumes put_ok: "inv s \<Longrightarrow> fits n v \<Longrightarrow> n \<le> room s \<Longrightarrow>
     \<exists>s'. put s v n = Some s' \<and> inv s' \<and> out s' = out s @ word_bits n v \<and> room s' = room s - n"
begin

lemma put_if_ok:
  assumes "inv s" "fits n v" "(if c then n else 0) \<le> room s"
  shows "\<exists>s'. (if c then put s v n else Some s) = Some s' \<and> inv s'
           \<and> out s' = out s @ (if c then word_bits n v else [])
           \<and> room s' = room s - (if c then n else 0)"
  using assms put_ok [of s n v] by (cases c) auto

lemma put_fields_ok:
  assumes "inv s" "fields_ok fs" "length (field_bits fs) \<le> room s"
  shows "\<exists>s'. put_fields put fs s = Some s' \<and> inv s' \<and> out s' = out s @ field_bits fs
           \<and> room s' = room s - length (field_bits fs)"
  using assms
proof (induction fs arbitrary: s)
  case Nil
  then show ?case by simp
next
  case (Cons f fs)
  obtain v n where f: "f = (v, n)" by (cases f)
  from Cons.prems f have "fits n v" "n \<le> room s" by auto
  then obtain s1 where s1: "put s v n = Some s1" "inv s1" "out s1 = out s @ word_bits n v"
      "room s1 = room s - n"
    using put_ok [OF Cons.prems(1)] by blast
  have "fields_ok fs" "length (field_bits fs) \<le> room s1"
    using Cons.prems f s1(4) by auto
  then obtain s' where "put_fields put fs s1 = Some s'" "inv s'"
      "out s' = out s1 @ field_bits fs" "room s' = room s1 - length (field_bits fs)"
    using Cons.IH [OF s1(2)] by blast
  with s1 f show ?case by auto
qed

end

locale bit_source =
  fixes inv :: "'s \<Rightarrow> bool" and rest :: "'s \<Rightarrow> bool list"
    and get :: "'s \<Rightarrow> nat \<Rightarrow> (u32 \<times> 's) option"
  assumes get_ok: "inv s \<Longrightarrow> 1 \<le> n \<Longrightarrow> n \<le> 32 \<Longrightarrow> n \<le> length (rest s) \<Longrightarrow>
     \<exists>s'. get s n = Some (word_of_bits (take n (rest s)), s') \<and> inv s' \<and> rest s' = drop n (rest s)"
begin

lemma get_field:
  assumes "inv s" "fits n v" "rest s = word_bits n v @ r"
  shows "\<exists>s'. get s n = Some (v, s') \<and> inv s' \<and> rest s' = r"
  using get_ok [OF assms(1), of n] assms(2,3)
  by (auto simp: fits_def word_of_bits_word_bits)

lemma get_fields_ok:
  assumes "inv s" "fields_ok fs" "rest s = field_bits fs @ r"
  shows "\<exists>s'. get_fields get (map snd fs) s = Some (map fst fs, s') \<and> inv s' \<and> rest s' = r"
  using assms
proof (induction fs arbitrary: s)
  case Nil
  then show ?case by simp
next
  case (Cons f fs)
  obtain v n where f: "f = (v, n)" by (cases f)
  with Cons.prems obtain s1 where s1: "get s n = Some (v, s1)" "inv s1" "rest s1 = field_bits fs @ r"
    using get_field [of s n v "field_bits fs @ r"] by auto
  then obtain s' where "get_fields get (map snd fs) s1 = Some (map fst fs, s')" "inv s'" "rest s' = r"
    using Cons.IH [of s1] Cons.prems f by auto
  with s1 f show ?case by auto
qed

end

text \<open>Elimination of a bind on a tuple that returned.\<close>

lemma bind_pairE:
  assumes "Option.bind m (\<lambda>(x, y). f x y) = Some r"
  obtains x y where "m = Some (x, y)" "f x y = Some r"
  using assms by (cases m) auto

lemma bind_tripleE:
  assumes "Option.bind m (\<lambda>(x, y, z). f x y z) = Some r"
  obtains x y z where "m = Some (x, y, z)" "f x y z = Some r"
  using assms by (cases m) auto

end
