(* ===== verification/Core_Types.thy ===== *)
theory Core_Types
  imports Prelude
begin

text \<open>
  The shared types of the daemon (\<open>sw/core/include/tetra/types.h\<close> and
  \<open>sw/core/include/tetra/sap.h\<close>): addresses, SAP identifiers, priorities, the bus envelope
  \<open>SapMsg\<close>, and the request-handle counter of \<open>sw/core/src/msgbus.c\<close>. A C enumeration is
  a datatype with the numeric code of each constructor in \<open>X_code\<close>; the sentinel constructors
  \<open>SapId__Max\<close> and \<open>MsgPrio__Count\<close> stand for every out-of-range value a cast may
  produce.
\<close>

datatype SsiType =
    SsiType_Unknown | SsiType_Ssi | SsiType_Issi | SsiType_Gssi
  | SsiType_Ussi | SsiType_Smi | SsiType_Esi | SsiType_EventLabel

fun SsiType_code :: "SsiType \<Rightarrow> nat" where
  "SsiType_code SsiType_Unknown = 0"
| "SsiType_code SsiType_Ssi = 1"
| "SsiType_code SsiType_Issi = 2"
| "SsiType_code SsiType_Gssi = 3"
| "SsiType_code SsiType_Ussi = 4"
| "SsiType_code SsiType_Smi = 5"
| "SsiType_code SsiType_Esi = 6"
| "SsiType_code SsiType_EventLabel = 7"

text \<open>The enumeration value a stored code stands for.\<close>

definition SsiType_of_code :: "nat \<Rightarrow> SsiType" where
  "SsiType_of_code c =
     (if c = 1 then SsiType_Ssi else if c = 2 then SsiType_Issi
      else if c = 3 then SsiType_Gssi else if c = 4 then SsiType_Ussi
      else if c = 5 then SsiType_Smi else if c = 6 then SsiType_Esi
      else if c = 7 then SsiType_EventLabel else SsiType_Unknown)"

lemma SsiType_of_code_code [simp, codec_simps]: "SsiType_of_code (SsiType_code t) = t"
  by (cases t) (simp_all add: SsiType_of_code_def)

lemma SsiType_code_less: "SsiType_code t < 8"
  by (cases t) simp_all

record TetraAddress =
  ssi :: u32
  ssi_type :: SsiType

definition TETRA_SSI_MASK_24 :: u32 where
  "TETRA_SSI_MASK_24 = 0x00FFFFFF"

type_synonym EndpointId = u32
type_synonym ReqHandle = u32

abbreviation (input) REQ_HANDLE_NONE :: ReqHandle where
  "REQ_HANDLE_NONE \<equiv> 0"

text \<open>
  \<open>req_handle_next\<close> over its static counter: the handle and the counter after the call.
\<close>

definition req_handle_next :: "u32 \<Rightarrow> ReqHandle \<times> u32" where
  "req_handle_next counter =
     (let counter = counter + 1; h = counter
      in if h = REQ_HANDLE_NONE
         then (let counter = counter + 1 in (counter, counter))
         else (h, counter))"

datatype SapId =
    SapId_None | SapId_TpSap | SapId_TmvSap | SapId_TmaSap | SapId_TmdSap
  | SapId_TleSap | SapId_TlmbSap | SapId_TlmcSap | SapId_TnmmSap | SapId__Max

fun SapId_code :: "SapId \<Rightarrow> nat" where
  "SapId_code SapId_None = 0"
| "SapId_code SapId_TpSap = 1"
| "SapId_code SapId_TmvSap = 2"
| "SapId_code SapId_TmaSap = 3"
| "SapId_code SapId_TmdSap = 4"
| "SapId_code SapId_TleSap = 5"
| "SapId_code SapId_TlmbSap = 6"
| "SapId_code SapId_TlmcSap = 7"
| "SapId_code SapId_TnmmSap = 8"
| "SapId_code SapId__Max = 9"

text \<open>\<open>sap_id_is_valid\<close>: routing never accepts \<open>SapId_None\<close> or an out-of-range value.\<close>

definition sap_id_is_valid :: "SapId \<Rightarrow> bool" where
  "sap_id_is_valid i \<longleftrightarrow> SapId_code i > SapId_code SapId_None \<and> SapId_code i < SapId_code SapId__Max"

fun sap_id_name :: "SapId \<Rightarrow> string" where
  "sap_id_name SapId_None = ''None''"
| "sap_id_name SapId_TpSap = ''Tp''"
| "sap_id_name SapId_TmvSap = ''Tmv''"
| "sap_id_name SapId_TmaSap = ''Tma''"
| "sap_id_name SapId_TmdSap = ''Tmd''"
| "sap_id_name SapId_TleSap = ''Tle''"
| "sap_id_name SapId_TlmbSap = ''Tlmb''"
| "sap_id_name SapId_TlmcSap = ''Tlmc''"
| "sap_id_name SapId_TnmmSap = ''Tnmm''"
| "sap_id_name SapId__Max = ''?''"

datatype MsgPriority = MsgPrio_High | MsgPrio_Normal | MsgPrio_Low | MsgPrio__Count

fun MsgPriority_code :: "MsgPriority \<Rightarrow> nat" where
  "MsgPriority_code MsgPrio_High = 0"
| "MsgPriority_code MsgPrio_Normal = 1"
| "MsgPriority_code MsgPrio_Low = 2"
| "MsgPriority_code MsgPrio__Count = 3"

text \<open>The bus envelope; \<open>payload = None\<close> is the NULL pointer.\<close>

record SapMsg =
  src :: SapId
  dest :: SapId
  sap :: SapId
  len :: nat
  payload :: "u8 list option"

definition sapmsg_init ::
  "SapId \<Rightarrow> SapId \<Rightarrow> SapId \<Rightarrow> u8 list option \<Rightarrow> nat \<Rightarrow> SapMsg" where
  "sapmsg_init s d p pl n = \<lparr>src = s, dest = d, sap = p, len = n, payload = pl\<rparr>"

definition sapmsg_init_zero :: "SapId \<Rightarrow> SapId \<Rightarrow> SapId \<Rightarrow> SapMsg" where
  "sapmsg_init_zero s d p = sapmsg_init s d p None 0"

definition SAPMSG_PAYLOAD_BYTE :: "SapMsg \<Rightarrow> nat \<Rightarrow> u8" where
  "SAPMSG_PAYLOAD_BYTE m i =
     (case payload m of None \<Rightarrow> 0 | Some bs \<Rightarrow> if i < len m then bs ! i else 0)"

fun sap_prio_default :: "SapId \<Rightarrow> MsgPriority" where
  "sap_prio_default SapId_TmaSap = MsgPrio_High"
| "sap_prio_default SapId_TlmbSap = MsgPrio_High"
| "sap_prio_default SapId_TnmmSap = MsgPrio_Low"
| "sap_prio_default _ = MsgPrio_Normal"

lemma sap_id_is_valid_simps [simp]:
  "\<not> sap_id_is_valid SapId_None" "\<not> sap_id_is_valid SapId__Max"
  "sap_id_is_valid SapId_TpSap" "sap_id_is_valid SapId_TmvSap" "sap_id_is_valid SapId_TmaSap"
  "sap_id_is_valid SapId_TmdSap" "sap_id_is_valid SapId_TleSap" "sap_id_is_valid SapId_TlmbSap"
  "sap_id_is_valid SapId_TlmcSap" "sap_id_is_valid SapId_TnmmSap"
  by (simp_all add: sap_id_is_valid_def)

subsection \<open>Request handles\<close>

lemma req_handle_next_cases:
  "req_handle_next c = (if c = -1 then (1, 1) else (c + 1, c + 1))"
  by (simp add: req_handle_next_def Let_def eq_neg_iff_add_eq_0)

lemma req_handle_nonzero: "fst (req_handle_next c) \<noteq> REQ_HANDLE_NONE"
  by (simp add: req_handle_next_cases eq_neg_iff_add_eq_0)

text \<open>The handles of \<open>n\<close> consecutive allocations.\<close>

fun req_handles :: "nat \<Rightarrow> u32 \<Rightarrow> ReqHandle list" where
  "req_handles 0 c = []"
| "req_handles (Suc n) c = (let (h, c) = req_handle_next c in h # req_handles n c)"

text \<open>The handle of the \<open>i\<close>th allocation, counted in residues modulo \<open>2^32 - 1\<close>.\<close>

lemma req_handle_unat:
  "unat (snd (req_handle_next c)) = unat c mod (2 ^ 32 - 1) + 1"
proof (cases "c = - 1")
  case True
  have "unat (- 1 :: u32) = 2 ^ 32 - 1"
    by (simp add: unsigned_minus_1_eq_mask mask_eq_exp_minus_1)
  with True show ?thesis by (simp add: req_handle_next_cases)
next
  case False
  then have "1 + c \<noteq> 0"
    by (metis add.commute eq_neg_iff_add_eq_0)
  then have s: "unat (c + 1) = Suc (unat c)"
    by (metis add.commute unatSuc)
  moreover have "unat (c + 1) < 2 ^ 32"
    using unsigned_less [of "c + 1"] by simp
  ultimately have "unat c < 2 ^ 32 - 1"
    by simp
  with False s show ?thesis
    by (simp add: req_handle_next_cases)
qed

lemma req_handle_fst_snd: "fst (req_handle_next c) = snd (req_handle_next c)"
  by (simp add: req_handle_next_cases)

lemma length_req_handles [simp]: "length (req_handles n c) = n"
  by (induction n arbitrary: c) (auto simp: case_prod_beta)

lemma nth_req_handles:
  "i < n \<Longrightarrow> unat (req_handles n c ! i) = (unat c + i) mod (2 ^ 32 - 1) + 1"
proof (induction n arbitrary: c i)
  case 0
  then show ?case by simp
next
  case (Suc n)
  show ?case
  proof (cases i)
    case 0
    then show ?thesis
      by (simp add: case_prod_beta req_handle_fst_snd req_handle_unat)
  next
    case (Suc j)
    with Suc.prems Suc.IH [of j "snd (req_handle_next c)"] show ?thesis
      using mod_add_left_eq [of "unat c" "2 ^ 32 - 1" "Suc j"]
      by (simp add: case_prod_beta req_handle_unat add.commute)
  qed
qed

lemma mod_add_inj_le:
  fixes m :: nat
  assumes "(c + i) mod m = (c + j) mod m" "i \<le> j" "j < m"
  shows "i = j"
proof -
  have "m dvd (c + j) - (c + i)"
    using assms(1,2) mod_eq_dvd_iff_nat [of "c + i" "c + j" m] by simp
  with assms(2,3) show ?thesis
    using nat_dvd_not_less [of "j - i" m] by fastforce
qed

lemma mod_add_inj:
  fixes m :: nat
  assumes "(c + i) mod m = (c + j) mod m" "i < m" "j < m"
  shows "i = j"
  using mod_add_inj_le [of c i m j] mod_add_inj_le [of c j m i] assms by (cases "i \<le> j") auto

lemma distinct_req_handles_lemma:
  assumes "n \<le> 2 ^ 32 - 1"
  shows "distinct (req_handles n c)"
  unfolding distinct_conv_nth
proof (intro allI impI)
  fix i j
  assume "i < length (req_handles n c)" "j < length (req_handles n c)" "i \<noteq> j"
  with assms show "req_handles n c ! i \<noteq> req_handles n c ! j"
    using mod_add_inj [of "unat c" i "2 ^ 32 - 1" j] nth_req_handles [of i n c] nth_req_handles [of j n c]
    by auto
qed

section \<open>Properties\<close>

text \<open>
  C35: \<open>req_handle_next\<close> never hands out the reserved value \<open>REQ_HANDLE_NONE\<close>, and any
  \<open>2^32 - 1\<close> consecutive calls, whatever the counter starts from and including those that
  wrap, hand out pairwise distinct handles.
\<close>

theorem req_handles_unique:
  assumes "n \<le> 2 ^ 32 - 1"
  shows "distinct (req_handles n c) \<and> REQ_HANDLE_NONE \<notin> set (req_handles n c)"
proof -
  have "REQ_HANDLE_NONE \<notin> set (req_handles n c)"
    by (induction n arbitrary: c) (auto simp: req_handle_next_cases add_eq_0_iff2 dest: sym)
  with distinct_req_handles_lemma [OF assms] show ?thesis by simp
qed

theorem req_handles_unique_witness:
  "distinct (req_handles 3 (- 2)) \<and> REQ_HANDLE_NONE \<notin> set (req_handles 3 (- 2))"
  by (rule req_handles_unique) simp

end
