(* ===== verification/BitBuffer.thy ===== *)
theory BitBuffer
  imports Core_Types
begin

text \<open>
  The bit cursor of \<open>sw/core/src/bitbuffer.c\<close>. A \<open>BitBuffer\<close> carries the byte array it
  wraps, and every operation returns the buffer it leaves behind. \<open>None\<close> is a failed
  \<open>assert\<close> or an access outside the byte array. The optimised head / whole bytes / tail
  routines are shown equal to plain reading and overwriting of the bit string of the array, and
  the cursor is interpreted as a \<open>bit_sink\<close> and a \<open>bit_source\<close>.
\<close>

record BitBuffer =
  buffer :: "u8 list"
  cap_bits :: nat
  start :: nat
  pos :: nat
  end_bits :: nat
  autoexpand :: bool

section \<open>Raw access at an absolute bit position\<close>

text \<open>The three stages of \<open>bb_read_at\<close>: result so far, cursor, bits remaining.\<close>

definition read_head :: "u8 list \<Rightarrow> nat \<Rightarrow> nat \<Rightarrow> (u32 \<times> nat \<times> nat) option" where
  "read_head B cur bits_remaining =
     (let head = cur mod 8 in
      if head \<noteq> 0 \<and> bits_remaining > 0 then
        let take = (if 8 - head < bits_remaining then 8 - head else bits_remaining);
            shift = 8 - head - take
        in do {
          byte \<leftarrow> arr_get B (cur div 8);
          Some (ucast (drop_bit shift byte AND mask take), cur + take, bits_remaining - take)
        }
      else Some (0, cur, bits_remaining))"

fun read_whole :: "u8 list \<Rightarrow> u32 \<Rightarrow> nat \<Rightarrow> nat \<Rightarrow> (u32 \<times> nat \<times> nat) option" where
  "read_whole B result cur bits_remaining =
     (if bits_remaining \<ge> 8 then do {
        byte \<leftarrow> arr_get B (cur div 8);
        read_whole B (push_bit 8 result OR ucast byte) (cur + 8) (bits_remaining - 8)
      } else Some (result, cur, bits_remaining))"

definition read_tail :: "u8 list \<Rightarrow> u32 \<Rightarrow> nat \<Rightarrow> nat \<Rightarrow> u32 option" where
  "read_tail B result cur bits_remaining =
     (if bits_remaining > 0 then do {
        byte \<leftarrow> arr_get B (cur div 8);
        let shift = 8 - bits_remaining;
        Some (push_bit bits_remaining result OR ucast (drop_bit shift byte AND mask bits_remaining))
      } else Some result)"

definition bb_read_at :: "BitBuffer \<Rightarrow> nat \<Rightarrow> nat \<Rightarrow> u32 option" where
  "bb_read_at bb bit_pos n = do {
     (result, cur, bits_remaining) \<leftarrow> read_head (buffer bb) bit_pos n;
     (result, cur, bits_remaining) \<leftarrow> read_whole (buffer bb) result cur bits_remaining;
     read_tail (buffer bb) result cur bits_remaining
   }"

text \<open>The three stages of \<open>bb_write_at\<close>: array, cursor, bits remaining.\<close>

definition store_masked :: "u8 list \<Rightarrow> nat \<Rightarrow> u8 \<Rightarrow> u8 \<Rightarrow> u8 list option" where
  "store_masked B i m bits = do {
     p \<leftarrow> arr_get B i;
     arr_set B i ((p AND NOT m) OR bits)
   }"

definition write_head :: "u8 list \<Rightarrow> nat \<Rightarrow> u32 \<Rightarrow> nat \<Rightarrow> (u8 list \<times> nat \<times> nat) option" where
  "write_head B cur v bits_remaining =
     (let head = cur mod 8 in
      if head \<noteq> 0 \<and> bits_remaining > 0 then
        let take = (if 8 - head < bits_remaining then 8 - head else bits_remaining);
            shift = 8 - head - take;
            m = ucast (push_bit shift (mask take :: u32));
            bits = ucast (push_bit shift (drop_bit (bits_remaining - take) v AND mask take))
        in do {
          B \<leftarrow> store_masked B (cur div 8) m bits;
          Some (B, cur + take, bits_remaining - take)
        }
      else Some (B, cur, bits_remaining))"

fun write_whole :: "u8 list \<Rightarrow> nat \<Rightarrow> u32 \<Rightarrow> nat \<Rightarrow> (u8 list \<times> nat \<times> nat) option" where
  "write_whole B cur v bits_remaining =
     (if bits_remaining \<ge> 8 then do {
        B \<leftarrow> arr_set B (cur div 8) (ucast (drop_bit (bits_remaining - 8) v AND 0xFF));
        write_whole B (cur + 8) v (bits_remaining - 8)
      } else Some (B, cur, bits_remaining))"

definition write_tail :: "u8 list \<Rightarrow> nat \<Rightarrow> u32 \<Rightarrow> nat \<Rightarrow> u8 list option" where
  "write_tail B cur v bits_remaining =
     (if bits_remaining > 0 then
        let shift = 8 - bits_remaining;
            m = ucast (push_bit shift (mask bits_remaining :: u32));
            bits = ucast (push_bit shift (v AND mask bits_remaining))
        in store_masked B (cur div 8) m bits
      else Some B)"

definition bb_write_at :: "BitBuffer \<Rightarrow> nat \<Rightarrow> u32 \<Rightarrow> nat \<Rightarrow> BitBuffer option" where
  "bb_write_at bb bit_pos v n =
     (let v_masked = (if n = 32 then v else v AND mask n) in do {
        (B, cur, bits_remaining) \<leftarrow> write_head (buffer bb) bit_pos v_masked n;
        (B, cur, bits_remaining) \<leftarrow> write_whole B cur v_masked bits_remaining;
        B \<leftarrow> write_tail B cur v_masked bits_remaining;
        Some (bb\<lparr>buffer := B\<rparr>)
      })"

section \<open>Public interface\<close>

definition bb_init :: "u8 list \<Rightarrow> nat \<Rightarrow> BitBuffer" where
  "bb_init buf len_bits =
     \<lparr>buffer = buf, cap_bits = len_bits, start = 0, pos = 0, end_bits = len_bits, autoexpand = False\<rparr>"

definition bb_init_autoexpand :: "u8 list \<Rightarrow> nat \<Rightarrow> BitBuffer" where
  "bb_init_autoexpand buf cap =
     \<lparr>buffer = buf, cap_bits = cap, start = 0, pos = 0, end_bits = 0, autoexpand = True\<rparr>"

definition bb_set_autoexpand :: "BitBuffer \<Rightarrow> bool \<Rightarrow> BitBuffer" where
  "bb_set_autoexpand bb enable = bb\<lparr>autoexpand := enable\<rparr>"

definition bb_put_bits :: "BitBuffer \<Rightarrow> u32 \<Rightarrow> nat \<Rightarrow> BitBuffer option" where
  "bb_put_bits bb v n =
     (if \<not> (n \<ge> 1 \<and> n \<le> 32) then None
      else if n < 32 \<and> drop_bit n v \<noteq> 0 then None
      else
        let need_end = pos bb + n in do {
          bb \<leftarrow> (if need_end > end_bits bb then
                    if autoexpand bb then
                      if need_end \<le> cap_bits bb then Some (bb\<lparr>end_bits := need_end\<rparr>) else None
                    else None
                  else Some bb);
          bb \<leftarrow> bb_write_at bb (pos bb) v n;
          Some (bb\<lparr>pos := pos bb + n\<rparr>)
        })"

definition bb_get_bits :: "BitBuffer \<Rightarrow> nat \<Rightarrow> (u32 \<times> BitBuffer) option" where
  "bb_get_bits bb n =
     (if \<not> (n \<ge> 1 \<and> n \<le> 32) then None
      else if pos bb + n > end_bits bb then Some (0, bb)
      else do {
        v \<leftarrow> bb_read_at bb (pos bb) n;
        Some (v, bb\<lparr>pos := pos bb + n\<rparr>)
      })"

definition bb_pos_bits :: "BitBuffer \<Rightarrow> nat" where
  "bb_pos_bits bb = pos bb - start bb"

definition bb_seek_bits :: "BitBuffer \<Rightarrow> nat \<Rightarrow> BitBuffer option" where
  "bb_seek_bits bb p =
     (let a = start bb + p in if a \<le> end_bits bb then Some (bb\<lparr>pos := a\<rparr>) else None)"

definition bb_remaining :: "BitBuffer \<Rightarrow> nat" where
  "bb_remaining bb = end_bits bb - pos bb"

definition bb_len_bits :: "BitBuffer \<Rightarrow> nat" where
  "bb_len_bits bb = end_bits bb - start bb"

declare read_whole.simps [simp del] write_whole.simps [simp del]

section \<open>Reading is slicing the bit string\<close>

text \<open>One byte's worth of a read: at most the bits left in the byte under the cursor.\<close>

lemma div_mod_within_byte:
  fixes c x :: nat
  assumes "c mod 8 + x < 8"
  shows "(c + x) div 8 = c div 8" "(c + x) mod 8 = c mod 8 + x"
proof -
  have e: "c + x = (c mod 8 + x) + 8 * (c div 8)"
    by (simp add: mod_mult_div_eq)
  show "(c + x) div 8 = c div 8"
    unfolding e div_mult_self2 [OF zero_neq_numeral [symmetric]] using assms by simp
  show "(c + x) mod 8 = c mod 8 + x"
    unfolding e mod_mult_self2 using assms by simp
qed

lemma mod_align: "(c + (8 - c mod 8)) mod 8 = (0 :: nat)"
  by presburger

lemma u8_and_mask [simp]: "(x :: u8) AND mask 8 = x"
  by (rule bit_word_eqI) (simp add: bit_simps)

lemma read_chunk:
  assumes "t \<le> 8 - cur mod 8" "cur + t \<le> 8 * length B"
  shows "ucast (drop_bit (8 - cur mod 8 - t) (B ! (cur div 8)) AND mask t :: u8)
           = (word_of_bits (take t (drop cur (bits_of B))) :: u32)"
proof (rule bit_word_eqI)
  fix n
  assume n: "n < LENGTH(32)"
  show "bit (ucast (drop_bit (8 - cur mod 8 - t) (B ! (cur div 8)) AND mask t :: u8) :: u32) n =
        bit (word_of_bits (take t (drop cur (bits_of B))) :: u32) n"
  proof (cases "n < t")
    case True
    have "cur mod 8 + (t - 1 - n) < 8"
      using True assms(1) by linarith
    note d = div_mod_within_byte [OF this]
    have "take t (drop cur (bits_of B)) ! (t - 1 - n) = bits_of B ! (cur + (t - 1 - n))"
      using True assms(2) by simp
    also have "\<dots> = bit (B ! (cur div 8)) (7 - (cur mod 8 + (t - 1 - n)))"
      using True assms(2) by (subst nth_bits_of) (linarith, simp only: d)
    also have "7 - (cur mod 8 + (t - 1 - n)) = 8 - cur mod 8 - t + n"
      using True assms(1) by linarith
    finally have e: "take t (drop cur (bits_of B)) ! (t - 1 - n) =
        bit (B ! (cur div 8)) (8 - cur mod 8 - t + n)" .
    have "length (take t (drop cur (bits_of B))) = t"
      using assms(2) by simp
    moreover have "t \<le> 8"
      using assms(1) by simp
    ultimately show ?thesis
      using e True n unfolding bit_word_of_bits by (auto simp: bit_simps add.commute)
  next
    case False
    then show ?thesis
      using assms by (auto simp: bit_simps bits_simps)
  qed
qed

lemma take_drop_split:
  "a + b \<le> length (drop cur X) \<Longrightarrow> take (a + b) (drop cur X) = take a (drop cur X) @ take b (drop (cur + a) X)"
  by (simp add: take_add add.commute)

lemma word_of_bits_snoc_chunk:
  assumes "a + b \<le> length (drop cur X)" "b > 0"
  shows "push_bit b (word_of_bits (take a (drop cur X))) OR word_of_bits (take b (drop (cur + a) X))
          = (word_of_bits (take (a + b) (drop cur X)) :: u32)"
proof -
  have "length (take b (drop (cur + a) X)) = b"
    using assms by simp
  then show ?thesis
    using take_drop_split [OF assms(1)] by (simp add: word_of_bits_append)
qed

lemma read_head_correct:
  assumes "cur + n \<le> 8 * length B"
  shows "\<exists>a. a \<le> n \<and> (n - a > 0 \<longrightarrow> (cur + a) mod 8 = 0) \<and>
     read_head B cur n = Some (word_of_bits (take a (drop cur (bits_of B))), cur + a, n - a)"
proof (cases "cur mod 8 \<noteq> 0 \<and> n > 0")
  case True
  define a where "a = (if 8 - cur mod 8 < n then 8 - cur mod 8 else n)"
  have a: "a \<le> n" "a \<le> 8 - cur mod 8" "cur + a \<le> 8 * length B" "cur div 8 < length B"
    using True assms by (auto simp: a_def)
  have "(cur + a) mod 8 = 0" if "n - a > 0"
  proof -
    from that have "a = 8 - cur mod 8"
      by (simp add: a_def split: if_splits)
    then show ?thesis
      by (simp only: mod_align)
  qed
  moreover have "read_head B cur n = Some (word_of_bits (take a (drop cur (bits_of B))), cur + a, n - a)"
  proof -
    have "read_head B cur n
        = Some (ucast (drop_bit (8 - cur mod 8 - a) (B ! (cur div 8)) AND mask a), cur + a, n - a)"
      using True a(4) unfolding read_head_def Let_def a_def by simp
    then show ?thesis
      by (simp only: read_chunk [OF a(2,3)])
  qed
  ultimately show ?thesis
    using a(1) by (intro exI [of _ a]) simp
next
  case False
  then show ?thesis
    by (intro exI [of _ 0]) (auto simp: read_head_def)
qed

lemma read_whole_correct:
  assumes "a + n \<le> 8 * length B - cur" "n > 0 \<longrightarrow> (cur + a) mod 8 = 0" "cur \<le> 8 * length B"
  shows "\<exists>b. b \<le> n \<and> n - b < 8 \<and> (n - b > 0 \<longrightarrow> (cur + a + b) mod 8 = 0) \<and>
     read_whole B (word_of_bits (take a (drop cur (bits_of B)))) (cur + a) n
       = Some (word_of_bits (take (a + b) (drop cur (bits_of B))), cur + a + b, n - b)"
  using assms
proof (induction n arbitrary: a rule: less_induct)
  case (less n)
  show ?case
  proof (cases "n \<ge> 8")
    case True
    have m: "(cur + a) mod 8 = 0" and "(cur + a) div 8 < length B" and l: "cur + a + 8 \<le> 8 * length B"
      using True less.prems by auto
    have m': "(cur + (a + 8)) mod 8 = 0"
      using m by (simp only: add.assoc [symmetric] mod_add_self2)
    have l': "a + 8 + (n - 8) \<le> 8 * length B - cur"
      using True less.prems(1) by simp
    have "ucast (B ! ((cur + a) div 8)) = (word_of_bits (take 8 (drop (cur + a) (bits_of B))) :: u32)"
      using read_chunk [of 8 "cur + a" B] m l by simp
    then have "push_bit 8 (word_of_bits (take a (drop cur (bits_of B)))) OR ucast (B ! ((cur + a) div 8))
        = (word_of_bits (take (a + 8) (drop cur (bits_of B))) :: u32)"
      using word_of_bits_snoc_chunk [of a 8 cur "bits_of B"] True less.prems(1) by simp
    moreover obtain b where b: "b \<le> n - 8" "n - 8 - b < 8" "n - 8 - b > 0 \<longrightarrow> (cur + (a + 8) + b) mod 8 = 0"
        "read_whole B (word_of_bits (take (a + 8) (drop cur (bits_of B)))) (cur + (a + 8)) (n - 8)
          = Some (word_of_bits (take (a + 8 + b) (drop cur (bits_of B))), cur + (a + 8) + b, n - 8 - b)"
      using less.IH [of "n - 8" "a + 8"] True l' m' less.prems(3) by auto
    ultimately have "read_whole B (word_of_bits (take a (drop cur (bits_of B)))) (cur + a) n
        = Some (word_of_bits (take (a + (8 + b)) (drop cur (bits_of B))), cur + a + (8 + b), n - (8 + b))"
      using True \<open>(cur + a) div 8 < length B\<close>
      by (simp add: read_whole.simps [of B _ "cur + a"] add.assoc)
    moreover have "cur + a + (8 + b) = cur + (a + 8) + b"
      by simp
    ultimately show ?thesis
      using True b(1-3) by (intro exI [of _ "8 + b"]) (simp only:, simp)
  next
    case False
    with less.prems show ?thesis
      by (intro exI [of _ 0]) (simp add: read_whole.simps)
  qed
qed

lemma read_tail_correct:
  assumes "a + n \<le> 8 * length B - cur" "n < 8" "n > 0 \<longrightarrow> (cur + a) mod 8 = 0" "cur \<le> 8 * length B"
  shows "read_tail B (word_of_bits (take a (drop cur (bits_of B)))) (cur + a) n
           = Some (word_of_bits (take (a + n) (drop cur (bits_of B))))"
proof (cases "n > 0")
  case True
  then have m: "(cur + a) mod 8 = 0" and "(cur + a) div 8 < length B"
    using assms by auto
  moreover have "ucast (drop_bit (8 - n) (B ! ((cur + a) div 8)) AND mask n :: u8)
      = (word_of_bits (take n (drop (cur + a) (bits_of B))) :: u32)"
    using read_chunk [of n "cur + a" B] m assms by simp
  ultimately show ?thesis
    using True word_of_bits_snoc_chunk [of a n cur "bits_of B"] assms
    by (simp add: read_tail_def)
qed (simp add: read_tail_def)

text \<open>The value read is the slice of the bit string: no access leaves the array.\<close>

lemma bb_read_at_correct:
  assumes "p + n \<le> 8 * length (buffer bb)"
  shows "bb_read_at bb p n = Some (word_of_bits (take n (drop p (bits_of (buffer bb)))))"
proof -
  let ?B = "buffer bb"
  obtain a where a: "a \<le> n" "n - a > 0 \<longrightarrow> (p + a) mod 8 = 0"
    "read_head ?B p n = Some (word_of_bits (take a (drop p (bits_of ?B))), p + a, n - a)"
    using read_head_correct [OF assms] by (elim exE conjE)
  obtain b where b: "b \<le> n - a" "n - a - b < 8" "n - a - b > 0 \<longrightarrow> (p + a + b) mod 8 = 0"
    "read_whole ?B (word_of_bits (take a (drop p (bits_of ?B)))) (p + a) (n - a)
       = Some (word_of_bits (take (a + b) (drop p (bits_of ?B))), p + a + b, n - a - b)"
  proof -
    have "a + (n - a) \<le> 8 * length ?B - p" "p \<le> 8 * length ?B"
      using a(1) assms by simp_all
    from read_whole_correct [OF this(1) a(2) this(2)] that show ?thesis
      by (elim exE conjE)
  qed
  have "read_tail ?B (word_of_bits (take (a + b) (drop p (bits_of ?B)))) (p + a + b) (n - a - b)
      = Some (word_of_bits (take n (drop p (bits_of ?B))))"
    using read_tail_correct [of "a + b" "n - a - b" ?B p] a(1) b(1-3) assms
    by (simp only: add.assoc) simp
  then show ?thesis
    by (simp add: bb_read_at_def a(3) b(4))
qed

section \<open>Writing is overwriting the bit string\<close>

lemma bits_of_update_byte:
  assumes "t \<le> 8 - cur mod 8" "cur + t \<le> 8 * length B" "t > 0"
    and new: "\<And>j. j < 8 \<Longrightarrow> bit w (7 - j) =
        (if cur mod 8 \<le> j \<and> j < cur mod 8 + t then xs ! (j - cur mod 8) else bit (B ! (cur div 8)) (7 - j))"
    and "length xs = t"
  shows "bits_of (B[cur div 8 := w]) = overwrite (bits_of B) cur xs"
proof (rule nth_equalityI)
  show "length (bits_of (B[cur div 8 := w])) = length (overwrite (bits_of B) cur xs)"
    using assms by simp
next
  fix i
  assume "i < length (bits_of (B[cur div 8 := w]))"
  then have i: "i < 8 * length B" by simp
  then have idx: "i div 8 < length B" by auto
  have split: "i = 8 * (i div 8) + i mod 8" "cur = 8 * (cur div 8) + cur mod 8"
    by simp_all
  have ov: "overwrite (bits_of B) cur xs ! i =
      (if cur \<le> i \<and> i < cur + t then xs ! (i - cur) else bit (B ! (i div 8)) (7 - i mod 8))"
    using assms(2,5) i by (simp add: nth_overwrite nth_bits_of)
  have lhs: "bits_of (B[cur div 8 := w]) ! i = bit (B[cur div 8 := w] ! (i div 8)) (7 - i mod 8)"
    using i by (simp add: nth_bits_of)
  show "bits_of (B[cur div 8 := w]) ! i = overwrite (bits_of B) cur xs ! i"
  proof (cases "i div 8 = cur div 8")
    case True
    have "cur \<le> i \<longleftrightarrow> cur mod 8 \<le> i mod 8" "i < cur + t \<longleftrightarrow> i mod 8 < cur mod 8 + t"
        "i - cur = i mod 8 - cur mod 8"
      using split True by linarith+
    moreover have "bit w (7 - i mod 8) =
        (if cur mod 8 \<le> i mod 8 \<and> i mod 8 < cur mod 8 + t then xs ! (i mod 8 - cur mod 8)
         else bit (B ! (cur div 8)) (7 - i mod 8))"
      by (rule new) simp
    ultimately show ?thesis
      using True idx unfolding lhs ov by simp
  next
    case False
    have "i mod 8 < 8" "cur mod 8 < 8"
      by simp_all
    then have "\<not> (cur \<le> i \<and> i < cur + t)"
      using split False assms(1) by linarith
    then show ?thesis
      unfolding lhs ov nth_list_update_neq [OF False [symmetric]] by (simp only: if_False)
  qed
qed

text \<open>One byte's worth of a write: the masked store of the top \<open>t\<close> of the remaining bits.\<close>

lemma chunk_positions:
  fixes c t j :: nat
  assumes "t \<le> 8 - c" "c \<le> j" "j < c + t"
  shows "8 - c - t \<le> 7 - j \<and> 7 - j < 8 - c - t + t" "7 - j - (8 - c - t) = t - 1 - (j - c)" "j - c < t"
  using assms by linarith+

lemma store_chunk:
  assumes "t \<le> 8 - cur mod 8" "cur + t \<le> 8 * length B" "t > 0" "t \<le> n"
  shows "\<exists>B'. store_masked B (cur div 8) (ucast (push_bit (8 - cur mod 8 - t) (mask t :: u32)))
              (ucast (push_bit (8 - cur mod 8 - t) (drop_bit (n - t) v AND mask t :: u32))) = Some B'
           \<and> length B' = length B
           \<and> bits_of B' = overwrite (bits_of B) cur (word_bits t (drop_bit (n - t) v))"
proof -
  let ?s = "8 - cur mod 8 - t" and ?old = "B ! (cur div 8)"
  define w :: u8 where "w = (?old AND NOT (ucast (push_bit ?s (mask t :: u32))))
      OR ucast (push_bit ?s (drop_bit (n - t) v AND mask t))"
  have idx: "cur div 8 < length B"
    using assms(2,3) by auto
  have bitw: "bit w k = (if ?s \<le> k \<and> k < ?s + t then bit v (n - t + (k - ?s)) else bit ?old k)"
    if "k < 8" for k
    using that assms(1) by (auto simp: w_def bit_simps)
  have "bit w (7 - j) = (if cur mod 8 \<le> j \<and> j < cur mod 8 + t
      then word_bits t (drop_bit (n - t) v) ! (j - cur mod 8) else bit ?old (7 - j))" if j: "j < 8" for j
  proof (cases "cur mod 8 \<le> j \<and> j < cur mod 8 + t")
    case True
    then have "cur mod 8 \<le> j" "j < cur mod 8 + t"
      by simp_all
    note r = chunk_positions(1) [OF assms(1) this] and e = chunk_positions(2) [OF assms(1) this]
      and l = chunk_positions(3) [OF assms(1) this]
    have "bit w (7 - j) = bit v (n - t + (t - 1 - (j - cur mod 8)))"
      using bitw [of "7 - j"] r by (simp only: e if_True) simp
    also have "\<dots> = word_bits t (drop_bit (n - t) v) ! (j - cur mod 8)"
      unfolding nth_word_bits [OF l] by (simp only: bit_drop_bit_eq comp_def)
    finally show ?thesis
      using True by (simp only: if_True simp_thms)
  next
    case False
    then have "\<not> (?s \<le> 7 - j \<and> 7 - j < ?s + t)"
      using assms(1,3) j by linarith
    then show ?thesis
      using False by (subst bitw) (simp, simp only: if_False)
  qed
  from bits_of_update_byte [OF assms(1-3) this]
  have "bits_of (B[cur div 8 := w]) = overwrite (bits_of B) cur (word_bits t (drop_bit (n - t) v))"
    by simp
  with idx show ?thesis
    by (auto simp: store_masked_def w_def)
qed

lemma write_head_correct:
  assumes "cur + n \<le> 8 * length B"
  shows "\<exists>a B'. a \<le> n \<and> (n - a > 0 \<longrightarrow> (cur + a) mod 8 = 0) \<and> length B' = length B \<and>
     write_head B cur v n = Some (B', cur + a, n - a) \<and>
     bits_of B' = overwrite (bits_of B) cur (word_bits a (drop_bit (n - a) v))"
proof (cases "cur mod 8 \<noteq> 0 \<and> n > 0")
  case True
  define a where "a = (if 8 - cur mod 8 < n then 8 - cur mod 8 else n)"
  have a: "a \<le> 8 - cur mod 8" "cur + a \<le> 8 * length B" "a > 0" "a \<le> n"
    using True assms by (auto simp: a_def)
  obtain B' where B': "store_masked B (cur div 8) (ucast (push_bit (8 - cur mod 8 - a) (mask a :: u32)))
        (ucast (push_bit (8 - cur mod 8 - a) (drop_bit (n - a) v AND mask a))) = Some B'"
      "length B' = length B" "bits_of B' = overwrite (bits_of B) cur (word_bits a (drop_bit (n - a) v))"
    using store_chunk [OF a, of v] by (elim exE conjE)
  have "(cur + a) mod 8 = 0" if "n - a > 0"
  proof -
    from that have "a = 8 - cur mod 8"
      by (simp add: a_def split: if_splits)
    then show ?thesis
      by (simp only: mod_align)
  qed
  moreover have "write_head B cur v n = Some (B', cur + a, n - a)"
    using True B'(1) unfolding write_head_def Let_def a_def by simp
  ultimately show ?thesis
    using a(4) B'(2,3) by (intro exI [of _ a] exI [of _ B']) simp
next
  case False
  then show ?thesis
    by (intro exI [of _ 0] exI [of _ B]) (auto simp: write_head_def)
qed

lemma write_whole_correct:
  assumes "cur + n \<le> 8 * length B" "n > 0 \<longrightarrow> cur mod 8 = 0"
  shows "\<exists>b B'. b \<le> n \<and> n - b < 8 \<and> (n - b > 0 \<longrightarrow> (cur + b) mod 8 = 0) \<and> length B' = length B \<and>
     write_whole B cur v n = Some (B', cur + b, n - b) \<and>
     bits_of B' = overwrite (bits_of B) cur (word_bits b (drop_bit (n - b) v))"
  using assms
proof (induction n arbitrary: B cur rule: less_induct)
  case (less n)
  show ?case
  proof (cases "n \<ge> 8")
    case False
    with less.prems show ?thesis
      by (intro exI [of _ 0] exI [of _ B]) (simp add: write_whole.simps)
  next
    case True
    let ?w = "ucast (drop_bit (n - 8) v AND 0xFF) :: u8"
    let ?B1 = "B[cur div 8 := ?w]"
    have m: "cur mod 8 = 0" and l: "cur + 8 \<le> 8 * length B" and idx: "cur div 8 < length B"
      using True less.prems by auto
    have ff: "(0xFF :: u32) = mask 8"
      by (simp add: mask_eq_exp_minus_1)
    have "bit ?w (7 - j) = word_bits 8 (drop_bit (n - 8) v) ! j" if "j < 8" for j
      using that unfolding ff by (auto simp: bit_simps)
    then have B1: "bits_of ?B1 = overwrite (bits_of B) cur (word_bits 8 (drop_bit (n - 8) v))"
      using bits_of_update_byte [of 8 cur B ?w "word_bits 8 (drop_bit (n - 8) v)"] m l by simp
    have "cur + 8 + (n - 8) \<le> 8 * length ?B1" "(cur + 8) mod 8 = 0" "n - 8 < n"
      using True less.prems m by simp_all
    then obtain b B' where b: "b \<le> n - 8" "n - 8 - b < 8" "n - 8 - b > 0 \<longrightarrow> (cur + 8 + b) mod 8 = 0"
        "length B' = length ?B1" "write_whole ?B1 (cur + 8) v (n - 8) = Some (B', cur + 8 + b, n - 8 - b)"
        "bits_of B' = overwrite (bits_of ?B1) (cur + 8) (word_bits b (drop_bit (n - 8 - b) v))"
      using less.IH [of "n - 8" "cur + 8" ?B1] by auto
    have e: "word_bits (8 + b) (drop_bit (n - (8 + b)) v) =
        word_bits 8 (drop_bit (n - 8) v) @ word_bits b (drop_bit (n - (8 + b)) v)"
      using b(1) True word_bits_add [of 8 b "drop_bit (n - (8 + b)) v"] by (simp add: drop_bit_drop_bit)
    have "overwrite (overwrite (bits_of B) cur (word_bits 8 (drop_bit (n - 8) v))) (cur + 8)
        (word_bits b (drop_bit (n - 8 - b) v)) = overwrite (bits_of B) cur (word_bits (8 + b) (drop_bit (n - (8 + b)) v))"
      using overwrite_overwrite [of cur "word_bits 8 (drop_bit (n - 8) v)"
          "word_bits b (drop_bit (n - 8 - b) v)" "bits_of B"] b(1) True less.prems(1)
      unfolding e by simp
    then have "bits_of B' = overwrite (bits_of B) cur (word_bits (8 + b) (drop_bit (n - (8 + b)) v))"
      using b(6) B1 by simp
    moreover have "write_whole B cur v n = Some (B', cur + (8 + b), n - (8 + b))"
      using True idx b(5) by (simp add: write_whole.simps [of B])
    moreover have "n - (8 + b) > 0 \<longrightarrow> (cur + (8 + b)) mod 8 = 0"
      using b(3) by (simp only: add.assoc diff_diff_left)
    ultimately show ?thesis
      using True b(1,2,4) by (intro exI [of _ "8 + b"] exI [of _ B'] conjI) simp_all
  qed
qed

lemma write_tail_correct:
  assumes "cur + n \<le> 8 * length B" "n < 8" "n > 0 \<longrightarrow> cur mod 8 = 0"
  shows "\<exists>B'. write_tail B cur v n = Some B' \<and> length B' = length B \<and>
     bits_of B' = overwrite (bits_of B) cur (word_bits n v)"
proof (cases "n > 0")
  case True
  then show ?thesis
    using store_chunk [of n cur B n v] assms by (simp add: write_tail_def Let_def)
qed (simp add: write_tail_def)

text \<open>The three stages together write exactly the \<open>n\<close> bits of \<open>v\<close> at \<open>p\<close>.\<close>

lemma bb_write_at_correct:
  assumes "p + n \<le> 8 * length (buffer bb)" "n \<le> 32"
  shows "\<exists>B'. bb_write_at bb p v n = Some (bb\<lparr>buffer := B'\<rparr>) \<and> length B' = length (buffer bb) \<and>
     bits_of B' = overwrite (bits_of (buffer bb)) p (word_bits n v)"
proof -
  define u where "u = (if n = 32 then v else v AND mask n)"
  have u: "word_bits n u = word_bits n v"
    by (simp add: u_def word_bits_and_mask)
  let ?B = "buffer bb"
  obtain a B1 where a: "a \<le> n" "n - a > 0 \<longrightarrow> (p + a) mod 8 = 0" "length B1 = length ?B"
      "write_head ?B p u n = Some (B1, p + a, n - a)"
      "bits_of B1 = overwrite (bits_of ?B) p (word_bits a (drop_bit (n - a) u))"
    using write_head_correct [OF assms(1), of u] by (elim exE conjE)
  have "p + a + (n - a) \<le> 8 * length B1"
    using a(1,3) assms(1) by simp
  from write_whole_correct [OF this a(2), of u]
  obtain b B2 where b: "b \<le> n - a" "n - a - b < 8" "n - a - b > 0 \<longrightarrow> (p + a + b) mod 8 = 0"
      "length B2 = length B1" "write_whole B1 (p + a) u (n - a) = Some (B2, p + a + b, n - a - b)"
      "bits_of B2 = overwrite (bits_of B1) (p + a) (word_bits b (drop_bit (n - a - b) u))"
    by (elim exE conjE)
  have "p + a + b + (n - a - b) \<le> 8 * length B2"
    using a(1,3) b(1,4) assms(1) by simp
  from write_tail_correct [OF this b(2,3), of u]
  obtain B3 where B3: "write_tail B2 (p + a + b) u (n - a - b) = Some B3" "length B3 = length B2"
      "bits_of B3 = overwrite (bits_of B2) (p + a + b) (word_bits (n - a - b) u)"
    by (elim exE conjE)
  let ?x = "word_bits a (drop_bit (n - a) u)" and ?y = "word_bits b (drop_bit (n - a - b) u)"
    and ?z = "word_bits (n - a - b) u"
  have "word_bits (a + (b + (n - a - b))) u = ?x @ ?y @ ?z"
    using a(1) b(1) word_bits_add [of a "b + (n - a - b)" u] word_bits_add [of b "n - a - b" u]
    by simp
  then have xyz: "?x @ ?y @ ?z = word_bits n v"
    using a(1) b(1) u by simp
  have "overwrite (overwrite (overwrite (bits_of ?B) p ?x) (p + a) ?y) (p + a + b) ?z
      = overwrite (bits_of ?B) p (?x @ ?y @ ?z)"
    using overwrite_overwrite [of p ?x ?y "bits_of ?B"] overwrite_overwrite [of p "?x @ ?y" ?z "bits_of ?B"]
      a(1) b(1) assms(1) by (simp add: add.assoc)
  then have "bits_of B3 = overwrite (bits_of ?B) p (word_bits n v)"
    using a(5) b(6) B3(3) xyz by simp
  moreover have "bb_write_at bb p v n = Some (bb\<lparr>buffer := B3\<rparr>)"
    unfolding bb_write_at_def u_def [symmetric] Let_def using B3(1) by (simp add: a(4) b(5))
  ultimately show ?thesis
    using a(3) b(4) B3(2) by (intro exI [of _ B3] conjI) simp_all
qed

section \<open>The cursor\<close>

text \<open>
  Well-formedness: the window lies inside the capacity and the capacity inside the array.
  \<open>bb_room\<close> is how much can still be written, \<open>bb_out\<close> what has been written,
  \<open>bb_rest\<close> what is left to read.
\<close>

definition bb_inv :: "BitBuffer \<Rightarrow> bool" where
  "bb_inv bb \<longleftrightarrow> start bb \<le> pos bb \<and> pos bb \<le> end_bits bb \<and> end_bits bb \<le> cap_bits bb
     \<and> cap_bits bb \<le> 8 * length (buffer bb)"

definition bb_room :: "BitBuffer \<Rightarrow> nat" where
  "bb_room bb = (if autoexpand bb then cap_bits bb else end_bits bb) - pos bb"

definition bb_out :: "BitBuffer \<Rightarrow> bool list" where
  "bb_out bb = take (pos bb) (bits_of (buffer bb))"

definition bb_rest :: "BitBuffer \<Rightarrow> bool list" where
  "bb_rest bb = take (end_bits bb - pos bb) (drop (pos bb) (bits_of (buffer bb)))"

lemma fits_drop_bit: "fits n v \<Longrightarrow> n < 32 \<Longrightarrow> drop_bit n v = 0"
  by (metis fits_def drop_bit_take_bit diff_self_eq_0 take_bit_0)

lemma bb_put_bits_ok:
  assumes "bb_inv bb" "fits n v" "n \<le> bb_room bb"
  shows "\<exists>B. bb_put_bits bb v n = Some (bb\<lparr>buffer := B, pos := pos bb + n,
             end_bits := max (end_bits bb) (pos bb + n)\<rparr>)
           \<and> length B = length (buffer bb)
           \<and> bits_of B = overwrite (bits_of (buffer bb)) (pos bb) (word_bits n v)"
proof -
  let ?b = "bb\<lparr>end_bits := max (end_bits bb) (pos bb + n)\<rparr>"
  have "pos bb + n \<le> 8 * length (buffer ?b)" "n \<le> 32"
    using assms by (auto simp: bb_inv_def bb_room_def fits_def split: if_splits)
  from bb_write_at_correct [OF this, of v] obtain B
    where B: "bb_write_at ?b (pos bb) v n = Some (?b\<lparr>buffer := B\<rparr>)" "length B = length (buffer bb)"
      "bits_of B = overwrite (bits_of (buffer bb)) (pos bb) (word_bits n v)"
    by auto
  have "(if pos bb + n > end_bits bb then if autoexpand bb then
           if pos bb + n \<le> cap_bits bb then Some (bb\<lparr>end_bits := pos bb + n\<rparr>) else None else None
         else Some bb) = Some ?b"
    using assms by (auto simp: bb_inv_def bb_room_def max_def split: if_splits)
  then have "bb_put_bits bb v n = Some (?b\<lparr>buffer := B, pos := pos bb + n\<rparr>)"
    using assms(2) fits_drop_bit [OF assms(2)] B(1) unfolding bb_put_bits_def Let_def
    by (simp add: fits_def)
  then show ?thesis
    using B(2,3) by (intro exI [of _ B]) simp
qed

interpretation bb_sink: bit_sink bb_inv bb_room bb_out bb_put_bits
proof unfold_locales
  fix s n v
  assume a: "bb_inv s" "fits n v" "n \<le> bb_room s"
  obtain B where B: "bb_put_bits s v n = Some (s\<lparr>buffer := B, pos := pos s + n,
             end_bits := max (end_bits s) (pos s + n)\<rparr>)" "length B = length (buffer s)"
      "bits_of B = overwrite (bits_of (buffer s)) (pos s) (word_bits n v)"
    using bb_put_bits_ok [OF a] by (elim exE conjE)
  moreover have "pos s + n \<le> 8 * length (buffer s)"
    using a by (auto simp: bb_inv_def bb_room_def split: if_splits)
  ultimately show "\<exists>s'. bb_put_bits s v n = Some s' \<and> bb_inv s' \<and>
      bb_out s' = bb_out s @ word_bits n v \<and> bb_room s' = bb_room s - n"
    using a take_overwrite [of "pos s" "word_bits n v" "bits_of (buffer s)"]
    by (auto simp: bb_inv_def bb_room_def bb_out_def split: if_splits)
qed

lemma bb_get_bits_ok:
  assumes "bb_inv bb" "1 \<le> n" "n \<le> 32" "n \<le> bb_remaining bb"
  shows "bb_get_bits bb n = Some (word_of_bits (take n (bb_rest bb)), bb\<lparr>pos := pos bb + n\<rparr>)"
  using assms bb_read_at_correct [of "pos bb" n bb]
  by (simp add: bb_get_bits_def bb_inv_def bb_remaining_def bb_rest_def min_def)

lemma length_bb_rest: "bb_inv bb \<Longrightarrow> length (bb_rest bb) = bb_remaining bb"
  by (auto simp: bb_inv_def bb_rest_def bb_remaining_def)

interpretation bb_source: bit_source bb_inv bb_rest bb_get_bits
proof unfold_locales
  fix s n
  assume a: "bb_inv s" "1 \<le> n" "n \<le> 32" "n \<le> length (bb_rest s)"
  then have "n \<le> bb_remaining s"
    by (simp add: length_bb_rest)
  with a bb_get_bits_ok [of s n]
  show "\<exists>s'. bb_get_bits s n = Some (word_of_bits (take n (bb_rest s)), s') \<and>
      bb_inv s' \<and> bb_rest s' = drop n (bb_rest s)"
    by (auto simp: bb_inv_def bb_rest_def bb_remaining_def drop_take add.commute)
qed

lemma bb_rest_advance:
  "bb_rest (bb\<lparr>pos := pos bb + n\<rparr>) = drop n (bb_rest bb)"
  by (simp add: bb_rest_def drop_take add.commute)

lemma bb_inv_advance: "bb_inv bb \<Longrightarrow> n \<le> bb_remaining bb \<Longrightarrow> bb_inv (bb\<lparr>pos := pos bb + n\<rparr>)"
  by (auto simp: bb_inv_def bb_remaining_def)

lemma bb_remaining_advance: "bb_remaining (bb\<lparr>pos := pos bb + n\<rparr>) = bb_remaining bb - n"
  by (simp add: bb_remaining_def)

text \<open>The cursor \<open>k\<close> bits further on, and reading from there.\<close>

definition bb_adv :: "BitBuffer \<Rightarrow> nat \<Rightarrow> BitBuffer" where
  "bb_adv bb k = bb\<lparr>pos := pos bb + k\<rparr>"

lemma bb_adv_simps [simp]:
  "bb_adv bb 0 = bb" "pos (bb_adv bb k) = pos bb + k" "start (bb_adv bb k) = start bb"
  "buffer (bb_adv bb k) = buffer bb" "bb_remaining (bb_adv bb k) = bb_remaining bb - k"
  "bb_adv (bb_adv bb k) j = bb_adv bb (k + j)"
  by (simp_all add: bb_adv_def bb_remaining_def add.assoc)

lemma bb_rest_adv: "bb_rest (bb_adv bb k) = drop k (bb_rest bb)"
  unfolding bb_adv_def by (rule bb_rest_advance)

lemma bb_inv_adv: "bb_inv bb \<Longrightarrow> k \<le> bb_remaining bb \<Longrightarrow> bb_inv (bb_adv bb k)"
  unfolding bb_adv_def by (rule bb_inv_advance)

lemma bb_get_adv:
  assumes "bb_inv bb" "1 \<le> n" "n \<le> 32" "k + n \<le> bb_remaining bb"
  shows "bb_get_bits (bb_adv bb k) n = Some (word_of_bits (take n (drop k (bb_rest bb))), bb_adv bb (k + n))"
proof -
  have "bb_inv (bb_adv bb k)" "n \<le> bb_remaining (bb_adv bb k)"
    using assms by (simp_all add: bb_inv_adv)
  from bb_get_bits_ok [OF this(1) assms(2,3) this(2)] show ?thesis
    by (simp add: bb_rest_adv) (simp add: bb_adv_def add.assoc)
qed

text \<open>
  Whatever sequence of fields is written, reading the same widths from the place the writing began
  gives the fields back.
\<close>

lemma bb_init_inv [simp]: "n \<le> 8 * length buf \<Longrightarrow> bb_inv (bb_init buf n)"
  by (simp add: bb_inv_def bb_init_def)

lemma bb_init_autoexpand_inv [simp]: "n \<le> 8 * length buf \<Longrightarrow> bb_inv (bb_init_autoexpand buf n)"
  by (simp add: bb_inv_def bb_init_autoexpand_def)

lemma bb_room_init [simp]:
  "bb_room (bb_init buf n) = n" "bb_room (bb_init_autoexpand buf n) = n"
  by (simp_all add: bb_room_def bb_init_def bb_init_autoexpand_def)

lemma bb_out_init [simp]: "bb_out (bb_init buf n) = []" "bb_out (bb_init_autoexpand buf n) = []"
  by (simp_all add: bb_out_def bb_init_def bb_init_autoexpand_def)

lemma bb_rest_init: "bb_rest (bb_init buf n) = take n (bits_of buf)"
  by (simp add: bb_rest_def bb_init_def)

text \<open>\<open>bb_put_bits\<close> moves the cursor and may move the window end, nothing else.\<close>

lemma bb_put_bits_frame:
  assumes "bb_inv bb" "fits n v" "n \<le> bb_room bb" "bb_put_bits bb v n = Some bb'"
  shows "pos bb' = pos bb + n" "start bb' = start bb" "cap_bits bb' = cap_bits bb"
    "autoexpand bb' = autoexpand bb" "length (buffer bb') = length (buffer bb)"
    "end_bits bb' = max (end_bits bb) (pos bb + n)"
  using bb_put_bits_ok [OF assms(1-3)] assms(4) by auto

lemma store_masked_length: "store_masked B i m b = Some B' \<Longrightarrow> length B' = length B"
  by (auto simp: store_masked_def arr_get_def arr_set_def split: if_splits bind_splits)

lemma write_whole_length: "write_whole B cur v n = Some (B', c, k) \<Longrightarrow> length B' = length B"
proof (induction B cur v n rule: write_whole.induct)
  case (1 B cur v n)
  then show ?case
    by (auto simp: write_whole.simps [of B] arr_set_def split: if_splits bind_splits)
qed

lemma bb_put_bits_length:
  assumes "bb_put_bits bb v n = Some bb'"
  shows "length (buffer bb') = length (buffer bb)"
  using assms
  by (auto simp: bb_put_bits_def bb_write_at_def write_head_def write_tail_def Let_def
      split: if_splits bind_splits prod.splits dest!: store_masked_length write_whole_length)

lemma bb_put_bits_start: "bb_put_bits bb v n = Some bb' \<Longrightarrow> start bb' = start bb"
  by (auto simp: bb_put_bits_def bb_write_at_def Let_def split: if_splits bind_splits prod.splits)

lemma put_fields_start: "put_fields bb_put_bits fs bb = Some bb' \<Longrightarrow> start bb' = start bb"
proof (induction fs arbitrary: bb)
  case (Cons f fs)
  then show ?case
    by (cases f) (auto split: bind_splits dest: bb_put_bits_start)
qed simp

section \<open>Properties\<close>

text \<open>
  C24: writing a sequence of fields and reading the same widths back over the written buffer returns
  the fields: for every start position, every alignment of every field, every width from 1 to 32.
  Neither direction aborts, and the bits already written before the cursor stay what they were.
\<close>

theorem bb_fields_roundtrip:
  assumes "bb_inv bb" "fields_ok fs" "length (field_bits fs) \<le> bb_room bb"
  shows "\<exists>bb'. put_fields bb_put_bits fs bb = Some bb' \<and> bb_out bb' = bb_out bb @ field_bits fs \<and>
     (\<exists>b0 b1. bb_seek_bits bb' (bb_pos_bits bb) = Some b0 \<and>
        get_fields bb_get_bits (map snd fs) b0 = Some (map fst fs, b1))"
proof -
  obtain bb' where w: "put_fields bb_put_bits fs bb = Some bb'" "bb_inv bb'"
      "bb_out bb' = bb_out bb @ field_bits fs"
    using bb_sink.put_fields_ok [OF assms] by blast
  have start: "start bb' = start bb"
    using put_fields_start [OF w(1)] .
  have l: "length (bb_out bb) = pos bb" "length (bb_out bb') = pos bb'"
    using assms(1) w(2) by (auto simp: bb_out_def bb_inv_def)
  have pos': "pos bb' = pos bb + length (field_bits fs)"
    using l w(3) by simp
  let ?b0 = "bb'\<lparr>pos := pos bb\<rparr>"
  have b0: "bb_inv ?b0" "bb_seek_bits bb' (bb_pos_bits bb) = Some ?b0"
    using assms(1) w(2) start pos' by (auto simp: bb_inv_def bb_seek_bits_def bb_pos_bits_def Let_def)
  have "drop (pos bb) (take (pos bb') (bits_of (buffer bb'))) = field_bits fs"
    using w(3) l(1) by (simp add: bb_out_def)
  then have "take (length (field_bits fs)) (bb_rest ?b0) = field_bits fs"
    using w(2) pos' by (auto simp: bb_rest_def bb_inv_def drop_take min_def)
  then have "bb_rest ?b0 = field_bits fs @ drop (length (field_bits fs)) (bb_rest ?b0)"
    by (metis append_take_drop_id)
  from bb_source.get_fields_ok [OF b0(1) assms(2) this] b0(2) w show ?thesis
    by blast
qed

definition ex_fields :: "field list" where
  "ex_fields = [(5, 3), (0x2F4D61, 24), (1, 1)]"

theorem bb_fields_roundtrip_witness:
  "\<exists>bb'. put_fields bb_put_bits ex_fields (bb_init_autoexpand (replicate 8 0) 64) = Some bb'
     \<and> bb_out bb' = bb_out (bb_init_autoexpand (replicate 8 0) 64) @ field_bits ex_fields
     \<and> (\<exists>b0 b1. bb_seek_bits bb' (bb_pos_bits (bb_init_autoexpand (replicate 8 0) 64)) = Some b0
        \<and> get_fields bb_get_bits (map snd ex_fields) b0
            = Some (map fst ex_fields, b1))"
  by (rule bb_fields_roundtrip) (simp_all add: ex_fields_def fits_def take_bit_eq_mask mask_eq_exp_minus_1)

text \<open>
  A write that the asserts admit succeeds and changes exactly the \<open>n\<close> bits at the cursor:
  the bit string of the array after it is the one before with those bits overwritten, so no
  neighbouring bit of a shared byte is disturbed, at any alignment.
\<close>

theorem bb_put_bits_exact:
  assumes "bb_inv bb" "fits n v" "n \<le> bb_room bb"
  shows "\<exists>bb'. bb_put_bits bb v n = Some bb' \<and> pos bb' = pos bb + n \<and>
     bits_of (buffer bb') = overwrite (bits_of (buffer bb)) (pos bb) (word_bits n v)"
  using bb_put_bits_ok [OF assms] by auto

theorem bb_put_bits_exact_witness:
  "\<exists>bb'. bb_put_bits (bb_init [0xFF, 0xFF, 0xFF] 24\<lparr>pos := 5\<rparr>) 0x2A5 10 = Some bb'
     \<and> pos bb' = pos (bb_init [0xFF, 0xFF, 0xFF] 24\<lparr>pos := 5\<rparr>) + 10
     \<and> bits_of (buffer bb') = overwrite (bits_of (buffer (bb_init [0xFF, 0xFF, 0xFF] 24\<lparr>pos := 5\<rparr>)))
          (pos (bb_init [0xFF, 0xFF, 0xFF] 24\<lparr>pos := 5\<rparr>)) (word_bits 10 (0x2A5 :: u32))"
  by (rule bb_put_bits_exact)
    (simp_all add: bb_inv_def bb_init_def bb_room_def fits_def take_bit_eq_mask mask_eq_exp_minus_1)

end
