(* ===== verification/Llc_Pdu.thy ===== *)
theory Llc_Pdu
  imports BitBuffer
begin

text \<open>
  The LLC PDU codec of \<open>sw/llc/llc_pdu.c\<close>: types with their presence predicates, the
  bit-serial CRC-32 frame check sequence, \<open>put_body\<close>/\<open>get_body\<close>, \<open>llc_pdu_encode\<close> and
  \<open>llc_pdu_decode\<close>. Shown: the decoder never aborts, the round trip, and the detection of
  single-bit errors.
\<close>

datatype LlcPduType =
    LlcPdu_BL_ADATA | LlcPdu_BL_DATA | LlcPdu_BL_UDATA | LlcPdu_BL_ACK
  | LlcPdu_BL_ADATA_FCS | LlcPdu_BL_DATA_FCS | LlcPdu_BL_UDATA_FCS | LlcPdu_BL_ACK_FCS
  | LlcPdu_AL_SETUP | LlcPdu_Unknown

fun LlcPduType_code :: "LlcPduType \<Rightarrow> nat" where
  "LlcPduType_code LlcPdu_BL_ADATA = 0"
| "LlcPduType_code LlcPdu_BL_DATA = 1"
| "LlcPduType_code LlcPdu_BL_UDATA = 2"
| "LlcPduType_code LlcPdu_BL_ACK = 3"
| "LlcPduType_code LlcPdu_BL_ADATA_FCS = 4"
| "LlcPduType_code LlcPdu_BL_DATA_FCS = 5"
| "LlcPduType_code LlcPdu_BL_UDATA_FCS = 6"
| "LlcPduType_code LlcPdu_BL_ACK_FCS = 7"
| "LlcPduType_code LlcPdu_AL_SETUP = 8"
| "LlcPduType_code LlcPdu_Unknown = 0xFF"

text \<open>The cast \<open>(LlcPduType) raw\<close> of a value that \<open>llc_pdu_type_is_valid\<close> accepts.\<close>

definition LlcPduType_of_code :: "nat \<Rightarrow> LlcPduType" where
  "LlcPduType_of_code c =
     (if c = 0 then LlcPdu_BL_ADATA else if c = 1 then LlcPdu_BL_DATA
      else if c = 2 then LlcPdu_BL_UDATA else if c = 3 then LlcPdu_BL_ACK
      else if c = 4 then LlcPdu_BL_ADATA_FCS else if c = 5 then LlcPdu_BL_DATA_FCS
      else if c = 6 then LlcPdu_BL_UDATA_FCS else if c = 7 then LlcPdu_BL_ACK_FCS
      else if c = 8 then LlcPdu_AL_SETUP else LlcPdu_Unknown)"

lemma LlcPduType_of_code_code [simp, codec_simps]: "LlcPduType_of_code (LlcPduType_code t) = t"
  by (cases t) (simp_all add: LlcPduType_of_code_def)

definition llc_pdu_type_is_valid :: "nat \<Rightarrow> bool" where
  "llc_pdu_type_is_valid v \<longleftrightarrow>
     v \<in> {LlcPduType_code LlcPdu_BL_ADATA, LlcPduType_code LlcPdu_BL_DATA,
          LlcPduType_code LlcPdu_BL_UDATA, LlcPduType_code LlcPdu_BL_ACK,
          LlcPduType_code LlcPdu_BL_ADATA_FCS, LlcPduType_code LlcPdu_BL_DATA_FCS,
          LlcPduType_code LlcPdu_BL_UDATA_FCS, LlcPduType_code LlcPdu_BL_ACK_FCS,
          LlcPduType_code LlcPdu_AL_SETUP}"

definition llc_pdu_type_has_fcs :: "LlcPduType \<Rightarrow> bool" where
  "llc_pdu_type_has_fcs t \<longleftrightarrow> bit (LlcPduType_code t) 2 \<and> LlcPduType_code t < 8"

fun llc_pdu_type_has_nr :: "LlcPduType \<Rightarrow> bool" where
  "llc_pdu_type_has_nr LlcPdu_BL_ADATA = True"
| "llc_pdu_type_has_nr LlcPdu_BL_ADATA_FCS = True"
| "llc_pdu_type_has_nr LlcPdu_BL_ACK = True"
| "llc_pdu_type_has_nr LlcPdu_BL_ACK_FCS = True"
| "llc_pdu_type_has_nr _ = False"

fun llc_pdu_type_has_ns :: "LlcPduType \<Rightarrow> bool" where
  "llc_pdu_type_has_ns LlcPdu_BL_ADATA = True"
| "llc_pdu_type_has_ns LlcPdu_BL_ADATA_FCS = True"
| "llc_pdu_type_has_ns LlcPdu_BL_DATA = True"
| "llc_pdu_type_has_ns LlcPdu_BL_DATA_FCS = True"
| "llc_pdu_type_has_ns _ = False"

definition LLC_PDU_BODY_MAX_BYTES :: nat where
  "LLC_PDU_BODY_MAX_BYTES = 32"

record LlcPdu =
  pdu_type :: LlcPduType
  nr :: u8
  ns :: u8
  body_len_bits :: nat
  body :: "u8 list"
  fcs :: u32
  fcs_valid :: bool

section \<open>CRC-32\<close>

definition LLC_CRC32_POLY :: u32 where
  "LLC_CRC32_POLY = 0xEDB88320"

definition LLC_CRC32_INIT :: u32 where
  "LLC_CRC32_INIT = 0xFFFFFFFF"

definition LLC_CRC32_XOROUT :: u32 where
  "LLC_CRC32_XOROUT = 0xFFFFFFFF"

definition LLC_CRC32_RESIDUE :: u32 where
  "LLC_CRC32_RESIDUE = 0xDEBB20E3"

text \<open>One round of the bit-serial register.\<close>

definition crc_step :: "u32 \<Rightarrow> bool \<Rightarrow> u32" where
  "crc_step crc b =
     (let feedback = (b \<noteq> bit crc 0); crc = drop_bit 1 crc
      in if feedback then crc XOR LLC_CRC32_POLY else crc)"

text \<open>The loop over \<open>n\<close> bits from bit \<open>i\<close> on.\<close>

fun crc_loop :: "u8 list \<Rightarrow> nat \<Rightarrow> nat \<Rightarrow> u32 \<Rightarrow> u32 option" where
  "crc_loop B i 0 crc = Some crc"
| "crc_loop B i (Suc n) crc = do {
     byte \<leftarrow> arr_get B (i div 8);
     let bit_off = 7 - i mod 8;
     crc_loop B (i + 1) n (crc_step crc (bit byte bit_off))
   }"

definition llc_crc32 :: "u8 list option \<Rightarrow> nat \<Rightarrow> u32 option" where
  "llc_crc32 data len_bits =
     (case data of
        None \<Rightarrow> Some (LLC_CRC32_INIT XOR LLC_CRC32_XOROUT)
      | Some B \<Rightarrow>
          if len_bits = 0 then Some (LLC_CRC32_INIT XOR LLC_CRC32_XOROUT)
          else do {
            crc \<leftarrow> crc_loop B 0 len_bits LLC_CRC32_INIT;
            Some (crc XOR LLC_CRC32_XOROUT)
          })"

definition crc32_over_bb_window :: "BitBuffer \<Rightarrow> nat \<Rightarrow> nat \<Rightarrow> u32 option" where
  "crc32_over_bb_window bb start_bit end_bit =
     (if end_bit \<le> start_bit then Some (LLC_CRC32_INIT XOR LLC_CRC32_XOROUT)
      else do {
        crc \<leftarrow> crc_loop (buffer bb) start_bit (end_bit - start_bit) LLC_CRC32_INIT;
        Some (crc XOR LLC_CRC32_XOROUT)
      })"

section \<open>Body\<close>

function put_body_from :: "BitBuffer \<Rightarrow> u8 list \<Rightarrow> nat \<Rightarrow> nat \<Rightarrow> BitBuffer option" where
  "put_body_from bb bs src_bit remaining =
     (if remaining \<ge> 8 then do {
        byte \<leftarrow> arr_get bs (src_bit div 8);
        bb \<leftarrow> bb_put_bits bb (ucast byte) 8;
        put_body_from bb bs (src_bit + 8) (remaining - 8)
      }
      else if remaining > 0 then do {
        byte \<leftarrow> arr_get bs (src_bit div 8);
        let shift = 8 - remaining;
        bb_put_bits bb (ucast (drop_bit shift byte AND mask remaining)) remaining
      }
      else Some bb)"
  by pat_completeness auto
termination by (relation "measure (\<lambda>(_, _, _, n). n)") auto

definition put_body :: "BitBuffer \<Rightarrow> u8 list \<Rightarrow> nat \<Rightarrow> BitBuffer option" where
  "put_body bb bs n = put_body_from bb bs 0 n"

function get_body_from :: "BitBuffer \<Rightarrow> u8 list \<Rightarrow> nat \<Rightarrow> nat \<Rightarrow> (BitBuffer \<times> u8 list) option" where
  "get_body_from bb bs dst_bit remaining =
     (if remaining \<ge> 8 then do {
        (v, bb) \<leftarrow> bb_get_bits bb 8;
        bs \<leftarrow> arr_set bs (dst_bit div 8) (ucast (v AND 0xFF));
        get_body_from bb bs (dst_bit + 8) (remaining - 8)
      }
      else if remaining > 0 then do {
        (v, bb) \<leftarrow> bb_get_bits bb remaining;
        let shift = 8 - remaining;
        bs \<leftarrow> arr_set bs (dst_bit div 8) (ucast (push_bit shift (v AND mask remaining)));
        Some (bb, bs)
      }
      else Some (bb, bs))"
  by pat_completeness auto
termination by (relation "measure (\<lambda>(_, _, _, n). n)") auto

definition get_body :: "BitBuffer \<Rightarrow> u8 list \<Rightarrow> nat \<Rightarrow> (BitBuffer \<times> u8 list) option" where
  "get_body bb bs n =
     (let bytes_full = (n + 7) div 8
      in get_body_from bb (replicate bytes_full 0 @ drop bytes_full bs) 0 n)"

declare put_body_from.simps [simp del] get_body_from.simps [simp del]

section \<open>Encoder and decoder\<close>

definition llc_pdu_encode :: "BitBuffer \<Rightarrow> LlcPdu \<Rightarrow> (nat res \<times> BitBuffer) option" where
  "llc_pdu_encode out pdu =
     (if \<not> llc_pdu_type_is_valid (LlcPduType_code (pdu_type pdu)) then Some (Inl EINVAL, out)
      else if body_len_bits pdu > LLC_PDU_BODY_MAX_BYTES * 8 then Some (Inl EINVAL, out)
      else if pdu_type pdu = LlcPdu_AL_SETUP \<and> body_len_bits pdu \<noteq> 0 then Some (Inl EINVAL, out)
      else do {
        let pdu_start = bb_pos_bits out + start out;
        out \<leftarrow> bb_put_bits out (of_nat (LlcPduType_code (pdu_type pdu)) AND 0xF) 4;
        out \<leftarrow> (if llc_pdu_type_has_nr (pdu_type pdu)
                then bb_put_bits out (ucast (nr pdu) AND 1) 1 else Some out);
        out \<leftarrow> (if llc_pdu_type_has_ns (pdu_type pdu)
                then bb_put_bits out (ucast (ns pdu) AND 1) 1 else Some out);
        out \<leftarrow> (if body_len_bits pdu > 0
                then put_body out (body pdu) (body_len_bits pdu) else Some out);
        out \<leftarrow> (if llc_pdu_type_has_fcs (pdu_type pdu) then do {
                  let pdu_end = bb_pos_bits out + start out;
                  f \<leftarrow> crc32_over_bb_window out pdu_start pdu_end;
                  bb_put_bits out f 32
                } else Some out);
        let bits_written = (bb_pos_bits out + start out) - pdu_start;
        Some (Inr bits_written, out)
      })"

text \<open>The decoder after the type check, by stage: the sequence bits, the FCS, the body.\<close>

definition decode_ctrl :: "BitBuffer \<Rightarrow> LlcPdu \<Rightarrow> (BitBuffer \<times> LlcPdu) option" where
  "decode_ctrl inb out = do {
     (inb, out) \<leftarrow> (if llc_pdu_type_has_nr (pdu_type out) then do {
         (v, inb) \<leftarrow> bb_get_bits inb 1;
         Some (inb, out\<lparr>nr := ucast v\<rparr>)
       } else Some (inb, out));
     if llc_pdu_type_has_ns (pdu_type out) then do {
         (v, inb) \<leftarrow> bb_get_bits inb 1;
         Some (inb, out\<lparr>ns := ucast v\<rparr>)
       } else Some (inb, out)
   }"

definition decode_fcs :: "nat \<Rightarrow> BitBuffer \<Rightarrow> LlcPdu \<Rightarrow> (unit res \<times> BitBuffer \<times> LlcPdu) option" where
  "decode_fcs pdu_start inb out =
     (if llc_pdu_type_has_fcs (pdu_type out) then
        if bb_remaining inb < 32 then Some (Inl EPROTO, inb, out)
        else do {
          let pre_fcs = bb_pos_bits inb + start inb;
          want \<leftarrow> crc32_over_bb_window inb pdu_start pre_fcs;
          (got, inb) \<leftarrow> bb_get_bits inb 32;
          Some (Inr (), inb, out\<lparr>fcs := got, fcs_valid := (got = want)\<rparr>)
        }
      else Some (Inr (), inb, out))"

definition decode_body :: "nat \<Rightarrow> BitBuffer \<Rightarrow> LlcPdu \<Rightarrow> (unit res \<times> BitBuffer \<times> LlcPdu) option" where
  "decode_body pdu_start inb out =
     (if body_len_bits out > 0 then
        if bb_remaining inb < body_len_bits out then Some (Inl EPROTO, inb, out)
        else do {
          (inb, bs) \<leftarrow> get_body inb (body out) (body_len_bits out);
          decode_fcs pdu_start inb (out\<lparr>body := bs\<rparr>)
        }
      else decode_fcs pdu_start inb out)"

definition llc_pdu_decode :: "BitBuffer \<Rightarrow> LlcPdu \<Rightarrow> (unit res \<times> BitBuffer \<times> LlcPdu) option" where
  "llc_pdu_decode inb out =
     (if body_len_bits out > LLC_PDU_BODY_MAX_BYTES * 8 then Some (Inl EINVAL, inb, out)
      else
        let pdu_start = bb_pos_bits inb + start inb in
        if bb_remaining inb < 4 then Some (Inl EPROTO, inb, out)
        else do {
          (raw_type, inb) \<leftarrow> bb_get_bits inb 4;
          if \<not> llc_pdu_type_is_valid (unat raw_type)
          then Some (Inl EPROTO, inb, out\<lparr>pdu_type := LlcPdu_Unknown\<rparr>)
          else
            let out = out\<lparr>pdu_type := LlcPduType_of_code (unat raw_type), nr := 0, ns := 0,
                          fcs := 0, fcs_valid := False\<rparr> in
            if pdu_type out = LlcPdu_AL_SETUP
            then Some (Inr (), inb, out\<lparr>body_len_bits := 0\<rparr>)
            else
              let need_ctrl = (if llc_pdu_type_has_nr (pdu_type out) then 1 else 0) +
                              (if llc_pdu_type_has_ns (pdu_type out) then 1 else 0) in
              if bb_remaining inb < need_ctrl then Some (Inl EPROTO, inb, out)
              else do {
                (inb, out) \<leftarrow> decode_ctrl inb out;
                decode_body pdu_start inb out
              }
        })"

section \<open>The CRC of a bit string\<close>

definition crc_bits :: "bool list \<Rightarrow> u32" where
  "crc_bits bs = foldl crc_step LLC_CRC32_INIT bs XOR LLC_CRC32_XOROUT"

lemma crc_loop_eq:
  "i + n \<le> 8 * length B \<Longrightarrow> crc_loop B i n c = Some (foldl crc_step c (take n (drop i (bits_of B))))"
proof (induction n arbitrary: i c)
  case 0
  then show ?case by simp
next
  case (Suc n)
  then have i: "i < 8 * length B" "i div 8 < length B" by auto
  then have "drop i (bits_of B) = bits_of B ! i # drop (Suc i) (bits_of B)"
    by (simp add: Cons_nth_drop_Suc)
  then show ?case
    using Suc i by (simp add: nth_bits_of)
qed

lemma crc_window_eq:
  assumes "a < b" "b \<le> 8 * length (buffer bb)"
  shows "crc32_over_bb_window bb a b = Some (crc_bits (take (b - a) (drop a (bits_of (buffer bb)))))"
  using assms crc_loop_eq [of a "b - a" "buffer bb" LLC_CRC32_INIT]
  by (simp add: crc32_over_bb_window_def crc_bits_def)

lemma llc_crc32_eq:
  assumes "n \<le> 8 * length B"
  shows "llc_crc32 (Some B) n = Some (crc_bits (take n (bits_of B)))"
  using assms crc_loop_eq [of 0 n B LLC_CRC32_INIT]
  by (simp add: llc_crc32_def crc_bits_def)

text \<open>
  The register update is injective in the register and in the input bit: the polynomial has its
  top bit set, so the feedback can be read off the result.
\<close>

lemma bit_poly_31: "bit LLC_CRC32_POLY 31"
  by (simp add: LLC_CRC32_POLY_def bit_simps)

lemma crc_step_bit31: "bit (crc_step c b) 31 \<longleftrightarrow> (b \<noteq> bit c 0)"
proof -
  have "\<not> bit (drop_bit 1 c) 31"
    using bit_imp_le_length [of c 32] by (auto simp: bit_drop_bit_eq)
  then show ?thesis
    by (simp add: crc_step_def Let_def bit_xor_iff bit_poly_31 del: drop_bit_Suc)
qed

lemma crc_step_drop:
  assumes "crc_step c b = crc_step c' b'"
  shows "drop_bit 1 c = drop_bit 1 c'" "(b \<noteq> bit c 0) = (b' \<noteq> bit c' 0)"
proof -
  show f: "(b \<noteq> bit c 0) = (b' \<noteq> bit c' 0)"
    using assms crc_step_bit31 by metis
  show "drop_bit 1 c = drop_bit 1 c'"
    using assms f unfolding crc_step_def Let_def
    by (cases "b \<noteq> bit c 0") (simp_all add: xor_cancel del: drop_bit_Suc)
qed

lemma eq_drop_bit_0:
  fixes c c' :: u32
  assumes "drop_bit 1 c = drop_bit 1 c'" "bit c 0 = bit c' 0"
  shows "c = c'"
proof (rule bit_word_eqI)
  fix n
  show "bit c n = bit c' n"
  proof (cases n)
    case 0
    with assms(2) show ?thesis by simp
  next
    case (Suc m)
    with assms(1) have "bit (drop_bit 1 c) m = bit (drop_bit 1 c') m" by simp
    with Suc show ?thesis by (simp add: bit_drop_bit_eq)
  qed
qed

lemma crc_step_inj: "crc_step c b = crc_step c' b \<Longrightarrow> c = c'"
  using crc_step_drop [of c b c' b] eq_drop_bit_0 [of c c'] by blast

lemma foldl_crc_inj: "foldl crc_step c bs = foldl crc_step c' bs \<Longrightarrow> c = c'"
  by (induction bs arbitrary: c c') (auto dest: crc_step_inj)

text \<open>Flipping one bit changes the CRC, wherever the bit is and however long the string.\<close>

lemma crc_bits_single_error:
  assumes "i < length bs"
  shows "crc_bits (bs[i := \<not> bs ! i]) \<noteq> crc_bits bs"
proof
  let ?c = "foldl crc_step LLC_CRC32_INIT (take i bs)"
  assume "crc_bits (bs[i := \<not> bs ! i]) = crc_bits bs"
  then have "foldl crc_step LLC_CRC32_INIT (bs[i := \<not> bs ! i]) = foldl crc_step LLC_CRC32_INIT bs"
    by (simp add: crc_bits_def xor_cancel)
  moreover have "bs[i := \<not> bs ! i] = take i bs @ (\<not> bs ! i) # drop (Suc i) bs"
    using assms by (simp add: upd_conv_take_nth_drop)
  moreover have "bs = take i bs @ bs ! i # drop (Suc i) bs"
    using assms by (simp add: id_take_nth_drop)
  ultimately have "foldl crc_step (crc_step ?c (\<not> bs ! i)) (drop (Suc i) bs)
      = foldl crc_step (crc_step ?c (bs ! i)) (drop (Suc i) bs)"
    by (metis foldl_Cons foldl_append)
  then have "crc_step ?c (\<not> bs ! i) = crc_step ?c (bs ! i)"
    by (rule foldl_crc_inj)
  from crc_step_drop(2) [OF this] show False by auto
qed

section \<open>Body round trip\<close>

lemma fits_ucast8 [simp]: "fits 8 (ucast (b :: u8))"
proof -
  have "n < 8" if "bit b n" for n
    using bit_imp_le_length [OF that] by simp
  then show ?thesis
    by (auto simp: fits_def bit_simps intro!: bit_word_eqI)
qed

lemma fits_ucast_mask:
  "1 \<le> n \<Longrightarrow> n \<le> 8 \<Longrightarrow> fits n (ucast (b AND mask n :: u8))"
  by (auto simp: fits_def intro!: bit_word_eqI simp: bit_simps)

text \<open>\<open>put_body\<close> appends the first \<open>n\<close> bits of the byte array.\<close>

lemma put_body_from_ok:
  assumes "bb_inv bb" "n \<le> bb_room bb" "s + n \<le> 8 * length bs" "s mod 8 = 0"
  shows "\<exists>bb'. put_body_from bb bs s n = Some bb' \<and> bb_inv bb' \<and>
     bb_out bb' = bb_out bb @ take n (drop s (bits_of bs)) \<and> bb_room bb' = bb_room bb - n"
  using assms
proof (induction n arbitrary: bb s rule: less_induct)
  case (less n)
  consider "n \<ge> 8" | "0 < n" "n < 8" | "n = 0" by linarith
  then show ?case
  proof cases
    case 1
    have idx: "s div 8 < length bs" using 1 less.prems(3) by auto
    have "word_bits 8 (ucast (bs ! (s div 8)) :: u32) = take 8 (drop s (bits_of bs))"
    proof -
      have "(ucast (bs ! (s div 8)) :: u32) = word_of_bits (take 8 (drop s (bits_of bs)))"
        using read_chunk [of 8 s bs] less.prems(3,4) 1 by simp
      moreover have "length (take 8 (drop s (bits_of bs))) = 8"
        using less.prems(3) 1 by simp
      ultimately show ?thesis
        using word_bits_word_of_bits [of "take 8 (drop s (bits_of bs))", where ?'a = 32] by simp
    qed
    moreover obtain b1 where b1: "bb_put_bits bb (ucast (bs ! (s div 8))) 8 = Some b1" "bb_inv b1"
        "bb_out b1 = bb_out bb @ word_bits 8 (ucast (bs ! (s div 8)) :: u32)" "bb_room b1 = bb_room bb - 8"
      using bb_sink.put_ok [OF less.prems(1) fits_ucast8] 1 less.prems(2) by auto
    moreover have "s + 8 + (n - 8) \<le> 8 * length bs" "(s + 8) mod 8 = 0" "n - 8 \<le> bb_room b1"
      using 1 less.prems b1(4) by simp_all
    moreover obtain bb' where "put_body_from b1 bs (s + 8) (n - 8) = Some bb'" "bb_inv bb'"
        "bb_out bb' = bb_out b1 @ take (n - 8) (drop (s + 8) (bits_of bs))" "bb_room bb' = bb_room b1 - (n - 8)"
      using less.IH [of "n - 8" b1 "s + 8"] 1 calculation by auto
    ultimately show ?thesis
      using 1 idx take_drop_split [of 8 "n - 8" s "bits_of bs"] less.prems(3)
      by (simp add: put_body_from.simps [of bb])
  next
    case 2
    have idx: "s div 8 < length bs" using 2 less.prems(3) by auto
    let ?v = "ucast (drop_bit (8 - n) (bs ! (s div 8)) AND mask n :: u8) :: u32"
    have "?v = word_of_bits (take n (drop s (bits_of bs)))"
      using read_chunk [of n s bs] less.prems(3,4) 2 by simp
    moreover have "length (take n (drop s (bits_of bs))) = n"
      using less.prems(3) by simp
    ultimately have "word_bits n ?v = take n (drop s (bits_of bs))"
      using 2 word_bits_word_of_bits [of "take n (drop s (bits_of bs))", where ?'a = 32] by simp
    moreover have "fits n ?v"
      using 2 by (intro fits_ucast_mask) simp_all
    ultimately show ?thesis
      using bb_sink.put_ok [OF less.prems(1), of n ?v] 2 idx less.prems(2)
      by (auto simp: put_body_from.simps [of bb])
  next
    case 3
    with less.prems show ?thesis
      by (simp add: put_body_from.simps [of bb])
  qed
qed

lemma put_body_ok:
  assumes "bb_inv bb" "n \<le> bb_room bb" "n \<le> 8 * length bs"
  shows "\<exists>bb'. put_body bb bs n = Some bb' \<and> bb_inv bb' \<and>
     bb_out bb' = bb_out bb @ take n (bits_of bs) \<and> bb_room bb' = bb_room bb - n"
  using put_body_from_ok [of bb n 0 bs] assms by (simp add: put_body_def)

text \<open>\<open>get_body\<close> moves the next \<open>n\<close> bits of the window to the front of the array.\<close>

lemma bits_of_set_byte:
  assumes "d mod 8 = 0" "d + 8 \<le> 8 * length bs"
  shows "bits_of (bs[d div 8 := w]) = overwrite (bits_of bs) d (byte_bits w)"
  using assms by (intro bits_of_update_byte [where t = 8]) (simp_all add: byte_bits_def)

lemma byte_bits_take:
  assumes "n \<le> 8" "length xs = n"
  shows "take n (byte_bits (ucast (push_bit (8 - n) (word_of_bits xs AND mask n :: u32)))) = xs"
proof (rule nth_equalityI)
  fix i
  assume "i < length (take n (byte_bits (ucast (push_bit (8 - n) (word_of_bits xs AND mask n :: u32)))))"
  then have i: "i < n" by (simp add: byte_bits_def)
  then have "7 - i \<ge> 8 - n" "7 - i - (8 - n) = n - 1 - i" "n - 1 - (n - 1 - i) = i"
    using assms(1) by simp_all
  with i assms show "take n (byte_bits (ucast (push_bit (8 - n) (word_of_bits xs AND mask n :: u32)))) ! i = xs ! i"
    by (auto simp: byte_bits_def bit_simps bits_simps)
qed (use assms in \<open>simp add: byte_bits_def\<close>)

lemma get_body_from_ok:
  assumes "bb_inv bb" "n \<le> bb_remaining bb" "d + n \<le> 8 * length bs" "d mod 8 = 0"
  shows "\<exists>bs'. get_body_from bb bs d n = Some (bb\<lparr>pos := pos bb + n\<rparr>, bs') \<and> length bs' = length bs \<and>
     take (d + n) (bits_of bs') = take d (bits_of bs) @ take n (bb_rest bb)"
  using assms
proof (induction n arbitrary: bb d bs rule: less_induct)
  case (less n)
  consider "n \<ge> 8" | "0 < n" "n < 8" | "n = 0" by linarith
  then show ?case
  proof cases
    case 1
    let ?x = "take 8 (bb_rest bb)" and ?bb = "bb\<lparr>pos := pos bb + 8\<rparr>"
    let ?w = "ucast (word_of_bits ?x AND 0xFF :: u32) :: u8"
    have idx: "d div 8 < length bs" and l: "d + 8 \<le> 8 * length bs" using 1 less.prems(3) by auto
    have lx: "length ?x = 8"
      using less.prems(1,2) 1 by (simp add: length_bb_rest)
    have get: "bb_get_bits bb 8 = Some (word_of_bits ?x, ?bb)"
      using less.prems 1 by (intro bb_get_bits_ok) simp_all
    have ff: "(0xFF :: u32) = mask 8"
      by (simp add: mask_eq_exp_minus_1)
    have w: "byte_bits ?w = ?x"
      using byte_bits_take [of 8 ?x] lx unfolding ff by (simp add: byte_bits_def)
    let ?bs = "bs[d div 8 := ?w]"
    have "bb_inv ?bb" "n - 8 \<le> bb_remaining ?bb" "d + 8 + (n - 8) \<le> 8 * length ?bs" "(d + 8) mod 8 = 0"
      using less.prems 1 by (simp_all add: bb_inv_advance bb_remaining_advance)
    then obtain bs' where bs': "get_body_from ?bb ?bs (d + 8) (n - 8) = Some (?bb\<lparr>pos := pos ?bb + (n - 8)\<rparr>, bs')"
        "length bs' = length ?bs"
        "take (d + 8 + (n - 8)) (bits_of bs') = take (d + 8) (bits_of ?bs) @ take (n - 8) (bb_rest ?bb)"
      using less.IH [of "n - 8" ?bb "d + 8" ?bs] 1 by auto
    have "take (d + 8) (bits_of ?bs) = take d (bits_of bs) @ ?x"
      using bits_of_set_byte [OF less.prems(4) l] take_overwrite [of d "byte_bits ?w" "bits_of bs"] w l lx
      by simp
    moreover have "?x @ take (n - 8) (bb_rest ?bb) = take n (bb_rest bb)"
      using 1 take_add [of 8 "n - 8" "bb_rest bb"] by (simp add: bb_rest_advance)
    ultimately have "take (d + n) (bits_of bs') = take d (bits_of bs) @ take n (bb_rest bb)"
      using bs'(3) 1 by simp
    moreover have "get_body_from bb bs d n = Some (bb\<lparr>pos := pos bb + n\<rparr>, bs')"
      using 1 get idx bs'(1) by (simp add: get_body_from.simps [of bb])
    ultimately show ?thesis
      using bs'(2) by simp
  next
    case 2
    let ?x = "take n (bb_rest bb)"
    let ?w = "ucast (push_bit (8 - n) (word_of_bits ?x AND mask n :: u32)) :: u8"
    have lx: "length ?x = n"
      using less.prems(1,2) by (simp add: length_bb_rest)
    have idx: "d div 8 < length bs" using 2 less.prems(3) by auto
    have l: "d + 8 \<le> 8 * length bs"
    proof -
      have "8 * (d div 8) + 8 \<le> 8 * length bs" "8 * (d div 8) = d"
        using idx less.prems(4) by (simp, simp only: minus_mod_eq_mult_div [symmetric] diff_zero)
      then show ?thesis by simp
    qed
    have get: "bb_get_bits bb n = Some (word_of_bits ?x, bb\<lparr>pos := pos bb + n\<rparr>)"
      using less.prems 2 by (intro bb_get_bits_ok) simp_all
    have "take (d + n) (bits_of (bs[d div 8 := ?w])) = take (d + n) (take (d + 8) (overwrite (bits_of bs) d (byte_bits ?w)))"
      using bits_of_set_byte [OF less.prems(4) l] 2 by simp
    also have "\<dots> = take d (bits_of bs) @ take n (byte_bits ?w)"
      using take_overwrite [of d "byte_bits ?w" "bits_of bs"] l 2 by (simp add: byte_bits_def)
    also have "take n (byte_bits ?w) = ?x"
      using 2 lx by (intro byte_bits_take) simp_all
    finally show ?thesis
      using 2 get idx by (simp add: get_body_from.simps [of bb] Let_def)
  next
    case 3
    with less.prems show ?thesis
      by (simp add: get_body_from.simps [of bb])
  qed
qed

lemma get_body_ok:
  assumes "bb_inv bb" "n \<le> bb_remaining bb" "n \<le> 8 * length bs"
  shows "\<exists>bs'. get_body bb bs n = Some (bb\<lparr>pos := pos bb + n\<rparr>, bs') \<and> length bs' = length bs \<and>
     take n (bits_of bs') = take n (bb_rest bb)"
proof -
  let ?k = "(n + 7) div 8"
  have "?k \<le> length bs" using assms(3) by simp
  then have "length (replicate ?k 0 @ drop ?k bs) = length bs" by simp
  with get_body_from_ok [of bb n 0 "replicate ?k 0 @ drop ?k bs"] assms show ?thesis
    by (simp add: get_body_def Let_def)
qed

section \<open>The on-air bit string of a PDU\<close>

definition llc_ctrl_bits :: "LlcPdu \<Rightarrow> bool list" where
  "llc_ctrl_bits pdu =
     (if llc_pdu_type_has_nr (pdu_type pdu) then [bit (nr pdu) 0] else []) @
     (if llc_pdu_type_has_ns (pdu_type pdu) then [bit (ns pdu) 0] else [])"

definition llc_covered_bits :: "LlcPdu \<Rightarrow> bool list" where
  "llc_covered_bits pdu = word_bits 4 (of_nat (LlcPduType_code (pdu_type pdu)) :: u32) @ llc_ctrl_bits pdu
     @ take (body_len_bits pdu) (bits_of (body pdu))"

definition llc_pdu_bits :: "LlcPdu \<Rightarrow> bool list" where
  "llc_pdu_bits pdu = llc_covered_bits pdu @
     (if llc_pdu_type_has_fcs (pdu_type pdu) then word_bits 32 (crc_bits (llc_covered_bits pdu)) else [])"

definition llc_pdu_wf :: "LlcPdu \<Rightarrow> bool" where
  "llc_pdu_wf pdu \<longleftrightarrow> pdu_type pdu \<noteq> LlcPdu_Unknown \<and> length (body pdu) = LLC_PDU_BODY_MAX_BYTES
     \<and> body_len_bits pdu \<le> 256 \<and> (pdu_type pdu = LlcPdu_AL_SETUP \<longrightarrow> body_len_bits pdu = 0)"

lemma llc_type_valid [simp]: "llc_pdu_type_is_valid (LlcPduType_code t) \<longleftrightarrow> t \<noteq> LlcPdu_Unknown"
  by (cases t) (simp_all add: llc_pdu_type_is_valid_def)

lemma llc_type_less: "t \<noteq> LlcPdu_Unknown \<Longrightarrow> LlcPduType_code t < 16"
  by (cases t) simp_all

lemma llc_AL_SETUP_simps [simp]: "\<not> llc_pdu_type_has_fcs LlcPdu_AL_SETUP"
  by (simp add: llc_pdu_type_has_fcs_def bit_simps)

lemma word_bits_1: "word_bits 1 (ucast (x :: u8) AND 1 :: u32) = [bit x 0]"
  by (simp add: word_bits_def bit_simps)

lemma word_bits_and_F: "word_bits 4 (v AND 0xF :: u32) = word_bits 4 v"
  using word_bits_and_mask [of 4 v] by (simp add: mask_eq_exp_minus_1)

lemma fits_32 [simp]: "fits 32 v"
  by (simp add: fits_def take_bit_word_eq_self)

lemma word_of_bits_32: "word_of_bits (word_bits 32 a) = (a :: u32)"
  by (simp add: word_of_bits_word_bits take_bit_word_eq_self)

lemma word_bits_32_inj:
  assumes "word_bits 32 a = word_bits 32 b"
  shows "a = (b :: u32)"
  using arg_cong [OF assms, of "word_of_bits :: bool list \<Rightarrow> u32"] unfolding word_of_bits_32 .

lemma bb_pos_inv [simp]: "bb_inv bb \<Longrightarrow> bb_pos_bits bb + start bb = pos bb"
  by (simp add: bb_inv_def bb_pos_bits_def)

lemma length_bb_out: "bb_inv bb \<Longrightarrow> length (bb_out bb) = pos bb"
  by (auto simp: bb_inv_def bb_out_def)

text \<open>The window between two cursor positions holds what was written between them.\<close>

lemma bb_out_window:
  assumes "bb_inv a" "bb_inv b" "bb_out b = bb_out a @ xs"
  shows "pos b = pos a + length xs" "take (pos b - pos a) (drop (pos a) (bits_of (buffer b))) = xs"
proof -
  show "pos b = pos a + length xs"
    using length_bb_out [OF assms(1)] length_bb_out [OF assms(2)] assms(3) by simp
  have "drop (pos a) (bb_out b) = xs"
    using length_bb_out [OF assms(1)] assms(3) by simp
  then show "take (pos b - pos a) (drop (pos a) (bits_of (buffer b))) = xs"
    by (simp add: bb_out_def drop_take)
qed

lemma llc_pdu_encode_ok:
  assumes inv: "bb_inv out" and wf: "llc_pdu_wf pdu" and room: "length (llc_pdu_bits pdu) \<le> bb_room out"
  shows "\<exists>out'. llc_pdu_encode out pdu = Some (Inr (length (llc_pdu_bits pdu)), out') \<and> bb_inv out' \<and>
     bb_out out' = bb_out out @ llc_pdu_bits pdu"
proof -
  let ?t = "pdu_type pdu" and ?n = "body_len_bits pdu"
  let ?nr = "llc_pdu_type_has_nr ?t" and ?ns = "llc_pdu_type_has_ns ?t" and ?f = "llc_pdu_type_has_fcs ?t"
  let ?tv = "of_nat (LlcPduType_code ?t) AND 0xF :: u32"
  have len: "length (take ?n (bits_of (body pdu))) = ?n" and n: "?n \<le> 8 * length (body pdu)"
    using wf by (simp_all add: llc_pdu_wf_def LLC_PDU_BODY_MAX_BYTES_def)
  have room': "4 + (if ?nr then 1 else 0) + (if ?ns then 1 else 0) + ?n + (if ?f then 32 else 0) \<le> bb_room out"
    using room len unfolding llc_pdu_bits_def llc_covered_bits_def llc_ctrl_bits_def by auto
  have fit: "fits 4 ?tv" "fits 1 (ucast (nr pdu) AND 1)" "fits 1 (ucast (ns pdu) AND 1)"
    using fits_and_mask [of 4] fits_and_mask [of 1] by (simp_all add: mask_eq_exp_minus_1)
  obtain o1 where o1: "bb_put_bits out ?tv 4 = Some o1" "bb_inv o1"
      "bb_out o1 = bb_out out @ word_bits 4 (of_nat (LlcPduType_code ?t) :: u32)" "bb_room o1 = bb_room out - 4"
    using bb_sink.put_ok [OF inv fit(1)] room' by (auto simp: word_bits_and_F)
  obtain o2 where o2: "(if ?nr then bb_put_bits o1 (ucast (nr pdu) AND 1) 1 else Some o1) = Some o2" "bb_inv o2"
      "bb_out o2 = bb_out o1 @ (if ?nr then [bit (nr pdu) 0] else [])" "bb_room o2 = bb_room o1 - (if ?nr then 1 else 0)"
  proof -
    have "(if ?nr then 1 else 0) \<le> bb_room o1" using room' o1(4) by auto
    from bb_sink.put_if_ok [OF o1(2) fit(2) this] that show thesis
      unfolding word_bits_1 by (elim exE conjE)
  qed
  obtain o3 where o3: "(if ?ns then bb_put_bits o2 (ucast (ns pdu) AND 1) 1 else Some o2) = Some o3" "bb_inv o3"
      "bb_out o3 = bb_out o2 @ (if ?ns then [bit (ns pdu) 0] else [])" "bb_room o3 = bb_room o2 - (if ?ns then 1 else 0)"
  proof -
    have "(if ?ns then 1 else 0) \<le> bb_room o2" using room' o1(4) o2(4) by auto
    from bb_sink.put_if_ok [OF o2(2) fit(3) this] that show thesis
      unfolding word_bits_1 by (elim exE conjE)
  qed
  have r3: "?n \<le> bb_room o3"
    using room' o1(4) o2(4) o3(4) by auto
  obtain o4 where o4: "(if ?n > 0 then put_body o3 (body pdu) ?n else Some o3) = Some o4" "bb_inv o4"
      "bb_out o4 = bb_out o3 @ take ?n (bits_of (body pdu))" "bb_room o4 = bb_room o3 - ?n"
    using put_body_ok [OF o3(2) r3 n] o3(2) by (cases "?n = 0") auto
  have out4: "bb_out o4 = bb_out out @ llc_covered_bits pdu"
    using o1(3) o2(3) o3(3) o4(3) by (simp add: llc_covered_bits_def llc_ctrl_bits_def)
  note win = bb_out_window [OF inv o4(2) out4]
  have "pos out < pos o4" "pos o4 \<le> 8 * length (buffer o4)"
    using win(1) o4(2) by (simp_all add: llc_covered_bits_def bb_inv_def)
  from crc_window_eq [OF this] win(2)
  have crc: "crc32_over_bb_window o4 (pos out) (pos o4) = Some (crc_bits (llc_covered_bits pdu))"
    by simp
  obtain o5 where o5: "(if ?f then bb_put_bits o4 (crc_bits (llc_covered_bits pdu)) 32 else Some o4) = Some o5"
      "bb_inv o5" "bb_out o5 = bb_out o4 @ (if ?f then word_bits 32 (crc_bits (llc_covered_bits pdu)) else [])"
  proof -
    have "(if ?f then 32 else 0) \<le> bb_room o4" using room' o1(4) o2(4) o3(4) o4(4) by auto
    from bb_sink.put_if_ok [OF o4(2) fits_32 this, of "crc_bits (llc_covered_bits pdu)"] that show thesis
      by (elim exE conjE)
  qed
  have out5: "bb_out o5 = bb_out out @ llc_pdu_bits pdu"
    using o5(3) out4 by (simp add: llc_pdu_bits_def)
  have "llc_pdu_encode out pdu = Some (Inr (pos o5 - pos out), o5)"
    unfolding llc_pdu_encode_def using wf o1(1) o2(1) o3(1) o4(1) o5(1) inv o4(2) o5(2) crc
    by (auto simp: llc_pdu_wf_def LLC_PDU_BODY_MAX_BYTES_def Let_def split: if_splits)
  with out5 o5(2) bb_out_window(1) [OF inv o5(2) out5] show ?thesis
    by simp
qed

section \<open>Decoding\<close>

lemma get_body_adv:
  assumes "bb_inv bb" "k + n \<le> bb_remaining bb" "n \<le> 8 * length bs"
  shows "\<exists>bs'. get_body (bb_adv bb k) bs n = Some (bb_adv bb (k + n), bs') \<and> length bs' = length bs \<and>
     take n (bits_of bs') = take n (drop k (bb_rest bb))"
proof -
  have "bb_inv (bb_adv bb k)" "n \<le> bb_remaining (bb_adv bb k)"
    using assms by (simp_all add: bb_inv_adv)
  from get_body_ok [OF this assms(3)] show ?thesis
    by (simp add: bb_rest_adv) (simp add: bb_adv_def add.assoc)
qed

lemma crc_window_adv:
  assumes "bb_inv bb" "0 < k" "k \<le> bb_remaining bb"
  shows "crc32_over_bb_window (bb_adv bb j) (pos bb) (pos bb + k) = Some (crc_bits (take k (bb_rest bb)))"
proof -
  have "pos bb + k \<le> 8 * length (buffer bb)" "k \<le> end_bits bb - pos bb"
    using assms by (auto simp: bb_inv_def bb_remaining_def)
  with assms(2) show ?thesis
    by (simp add: crc_window_eq bb_rest_def min_def)
qed

definition llc_ctrl_len :: "LlcPduType \<Rightarrow> nat" where
  "llc_ctrl_len t = (if llc_pdu_type_has_nr t then 1 else 0) + (if llc_pdu_type_has_ns t then 1 else 0)"

lemma bb_pos_adv [simp]:
  "bb_inv bb \<Longrightarrow> bb_pos_bits (bb_adv bb k) + start bb = pos bb + k"
  by (simp add: bb_pos_bits_def bb_inv_def)

text \<open>Each stage as a function of the bits that remain.\<close>

lemma decode_ctrl_adv:
  assumes "bb_inv bb" "k + llc_ctrl_len (pdu_type out) \<le> bb_remaining bb" "t = pdu_type out"
  shows "decode_ctrl (bb_adv bb k) out = Some (bb_adv bb (k + llc_ctrl_len t),
     out\<lparr>nr := (if llc_pdu_type_has_nr t then ucast (word_of_bits (take 1 (drop k (bb_rest bb))) :: u32) else nr out),
         ns := (if llc_pdu_type_has_ns t
                then ucast (word_of_bits (take 1 (drop (k + (if llc_pdu_type_has_nr t then 1 else 0)) (bb_rest bb))) :: u32)
                else ns out)\<rparr>)"
  using assms bb_get_adv [OF assms(1), of 1 k] bb_get_adv [OF assms(1), of 1 "k + 1"]
  by (auto simp: decode_ctrl_def llc_ctrl_len_def split: if_splits)

lemma decode_fcs_adv:
  assumes "bb_inv bb" "0 < k" "k \<le> bb_remaining bb"
  shows "decode_fcs (pos bb) (bb_adv bb k) out =
    (if llc_pdu_type_has_fcs (pdu_type out) then
       if bb_remaining bb - k < 32 then Some (Inl EPROTO, bb_adv bb k, out)
       else Some (Inr (), bb_adv bb (k + 32),
              out\<lparr>fcs := word_of_bits (take 32 (drop k (bb_rest bb))),
                  fcs_valid := (word_of_bits (take 32 (drop k (bb_rest bb))) = crc_bits (take k (bb_rest bb)))\<rparr>)
     else Some (Inr (), bb_adv bb k, out))"
  using assms bb_get_adv [OF assms(1), of 32 k] crc_window_adv [OF assms, of k]
  by (simp add: decode_fcs_def Let_def)

lemma decode_body_adv:
  assumes "bb_inv bb" "0 < k" "k \<le> bb_remaining bb" "body_len_bits out \<le> 8 * length (body out)"
    "n = body_len_bits out"
  shows "\<exists>bs. length bs = length (body out) \<and>
     (n \<le> bb_remaining bb - k \<longrightarrow> take n (bits_of bs) = take n (drop k (bb_rest bb))) \<and>
     decode_body (pos bb) (bb_adv bb k) out =
       (if bb_remaining bb - k < n then Some (Inl EPROTO, bb_adv bb k, out)
        else decode_fcs (pos bb) (bb_adv bb (k + n)) (out\<lparr>body := bs\<rparr>))"
proof (cases "n = 0")
  case True
  with assms(5) show ?thesis
    by (intro exI [of _ "body out"]) (simp add: decode_body_def)
next
  case False
  show ?thesis
  proof (cases "bb_remaining bb - k < n")
    case True
    with False assms(5) show ?thesis
      by (intro exI [of _ "body out"]) (simp add: decode_body_def)
  next
    case fits: False
    then have "k + n \<le> bb_remaining bb" "n \<le> 8 * length (body out)"
      using assms(3-5) by simp_all
    from get_body_adv [OF assms(1) this] fits False assms(5) show ?thesis
      by (auto simp: decode_body_def)
  qed
qed

lemma llc_pdu_decode_unfold:
  assumes "bb_inv inb" "body_len_bits out \<le> 256" "4 \<le> bb_remaining inb"
    and "raw = word_of_bits (take 4 (bb_rest inb))" "t = LlcPduType_of_code (unat raw)"
    and "o1 = out\<lparr>pdu_type := t, nr := 0, ns := 0, fcs := 0, fcs_valid := False\<rparr>"
  shows "llc_pdu_decode inb out =
    (if \<not> llc_pdu_type_is_valid (unat (raw :: u32))
     then Some (Inl EPROTO, bb_adv inb 4, out\<lparr>pdu_type := LlcPdu_Unknown\<rparr>)
     else if t = LlcPdu_AL_SETUP then Some (Inr (), bb_adv inb 4, o1\<lparr>body_len_bits := 0\<rparr>)
     else if bb_remaining inb - 4 < llc_ctrl_len t then Some (Inl EPROTO, bb_adv inb 4, o1)
     else Option.bind (decode_ctrl (bb_adv inb 4) o1) (\<lambda>(i, o'). decode_body (pos inb) i o'))"
proof -
  have g: "bb_get_bits inb 4 = Some (raw, bb_adv inb 4)"
    using bb_get_adv [OF assms(1), of 4 0] assms(3,4) by simp
  show ?thesis
    using assms(2,3) bb_pos_inv [OF assms(1)] unfolding llc_pdu_decode_def assms(5,6) llc_ctrl_len_def
    by (simp add: LLC_PDU_BODY_MAX_BYTES_def Let_def g)
qed

lemma llc_pdu_decode_total:
  assumes inv: "bb_inv inb" and len: "length (body out) = LLC_PDU_BODY_MAX_BYTES"
  shows "\<exists>r. llc_pdu_decode inb out = Some r"
proof (cases "body_len_bits out > LLC_PDU_BODY_MAX_BYTES * 8 \<or> bb_remaining inb < 4")
  case True
  then show ?thesis by (auto simp: llc_pdu_decode_def Let_def)
next
  case False
  define raw :: u32 where "raw = word_of_bits (take 4 (bb_rest inb))"
  define t where "t = LlcPduType_of_code (unat raw)"
  define o1 where "o1 = out\<lparr>pdu_type := t, nr := 0, ns := 0, fcs := 0, fcs_valid := False\<rparr>"
  have "\<exists>r. Option.bind (decode_ctrl (bb_adv inb 4) o1) (\<lambda>(i, o'). decode_body (pos inb) i o') = Some r"
    if c: "\<not> bb_remaining inb - 4 < llc_ctrl_len t"
  proof -
    let ?k = "4 + llc_ctrl_len t"
    obtain o2 where o2: "decode_ctrl (bb_adv inb 4) o1 = Some (bb_adv inb ?k, o2)"
        "body o2 = body out" "body_len_bits o2 = body_len_bits out"
    proof (rule that [OF decode_ctrl_adv [OF inv]])
      show "4 + llc_ctrl_len (pdu_type o1) \<le> bb_remaining inb" "t = pdu_type o1"
        using c False by (auto simp: o1_def)
    qed (simp_all add: o1_def)
    moreover have "\<exists>r. decode_body (pos inb) (bb_adv inb ?k) o2 = Some r"
    proof -
      have "?k \<le> bb_remaining inb" "body_len_bits o2 \<le> 8 * length (body o2)"
        using c False len o2 by (auto simp: LLC_PDU_BODY_MAX_BYTES_def)
      from decode_body_adv [OF inv _ this refl] decode_fcs_adv [OF inv, of "?k + body_len_bits o2"] this(1)
      show ?thesis by (auto split: if_splits)
    qed
    ultimately show ?thesis by simp
  qed
  then show ?thesis
    using llc_pdu_decode_unfold [OF inv _ _ raw_def t_def o1_def] False
    by (simp add: LLC_PDU_BODY_MAX_BYTES_def)
qed

text \<open>Decoding the bit string of a PDU, with any frame check sequence in the FCS position.\<close>

lemma decode_bits_ok:
  assumes inv: "bb_inv inb" and t: "t \<noteq> LlcPdu_Unknown" "t \<noteq> LlcPdu_AL_SETUP"
    and rest: "bb_rest inb = word_bits 4 (of_nat (LlcPduType_code t) :: u32) @ C @ X @ F @ r"
    and lens: "length C = llc_ctrl_len t" "length X = body_len_bits out"
      "length F = (if llc_pdu_type_has_fcs t then 32 else 0)"
    and out: "length (body out) = LLC_PDU_BODY_MAX_BYTES" "body_len_bits out \<le> 256"
  shows "\<exists>i o'. llc_pdu_decode inb out = Some (Inr (), i, o') \<and> pdu_type o' = t \<and>
     body_len_bits o' = body_len_bits out \<and> length (body o') = LLC_PDU_BODY_MAX_BYTES \<and>
     take (body_len_bits out) (bits_of (body o')) = X \<and>
     nr o' = (if llc_pdu_type_has_nr t then of_bool (C ! 0) else 0) \<and>
     ns o' = (if llc_pdu_type_has_ns t then of_bool (C ! (if llc_pdu_type_has_nr t then 1 else 0)) else 0) \<and>
     (fcs_valid o' \<longleftrightarrow> llc_pdu_type_has_fcs t \<and>
        (word_of_bits F :: u32) = crc_bits (word_bits 4 (of_nat (LlcPduType_code t) :: u32) @ C @ X))"
proof -
  let ?T = "word_bits 4 (of_nat (LlcPduType_code t) :: u32)" and ?n = "body_len_bits out"
  let ?k = "4 + llc_ctrl_len t" and ?f = "llc_pdu_type_has_fcs t"
  define raw :: u32 where "raw = word_of_bits (take 4 (bb_rest inb))"
  define o1 where "o1 = out\<lparr>pdu_type := t, nr := 0, ns := 0, fcs := 0, fcs_valid := False\<rparr>"
  have "raw = of_nat (LlcPduType_code t)"
    using llc_type_less [OF t(1)] unfolding raw_def rest
    by (simp add: word_of_bits_word_bits take_bit_eq_mod unsigned_of_nat word_unat_eq_iff unat_mod)
  then have raw: "unat raw = LlcPduType_code t"
    using llc_type_less [OF t(1)] by (simp add: unat_of_nat)
  have rem: "bb_remaining inb = ?k + ?n + (if ?f then 32 else 0) + length r"
    using length_bb_rest [OF inv] rest lens by simp
  have tt: "t = LlcPduType_of_code (unat raw)"
    by (simp add: raw)
  have dec: "llc_pdu_decode inb out = Option.bind (decode_ctrl (bb_adv inb 4) o1) (\<lambda>(i, o'). decode_body (pos inb) i o')"
    using llc_pdu_decode_unfold [OF inv out(2) _ raw_def tt o1_def] rem t raw by simp
  have d4: "drop 4 (bb_rest inb) = C @ X @ F @ r"
    by (simp add: rest)
  have b1: "take 1 (drop 4 (bb_rest inb)) = [C ! 0]" if "llc_pdu_type_has_nr t"
    using lens(1) that unfolding d4 by (cases C) (auto simp: llc_ctrl_len_def)
  have b2: "take 1 (drop (4 + (if llc_pdu_type_has_nr t then 1 else 0)) (bb_rest inb))
      = [C ! (if llc_pdu_type_has_nr t then 1 else 0)]" if "llc_pdu_type_has_ns t"
    using lens(1) that by (cases C; cases "tl C") (auto simp: rest llc_ctrl_len_def split: if_splits)
  define o2 where "o2 = o1\<lparr>nr := (if llc_pdu_type_has_nr t then of_bool (C ! 0) else 0),
     ns := (if llc_pdu_type_has_ns t then of_bool (C ! (if llc_pdu_type_has_nr t then 1 else 0)) else 0)\<rparr>"
  have one: "ucast (word_of_bits [b] :: u32) = (of_bool b :: u8)" for b
    by (simp add: word_of_bits_def)
  have ctrl: "decode_ctrl (bb_adv inb 4) o1 = Some (bb_adv inb ?k, o2)"
  proof -
    have n: "(if llc_pdu_type_has_nr t then ucast (word_of_bits (take 1 (drop 4 (bb_rest inb))) :: u32) else nr o1)
        = (if llc_pdu_type_has_nr t then of_bool (C ! 0) else (0 :: u8))"
      using b1 one by (cases "llc_pdu_type_has_nr t") (simp_all only: if_True if_False, simp add: o1_def)
    have s: "(if llc_pdu_type_has_ns t
          then ucast (word_of_bits (take 1 (drop (4 + (if llc_pdu_type_has_nr t then 1 else 0)) (bb_rest inb))) :: u32)
          else ns o1)
        = (if llc_pdu_type_has_ns t then of_bool (C ! (if llc_pdu_type_has_nr t then 1 else 0)) else (0 :: u8))"
      using b2 one by (cases "llc_pdu_type_has_ns t") (simp_all only: if_True if_False, simp add: o1_def)
    have "4 + llc_ctrl_len (pdu_type o1) \<le> bb_remaining inb" "t = pdu_type o1"
      using rem by (simp_all add: o1_def)
    from decode_ctrl_adv [OF inv this] show ?thesis
      unfolding n s o2_def .
  qed
  have "0 < ?k" "?k \<le> bb_remaining inb" "body_len_bits o2 \<le> 8 * length (body o2)" "?n = body_len_bits o2"
    using rem out by (simp_all add: o1_def o2_def LLC_PDU_BODY_MAX_BYTES_def)
  from decode_body_adv [OF inv this] obtain bs where bs: "length bs = length (body o2)"
      "?n \<le> bb_remaining inb - ?k \<longrightarrow> take ?n (bits_of bs) = take ?n (drop ?k (bb_rest inb))"
      "decode_body (pos inb) (bb_adv inb ?k) o2 =
       (if bb_remaining inb - ?k < ?n then Some (Inl EPROTO, bb_adv inb ?k, o2)
        else decode_fcs (pos inb) (bb_adv inb (?k + ?n)) (o2\<lparr>body := bs\<rparr>))"
    by (elim exE conjE)
  have X: "take ?n (bits_of bs) = X"
    using bs(2) rem rest lens by simp
  have TX: "take (?k + ?n) (bb_rest inb) = ?T @ C @ X" "?f \<Longrightarrow> take 32 (drop (?k + ?n) (bb_rest inb)) = F"
    using rest lens by simp_all
  have "decode_fcs (pos inb) (bb_adv inb (?k + ?n)) (o2\<lparr>body := bs\<rparr>) =
     (if ?f then Some (Inr (), bb_adv inb (?k + ?n + 32), o2\<lparr>body := bs, fcs := word_of_bits F,
          fcs_valid := (word_of_bits F = crc_bits (?T @ C @ X))\<rparr>)
      else Some (Inr (), bb_adv inb (?k + ?n), o2\<lparr>body := bs\<rparr>))"
    using decode_fcs_adv [OF inv, of "?k + ?n" "o2\<lparr>body := bs\<rparr>"] rem TX by (simp add: o1_def o2_def)
  then have "llc_pdu_decode inb out = (if ?f then Some (Inr (), bb_adv inb (?k + ?n + 32), o2\<lparr>body := bs,
        fcs := word_of_bits F, fcs_valid := (word_of_bits F = crc_bits (?T @ C @ X))\<rparr>)
      else Some (Inr (), bb_adv inb (?k + ?n), o2\<lparr>body := bs\<rparr>))"
    using dec ctrl bs(3) rem by simp
  then show ?thesis
    using X bs(1) out(1) by (auto simp: o1_def o2_def)
qed

text \<open>Equality of two PDUs as far as the air interface carries them.\<close>

definition llc_same_pdu :: "LlcPdu \<Rightarrow> LlcPdu \<Rightarrow> bool" where
  "llc_same_pdu a b \<longleftrightarrow> pdu_type a = pdu_type b \<and> body_len_bits a = body_len_bits b
     \<and> (llc_pdu_type_has_nr (pdu_type b) \<longrightarrow> bit (nr a) 0 = bit (nr b) 0)
     \<and> (llc_pdu_type_has_ns (pdu_type b) \<longrightarrow> bit (ns a) 0 = bit (ns b) 0)
     \<and> take (body_len_bits b) (bits_of (body a)) = take (body_len_bits b) (bits_of (body b))"

lemma llc_wf_lens:
  assumes "llc_pdu_wf pdu"
  shows "length (llc_ctrl_bits pdu) = llc_ctrl_len (pdu_type pdu)"
    "length (take (body_len_bits pdu) (bits_of (body pdu))) = body_len_bits pdu" "body_len_bits pdu \<le> 256"
  using assms by (simp_all add: llc_ctrl_bits_def llc_ctrl_len_def llc_pdu_wf_def LLC_PDU_BODY_MAX_BYTES_def)

lemma decode_AL_SETUP:
  assumes inv: "bb_inv inb" and rest: "bb_rest inb = word_bits 4 (8 :: u32) @ r" and out: "body_len_bits out \<le> 256"
  shows "llc_pdu_decode inb out = Some (Inr (), bb_adv inb 4,
     out\<lparr>pdu_type := LlcPdu_AL_SETUP, nr := 0, ns := 0, fcs := 0, fcs_valid := False, body_len_bits := 0\<rparr>)"
proof -
  have "word_of_bits (take 4 (bb_rest inb)) = (8 :: u32)"
    unfolding rest by (simp add: word_of_bits_word_bits take_bit_eq_mask mask_eq_exp_minus_1)
  moreover have "4 \<le> bb_remaining inb"
    using length_bb_rest [OF inv] rest by simp
  ultimately show ?thesis
    using llc_pdu_decode_unfold [OF inv out _ refl refl refl]
    by (simp add: llc_pdu_type_is_valid_def LlcPduType_of_code_def)
qed

lemma llc_decode_encoded:
  assumes inv: "bb_inv inb" and wf: "llc_pdu_wf pdu" and rest: "bb_rest inb = llc_pdu_bits pdu @ r"
    and out: "length (body out) = LLC_PDU_BODY_MAX_BYTES" "body_len_bits out = body_len_bits pdu"
  shows "\<exists>i o'. llc_pdu_decode inb out = Some (Inr (), i, o') \<and> llc_same_pdu o' pdu \<and>
     fcs_valid o' = llc_pdu_type_has_fcs (pdu_type pdu) \<and> nr o' \<in> {0, 1} \<and> ns o' \<in> {0, 1}"
proof (cases "pdu_type pdu = LlcPdu_AL_SETUP")
  case True
  then have "bb_rest inb = word_bits 4 (8 :: u32) @ r"
    using rest wf by (simp add: llc_pdu_bits_def llc_covered_bits_def llc_ctrl_bits_def llc_pdu_wf_def)
  from decode_AL_SETUP [OF inv this] True wf out(2) show ?thesis
    by (simp add: llc_same_pdu_def llc_pdu_wf_def)
next
  case False
  let ?t = "pdu_type pdu" and ?X = "take (body_len_bits pdu) (bits_of (body pdu))"
  let ?F = "if llc_pdu_type_has_fcs ?t then word_bits 32 (crc_bits (llc_covered_bits pdu)) else []"
  have rest': "bb_rest inb = word_bits 4 (of_nat (LlcPduType_code ?t) :: u32) @ llc_ctrl_bits pdu @ ?X @ ?F @ r"
    using rest by (simp add: llc_pdu_bits_def llc_covered_bits_def)
  have tu: "?t \<noteq> LlcPdu_Unknown"
    using wf by (simp add: llc_pdu_wf_def)
  have lens: "length (llc_ctrl_bits pdu) = llc_ctrl_len ?t" "length ?X = body_len_bits out"
      "length ?F = (if llc_pdu_type_has_fcs ?t then 32 else 0)" "body_len_bits out \<le> 256"
    using llc_wf_lens [OF wf] out(2) by simp_all
  from decode_bits_ok [OF inv tu False rest' lens(1-3) out(1) lens(4)]
  obtain i o' where o': "llc_pdu_decode inb out = Some (Inr (), i, o')" "pdu_type o' = ?t"
      "body_len_bits o' = body_len_bits out" "take (body_len_bits out) (bits_of (body o')) = ?X"
      "nr o' = (if llc_pdu_type_has_nr ?t then of_bool (llc_ctrl_bits pdu ! 0) else 0)"
      "ns o' = (if llc_pdu_type_has_ns ?t then of_bool (llc_ctrl_bits pdu ! (if llc_pdu_type_has_nr ?t then 1 else 0)) else 0)"
      "fcs_valid o' \<longleftrightarrow> llc_pdu_type_has_fcs ?t \<and> (word_of_bits ?F :: u32) =
         crc_bits (word_bits 4 (of_nat (LlcPduType_code ?t) :: u32) @ llc_ctrl_bits pdu @ ?X)"
    by (elim exE conjE)
  have "word_of_bits (word_bits 32 (crc_bits (llc_covered_bits pdu)) ) = crc_bits (llc_covered_bits pdu)"
    by (simp add: word_of_bits_word_bits take_bit_word_eq_self)
  with o'(7) have "fcs_valid o' = llc_pdu_type_has_fcs ?t"
    by (simp add: llc_covered_bits_def)
  moreover have "llc_same_pdu o' pdu"
    using o'(2-6) out(2) by (auto simp: llc_same_pdu_def llc_ctrl_bits_def bit_simps)
  moreover have "nr o' \<in> {0, 1}" "ns o' \<in> {0, 1}"
    by (simp_all add: o'(5,6))
  ultimately show ?thesis
    using o'(1) by blast
qed

section \<open>Properties\<close>

text \<open>
  C1: the LLC round trip. For every well-formed PDU of every type, \<open>llc_pdu_encode\<close> succeeds when
  the buffer has room and returns the number of bits it appends; a decoder positioned on those bits,
  whatever follows them, returns 0 and recovers type, sequence bits and body, and reports
  \<open>fcs_valid\<close> exactly for the FCS-bearing types.
\<close>

theorem llc_pdu_roundtrip:
  assumes "bb_inv out" "llc_pdu_wf pdu" "length (llc_pdu_bits pdu) \<le> bb_room out"
  shows "\<exists>out' n. llc_pdu_encode out pdu = Some (Inr n, out') \<and> pos out' = pos out + n \<and>
     (\<forall>inb r o0. bb_inv inb \<and> bb_rest inb = drop (pos out) (bb_out out') @ r \<and>
        length (body o0) = LLC_PDU_BODY_MAX_BYTES \<and> body_len_bits o0 = body_len_bits pdu \<longrightarrow>
        (\<exists>i o'. llc_pdu_decode inb o0 = Some (Inr (), i, o') \<and> llc_same_pdu o' pdu \<and>
           fcs_valid o' = llc_pdu_type_has_fcs (pdu_type pdu)))"
proof -
  obtain out' where o': "llc_pdu_encode out pdu = Some (Inr (length (llc_pdu_bits pdu)), out')" "bb_inv out'"
      "bb_out out' = bb_out out @ llc_pdu_bits pdu"
    using llc_pdu_encode_ok [OF assms] by (elim exE conjE)
  have "drop (pos out) (bb_out out') = llc_pdu_bits pdu"
    using o'(3) length_bb_out [OF assms(1)] by simp
  moreover have "\<exists>i o'. llc_pdu_decode inb o0 = Some (Inr (), i, o') \<and> llc_same_pdu o' pdu \<and>
      fcs_valid o' = llc_pdu_type_has_fcs (pdu_type pdu)"
    if "bb_inv inb" "bb_rest inb = llc_pdu_bits pdu @ r" "length (body o0) = LLC_PDU_BODY_MAX_BYTES"
      "body_len_bits o0 = body_len_bits pdu" for inb r o0
    using llc_decode_encoded [OF that(1) assms(2) that(2-4)] by blast
  ultimately show ?thesis
    using o'(1) bb_out_window(1) [OF assms(1) o'(2,3)]
    by (intro exI [of _ out'] exI [of _ "length (llc_pdu_bits pdu)"]) auto
qed

definition ex_pdu :: LlcPdu where
  "ex_pdu = \<lparr>pdu_type = LlcPdu_BL_ADATA_FCS, nr = 1, ns = 0, body_len_bits = 13,
     body = [0xA5, 0xF8] @ replicate 30 0, fcs = 0, fcs_valid = False\<rparr>"

lemma ex_pdu_wf: "llc_pdu_wf ex_pdu"
  by (simp add: ex_pdu_def llc_pdu_wf_def LLC_PDU_BODY_MAX_BYTES_def)

lemma ex_pdu_length: "length (llc_pdu_bits ex_pdu) = 51"
  by (simp add: llc_pdu_bits_def llc_covered_bits_def llc_ctrl_bits_def ex_pdu_def
      llc_pdu_type_has_fcs_def bit_simps)

theorem llc_pdu_roundtrip_witness:
  "\<exists>out' n. llc_pdu_encode (bb_init_autoexpand (replicate 64 0) 512) ex_pdu = Some (Inr n, out') \<and>
     pos out' = pos (bb_init_autoexpand (replicate 64 0) 512) + n \<and>
     (\<forall>inb r o0. bb_inv inb \<and> bb_rest inb = drop (pos (bb_init_autoexpand (replicate 64 0) 512)) (bb_out out') @ r \<and>
        length (body o0) = LLC_PDU_BODY_MAX_BYTES \<and> body_len_bits o0 = body_len_bits ex_pdu \<longrightarrow>
        (\<exists>i o'. llc_pdu_decode inb o0 = Some (Inr (), i, o') \<and> llc_same_pdu o' ex_pdu \<and>
           fcs_valid o' = llc_pdu_type_has_fcs (pdu_type ex_pdu)))"
  by (rule llc_pdu_roundtrip) (simp_all add: ex_pdu_wf ex_pdu_length)

text \<open>
  C20: the frame check sequence detects every single-bit error. If exactly one bit of an FCS-bearing
  PDU after the type field is inverted on the air, in the sequence bits, the body or the FCS itself,
  the decoder still returns 0 but reports \<open>fcs_valid = false\<close>.
\<close>

theorem llc_fcs_detects_bit_error:
  assumes "bb_inv inb" "llc_pdu_wf pdu" "llc_pdu_type_has_fcs (pdu_type pdu)"
    and "4 \<le> i" "i < length (llc_pdu_bits pdu)"
    and "bb_rest inb = (llc_pdu_bits pdu)[i := \<not> llc_pdu_bits pdu ! i] @ r"
    and "length (body o0) = LLC_PDU_BODY_MAX_BYTES" "body_len_bits o0 = body_len_bits pdu"
  shows "\<exists>b o'. llc_pdu_decode inb o0 = Some (Inr (), b, o') \<and> \<not> fcs_valid o'"
proof -
  let ?t = "pdu_type pdu" and ?L = "llc_pdu_bits pdu" and ?V = "llc_covered_bits pdu"
  define T where "T = word_bits 4 (of_nat (LlcPduType_code ?t) :: u32)"
  let ?E = "?L[i := \<not> ?L ! i]"
  let ?k = "llc_ctrl_len ?t" and ?n = "body_len_bits pdu"
  have L: "?L = ?V @ word_bits 32 (crc_bits ?V)" and lV: "length ?V = 4 + ?k + ?n"
    and V: "?V = T @ drop 4 ?V" "length T = 4"
    using assms(3) llc_wf_lens [OF assms(2)]
    by (simp_all add: llc_pdu_bits_def llc_covered_bits_def T_def)
  define C X F where "C = take ?k (drop 4 ?E)" and "X = take ?n (drop (4 + ?k) ?E)" and "F = drop (4 + ?k + ?n) ?E"
  have lens: "length C = ?k" "length X = body_len_bits o0" "length F = (if llc_pdu_type_has_fcs ?t then 32 else 0)"
    using L lV assms(3,8) by (simp_all add: C_def X_def F_def)
  have t4: "take 4 ?E = T"
  proof -
    have "take 4 ?E = take 4 ?L"
      using assms(4) by (simp add: take_update_cancel)
    also have "\<dots> = take 4 (T @ drop 4 ?V @ word_bits 32 (crc_bits ?V))"
      using L V(1) by (metis append.assoc)
    finally show ?thesis
      using V(2) by simp
  qed
  have E: "?E = T @ C @ X @ F"
    unfolding t4 [symmetric] C_def X_def F_def
    by (metis append_take_drop_id drop_drop add.commute)
  have rest: "bb_rest inb = word_bits 4 (of_nat (LlcPduType_code ?t) :: u32) @ C @ X @ F @ r"
    using assms(6) E by (simp add: T_def)
  have tu: "?t \<noteq> LlcPdu_Unknown" "?t \<noteq> LlcPdu_AL_SETUP" "body_len_bits o0 \<le> 256"
    using assms(2,3,8) by (auto simp: llc_pdu_wf_def)
  from decode_bits_ok [OF assms(1) tu(1,2) rest lens assms(7) tu(3)]
  obtain b o' where o': "llc_pdu_decode inb o0 = Some (Inr (), b, o')"
      "fcs_valid o' \<longleftrightarrow> (word_of_bits F :: u32) = crc_bits (T @ C @ X)"
    using assms(3) unfolding T_def by auto
  have F0: "word_of_bits F = crc_bits (T @ C @ X) \<longleftrightarrow> F = word_bits 32 (crc_bits (T @ C @ X))"
    using word_bits_word_of_bits [of F, where ?'a = 32] lens(3) assms(3)
      word_of_bits_word_bits [of 32 "crc_bits (T @ C @ X)", where ?'a = 32]
    by (auto simp: take_bit_word_eq_self)
  have TCX: "T @ C @ X = take (4 + ?k + ?n) ?E"
    using E lens V(2) assms(8) by simp
  have "F \<noteq> word_bits 32 (crc_bits (T @ C @ X))"
  proof (cases "i < 4 + ?k + ?n")
    case True
    then have "T @ C @ X = ?V[i := \<not> ?V ! i]" "F = word_bits 32 (crc_bits ?V)"
      unfolding TCX F_def using L lV by (simp_all add: nth_append list_update_append)
    with crc_bits_single_error [of i ?V] True lV show ?thesis
      using word_bits_32_inj [of "crc_bits ?V" "crc_bits (?V[i := \<not> ?V ! i])"] by auto
  next
    case False
    then have tv: "T @ C @ X = ?V" and f: "F = (word_bits 32 (crc_bits ?V))[i - length ?V := \<not> word_bits 32 (crc_bits ?V) ! (i - length ?V)]"
      unfolding TCX F_def using L lV by (simp_all add: nth_append list_update_append)
    have j: "i - length ?V < length (word_bits 32 (crc_bits ?V))"
      using assms(5) L lV False by simp
    have "F ! (i - length ?V) \<noteq> word_bits 32 (crc_bits ?V) ! (i - length ?V)"
      unfolding f using j by (simp only: nth_list_update_eq) simp
    then show ?thesis
      unfolding tv by metis
  qed
  with o' F0 show ?thesis by blast
qed

definition ex_fcs_pdu :: LlcPdu where
  "ex_fcs_pdu = \<lparr>pdu_type = LlcPdu_BL_UDATA_FCS, nr = 0, ns = 0, body_len_bits = 4,
     body = [0xA0] @ replicate 31 0, fcs = 0, fcs_valid = False\<rparr>"

lemma ex_fcs_covered: "llc_covered_bits ex_fcs_pdu = [False, True, True, False, True, False, True, False]"
  by code_simp

lemma ex_fcs_crc: "crc_bits [False, True, True, False, True, False, True, False] = 0x500a1b4c"
  by code_simp

definition ex_fcs_air :: "u8 list" where
  "ex_fcs_air = [0x6E, 0x50, 0xA, 0x1B, 0x4C]"

theorem llc_fcs_detects_bit_error_witness:
  "\<exists>b o'. llc_pdu_decode (bb_init ex_fcs_air 40) ex_fcs_pdu = Some (Inr (), b, o') \<and> \<not> fcs_valid o'"
proof (rule llc_fcs_detects_bit_error [where pdu = ex_fcs_pdu and i = 5 and r = "[]"])
  have L: "llc_pdu_bits ex_fcs_pdu = [False, True, True, False, True, False, True, False] @ word_bits 32 (0x500a1b4c :: u32)"
    unfolding llc_pdu_bits_def ex_fcs_covered ex_fcs_crc
    by (simp add: ex_fcs_pdu_def llc_pdu_type_has_fcs_def bit_simps)
  show "bb_rest (bb_init ex_fcs_air 40) = (llc_pdu_bits ex_fcs_pdu)[5 := \<not> llc_pdu_bits ex_fcs_pdu ! 5] @ []"
    unfolding L bb_rest_init by code_simp
  show "5 < length (llc_pdu_bits ex_fcs_pdu)" by (simp add: L)
qed (simp_all add: ex_fcs_air_def ex_fcs_pdu_def llc_pdu_wf_def llc_pdu_type_has_fcs_def
      LLC_PDU_BODY_MAX_BYTES_def bit_simps)

text \<open>
  The comment above \<open>llc_crc32\<close> says that a receiver feeding data and appended FCS in the same
  order gets the residue \<open>0xDEBB20E3\<close>. The encoder appends the FCS most significant bit first,
  while the register is reflected: the register is then something else.
\<close>

theorem llc_residue_not_constant:
  "foldl crc_step LLC_CRC32_INIT (llc_pdu_bits ex_fcs_pdu) \<noteq> LLC_CRC32_RESIDUE"
  by code_simp

text \<open>
  The decoder never aborts. On any well-formed cursor over any bytes from the air, and for any
  caller-supplied body length, \<open>llc_pdu_decode\<close> returns, with 0 or an error code: no assert
  fails and no access leaves the input buffer or the 32-byte body.
\<close>

theorem llc_pdu_decode_never_aborts:
  assumes "bb_inv inb" "length (body out) = LLC_PDU_BODY_MAX_BYTES"
  shows "\<exists>rc inb' out'. llc_pdu_decode inb out = Some (rc, inb', out')"
  using llc_pdu_decode_total [OF assms] by auto

theorem llc_pdu_decode_never_aborts_witness:
  "\<exists>rc inb' out'. llc_pdu_decode (bb_init [0xFF, 0x01] 11) ex_pdu = Some (rc, inb', out')"
  by (rule llc_pdu_decode_never_aborts) (simp_all add: ex_pdu_def LLC_PDU_BODY_MAX_BYTES_def)

end
