(* ===== verification/MsgBus.thy ===== *)
theory MsgBus
  imports Core_Types
begin

text \<open>
  The message bus of \<open>sw/core/src/msgbus.c\<close>: three ring-buffered priority buckets with
  payload slots, a registration table, \<open>msgbus_post\<close> and \<open>msgbus_dispatch_one\<close>. A handler
  (callback and context) is a value of a type \<open>'h\<close>. Dispatch runs handlers over a system state
  \<open>'s\<close> that contains the bus, so a handler may post while it is being called, as the entities
  do. The ring buffers are shown to implement bounded FIFO queues (locale \<open>bounded_fifo\<close>),
  and a message being dispatched keeps its payload whatever its handlers post.
\<close>

definition MSGBUS_REG_CAP :: nat where
  "MSGBUS_REG_CAP = 32"

record MsgBusEntry =
  e_src :: SapId
  e_dest :: SapId
  e_sap :: SapId
  e_len :: nat
  in_use :: bool

definition zero_entry :: MsgBusEntry where
  "zero_entry = \<lparr>e_src = SapId_None, e_dest = SapId_None, e_sap = SapId_None, e_len = 0, in_use = False\<rparr>"

text \<open>\<open>sizeof(MsgBusEntry)\<close>: three enumerations of four bytes, a \<open>uint16_t\<close>, a bool, one pad.\<close>

definition sizeof_MsgBusEntry :: nat where
  "sizeof_MsgBusEntry = 16"

record MsgBusCfg =
  queue_cap_per_prio :: nat
  max_payload_bytes :: nat
  entry_storage :: "MsgBusEntry list option"
  entry_storage_bytes :: nat
  payload_storage :: "u8 list option"
  payload_storage_bytes :: nat

record 'h MsgBusReg =
  r_dest :: SapId
  r_sap :: SapId
  cb :: 'h
  active :: bool

record MsgBusQueue =
  entries :: "MsgBusEntry list"
  payloads :: "u8 list"
  cap :: nat
  max_payload :: nat
  head :: nat
  tail :: nat
  qcount :: nat
  drops :: nat

text \<open>
  \<open>regs\<close> lists the registered entries, \<open>reg_count\<close> is its length: the array behind it has
  \<open>MSGBUS_REG_CAP\<close> places.
\<close>

record 'h MsgBus =
  queues :: "MsgBusQueue list"
  regs :: "'h MsgBusReg list"
  initialised :: bool

definition reg_count :: "'h MsgBus \<Rightarrow> nat" where
  "reg_count bus = length (regs bus)"

section \<open>Operations\<close>

definition prio_is_valid :: "MsgPriority \<Rightarrow> bool" where
  "prio_is_valid p \<longleftrightarrow> MsgPriority_code p < MsgPriority_code MsgPrio__Count"

text \<open>The payload bytes of slot \<open>idx\<close> and the \<open>memcpy\<close> into them.\<close>

definition queue_payload_slot :: "MsgBusQueue \<Rightarrow> nat \<Rightarrow> u8 list" where
  "queue_payload_slot q idx = take (max_payload q) (drop (idx * max_payload q) (payloads q))"

definition queue_payload_copy :: "MsgBusQueue \<Rightarrow> nat \<Rightarrow> u8 list \<Rightarrow> MsgBusQueue" where
  "queue_payload_copy q idx bs = q\<lparr>payloads := overwrite (payloads q) (idx * max_payload q) bs\<rparr>"

text \<open>The index of the first non-empty bucket in priority order.\<close>

definition next_nonempty_queue :: "'h MsgBus \<Rightarrow> nat option" where
  "next_nonempty_queue bus = find_index (\<lambda>q. qcount q > 0) (queues bus)"

definition init_queue :: "MsgBusCfg \<Rightarrow> MsgBusQueue" where
  "init_queue cfg =
     \<lparr>entries = replicate (queue_cap_per_prio cfg) zero_entry,
      payloads = replicate (queue_cap_per_prio cfg * max_payload_bytes cfg) 0,
      cap = queue_cap_per_prio cfg, max_payload = max_payload_bytes cfg,
      head = 0, tail = 0, qcount = 0, drops = 0\<rparr>"

text \<open>\<open>msgbus_init\<close>: on an error the bus is returned as it was.\<close>

definition msgbus_init :: "'h MsgBus \<Rightarrow> MsgBusCfg option \<Rightarrow> unit res \<times> 'h MsgBus" where
  "msgbus_init bus cfg_opt =
     (case cfg_opt of
        None \<Rightarrow> (Inl EINVAL, bus)
      | Some cfg \<Rightarrow>
          if queue_cap_per_prio cfg = 0 \<or> max_payload_bytes cfg = 0 then (Inl EINVAL, bus)
          else if entry_storage cfg = None \<or> payload_storage cfg = None then (Inl EINVAL, bus)
          else
            let total_entries = queue_cap_per_prio cfg * 3;
                need_entry_b = total_entries * sizeof_MsgBusEntry;
                need_payload_b = total_entries * max_payload_bytes cfg
            in if entry_storage_bytes cfg < need_entry_b \<or> payload_storage_bytes cfg < need_payload_b
               then (Inl EINVAL, bus)
               else (Inr (), \<lparr>queues = replicate 3 (init_queue cfg), regs = [], initialised = True\<rparr>))"

definition msgbus_register :: "'h MsgBus \<Rightarrow> SapId \<Rightarrow> SapId \<Rightarrow> 'h \<Rightarrow> unit res \<times> 'h MsgBus" where
  "msgbus_register bus d s h =
     (if \<not> initialised bus then (Inl EINVAL, bus)
      else if \<not> sap_id_is_valid d \<or> \<not> sap_id_is_valid s then (Inl EINVAL, bus)
      else if reg_count bus \<ge> MSGBUS_REG_CAP then (Inl ENOSPC, bus)
      else (Inr (), bus\<lparr>regs := regs bus @ [\<lparr>r_dest = d, r_sap = s, cb = h, active = True\<rparr>]\<rparr>))"

text \<open>The bucket part of \<open>msgbus_post\<close>.\<close>

definition queue_push :: "MsgBusQueue \<Rightarrow> SapMsg \<Rightarrow> unit res \<times> MsgBusQueue" where
  "queue_push q msg =
     (if len msg > max_payload q then (Inl E2BIG, q)
      else if qcount q = cap q then (Inl ENOSPC, q\<lparr>drops := drops q + 1\<rparr>)
      else
        let e = \<lparr>e_src = src msg, e_dest = dest msg, e_sap = sap msg, e_len = len msg, in_use = True\<rparr>;
            q = q\<lparr>entries := (entries q)[tail q := e]\<rparr>;
            q = (case payload msg of
                   Some bs \<Rightarrow> if len msg > 0 then queue_payload_copy q (tail q) (take (len msg) bs) else q
                 | None \<Rightarrow> q)
        in (Inr (), q\<lparr>tail := (tail q + 1) mod cap q, qcount := qcount q + 1\<rparr>))"

definition msgbus_post :: "'h MsgBus \<Rightarrow> MsgPriority \<Rightarrow> SapMsg \<Rightarrow> unit res \<times> 'h MsgBus" where
  "msgbus_post bus prio msg =
     (if \<not> initialised bus then (Inl EINVAL, bus)
      else if \<not> prio_is_valid prio then (Inl EINVAL, bus)
      else if \<not> sap_id_is_valid (dest msg) \<or> \<not> sap_id_is_valid (sap msg) then (Inl EINVAL, bus)
      else
        let p = MsgPriority_code prio;
            (r, q) = queue_push (queues bus ! p) msg
        in (r, bus\<lparr>queues := (queues bus)[p := q]\<rparr>))"

text \<open>
  The message seen by a handler: the envelope is built once from the entry at the head, its payload
  pointer refers to the slot, so the bytes are those the slot holds when the handler runs.
\<close>

definition msg_at :: "MsgBusEntry \<Rightarrow> MsgBusQueue \<Rightarrow> nat \<Rightarrow> SapMsg" where
  "msg_at e q idx =
     \<lparr>src = e_src e, dest = e_dest e, sap = e_sap e, len = e_len e,
      payload = (if e_len e > 0 then Some (take (e_len e) (queue_payload_slot q idx)) else None)\<rparr>"

text \<open>
  The fan-out loop, from registration \<open>i\<close> on. \<open>fuel\<close> bounds the iterations: registrations
  never exceed \<open>MSGBUS_REG_CAP\<close>, so the loop starts with that bound.
\<close>

fun fanout :: "('s \<Rightarrow> 'h MsgBus) \<Rightarrow> ('h \<Rightarrow> SapMsg \<Rightarrow> 's \<Rightarrow> 's) \<Rightarrow> MsgBusEntry \<Rightarrow> nat \<Rightarrow> nat \<Rightarrow>
    nat \<Rightarrow> nat \<Rightarrow> 's \<Rightarrow> 's" where
  "fanout get call e p idx 0 i s = s"
| "fanout get call e p idx (Suc fuel) i s =
     (let bus = get s in
      if i < reg_count bus then
        let r = regs bus ! i;
            s = (if \<not> active r then s
                 else if r_dest r = e_dest e \<and> r_sap r = e_sap e
                      then call (cb r) (msg_at e (queues bus ! p) idx) s
                 else s)
        in fanout get call e p idx fuel (i + 1) s
      else s)"

text \<open>Freeing the entry at the head, the last part of \<open>msgbus_dispatch_one\<close>.\<close>

definition queue_pop :: "nat \<Rightarrow> MsgBusQueue \<Rightarrow> MsgBusQueue" where
  "queue_pop idx q =
     q\<lparr>entries := (entries q)[idx := (entries q ! idx)\<lparr>in_use := False\<rparr>],
       head := (head q + 1) mod cap q, qcount := qcount q - 1\<rparr>"

text \<open>\<open>msgbus_dispatch_one\<close>: the return value 0, 1 or an error, and the system state after.\<close>

definition msgbus_dispatch_one ::
  "('s \<Rightarrow> 'h MsgBus) \<Rightarrow> ('h MsgBus \<Rightarrow> 's \<Rightarrow> 's) \<Rightarrow> ('h \<Rightarrow> SapMsg \<Rightarrow> 's \<Rightarrow> 's) \<Rightarrow> 's \<Rightarrow> nat res \<times> 's" where
  "msgbus_dispatch_one get put call s =
     (let bus = get s in
      if \<not> initialised bus then (Inl EINVAL, s)
      else
        case next_nonempty_queue bus of
          None \<Rightarrow> (Inr 0, s)
        | Some p \<Rightarrow>
            let q = queues bus ! p;
                idx = head q;
                e = entries q ! idx;
                s = fanout get call e p idx MSGBUS_REG_CAP 0 s;
                bus = get s
            in (Inr 1, put (bus\<lparr>queues := (queues bus)[p := queue_pop idx (queues bus ! p)]\<rparr>) s))"

text \<open>\<open>None\<close> is the sentinel \<open>SIZE_MAX\<close>.\<close>

definition msgbus_drops :: "'h MsgBus \<Rightarrow> MsgPriority \<Rightarrow> nat option" where
  "msgbus_drops bus prio =
     (if \<not> initialised bus \<or> \<not> prio_is_valid prio then None
      else Some (drops (queues bus ! MsgPriority_code prio)))"

definition msgbus_pending :: "'h MsgBus \<Rightarrow> nat" where
  "msgbus_pending bus =
     (if \<not> initialised bus then 0 else sum_list (map qcount (queues bus)))"

section \<open>A bucket is a bounded queue\<close>

definition queue_inv :: "MsgBusQueue \<Rightarrow> bool" where
  "queue_inv q \<longleftrightarrow> cap q > 0 \<and> length (entries q) = cap q \<and> length (payloads q) = cap q * max_payload q
     \<and> head q < cap q \<and> tail q < cap q \<and> qcount q \<le> cap q \<and> tail q = (head q + qcount q) mod cap q
     \<and> (\<forall>k<qcount q. e_len (entries q ! ((head q + k) mod cap q)) \<le> max_payload q
           \<and> in_use (entries q ! ((head q + k) mod cap q)))"

text \<open>The messages held, oldest first.\<close>

definition queue_abs :: "MsgBusQueue \<Rightarrow> SapMsg list" where
  "queue_abs q =
     map (\<lambda>k. let i = (head q + k) mod cap q in msg_at (entries q ! i) q i) [0..<qcount q]"

text \<open>
  The envelope a subscriber sees for a posted message: a zero-length message loses its payload
  pointer, others carry exactly \<open>len\<close> bytes.
\<close>

definition norm_msg :: "SapMsg \<Rightarrow> SapMsg" where
  "norm_msg m = m\<lparr>payload := (if len m > 0 then map_option (take (len m)) (payload m) else None)\<rparr>"

text \<open>A message whose payload pointer covers its length, as every caller of the bus provides.\<close>

definition msg_ok :: "SapMsg \<Rightarrow> bool" where
  "msg_ok m \<longleftrightarrow> (len m > 0 \<longrightarrow> (\<exists>bs. payload m = Some bs \<and> len m \<le> length bs))"

locale bounded_fifo =
  fixes inv :: "'q \<Rightarrow> bool" and abs :: "'q \<Rightarrow> 'm list" and capacity :: "'q \<Rightarrow> nat"
    and acc :: "'q \<Rightarrow> 'a \<Rightarrow> bool" and view :: "'a \<Rightarrow> 'm"
    and push :: "'q \<Rightarrow> 'a \<Rightarrow> unit res \<times> 'q" and pop :: "'q \<Rightarrow> 'q"
  assumes push_ok: "inv q \<Longrightarrow> acc q m \<Longrightarrow> length (abs q) < capacity q \<Longrightarrow>
      fst (push q m) = Inr () \<and> inv (snd (push q m)) \<and> abs (snd (push q m)) = abs q @ [view m]
      \<and> capacity (snd (push q m)) = capacity q"
    and push_full: "inv q \<Longrightarrow> acc q m \<Longrightarrow> length (abs q) = capacity q \<Longrightarrow>
      fst (push q m) = Inl ENOSPC \<and> inv (snd (push q m)) \<and> abs (snd (push q m)) = abs q
      \<and> capacity (snd (push q m)) = capacity q"
    and acc_stable: "inv q \<Longrightarrow> acc q m \<Longrightarrow> acc (snd (push q m)) m' = acc q m'"
    and bounded: "inv q \<Longrightarrow> length (abs q) \<le> capacity q"
    and pop_ok: "inv q \<Longrightarrow> abs q \<noteq> [] \<Longrightarrow> inv (pop q) \<and> abs (pop q) = tl (abs q)"
begin

fun push_all :: "'q \<Rightarrow> 'a list \<Rightarrow> 'q" where
  "push_all q [] = q"
| "push_all q (m # ms) = push_all (snd (push q m)) ms"

text \<open>A burst of posts is kept in order up to the capacity; what is beyond is dropped.\<close>

lemma push_all_abs:
  assumes "inv q" "\<forall>m\<in>set ms. acc q m"
  shows "inv (push_all q ms) \<and> abs (push_all q ms) = take (capacity q) (abs q @ map view ms)"
  using assms
proof (induction ms arbitrary: q)
  case Nil
  then show ?case using bounded by simp
next
  case (Cons m ms)
  have m: "acc q m" and q: "inv q"
    using Cons.prems by auto
  have "\<forall>m'\<in>set ms. acc (snd (push q m)) m'"
    using Cons.prems acc_stable [OF q m] by simp
  note IH = Cons.IH [OF _ this]
  show ?case
  proof (cases "length (abs q) < capacity q")
    case True
    from push_ok [OF q m this] IH show ?thesis by simp
  next
    case False
    then have full: "length (abs q) = capacity q"
      using bounded [OF q] by simp
    from push_full [OF q m this] IH full show ?thesis by simp
  qed
qed

end

lemma ring_index_neq:
  fixes c :: nat
  assumes "i < j" "j < c"
  shows "(h + i) mod c \<noteq> (h + j) mod c"
  using mod_add_inj_le [of h i c j] assms by auto

lemma slot_disjoint:
  fixes i t mp j :: nat
  assumes "i \<noteq> t" "j < mp" "n \<le> mp"
  shows "\<not> (t * mp \<le> i * mp + j \<and> i * mp + j < t * mp + n)"
proof (cases "i < t")
  case True
  then have "Suc i * mp \<le> t * mp"
    by (intro mult_le_mono1) simp
  with assms(2) show ?thesis by simp
next
  case False
  with assms(1) have "Suc t * mp \<le> i * mp"
    by (intro mult_le_mono1) simp
  with assms(3) show ?thesis by simp
qed

lemma slot_in_storage: "i < c \<Longrightarrow> i * mp + mp \<le> c * (mp :: nat)"
  using mult_le_mono1 [of "Suc i" c mp] by simp

lemma payload_slot_copy_other:
  assumes "i \<noteq> t" "i < cap q" "t < cap q" "length bs \<le> max_payload q"
    and "length (payloads q) = cap q * max_payload q"
  shows "queue_payload_slot (queue_payload_copy q t bs) i = queue_payload_slot q i"
proof -
  let ?mp = "max_payload q" and ?P = "payloads q"
  have b: "t * ?mp + length bs \<le> length ?P" "i * ?mp + ?mp \<le> length ?P"
    using slot_in_storage [OF assms(2), of ?mp] slot_in_storage [OF assms(3), of ?mp] assms(4,5) by simp_all
  have "overwrite ?P (t * ?mp) bs ! (i * ?mp + j) = ?P ! (i * ?mp + j)" if "j < ?mp" for j
    using that b slot_disjoint [OF assms(1) that assms(4)] by (subst nth_overwrite) auto
  then show ?thesis
    using b by (simp add: queue_payload_slot_def queue_payload_copy_def take_drop_eq_nth)
qed

lemma payload_slot_copy_same:
  assumes "t < cap q" "length bs \<le> max_payload q" "length (payloads q) = cap q * max_payload q"
  shows "take (length bs) (queue_payload_slot (queue_payload_copy q t bs) t) = bs"
proof -
  have "t * max_payload q + length bs \<le> length (payloads q)"
    using slot_in_storage [OF assms(1), of "max_payload q"] assms(2,3) by simp
  with assms(2) show ?thesis
    by (simp add: queue_payload_slot_def queue_payload_copy_def take_drop_overwrite min_def)
qed

text \<open>What \<open>queue_push\<close> stores when there is room, as one record update.\<close>

definition msg_entry :: "SapMsg \<Rightarrow> MsgBusEntry" where
  "msg_entry m = \<lparr>e_src = src m, e_dest = dest m, e_sap = sap m, e_len = len m, in_use = True\<rparr>"

definition stored_payloads :: "MsgBusQueue \<Rightarrow> SapMsg \<Rightarrow> u8 list" where
  "stored_payloads q m =
     (case payload m of
        Some bs \<Rightarrow> if len m > 0 then payloads (queue_payload_copy q (tail q) (take (len m) bs)) else payloads q
      | None \<Rightarrow> payloads q)"

lemma queue_push_room:
  "len m \<le> max_payload q \<Longrightarrow> qcount q \<noteq> cap q \<Longrightarrow>
   queue_push q m = (Inr (), q\<lparr>entries := (entries q)[tail q := msg_entry m],
      payloads := stored_payloads q m, tail := (tail q + 1) mod cap q, qcount := qcount q + 1\<rparr>)"
  by (auto simp: queue_push_def Let_def msg_entry_def stored_payloads_def queue_payload_copy_def
      split: option.splits)

definition push_acc :: "MsgBusQueue \<Rightarrow> SapMsg \<Rightarrow> bool" where
  "push_acc q m \<longleftrightarrow> msg_ok m \<and> len m \<le> max_payload q"

lemma stored_payloads_length:
  assumes "queue_inv q" "push_acc q m"
  shows "length (stored_payloads q m) = cap q * max_payload q"
proof -
  have "tail q * max_payload q + len m \<le> length (payloads q)"
    using slot_in_storage [of "tail q" "cap q" "max_payload q"] assms
    by (simp add: queue_inv_def push_acc_def)
  with assms show ?thesis
    by (auto simp: stored_payloads_def queue_payload_copy_def queue_inv_def push_acc_def msg_ok_def
        split: option.splits)
qed

lemma queue_payload_slot_eq:
  assumes "payloads q' = stored_payloads q m" "max_payload q' = max_payload q"
    "queue_inv q" "push_acc q m" "i < cap q" "i \<noteq> tail q"
  shows "queue_payload_slot q' i = queue_payload_slot q i"
proof -
  have "queue_payload_slot (queue_payload_copy q (tail q) (take (len m) bs)) i = queue_payload_slot q i" for bs
    using assms by (intro payload_slot_copy_other) (auto simp: queue_inv_def push_acc_def)
  with assms(1,2) show ?thesis
    unfolding queue_payload_slot_def stored_payloads_def
    by (auto simp: queue_payload_copy_def split: option.splits if_splits)
qed

lemma queue_payload_slot_new:
  assumes "payloads q' = stored_payloads q m" "max_payload q' = max_payload q"
    "queue_inv q" "push_acc q m" "len m > 0"
  shows "Some (take (len m) (queue_payload_slot q' (tail q))) = payload (norm_msg m)"
proof -
  obtain bs where bs: "payload m = Some bs" "len m \<le> length bs"
    using assms(4,5) by (auto simp: push_acc_def msg_ok_def)
  have "take (length (take (len m) bs)) (queue_payload_slot (queue_payload_copy q (tail q) (take (len m) bs)) (tail q))
      = take (len m) bs"
    using assms(3,4) by (intro payload_slot_copy_same) (auto simp: queue_inv_def push_acc_def)
  with bs assms(1,2,5) show ?thesis
    unfolding queue_payload_slot_def stored_payloads_def norm_msg_def
    by (simp add: queue_payload_copy_def min_absorb1)
qed

lemma length_queue_abs [simp]: "length (queue_abs q) = qcount q"
  by (simp add: queue_abs_def)

lemma queue_push_ok:
  assumes "queue_inv q" "push_acc q m" "qcount q < cap q"
  shows "fst (queue_push q m) = Inr () \<and> queue_inv (snd (queue_push q m))
     \<and> queue_abs (snd (queue_push q m)) = queue_abs q @ [norm_msg m]
     \<and> cap (snd (queue_push q m)) = cap q"
proof -
  let ?q = "q\<lparr>entries := (entries q)[tail q := msg_entry m],
      payloads := stored_payloads q m, tail := (tail q + 1) mod cap q, qcount := qcount q + 1\<rparr>"
  have push: "queue_push q m = (Inr (), ?q)"
    using assms by (intro queue_push_room) (simp_all add: push_acc_def)
  have t: "tail q = (head q + qcount q) mod cap q" "tail q < cap q" "cap q > 0" "length (entries q) = cap q"
    using assms(1) by (simp_all add: queue_inv_def)
  have other: "(head q + k) mod cap q \<noteq> tail q" if "k < qcount q" for k
    using ring_index_neq [OF that assms(3), of "head q"] t(1) by simp
  have ent: "entries ?q ! ((head q + k) mod cap q) = entries q ! ((head q + k) mod cap q)"
    if "k < qcount q" for k
    using other [OF that] by simp
  have ent_new: "entries ?q ! tail q = msg_entry m"
    using t by simp
  have slot: "queue_payload_slot ?q ((head q + k) mod cap q) = queue_payload_slot q ((head q + k) mod cap q)"
    if "k < qcount q" for k
    using other [OF that] t(3) assms by (intro queue_payload_slot_eq) simp_all
  have "queue_inv ?q"
    unfolding queue_inv_def
  proof (intro conjI allI impI)
    fix k
    assume "k < qcount ?q"
    then have "k < qcount q \<or> k = qcount q" by auto
    then show "e_len (entries ?q ! ((head ?q + k) mod cap ?q)) \<le> max_payload ?q"
        "in_use (entries ?q ! ((head ?q + k) mod cap ?q))"
      using assms ent ent_new t(1) by (auto simp: queue_inv_def msg_entry_def push_acc_def)
  qed (use assms t stored_payloads_length [OF assms(1,2)] in
       \<open>simp_all add: queue_inv_def mod_Suc_eq mod_simps\<close>)
  moreover have "queue_abs ?q = queue_abs q @ [norm_msg m]"
  proof -
    have "msg_at (entries ?q ! i) ?q i = msg_at (entries q ! i) q i"
      if "k < qcount q" "i = (head q + k) mod cap q" for k i
      using ent [OF that(1)] slot [OF that(1)] that(2) by (simp add: msg_at_def)
    moreover have "msg_at (entries ?q ! tail q) ?q (tail q) = norm_msg m"
      using queue_payload_slot_new [of ?q q m] assms(1,2) unfolding ent_new
      by (auto simp: msg_at_def norm_msg_def msg_entry_def)
    ultimately show ?thesis
      using t(1) by (simp add: queue_abs_def Let_def)
  qed
  ultimately show ?thesis
    using push by simp
qed

lemma queue_push_full:
  assumes "queue_inv q" "push_acc q m" "qcount q = cap q"
  shows "fst (queue_push q m) = Inl ENOSPC \<and> queue_inv (snd (queue_push q m))
     \<and> queue_abs (snd (queue_push q m)) = queue_abs q \<and> cap (snd (queue_push q m)) = cap q"
  using assms
  by (auto simp: queue_push_def push_acc_def queue_inv_def queue_abs_def Let_def msg_at_def
      queue_payload_slot_def)

lemma queue_push_max_payload [simp]: "max_payload (snd (queue_push q m)) = max_payload q"
  by (auto simp: queue_push_def Let_def queue_payload_copy_def split: option.splits)

lemma queue_pop_ok:
  assumes "queue_inv q" "qcount q > 0"
  shows "queue_inv (queue_pop (head q) q) \<and> queue_abs (queue_pop (head q) q) = tl (queue_abs q)"
proof -
  let ?q = "queue_pop (head q) q"
  have q: "cap q > 0" "head q < cap q" "length (entries q) = cap q" "qcount q \<le> cap q"
      "tail q = (head q + qcount q) mod cap q"
    using assms(1) by (simp_all add: queue_inv_def)
  have ent: "entries ?q ! ((head q + Suc k) mod cap q) = entries q ! ((head q + Suc k) mod cap q)"
    if "Suc k < qcount q" for k
  proof -
    have "(head q + 0) mod cap q \<noteq> (head q + Suc k) mod cap q"
      using that q(4) by (intro ring_index_neq) auto
    then show ?thesis
      using q(2) by (simp add: queue_pop_def)
  qed
  have idx: "((head q + 1) mod cap q + k) mod cap q = (head q + Suc k) mod cap q" for k
    by (simp add: mod_simps)
  have "queue_inv ?q"
    unfolding queue_inv_def
  proof (intro conjI allI impI)
    fix k
    assume "k < qcount ?q"
    then have k: "Suc k < qcount q" by (simp add: queue_pop_def)
    have "(head ?q + k) mod cap ?q = (head q + Suc k) mod cap q"
      using idx by (simp add: queue_pop_def)
    moreover have "max_payload ?q = max_payload q"
      by (simp add: queue_pop_def)
    moreover have "e_len (entries q ! ((head q + Suc k) mod cap q)) \<le> max_payload q"
        "in_use (entries q ! ((head q + Suc k) mod cap q))"
      using assms(1) k unfolding queue_inv_def by blast+
    ultimately show "e_len (entries ?q ! ((head ?q + k) mod cap ?q)) \<le> max_payload ?q"
        "in_use (entries ?q ! ((head ?q + k) mod cap ?q))"
      using ent [OF k] by (simp_all only:)
  next
    show "tail ?q = (head ?q + qcount ?q) mod cap ?q"
      using q(5) assms(2) idx [of "qcount q - 1"] by (simp add: queue_pop_def)
  qed (use assms q in \<open>simp_all add: queue_inv_def queue_pop_def\<close>)
  moreover have "queue_abs ?q = tl (queue_abs q)"
  proof (rule nth_equalityI)
    fix k
    assume "k < length (queue_abs ?q)"
    then have k: "Suc k < qcount q" by (simp add: queue_pop_def)
    have h: "head ?q = (head q + 1) mod cap q" "cap ?q = cap q" "qcount ?q = qcount q - 1"
        "payloads ?q = payloads q" "max_payload ?q = max_payload q"
      by (simp_all add: queue_pop_def)
    show "queue_abs ?q ! k = tl (queue_abs q) ! k"
      using k ent [OF k] by (simp add: queue_abs_def nth_tl Let_def h idx [simplified] msg_at_def
          queue_payload_slot_def)
  qed (simp add: queue_pop_def)
  ultimately show ?thesis by simp
qed

interpretation bucket: bounded_fifo queue_inv queue_abs cap push_acc norm_msg queue_push
  "\<lambda>q. queue_pop (head q) q"
proof unfold_locales
  show "length (queue_abs q) \<le> cap q" if "queue_inv q" for q
    using that by (simp add: queue_inv_def)
qed (use queue_push_ok queue_push_full queue_pop_ok in
     \<open>auto simp: push_acc_def simp flip: length_greater_0_conv\<close>)

section \<open>The bus\<close>

definition bus_inv :: "'h MsgBus \<Rightarrow> bool" where
  "bus_inv bus \<longleftrightarrow> initialised bus \<and> length (queues bus) = 3 \<and> (\<forall>q\<in>set (queues bus). queue_inv q)
     \<and> reg_count bus \<le> MSGBUS_REG_CAP"

text \<open>What each bucket holds, in priority order.\<close>

definition bus_abs :: "'h MsgBus \<Rightarrow> SapMsg list list" where
  "bus_abs bus = map queue_abs (queues bus)"

definition post_acc :: "'h MsgBus \<Rightarrow> MsgPriority \<Rightarrow> SapMsg \<Rightarrow> bool" where
  "post_acc bus prio msg \<longleftrightarrow> prio_is_valid prio \<and> sap_id_is_valid (dest msg) \<and> sap_id_is_valid (sap msg)
     \<and> push_acc (queues bus ! MsgPriority_code prio) msg"

lemma init_queue_inv:
  "queue_cap_per_prio cfg > 0 \<Longrightarrow> queue_inv (init_queue cfg)"
  by (simp add: queue_inv_def init_queue_def)

lemma msgbus_init_inv:
  assumes "msgbus_init bus cfg = (Inr (), bus')"
  shows "bus_inv bus'" "bus_abs bus' = [[], [], []]" "regs bus' = []"
  using assms
  by (auto simp: msgbus_init_def Let_def bus_inv_def reg_count_def bus_abs_def queue_abs_def
      numeral_3_eq_3 init_queue_inv init_queue_def [of "the cfg"] split: option.splits if_splits)
    (auto simp: init_queue_def)

lemma msgbus_register_inv:
  "bus_inv bus \<Longrightarrow> bus_inv (snd (msgbus_register bus d sp h))"
  by (auto simp: msgbus_register_def bus_inv_def reg_count_def)

lemma msgbus_register_abs [simp]: "bus_abs (snd (msgbus_register bus d sp h)) = bus_abs bus"
  by (auto simp: msgbus_register_def bus_abs_def)

lemma prio_code_less: "prio_is_valid p \<Longrightarrow> MsgPriority_code p < 3"
  by (simp add: prio_is_valid_def)

lemma queue_abs_drops [simp]: "queue_abs (q\<lparr>drops := n\<rparr>) = queue_abs q"
  by (simp add: queue_abs_def msg_at_def queue_payload_slot_def Let_def)

lemma queue_inv_drops [simp]: "queue_inv (q\<lparr>drops := n\<rparr>) = queue_inv q"
  by (simp add: queue_inv_def)

lemma queue_push_too_big: "len m > max_payload q \<Longrightarrow> queue_push q m = (Inl E2BIG, q)"
  by (simp add: queue_push_def)

text \<open>A post with a valid priority and destination is a push on one bucket.\<close>

lemma msgbus_post_push:
  "initialised bus \<Longrightarrow> prio_is_valid prio \<Longrightarrow> sap_id_is_valid (dest msg) \<Longrightarrow> sap_id_is_valid (sap msg) \<Longrightarrow>
   msgbus_post bus prio msg =
     (fst (queue_push (queues bus ! MsgPriority_code prio) msg),
      bus\<lparr>queues := (queues bus)[MsgPriority_code prio := snd (queue_push (queues bus ! MsgPriority_code prio) msg)]\<rparr>)"
  by (simp add: msgbus_post_def split_beta Let_def)

lemma msgbus_post_reject:
  "\<not> (initialised bus \<and> prio_is_valid prio \<and> sap_id_is_valid (dest msg) \<and> sap_id_is_valid (sap msg)) \<Longrightarrow>
   msgbus_post bus prio msg = (Inl EINVAL, bus)"
  by (auto simp: msgbus_post_def)

lemma bus_inv_queue: "bus_inv bus \<Longrightarrow> p < 3 \<Longrightarrow> queue_inv (queues bus ! p)"
  by (simp add: bus_inv_def)

lemma bus_inv_update:
  "bus_inv bus \<Longrightarrow> queue_inv q \<Longrightarrow> bus_inv (bus\<lparr>queues := (queues bus)[p := q]\<rparr>)"
  using list_update_all [of "queues bus" queue_inv q p] by (simp add: bus_inv_def reg_count_def)

lemma bus_abs_update:
  "bus_abs (bus\<lparr>queues := (queues bus)[p := q]\<rparr>) = (bus_abs bus)[p := queue_abs q]"
  by (simp add: bus_abs_def map_update)

lemma bus_abs_nth: "bus_inv bus \<Longrightarrow> p < 3 \<Longrightarrow> bus_abs bus ! p = queue_abs (queues bus ! p)"
  by (simp add: bus_abs_def bus_inv_def)

lemma bus_inv_initialised: "bus_inv bus \<Longrightarrow> initialised bus"
  by (simp add: bus_inv_def)

text \<open>
  A post that the bus accepts appends the message to its bucket when there is room, and leaves every
  bucket as it was when there is none.
\<close>

lemma msgbus_post_ok:
  assumes "bus_inv bus" "post_acc bus prio msg" "p = MsgPriority_code prio"
    and "qcount (queues bus ! p) < cap (queues bus ! p)"
  shows "fst (msgbus_post bus prio msg) = Inr ()" "bus_inv (snd (msgbus_post bus prio msg))"
    "bus_abs (snd (msgbus_post bus prio msg)) = (bus_abs bus)[p := bus_abs bus ! p @ [norm_msg msg]]"
proof -
  have a: "prio_is_valid prio" "sap_id_is_valid (dest msg)" "sap_id_is_valid (sap msg)"
      "push_acc (queues bus ! p) msg" and p: "p < 3"
    using assms(2,3) prio_code_less by (auto simp: post_acc_def)
  note post = msgbus_post_push [OF bus_inv_initialised [OF assms(1)] a(1-3), folded assms(3)]
    and push = queue_push_ok [OF bus_inv_queue [OF assms(1) p] a(4) assms(4)]
  from push show "fst (msgbus_post bus prio msg) = Inr ()" "bus_inv (snd (msgbus_post bus prio msg))"
    "bus_abs (snd (msgbus_post bus prio msg)) = (bus_abs bus)[p := bus_abs bus ! p @ [norm_msg msg]]"
    unfolding post by (simp_all add: bus_inv_update [OF assms(1)] bus_abs_update bus_abs_nth [OF assms(1) p])
qed

lemma msgbus_post_full:
  assumes "bus_inv bus" "post_acc bus prio msg" "p = MsgPriority_code prio"
    and "qcount (queues bus ! p) = cap (queues bus ! p)"
  shows "fst (msgbus_post bus prio msg) = Inl ENOSPC" "bus_inv (snd (msgbus_post bus prio msg))"
    "bus_abs (snd (msgbus_post bus prio msg)) = bus_abs bus"
    "msgbus_drops (snd (msgbus_post bus prio msg)) prio = map_option Suc (msgbus_drops bus prio)"
proof -
  have a: "prio_is_valid prio" "sap_id_is_valid (dest msg)" "sap_id_is_valid (sap msg)"
      "push_acc (queues bus ! p) msg" and p: "p < 3"
    using assms(2,3) prio_code_less by (auto simp: post_acc_def)
  note post = msgbus_post_push [OF bus_inv_initialised [OF assms(1)] a(1-3), folded assms(3)]
    and push = queue_push_full [OF bus_inv_queue [OF assms(1) p] a(4) assms(4)]
  have "(bus_abs bus)[p := queue_abs (queues bus ! p)] = bus_abs bus"
    using bus_abs_nth [OF assms(1) p] by (metis list_update_id)
  with push show "fst (msgbus_post bus prio msg) = Inl ENOSPC" "bus_inv (snd (msgbus_post bus prio msg))"
    "bus_abs (snd (msgbus_post bus prio msg)) = bus_abs bus"
    unfolding post by (simp_all add: bus_inv_update [OF assms(1)] bus_abs_update)
  have "p < length (queues bus)" "initialised bus"
    using p assms(1) by (simp_all add: bus_inv_def)
  with a assms(3,4) show "msgbus_drops (snd (msgbus_post bus prio msg)) prio = map_option Suc (msgbus_drops bus prio)"
    unfolding post by (simp add: msgbus_drops_def queue_push_def push_acc_def)
qed

text \<open>
  What running code may do to the bus: any sequence of posts, accepted or not, of messages satisfying
  \<open>G\<close>. Every entity of the daemon, called as a handler, changes the bus in this way only.
\<close>

inductive posts_to :: "(SapMsg \<Rightarrow> bool) \<Rightarrow> 'h MsgBus \<Rightarrow> 'h MsgBus \<Rightarrow> bool" for G where
  posts_none [simp, intro]: "posts_to G bus bus"
| posts_more: "posts_to G bus bus' \<Longrightarrow> msg_ok msg \<Longrightarrow> G msg \<Longrightarrow> posts_to G bus (snd (msgbus_post bus' prio msg))"

lemma posts_to_post [intro]: "msg_ok msg \<Longrightarrow> G msg \<Longrightarrow> posts_to G bus (snd (msgbus_post bus prio msg))"
  by (rule posts_more) auto

lemma posts_to_trans [trans]: "posts_to G b c \<Longrightarrow> posts_to G a b \<Longrightarrow> posts_to G a c"
  by (induction rule: posts_to.induct) (auto intro: posts_to.intros)

text \<open>
  What a bucket keeps while its head message is being handled: the ring position, the capacity, and
  all messages already queued, with their payloads.
\<close>

definition queue_grows :: "MsgBusQueue \<Rightarrow> MsgBusQueue \<Rightarrow> bool" where
  "queue_grows q q' \<longleftrightarrow> queue_inv q' \<and> head q' = head q \<and> cap q' = cap q \<and> max_payload q' = max_payload q
     \<and> (\<exists>ms. queue_abs q' = queue_abs q @ ms)"

lemma queue_push_grows:
  assumes "queue_inv q" "msg_ok m"
  shows "queue_grows q (snd (queue_push q m))"
proof -
  consider "len m > max_payload q" | "push_acc q m" "qcount q = cap q" | "push_acc q m" "qcount q < cap q"
    using assms by (fastforce simp: push_acc_def queue_inv_def)
  then show ?thesis
  proof cases
    case 1
    with assms(1) show ?thesis by (simp add: queue_push_too_big queue_grows_def)
  next
    case 2
    with assms(1) show ?thesis by (simp add: queue_push_def push_acc_def queue_grows_def)
  next
    case 3
    moreover have "head (snd (queue_push q m)) = head q"
      using 3 by (simp add: queue_push_room push_acc_def)
    ultimately show ?thesis
      using queue_push_ok [OF assms(1) 3] by (simp add: queue_grows_def)
  qed
qed

lemma queue_grows_refl: "queue_inv q \<Longrightarrow> queue_grows q q"
  by (simp add: queue_grows_def)

lemma queue_grows_trans: "queue_grows q q' \<Longrightarrow> queue_grows q' q'' \<Longrightarrow> queue_grows q q''"
  by (auto simp: queue_grows_def)

definition bus_grows :: "'h MsgBus \<Rightarrow> 'h MsgBus \<Rightarrow> bool" where
  "bus_grows bus bus' \<longleftrightarrow> bus_inv bus' \<and> regs bus' = regs bus
     \<and> (\<forall>p<3. queue_grows (queues bus ! p) (queues bus' ! p))"

lemma bus_grows_refl: "bus_inv bus \<Longrightarrow> bus_grows bus bus"
  by (simp add: bus_grows_def queue_grows_refl bus_inv_queue)

lemma bus_grows_trans: "bus_grows a b \<Longrightarrow> bus_grows b c \<Longrightarrow> bus_grows a c"
  unfolding bus_grows_def by (metis queue_grows_trans)

lemma msgbus_post_grows:
  assumes "bus_inv bus" "msg_ok msg"
  shows "bus_grows bus (snd (msgbus_post bus prio msg))"
proof (cases "initialised bus \<and> prio_is_valid prio \<and> sap_id_is_valid (dest msg) \<and> sap_id_is_valid (sap msg)")
  case True
  let ?p = "MsgPriority_code prio"
  have p: "?p < 3" "length (queues bus) = 3"
    using True prio_code_less assms(1) by (simp_all add: bus_inv_def)
  have push: "queue_grows (queues bus ! ?p) (snd (queue_push (queues bus ! ?p) msg))"
    using bus_inv_queue [OF assms(1) p(1)] assms(2) by (rule queue_push_grows)
  have "queue_grows (queues bus ! i) ((queues bus)[?p := snd (queue_push (queues bus ! ?p) msg)] ! i)"
    if "i < 3" for i
    using push p that bus_inv_queue [OF assms(1) that] by (cases "i = ?p") (simp_all add: queue_grows_refl)
  moreover have "bus_inv (bus\<lparr>queues := (queues bus)[?p := snd (queue_push (queues bus ! ?p) msg)]\<rparr>)"
    using push assms(1) by (intro bus_inv_update) (simp_all add: queue_grows_def)
  ultimately show ?thesis
    using True by (simp add: msgbus_post_push bus_grows_def)
next
  case False
  then show ?thesis
    using assms(1) by (simp add: msgbus_post_reject bus_grows_refl)
qed

lemma posts_to_grows: "posts_to G bus bus' \<Longrightarrow> bus_inv bus \<Longrightarrow> bus_grows bus bus'"
proof (induction rule: posts_to.induct)
  case (posts_none bus)
  then show ?case by (rule bus_grows_refl)
next
  case (posts_more bus bus' msg prio)
  then have "bus_grows bus bus'" "bus_inv bus'"
    by (simp_all add: bus_grows_def)
  then show ?case
    using msgbus_post_grows [of bus' msg prio] posts_more.hyps(2) bus_grows_trans by blast
qed

text \<open>
  Every queued message satisfies \<open>G\<close>, where \<open>G\<close> looks at no more than the queued part of the payload.
\<close>

definition bus_good :: "(SapMsg \<Rightarrow> bool) \<Rightarrow> 'h MsgBus \<Rightarrow> bool" where
  "bus_good G bus \<longleftrightarrow> (\<forall>p<3. \<forall>m\<in>set (queue_abs (queues bus ! p)). msg_ok m \<and> G m)"

lemma in_set_tlD: "x \<in> set (tl xs) \<Longrightarrow> x \<in> set xs"
  by (cases xs) simp_all

lemma norm_msg_ok: "msg_ok m \<Longrightarrow> msg_ok (norm_msg m)"
  by (auto simp: msg_ok_def norm_msg_def)

lemma queue_push_abs:
  assumes "queue_inv q" "msg_ok m"
  shows "set (queue_abs (snd (queue_push q m))) \<subseteq> insert (norm_msg m) (set (queue_abs q))"
proof -
  consider "len m > max_payload q" | "push_acc q m" "qcount q = cap q" | "push_acc q m" "qcount q < cap q"
    using assms by (fastforce simp: push_acc_def queue_inv_def)
  then show ?thesis
  proof cases
    case 1
    with assms(1) show ?thesis by (auto simp: queue_push_too_big)
  next
    case 2
    with queue_push_full [OF assms(1) 2] show ?thesis by auto
  next
    case 3
    with queue_push_ok [OF assms(1) 3] show ?thesis by auto
  qed
qed

lemma msgbus_post_good:
  assumes "bus_inv bus" "bus_good G bus" "msg_ok msg" "G (norm_msg msg)"
  shows "bus_good G (snd (msgbus_post bus prio msg))"
proof (cases "initialised bus \<and> prio_is_valid prio \<and> sap_id_is_valid (dest msg) \<and> sap_id_is_valid (sap msg)")
  case True
  let ?p = "MsgPriority_code prio"
  have p: "?p < 3" "length (queues bus) = 3"
    using True prio_code_less assms(1) by (simp_all add: bus_inv_def)
  have "msg_ok m \<and> G m" if "m \<in> set (queue_abs (snd (queue_push (queues bus ! ?p) msg)))" for m
    using queue_push_abs [OF bus_inv_queue [OF assms(1) p(1)] assms(3)] that assms(2-4) p(1) norm_msg_ok
    by (auto simp: bus_good_def)
  with assms(2) p True show ?thesis
    by (auto simp: msgbus_post_push bus_good_def nth_list_update split: if_splits)
next
  case False
  then show ?thesis using assms(2) by (simp add: msgbus_post_reject)
qed

lemma posts_to_good:
  assumes "posts_to G bus bus'" "\<And>m. msg_ok m \<Longrightarrow> G m \<Longrightarrow> G (norm_msg m)" "bus_inv bus" "bus_good G bus"
  shows "bus_good G bus'"
  using assms
proof (induction rule: posts_to.induct)
  case (posts_more bus bus' msg prio)
  then have "bus_inv bus'" using posts_to_grows [OF posts_more.hyps(1)] by (simp add: bus_grows_def)
  with posts_more show ?case by (intro msgbus_post_good) auto
qed

section \<open>Dispatch\<close>

text \<open>
  The host interface: a system state holding a bus, with an invariant on the rest of the state, a
  guarantee on the messages and the addresses a handler may be registered for. A handler called in a good
  state with a good message for one of its addresses changes the bus only by posting good messages, and
  keeps the invariant.
\<close>

definition bus_wired :: "('h \<Rightarrow> SapId \<Rightarrow> SapId \<Rightarrow> bool) \<Rightarrow> 'h MsgBus \<Rightarrow> bool" where
  "bus_wired W bus \<longleftrightarrow> (\<forall>r\<in>set (regs bus). active r \<longrightarrow> W (cb r) (r_dest r) (r_sap r))"

locale bus_host =
  fixes get :: "'s \<Rightarrow> 'h MsgBus" and put :: "'h MsgBus \<Rightarrow> 's \<Rightarrow> 's"
    and call :: "'h \<Rightarrow> SapMsg \<Rightarrow> 's \<Rightarrow> 's" and ok :: "'s \<Rightarrow> bool" and G :: "SapMsg \<Rightarrow> bool"
    and W :: "'h \<Rightarrow> SapId \<Rightarrow> SapId \<Rightarrow> bool"
  assumes get_put: "get (put b s) = b"
    and put_ok: "ok s \<Longrightarrow> ok (put b s)"
    and call_posts: "ok s \<Longrightarrow> msg_ok m \<Longrightarrow> G m \<Longrightarrow> W h (dest m) (sap m) \<Longrightarrow> posts_to G (get s) (get (call h m s))"
    and call_ok: "ok s \<Longrightarrow> msg_ok m \<Longrightarrow> G m \<Longrightarrow> W h (dest m) (sap m) \<Longrightarrow> ok (call h m s)"
    and G_norm: "msg_ok m \<Longrightarrow> G m \<Longrightarrow> G (norm_msg m)"
begin

definition deliver :: "SapMsg \<Rightarrow> 'h MsgBusReg list \<Rightarrow> 's \<Rightarrow> 's" where
  "deliver m rs s =
     fold (\<lambda>r s. call (cb r) m s) (filter (\<lambda>r. active r \<and> r_dest r = dest m \<and> r_sap r = sap m) rs) s"

lemma deliver_posts:
  assumes "ok s" "msg_ok m" "G m" "\<forall>r\<in>set rs. active r \<longrightarrow> W (cb r) (r_dest r) (r_sap r)"
  shows "posts_to G (get s) (get (deliver m rs s))" "ok (deliver m rs s)"
proof -
  have "posts_to G (get s) (get (fold (\<lambda>r s. call (cb r) m s) rs s)) \<and> ok (fold (\<lambda>r s. call (cb r) m s) rs s)"
    if "\<forall>r\<in>set rs. W (cb r) (dest m) (sap m)" for rs
    using assms(1) that
  proof (induction rs arbitrary: s)
    case (Cons r rs)
    then have w: "W (cb r) (dest m) (sap m)" by simp
    from Cons.IH [OF call_ok [OF Cons.prems(1) assms(2,3) w]] call_posts [OF Cons.prems(1) assms(2,3) w] Cons.prems(2)
    show ?case by (auto intro: posts_to_trans)
  qed simp
  moreover have "\<forall>r\<in>set (filter (\<lambda>r. active r \<and> r_dest r = dest m \<and> r_sap r = sap m) rs). W (cb r) (dest m) (sap m)"
    using assms(4) by fastforce
  ultimately show "posts_to G (get s) (get (deliver m rs s))" "ok (deliver m rs s)" unfolding deliver_def by blast+
qed

lemma deliver_Cons: "deliver m (r # rs) s =
    deliver m rs (if active r \<and> r_dest r = dest m \<and> r_sap r = sap m then call (cb r) m s else s)"
  by (simp add: deliver_def)

text \<open>
  The message at the head keeps its content through any posts, so the fan-out loop hands every
  matching handler the same message.
\<close>

lemma grows_head_msg:
  assumes "queue_inv q" "qcount q > 0" "queue_grows q q'"
  shows "msg_at (entries q' ! head q) q' (head q) = hd (queue_abs q)"
    "msg_at (entries q ! head q) q (head q) = hd (queue_abs q)"
    "qcount q' > 0"
proof -
  obtain ms where ms: "queue_abs q' = queue_abs q @ ms"
    using assms(3) by (auto simp: queue_grows_def)
  then have "length (queue_abs q') = qcount q + length ms" by simp
  then show c: "qcount q' > 0"
    using assms(2) by simp
  have hd: "hd (queue_abs x) = msg_at (entries x ! head x) x (head x)" if "queue_inv x" "qcount x > 0" for x
    using that by (simp add: queue_abs_def hd_map queue_inv_def upt_conv_Cons Let_def)
  show "msg_at (entries q ! head q) q (head q) = hd (queue_abs q)"
    using hd assms by simp
  have "queue_inv q'" "head q' = head q" "queue_abs q \<noteq> []"
    using assms by (auto simp: queue_grows_def simp flip: length_greater_0_conv)
  with hd [of q'] c ms show "msg_at (entries q' ! head q) q' (head q) = hd (queue_abs q)"
    by simp
qed

lemma fanout_deliver:
  assumes "bus_inv (get s0)" "p < 3" "qcount (queues (get s0) ! p) > 0"
    and "bus_grows (get s0) (get s)" "i \<le> reg_count (get s0)" "reg_count (get s0) - i \<le> fuel"
    and "e = entries (queues (get s0) ! p) ! head (queues (get s0) ! p)"
    and "ok s" "msg_ok (hd (queue_abs (queues (get s0) ! p)))" "G (hd (queue_abs (queues (get s0) ! p)))"
    and "bus_wired W (get s0)"
  shows "fanout get call e p (head (queues (get s0) ! p)) fuel i s =
     deliver (hd (queue_abs (queues (get s0) ! p))) (drop i (regs (get s0))) s"
  using assms(4-6,8)
proof (induction fuel arbitrary: i s)
  case 0
  then show ?case
    by (simp add: reg_count_def deliver_def)
next
  case (Suc fuel)
  let ?q = "queues (get s0) ! p" and ?m = "hd (queue_abs (queues (get s0) ! p))"
  have q: "queue_inv ?q" and regs: "regs (get s) = regs (get s0)"
    and g: "queue_grows ?q (queues (get s) ! p)"
    using assms(1,2) Suc.prems(1) by (simp_all add: bus_inv_queue bus_grows_def)
  show ?case
  proof (cases "i < reg_count (get s0)")
    case False
    then show ?thesis
      by (simp add: reg_count_def regs deliver_def)
  next
    case True
    let ?r = "regs (get s0) ! i"
    have env: "e_dest e = dest ?m" "e_sap e = sap ?m"
      using grows_head_msg(2) [OF q assms(3) g] assms(7) by (auto simp: msg_at_def dest!: sym [of _ ?m])
    have m: "msg_at e (queues (get s) ! p) (head ?q) = ?m"
    proof -
      have len: "e_len e = len ?m" "e_src e = src ?m"
        using grows_head_msg(2) [OF q assms(3) g] assms(7) by (auto simp: msg_at_def dest!: sym [of _ ?m])
      with env grows_head_msg(1) [OF q assms(3) g] show ?thesis
        by (auto simp: msg_at_def dest!: sym [of _ ?m])
    qed
    define s1 where "s1 = (if active ?r \<and> r_dest ?r = dest ?m \<and> r_sap ?r = sap ?m then call (cb ?r) ?m s else s)"
    have w: "W (cb ?r) (dest ?m) (sap ?m)" if "active ?r \<and> r_dest ?r = dest ?m \<and> r_sap ?r = sap ?m"
      using assms(11) True that by (metis bus_wired_def nth_mem reg_count_def)
    have ok1: "ok s1"
      using Suc.prems(4) call_ok [of s ?m "cb ?r"] assms(9,10) w by (simp add: s1_def)
    have "posts_to G (get s) (get s1)"
      using Suc.prems(4) assms(9,10) w by (simp add: s1_def call_posts)
    then have "bus_grows (get s) (get s1)"
      by (rule posts_to_grows) (use Suc.prems(1) in \<open>simp add: bus_grows_def\<close>)
    with Suc.prems(1) have s1: "bus_grows (get s0) (get s1)"
      by (rule bus_grows_trans)
    have "fanout get call e p (head ?q) (Suc fuel) i s = fanout get call e p (head ?q) fuel (i + 1) s1"
      using True by (simp add: reg_count_def regs Let_def env m s1_def)
    also have "\<dots> = deliver ?m (drop (i + 1) (regs (get s0))) s1"
      using True Suc.prems(3) by (intro Suc.IH s1 ok1) auto
    also have "\<dots> = deliver ?m (drop i (regs (get s0))) s"
      using True by (simp add: Cons_nth_drop_Suc [symmetric] reg_count_def deliver_Cons s1_def)
    finally show ?thesis .
  qed
qed

text \<open>
  Dispatching takes the oldest message of the most urgent non-empty bucket, runs every matching
  handler on it in registration order, and removes it; messages posted meanwhile stay queued.
\<close>

lemma next_nonempty_Some:
  assumes "bus_inv bus" "next_nonempty_queue bus = Some p"
  shows "p < 3" "qcount (queues bus ! p) > 0" "\<forall>j<p. bus_abs bus ! j = []"
proof -
  show p: "p < 3" and "qcount (queues bus ! p) > 0"
    using assms by (auto simp: next_nonempty_queue_def find_index_Some_iff bus_inv_def)
  have "queue_abs (queues bus ! j) = []" if "j < p" for j
    using assms(2) that by (simp add: next_nonempty_queue_def find_index_Some_iff flip: length_0_conv)
  then show "\<forall>j<p. bus_abs bus ! j = []"
    using p bus_abs_nth [OF assms(1)] by simp
qed

lemma dispatch_one:
  assumes inv: "bus_inv (get s)" and good: "bus_good G (get s)" "ok s" and wired: "bus_wired W (get s)" and nxt: "next_nonempty_queue (get s) = Some p"
    and m: "m = hd (bus_abs (get s) ! p)" and s1: "s1 = deliver m (regs (get s)) s"
    and s2: "s2 = snd (msgbus_dispatch_one get put call s)"
  shows "fst (msgbus_dispatch_one get put call s) = Inr 1"
    and "bus_grows (get s) (get s1)" and "bus_inv (get s2)"
    and "bus_abs (get s2) = (bus_abs (get s1))[p := tl (bus_abs (get s1) ! p)]"
    and "regs (get s2) = regs (get s)"
    and "s2 = put (get s2) s1" and "ok s2" and "bus_good G (get s2)" and "msg_ok m" "G m"
proof -
  let ?q = "queues (get s) ! p"
  note p = next_nonempty_Some [OF inv nxt]
  have m': "m = hd (queue_abs ?q)"
    using m bus_abs_nth [OF inv p(1)] by simp
  have "queue_abs ?q \<noteq> []" using p(2) by (simp flip: length_greater_0_conv)
  then show mg: "msg_ok m" "G m"
    using good(1) p(1) m' by (simp_all add: bus_good_def)
  note posts = deliver_posts [OF good(2) mg wired [unfolded bus_wired_def], folded s1]
  have fan: "fanout get call (entries ?q ! head ?q) p (head ?q) MSGBUS_REG_CAP 0 s = s1"
    using fanout_deliver [OF inv p(1,2) bus_grows_refl [OF inv], of 0 MSGBUS_REG_CAP] inv good(2) mg wired
    by (simp add: s1 m' bus_inv_def)
  show g: "bus_grows (get s) (get s1)"
    using posts(1) inv by (rule posts_to_grows)
  let ?q1 = "queues (get s1) ! p"
  have q1: "queue_grows ?q ?q1" "bus_inv (get s1)" "regs (get s1) = regs (get s)"
    using g p(1) by (simp_all add: bus_grows_def)
  have h: "head ?q = head ?q1" "queue_inv ?q1" and c: "qcount ?q1 > 0"
    using q1(1) grows_head_msg(3) [OF bus_inv_queue [OF inv p(1)] p(2)] by (simp_all add: queue_grows_def)
  have disp: "msgbus_dispatch_one get put call s =
      (Inr 1, put ((get s1)\<lparr>queues := (queues (get s1))[p := queue_pop (head ?q1) ?q1]\<rparr>) s1)"
    unfolding msgbus_dispatch_one_def Let_def
    using bus_inv_initialised [OF inv] nxt by (simp add: fan flip: h(1))
  then show "fst (msgbus_dispatch_one get put call s) = Inr 1" by simp
  have gets2: "get s2 = (get s1)\<lparr>queues := (queues (get s1))[p := queue_pop (head ?q1) ?q1]\<rparr>"
    using disp s2 by (simp add: get_put)
  show s2': "s2 = put (get s2) s1"
    using disp s2 gets2 by simp
  show "ok s2" using put_ok [OF posts(2), of "get s2"] unfolding s2' [symmetric] .
  have "bus_good G (get s1)"
    using posts_to_good [OF posts(1) G_norm inv good(1)] .
  then show "bus_good G (get s2)"
    unfolding gets2 using q1(2) p(1) queue_pop_ok [OF h(2) c]
    by (auto simp: bus_good_def bus_inv_def nth_list_update split: if_splits dest: in_set_tlD)
  show "bus_inv (get s2)"
    unfolding gets2 using q1(2) queue_pop_ok [OF h(2) c] by (intro bus_inv_update) simp_all
  show "regs (get s2) = regs (get s)"
    by (simp add: gets2 q1(3))
  show "bus_abs (get s2) = (bus_abs (get s1))[p := tl (bus_abs (get s1) ! p)]"
    unfolding gets2 bus_abs_update using queue_pop_ok [OF h(2) c] bus_abs_nth [OF q1(2) p(1)] by simp
qed

lemma dispatch_empty:
  assumes "bus_inv (get s)" "next_nonempty_queue (get s) = None"
  shows "msgbus_dispatch_one get put call s = (Inr 0, s)" "msgbus_pending (get s) = 0"
proof -
  show "msgbus_dispatch_one get put call s = (Inr 0, s)"
    using assms by (simp add: msgbus_dispatch_one_def bus_inv_initialised)
  have "\<forall>q\<in>set (queues (get s)). qcount q = 0"
    using assms(2) by (simp add: next_nonempty_queue_def find_index_None_iff)
  then have "sum_list (map qcount (queues (get s))) = 0"
    by (simp add: sum_list_eq_0_iff)
  then show "msgbus_pending (get s) = 0"
    by (simp add: msgbus_pending_def)
qed

lemma dispatch_inv:
  assumes "bus_inv (get s)" "bus_good G (get s)" "ok s" "bus_wired W (get s)"
  shows "bus_inv (get (snd (msgbus_dispatch_one get put call s)))" "bus_good G (get (snd (msgbus_dispatch_one get put call s)))"
    "ok (snd (msgbus_dispatch_one get put call s))" "regs (get (snd (msgbus_dispatch_one get put call s))) = regs (get s)"
proof -
  let ?s = "snd (msgbus_dispatch_one get put call s)"
  have "bus_inv (get ?s) \<and> bus_good G (get ?s) \<and> ok ?s \<and> regs (get ?s) = regs (get s)"
  proof (cases "next_nonempty_queue (get s)")
    case None
    with assms show ?thesis by (simp add: dispatch_empty)
  next
    case (Some p)
    show ?thesis
      using dispatch_one(3,5,7,8) [OF assms Some refl refl refl] by blast
  qed
  then show "bus_inv (get ?s)" "bus_good G (get ?s)" "ok ?s" "regs (get ?s) = regs (get s)" by simp_all
qed

end

section \<open>Properties\<close>

text \<open>
  C3: \<open>msgbus_post\<close> of a well-formed message on a valid priority implements a bounded FIFO per
  priority: with room it returns 0 and appends the message, with a copy of exactly \<open>len\<close> payload
  bytes, behind everything queued at that priority; on a full bucket it returns \<open>-ENOSPC\<close>, counts
  one drop and loses no queued message. Other priorities are untouched.
\<close>

theorem msgbus_post_fifo:
  assumes "bus_inv bus" "post_acc bus prio msg" "p = MsgPriority_code prio"
  shows "bus_inv (snd (msgbus_post bus prio msg)) \<and>
    (if length (bus_abs bus ! p) < cap (queues bus ! p)
     then fst (msgbus_post bus prio msg) = Inr () \<and>
          bus_abs (snd (msgbus_post bus prio msg)) = (bus_abs bus)[p := bus_abs bus ! p @ [norm_msg msg]]
     else fst (msgbus_post bus prio msg) = Inl ENOSPC \<and>
          bus_abs (snd (msgbus_post bus prio msg)) = bus_abs bus \<and>
          msgbus_drops (snd (msgbus_post bus prio msg)) prio = map_option Suc (msgbus_drops bus prio))"
proof -
  have "p < 3"
    using assms(2,3) prio_code_less by (simp add: post_acc_def)
  then have "bus_abs bus ! p = queue_abs (queues bus ! p)" "qcount (queues bus ! p) \<le> cap (queues bus ! p)"
    using bus_abs_nth [OF assms(1)] bus_inv_queue [OF assms(1)] by (simp_all add: queue_inv_def)
  then show ?thesis
    using msgbus_post_ok [OF assms] msgbus_post_full [OF assms] by (auto simp: le_less)
qed

text \<open>A concrete bus and message for the witnesses.\<close>

definition ex_cfg :: MsgBusCfg where
  "ex_cfg = \<lparr>queue_cap_per_prio = 2, max_payload_bytes = 4, entry_storage = Some (replicate 6 zero_entry),
     entry_storage_bytes = 96, payload_storage = Some (replicate 24 0), payload_storage_bytes = 24\<rparr>"

definition ex_bus :: "unit MsgBus" where
  "ex_bus = \<lparr>queues = replicate 3 (init_queue ex_cfg), regs = [], initialised = True\<rparr>"

definition ex_msg :: SapMsg where
  "ex_msg = sapmsg_init SapId_TmaSap SapId_TleSap SapId_TleSap (Some [1, 2, 3]) 3"

lemma ex_bus_facts:
  "bus_inv ex_bus" "post_acc ex_bus MsgPrio_Normal ex_msg"
  by (simp_all add: bus_inv_def ex_bus_def queue_inv_def init_queue_def ex_cfg_def reg_count_def
      post_acc_def prio_is_valid_def ex_msg_def sapmsg_init_def push_acc_def msg_ok_def)

theorem msgbus_post_fifo_witness:
  "bus_inv (snd (msgbus_post ex_bus MsgPrio_Normal ex_msg)) \<and>
    (if length (bus_abs ex_bus ! 1) < cap (queues ex_bus ! 1)
     then fst (msgbus_post ex_bus MsgPrio_Normal ex_msg) = Inr () \<and>
          bus_abs (snd (msgbus_post ex_bus MsgPrio_Normal ex_msg))
            = (bus_abs ex_bus)[1 := bus_abs ex_bus ! 1 @ [norm_msg ex_msg]]
     else fst (msgbus_post ex_bus MsgPrio_Normal ex_msg) = Inl ENOSPC \<and>
          bus_abs (snd (msgbus_post ex_bus MsgPrio_Normal ex_msg)) = bus_abs ex_bus \<and>
          msgbus_drops (snd (msgbus_post ex_bus MsgPrio_Normal ex_msg)) MsgPrio_Normal
            = map_option Suc (msgbus_drops ex_bus MsgPrio_Normal))"
  by (rule msgbus_post_fifo [OF ex_bus_facts]) simp

text \<open>
  A burst of posts at one priority is queued in posting order up to the capacity of the bucket;
  exactly the ones beyond it are lost.
\<close>

theorem queue_burst_order:
  assumes "queue_inv q" "\<forall>m\<in>set ms. push_acc q m"
  shows "queue_abs (fold (\<lambda>m q. snd (queue_push q m)) ms q) = take (cap q) (queue_abs q @ map norm_msg ms)"
proof -
  have "fold (\<lambda>m q. snd (queue_push q m)) ms q = bucket.push_all q ms" for q
    by (induction ms arbitrary: q) simp_all
  then show ?thesis
    using bucket.push_all_abs [OF assms] by simp
qed

theorem queue_burst_order_witness:
  "queue_abs (fold (\<lambda>m q. snd (queue_push q m)) [ex_msg, ex_msg, ex_msg] (init_queue ex_cfg))
     = take (cap (init_queue ex_cfg)) (queue_abs (init_queue ex_cfg) @ map norm_msg [ex_msg, ex_msg, ex_msg])"
  by (rule queue_burst_order)
    (simp_all add: queue_inv_def init_queue_def ex_cfg_def push_acc_def ex_msg_def sapmsg_init_def msg_ok_def)

end
