(* ===== verification/Env.thy ===== *)
theory Env
  imports MsgBus
begin

text \<open>
  What the protocol entities share: the callbacks they register, the environment they run in (the
  bus and the request-handle counter), and the memory images of the C structures they pass through
  the bus. A structure is laid out field by field in declaration order, little-endian, with the
  alignment padding of the ABI written out as zero bytes; each codec comes with its round trip.
\<close>

section \<open>Handlers and environment\<close>

text \<open>The callbacks registered on the bus, named after the C functions (prefixed by their file).\<close>

datatype Handler =
    Llc_on_tma_unitdata_ind | Llc_on_tle_msg_from_mle
  | Mle_on_tle_msg | Mle_on_tla_msg | Mm_on_mm_request | Cmce_on_tle_upcall

record Env =
  bus :: "Handler MsgBus"
  req_ctr :: u32

text \<open>\<open>msgbus_post(entity->bus, prio, &msg)\<close>, as the entities call it.\<close>

definition env_post :: "Env \<Rightarrow> MsgPriority \<Rightarrow> SapMsg \<Rightarrow> unit res \<times> Env" where
  "env_post env prio msg = (let (r, b) = msgbus_post (bus env) prio msg in (r, env\<lparr>bus := b\<rparr>))"

definition env_req_handle :: "Env \<Rightarrow> ReqHandle \<times> Env" where
  "env_req_handle env = (let (h, c) = req_handle_next (req_ctr env) in (h, env\<lparr>req_ctr := c\<rparr>))"

section \<open>Little-endian images\<close>

definition le16 :: "nat \<Rightarrow> u8 list" where
  "le16 n = [of_nat (n mod 256), of_nat (n div 256 mod 256)]"

definition le32 :: "u32 \<Rightarrow> u8 list" where
  "le32 w = [ucast w, ucast (drop_bit 8 w), ucast (drop_bit 16 w), ucast (drop_bit 24 w)]"

definition byte_bool :: "bool \<Rightarrow> u8" where
  "byte_bool b = of_bool b"

definition bytes_at :: "u8 list \<Rightarrow> nat \<Rightarrow> nat \<Rightarrow> u8 list" where
  "bytes_at bs off n = take n (drop off bs)"

definition u8_at :: "u8 list \<Rightarrow> nat \<Rightarrow> u8" where
  "u8_at bs off = bs ! off"

definition u16_at :: "u8 list \<Rightarrow> nat \<Rightarrow> nat" where
  "u16_at bs off = unat (bs ! off) + 256 * unat (bs ! (off + 1))"

definition u32_at :: "u8 list \<Rightarrow> nat \<Rightarrow> u32" where
  "u32_at bs off = ucast (bs ! off) OR push_bit 8 (ucast (bs ! (off + 1)))
     OR push_bit 16 (ucast (bs ! (off + 2))) OR push_bit 24 (ucast (bs ! (off + 3)))"

definition bool_at :: "u8 list \<Rightarrow> nat \<Rightarrow> bool" where
  "bool_at bs off \<longleftrightarrow> bs ! off \<noteq> 0"

definition nat_at :: "u8 list \<Rightarrow> nat \<Rightarrow> nat" where
  "nat_at bs off = unat (u32_at bs off)"

lemma length_le [simp]: "length (le16 n) = 2" "length (le32 w) = 4"
  by (simp_all add: le16_def le32_def)

lemma u32_join:
  "(ucast (ucast (w :: u32) :: u8) :: u32) OR push_bit 8 (ucast (ucast (drop_bit 8 w) :: u8))
     OR push_bit 16 (ucast (ucast (drop_bit 16 w) :: u8)) OR push_bit 24 (ucast (ucast (drop_bit 24 w) :: u8)) = w"
proof (rule bit_word_eqI)
  fix n
  assume n: "n < LENGTH(32)"
  consider "n < 8" | "8 \<le> n" "n < 16" | "16 \<le> n" "n < 24" | "24 \<le> n" by linarith
  then show "bit ((ucast (ucast w :: u8) :: u32) OR push_bit 8 (ucast (ucast (drop_bit 8 w) :: u8))
     OR push_bit 16 (ucast (ucast (drop_bit 16 w) :: u8)) OR push_bit 24 (ucast (ucast (drop_bit 24 w) :: u8))) n
     = bit w n"
    using n by cases (auto simp: bit_simps)
qed

lemma u16_join: "n < 65536 \<Longrightarrow> n mod 256 + 256 * (n div 256 mod 256) = (n :: nat)"
  by (simp add: mod_less)

text \<open>
  Reading a field of an image: the field at offset \<open>off\<close> after a prefix of that length.
\<close>

lemma u32_at_append [codec_simps]: "off = length p \<Longrightarrow> u32_at (p @ le32 w @ r) off = w"
  by (simp add: u32_at_def nth_append le32_def numeral_2_eq_2 numeral_3_eq_3 u32_join)

lemma u16_at_append [codec_simps]: "off = length p \<Longrightarrow> n < 65536 \<Longrightarrow> u16_at (p @ le16 n @ r) off = n"
  using u16_join [of n] by (simp add: u16_at_def nth_append le16_def unat_of_nat)

lemma u8_at_append [codec_simps]: "off = length p \<Longrightarrow> u8_at (p @ [b] @ r) off = b"
  by (simp add: u8_at_def nth_append)

lemma bool_at_append [codec_simps]: "off = length p \<Longrightarrow> bool_at (p @ [byte_bool b] @ r) off = b"
  by (simp add: bool_at_def byte_bool_def nth_append)

lemma bytes_at_append [codec_simps]:
  "off = length p \<Longrightarrow> length xs = n \<Longrightarrow> bytes_at (p @ xs @ r) off n = xs"
  by (simp add: bytes_at_def)

lemma nat_at_append [codec_simps]:
  "off = length p \<Longrightarrow> n < 2 ^ 32 \<Longrightarrow> nat_at (p @ le32 (of_nat n) @ r) off = n"
  by (simp add: nat_at_def u32_at_append unat_of_nat)

text \<open>Address images.\<close>

definition TetraAddress_bytes :: "TetraAddress \<Rightarrow> u8 list" where
  "TetraAddress_bytes a = le32 (ssi a) @ le32 (of_nat (SsiType_code (ssi_type a)))"

definition TetraAddress_at :: "u8 list \<Rightarrow> nat \<Rightarrow> TetraAddress" where
  "TetraAddress_at bs off =
     \<lparr>ssi = u32_at bs off, ssi_type = SsiType_of_code (nat_at bs (off + 4))\<rparr>"

lemma length_TetraAddress_bytes [simp]: "length (TetraAddress_bytes a) = 8"
  by (simp add: TetraAddress_bytes_def)

lemma TetraAddress_at_append [codec_simps]:
  assumes "off = length p"
  shows "TetraAddress_at (p @ TetraAddress_bytes a @ r) off = a"
proof -
  have "u32_at (p @ TetraAddress_bytes a @ r) off = ssi a"
    using u32_at_append [OF assms, of "ssi a" "le32 (of_nat (SsiType_code (ssi_type a))) @ r"]
    by (simp add: TetraAddress_bytes_def)
  moreover have "nat_at (p @ TetraAddress_bytes a @ r) (off + 4) = SsiType_code (ssi_type a)"
    using nat_at_append [of "off + 4" "p @ le32 (ssi a)" "SsiType_code (ssi_type a)" r] assms
      SsiType_code_less [of "ssi_type a"]
    by (simp add: TetraAddress_bytes_def)
  ultimately show ?thesis
    by (simp add: TetraAddress_at_def)
qed

text \<open>
  An array declared without an initialiser. Its contents are indeterminate in C; they only reach
  padding bits beyond a stated bit length, so the model fixes them as zero.
\<close>

definition uninit :: "nat \<Rightarrow> u8 list" where
  "uninit n = replicate n 0"

lemma length_uninit [simp]: "length (uninit n) = n"
  by (simp add: uninit_def)

text \<open>\<open>memcpy(dst, src, n)\<close> into the front of an array; \<open>None\<close> when either side is too short.\<close>

definition memcpy_front :: "u8 list \<Rightarrow> u8 list \<Rightarrow> nat \<Rightarrow> u8 list option" where
  "memcpy_front dst srcb n =
     (if n \<le> length dst \<and> n \<le> length srcb then Some (take n srcb @ drop n dst) else None)"

lemma memcpy_front_ok [simp]:
  "n \<le> length dst \<Longrightarrow> n \<le> length srcb \<Longrightarrow> memcpy_front dst srcb n = Some (take n srcb @ drop n dst)"
  by (simp add: memcpy_front_def)

section \<open>What entities post\<close>

text \<open>
  A message on the TLE-SAP carries the image of a \<open>TleSapMsg\<close> whose body length, a 16-bit field at
  offset 18, is within the 256 bits of its body array. The MLE relies on this without checking it.
\<close>

definition msg_good :: "SapMsg \<Rightarrow> bool" where
  "msg_good m \<longleftrightarrow> (sap m = SapId_TleSap \<longrightarrow> 60 \<le> len m \<longrightarrow> (\<exists>bs. payload m = Some bs \<and> u16_at bs 18 \<le> 256))"

lemma msg_good_norm: "msg_good m \<Longrightarrow> msg_good (norm_msg m)"
  by (auto simp: msg_good_def norm_msg_def u16_at_def)

lemma msg_good_other [simp]: "sap m \<noteq> SapId_TleSap \<Longrightarrow> msg_good m"
  by (simp add: msg_good_def)

definition env_posts :: "Env \<Rightarrow> Env \<Rightarrow> bool" where
  "env_posts e e' \<longleftrightarrow> posts_to msg_good (bus e) (bus e')"

lemma env_posts_refl [simp, intro]: "env_posts e e"
  by (simp add: env_posts_def)

lemma env_posts_trans [trans]: "env_posts a b \<Longrightarrow> env_posts b c \<Longrightarrow> env_posts a c"
  unfolding env_posts_def by (rule posts_to_trans)

lemma env_post_posts: "msg_ok msg \<Longrightarrow> msg_good msg \<Longrightarrow> env_posts e (snd (env_post e prio msg))"
  by (auto simp: env_post_def env_posts_def split_beta Let_def)

lemma env_req_handle_bus [simp]: "bus (snd (env_req_handle e)) = bus e"
  by (simp add: env_req_handle_def split_beta Let_def)

lemma env_req_handle_posts [simp]: "env_posts e (snd (env_req_handle e))"
  by (simp add: env_posts_def)

section \<open>Posting with room\<close>

text \<open>A bus with the daemon's payload size and room for one more message at a priority.\<close>

definition env_room :: "Env \<Rightarrow> MsgPriority \<Rightarrow> bool" where
  "env_room env prio \<longleftrightarrow> prio_is_valid prio \<and>
     qcount (queues (bus env) ! MsgPriority_code prio) < cap (queues (bus env) ! MsgPriority_code prio)"

definition env_inv :: "Env \<Rightarrow> bool" where
  "env_inv env \<longleftrightarrow> bus_inv (bus env) \<and> (\<forall>p<3. max_payload (queues (bus env) ! p) = 256)"

definition env_abs :: "Env \<Rightarrow> SapMsg list list" where
  "env_abs env = bus_abs (bus env)"

lemma env_posts_inv:
  assumes "env_inv e" "env_posts e e'"
  shows "env_inv e'"
  using posts_to_grows [of msg_good "bus e" "bus e'"] assms
  by (auto simp: env_inv_def env_posts_def bus_grows_def queue_grows_def)

lemma env_post_room:
  assumes "env_inv env" "env_room env prio" "msg_ok m" "msg_good m" "len m \<le> 256"
    and "sap_id_is_valid (dest m)" "sap_id_is_valid (sap m)" "p = MsgPriority_code prio"
  shows "fst (env_post env prio m) = Inr ()" "env_inv (snd (env_post env prio m))"
    "env_abs (snd (env_post env prio m)) = (env_abs env)[p := env_abs env ! p @ [norm_msg m]]"
    "req_ctr (snd (env_post env prio m)) = req_ctr env"
    "q \<noteq> prio \<Longrightarrow> env_room (snd (env_post env prio m)) q = env_room env q"
proof -
  have p: "p < 3"
    using assms(2,8) prio_code_less by (simp add: env_room_def)
  have acc: "post_acc (bus env) prio m"
    using assms p by (simp add: post_acc_def env_room_def env_inv_def push_acc_def)
  have inv: "bus_inv (bus env)"
    using assms(1) by (simp add: env_inv_def)
  have room: "qcount (queues (bus env) ! p) < cap (queues (bus env) ! p)"
    using assms(2,8) by (simp add: env_room_def)
  note ok = msgbus_post_ok [OF inv acc assms(8) room]
  have post: "env_post env prio m = (fst (msgbus_post (bus env) prio m), env\<lparr>bus := snd (msgbus_post (bus env) prio m)\<rparr>)"
    by (simp add: env_post_def split_beta Let_def)
  show "fst (env_post env prio m) = Inr ()" "req_ctr (snd (env_post env prio m)) = req_ctr env"
    "env_abs (snd (env_post env prio m)) = (env_abs env)[p := env_abs env ! p @ [norm_msg m]]"
    using ok by (simp_all add: post env_abs_def)
  show "env_inv (snd (env_post env prio m))"
    using env_posts_inv [OF assms(1) env_post_posts [OF assms(3,4)]] .
  show "env_room (snd (env_post env prio m)) q = env_room env q" if "q \<noteq> prio"
  proof (cases "prio_is_valid q")
    case True
    have "MsgPriority_code q \<noteq> p"
      using that assms(8) by (cases q; cases prio) simp_all
    moreover have "initialised (bus env)" "prio_is_valid prio"
      using inv assms(2) by (simp_all add: bus_inv_def env_room_def)
    ultimately show ?thesis
      using assms(6-8) by (simp add: env_room_def post msgbus_post_push)
  qed (simp add: env_room_def)
qed

lemma env_req_handle_simps [simp]:
  "env_inv (snd (env_req_handle e)) = env_inv e" "env_abs (snd (env_req_handle e)) = env_abs e"
  "env_room (snd (env_req_handle e)) q = env_room e q"
  by (simp_all add: env_inv_def env_abs_def env_room_def)

text \<open>A small environment for concrete instances.\<close>

definition ex_env_cfg :: MsgBusCfg where
  "ex_env_cfg = \<lparr>queue_cap_per_prio = 2, max_payload_bytes = 256, entry_storage = Some [],
     entry_storage_bytes = 96, payload_storage = Some [], payload_storage_bytes = 1536\<rparr>"

definition ex_env :: Env where
  "ex_env = \<lparr>bus = \<lparr>queues = replicate 3 (init_queue ex_env_cfg), regs = [], initialised = True\<rparr>, req_ctr = 0\<rparr>"

lemma ex_env_inv: "env_inv ex_env"
proof -
  have "queue_inv (init_queue ex_env_cfg)" "max_payload (init_queue ex_env_cfg) = 256"
    by (simp_all add: queue_inv_def init_queue_def ex_env_cfg_def)
  then show ?thesis
    by (simp add: env_inv_def ex_env_def bus_inv_def reg_count_def)
qed

lemma ex_env_room: "prio_is_valid p \<Longrightarrow> env_room ex_env p"
  using prio_code_less [of p] by (simp add: env_room_def ex_env_def init_queue_def ex_env_cfg_def)

lemma ex_env_room_simps [simp]:
  "env_room ex_env MsgPrio_High" "env_room ex_env MsgPrio_Normal" "env_room ex_env MsgPrio_Low"
  by (simp_all add: ex_env_room prio_is_valid_def)

end
