(* ===== verification/Llc.thy ===== *)
theory Llc
  imports Llc_Pdu Env
begin

text \<open>
  The LLC entity of \<open>sw/llc/llc.c\<close>: the endpoint table, the stop-and-wait state per endpoint,
  the two bus callbacks, \<open>llc_handle_tma_unitdata_ind\<close>, \<open>llc_send_bl_data\<close> and
  \<open>llc_send_bl_ack\<close>. An operation takes the entity and the environment and returns both; the
  outer option is \<open>None\<close> where the code would abort, which is shown never to happen.
\<close>

section \<open>Structures\<close>

definition LLC_MAX_ENDPOINTS :: nat where
  "LLC_MAX_ENDPOINTS = 8"

definition LLC_DEFAULT_MAX_RETX :: u8 where
  "LLC_DEFAULT_MAX_RETX = 3"

definition TMA_SDU_MAX_BYTES :: nat where
  "TMA_SDU_MAX_BYTES = 64"

record LlcEndpoint =
  ep_id :: EndpointId
  ep_in_use :: bool
  ns_send :: u8
  nr_expected :: u8
  awaiting_ack :: bool
  retx_count :: u8
  last_sent :: LlcPdu

record LlcCfg =
  max_retx :: u8

record LlcStats =
  pdus_rx :: nat
  pdus_tx :: nat
  fcs_failures :: nat
  retx_total :: nat
  unknown_pdu_type :: nat

record Llc =
  llc_cfg :: LlcCfg
  endpoints :: "LlcEndpoint list"
  llc_stats :: LlcStats
  llc_initialised :: bool

record TmaUnitdataInd =
  tma_endpoint :: EndpointId
  tma_addr :: TetraAddress
  req_handle :: ReqHandle
  sdu_len_bits :: nat
  sdu_bits :: "u8 list"

record TleSapMsg =
  tle_endpoint :: EndpointId
  tle_addr :: TetraAddress
  tle_pdu :: LlcPdu

text \<open>Objects set to all zero bytes.\<close>

definition zero_pdu :: LlcPdu where
  "zero_pdu = \<lparr>pdu_type = LlcPdu_BL_ADATA, nr = 0, ns = 0, body_len_bits = 0,
     body = replicate 32 0, fcs = 0, fcs_valid = False\<rparr>"

definition zero_endpoint :: LlcEndpoint where
  "zero_endpoint = \<lparr>ep_id = 0, ep_in_use = False, ns_send = 0, nr_expected = 0,
     awaiting_ack = False, retx_count = 0, last_sent = zero_pdu\<rparr>"

definition zero_llc :: Llc where
  "zero_llc = \<lparr>llc_cfg = \<lparr>max_retx = 0\<rparr>, endpoints = replicate LLC_MAX_ENDPOINTS zero_endpoint,
     llc_stats = \<lparr>pdus_rx = 0, pdus_tx = 0, fcs_failures = 0, retx_total = 0, unknown_pdu_type = 0\<rparr>,
     llc_initialised = False\<rparr>"

section \<open>Memory images\<close>

definition LlcPdu_bytes :: "LlcPdu \<Rightarrow> u8 list" where
  "LlcPdu_bytes p = le32 (of_nat (LlcPduType_code (pdu_type p))) @ [nr p] @ [ns p] @ le16 (body_len_bits p)
     @ body p @ le32 (fcs p) @ [byte_bool (fcs_valid p)] @ [0, 0, 0]"

definition LlcPdu_at :: "u8 list \<Rightarrow> nat \<Rightarrow> LlcPdu" where
  "LlcPdu_at bs off =
     \<lparr>pdu_type = LlcPduType_of_code (nat_at bs off), nr = u8_at bs (off + 4), ns = u8_at bs (off + 5),
      body_len_bits = u16_at bs (off + 6), body = bytes_at bs (off + 8) 32, fcs = u32_at bs (off + 40),
      fcs_valid = bool_at bs (off + 44)\<rparr>"

definition sizeof_TleSapMsg :: nat where
  "sizeof_TleSapMsg = 60"

definition TleSapMsg_bytes :: "TleSapMsg \<Rightarrow> u8 list" where
  "TleSapMsg_bytes m = le32 (tle_endpoint m) @ TetraAddress_bytes (tle_addr m) @ LlcPdu_bytes (tle_pdu m)"

definition TleSapMsg_of_bytes :: "u8 list \<Rightarrow> TleSapMsg" where
  "TleSapMsg_of_bytes bs =
     \<lparr>tle_endpoint = u32_at bs 0, tle_addr = TetraAddress_at bs 4, tle_pdu = LlcPdu_at bs 12\<rparr>"

definition sizeof_TmaUnitdataInd :: nat where
  "sizeof_TmaUnitdataInd = 84"

definition TmaUnitdataInd_bytes :: "TmaUnitdataInd \<Rightarrow> u8 list" where
  "TmaUnitdataInd_bytes m = le32 (tma_endpoint m) @ TetraAddress_bytes (tma_addr m) @ le32 (req_handle m)
     @ le16 (sdu_len_bits m) @ sdu_bits m @ [0, 0]"

definition TmaUnitdataInd_of_bytes :: "u8 list \<Rightarrow> TmaUnitdataInd" where
  "TmaUnitdataInd_of_bytes bs =
     \<lparr>tma_endpoint = u32_at bs 0, tma_addr = TetraAddress_at bs 4, req_handle = u32_at bs 12,
      sdu_len_bits = u16_at bs 16, sdu_bits = bytes_at bs 18 64\<rparr>"

section \<open>Endpoint table\<close>

definition endpoint_find :: "Llc \<Rightarrow> EndpointId \<Rightarrow> nat option" where
  "endpoint_find llc i = find_index (\<lambda>e. ep_in_use e \<and> ep_id e = i) (endpoints llc)"

definition fresh_endpoint :: "EndpointId \<Rightarrow> LlcEndpoint" where
  "fresh_endpoint i = zero_endpoint\<lparr>ep_id := i, ep_in_use := True, ns_send := 0, nr_expected := 0,
     awaiting_ack := False, retx_count := 0\<rparr>"

definition endpoint_alloc :: "Llc \<Rightarrow> EndpointId \<Rightarrow> nat option \<times> Llc" where
  "endpoint_alloc llc i =
     (case find_index (\<lambda>e. \<not> ep_in_use e) (endpoints llc) of
        Some k \<Rightarrow> (Some k, llc\<lparr>endpoints := (endpoints llc)[k := fresh_endpoint i]\<rparr>)
      | None \<Rightarrow> (None, llc))"

definition llc_endpoint_lookup :: "Llc \<Rightarrow> EndpointId \<Rightarrow> nat option \<times> Llc" where
  "llc_endpoint_lookup llc i =
     (case endpoint_find llc i of Some k \<Rightarrow> (Some k, llc) | None \<Rightarrow> endpoint_alloc llc i)"

definition ep_update :: "nat \<Rightarrow> (LlcEndpoint \<Rightarrow> LlcEndpoint) \<Rightarrow> Llc \<Rightarrow> Llc" where
  "ep_update k f llc = llc\<lparr>endpoints := (endpoints llc)[k := f (endpoints llc ! k)]\<rparr>"

definition stats_tx :: "Llc \<Rightarrow> Llc" where
  "stats_tx llc = llc\<lparr>llc_stats := (llc_stats llc)\<lparr>pdus_tx := pdus_tx (llc_stats llc) + 1\<rparr>\<rparr>"

section \<open>Operations\<close>

definition encode_to_bytes :: "LlcPdu \<Rightarrow> u8 list \<Rightarrow> (nat res \<times> u8 list) option" where
  "encode_to_bytes pdu buf = do {
     (r, bb) \<leftarrow> llc_pdu_encode (bb_init_autoexpand buf (length buf * 8)) pdu;
     Some (case r of Inl e \<Rightarrow> Inl e | Inr n \<Rightarrow> Inr (to_u16 n), buffer bb)
   }"

text \<open>A \<open>TmaUnitdataReq\<close> set to zero and filled from the encoded bytes.\<close>

definition mk_tma_req :: "EndpointId \<Rightarrow> TetraAddress \<Rightarrow> ReqHandle \<Rightarrow> nat \<Rightarrow> u8 list \<Rightarrow> TmaUnitdataInd option" where
  "mk_tma_req ep addr h bits bytes = do {
     sdu \<leftarrow> memcpy_front (replicate TMA_SDU_MAX_BYTES 0) bytes ((bits + 7) div 8);
     Some \<lparr>tma_endpoint = ep, tma_addr = addr, req_handle = h, sdu_len_bits = bits, sdu_bits = sdu\<rparr>
   }"

definition tma_req_msg :: "TmaUnitdataInd \<Rightarrow> SapMsg" where
  "tma_req_msg req = sapmsg_init SapId_TleSap SapId_TmaSap SapId_TmaSap
     (Some (TmaUnitdataInd_bytes req)) sizeof_TmaUnitdataInd"

definition is_bl_data :: "LlcPduType \<Rightarrow> bool" where
  "is_bl_data t \<longleftrightarrow> t = LlcPdu_BL_DATA \<or> t = LlcPdu_BL_DATA_FCS \<or> t = LlcPdu_BL_ADATA \<or> t = LlcPdu_BL_ADATA_FCS"

text \<open>Bookkeeping of a transmitted data frame.\<close>

definition mark_sent :: "LlcPdu \<Rightarrow> LlcEndpoint \<Rightarrow> LlcEndpoint" where
  "mark_sent pdu ep = ep\<lparr>last_sent := pdu, awaiting_ack := True, retx_count := 0, ns_send := ns_send ep XOR 1\<rparr>"

text \<open>Encoding and emitting the stamped PDU: the second half of \<open>on_tle_msg_from_mle\<close>.\<close>

definition on_tle_send :: "Llc \<Rightarrow> Env \<Rightarrow> nat \<Rightarrow> TleSapMsg \<Rightarrow> LlcPdu \<Rightarrow> (Llc \<times> Env) option" where
  "on_tle_send llc env k inm pdu = do {
     (r, bytes) \<leftarrow> encode_to_bytes pdu (uninit (LLC_PDU_BODY_MAX_BYTES + 8));
     case r of
       Inl _ \<Rightarrow> Some (llc, env)
     | Inr bits \<Rightarrow>
         let (h, env) = env_req_handle env in
         if bits > TMA_SDU_MAX_BYTES * 8 then Some (llc, env)
         else do {
           req \<leftarrow> mk_tma_req (tle_endpoint inm) (tle_addr inm) h bits bytes;
           let (rc, env) = env_post env (sap_prio_default SapId_TmaSap) (tma_req_msg req);
           let llc = (if rc = Inr () then stats_tx llc else llc);
           let llc = (if is_bl_data (pdu_type pdu) then ep_update k (mark_sent pdu) llc else llc);
           Some (llc, env)
         }
   }"

definition on_tle_msg_from_mle :: "Llc \<Rightarrow> Env \<Rightarrow> SapMsg \<Rightarrow> (Llc \<times> Env) option" where
  "on_tle_msg_from_mle llc env msg =
     (case payload msg of
        None \<Rightarrow> Some (llc, env)
      | Some pl \<Rightarrow>
          if len msg < sizeof_TleSapMsg \<or> \<not> llc_initialised llc then Some (llc, env)
          else
            let inm = TleSapMsg_of_bytes pl;
                (epi, llc) = llc_endpoint_lookup llc (tle_endpoint inm)
            in case epi of
                 None \<Rightarrow> Some (llc, env)
               | Some k \<Rightarrow>
                   let ep = endpoints llc ! k;
                       pdu = tle_pdu inm;
                       pdu = (if llc_pdu_type_has_ns (pdu_type pdu) then pdu\<lparr>ns := ns_send ep\<rparr> else pdu);
                       pdu = (if llc_pdu_type_has_nr (pdu_type pdu) then pdu\<lparr>nr := nr_expected ep\<rparr> else pdu)
                   in on_tle_send llc env k inm pdu)"

definition llc_init :: "Env \<Rightarrow> LlcCfg option \<Rightarrow> unit res \<times> Llc \<times> Env" where
  "llc_init env cfg =
     (let llc = zero_llc;
          llc = (case cfg of Some c \<Rightarrow> llc\<lparr>llc_cfg := c\<rparr> | None \<Rightarrow> llc);
          llc = (if max_retx (llc_cfg llc) = 0
                 then llc\<lparr>llc_cfg := (llc_cfg llc)\<lparr>max_retx := LLC_DEFAULT_MAX_RETX\<rparr>\<rparr> else llc);
          (rc, b) = msgbus_register (bus env) SapId_TmaSap SapId_TmaSap Llc_on_tma_unitdata_ind;
          env = env\<lparr>bus := b\<rparr>
      in case rc of
           Inl e \<Rightarrow> (Inl e, llc, env)
         | Inr _ \<Rightarrow>
             let (rc, b) = msgbus_register (bus env) SapId_TmaSap SapId_TleSap Llc_on_tle_msg_from_mle;
                 env = env\<lparr>bus := b\<rparr>
             in case rc of
                  Inl e \<Rightarrow> (Inl e, llc, env)
                | Inr _ \<Rightarrow> (Inr (), llc\<lparr>llc_initialised := True\<rparr>, env))"

definition tle_up_msg :: "TleSapMsg \<Rightarrow> SapMsg" where
  "tle_up_msg m = sapmsg_init SapId_TmaSap SapId_TleSap SapId_TleSap (Some (TleSapMsg_bytes m)) sizeof_TleSapMsg"

definition llc_post_to_mle :: "Env \<Rightarrow> TleSapMsg \<Rightarrow> unit res \<times> Env" where
  "llc_post_to_mle env m = env_post env (sap_prio_default SapId_TleSap) (tle_up_msg m)"

definition llc_send_bl_ack :: "Llc \<Rightarrow> Env \<Rightarrow> EndpointId \<Rightarrow> TetraAddress \<Rightarrow> (unit res \<times> Llc \<times> Env) option" where
  "llc_send_bl_ack llc env epid addr =
     (let (epi, llc) = llc_endpoint_lookup llc epid in
      case epi of
        None \<Rightarrow> Some (Inl ENOSPC, llc, env)
      | Some k \<Rightarrow>
          let ep = endpoints llc ! k;
              pdu = zero_pdu\<lparr>pdu_type := LlcPdu_BL_ACK, nr := nr_expected ep, body_len_bits := 0\<rparr>
          in do {
            (r, bytes) \<leftarrow> encode_to_bytes pdu (uninit 8);
            case r of
              Inl e \<Rightarrow> Some (Inl e, llc, env)
            | Inr bits \<Rightarrow>
                let (h, env) = env_req_handle env in do {
                  req \<leftarrow> mk_tma_req epid addr h bits bytes;
                  let (rc, env) = env_post env (sap_prio_default SapId_TmaSap) (tma_req_msg req);
                  case rc of
                    Inl e \<Rightarrow> Some (Inl e, llc, env)
                  | Inr _ \<Rightarrow> Some (Inr (), stats_tx llc, env)
                }
          })"

text \<open>The body of an outgoing data frame: a zeroed array with the caller's bytes copied in.\<close>

definition bl_data_body :: "u8 list option \<Rightarrow> nat \<Rightarrow> u8 list option" where
  "bl_data_body bdy n =
     (case bdy of
        Some bs \<Rightarrow> if n > 0 then memcpy_front (body zero_pdu) bs ((n + 7) div 8) else Some (body zero_pdu)
      | None \<Rightarrow> Some (body zero_pdu))"

definition llc_send_bl_data ::
  "Llc \<Rightarrow> Env \<Rightarrow> EndpointId \<Rightarrow> TetraAddress \<Rightarrow> u8 list option \<Rightarrow> nat \<Rightarrow> (unit res \<times> Llc \<times> Env) option" where
  "llc_send_bl_data llc env epid addr bdy n =
     (if (bdy = None \<and> n \<noteq> 0) \<or> n > LLC_PDU_BODY_MAX_BYTES * 8 then Some (Inl EINVAL, llc, env)
      else
        let (epi, llc) = llc_endpoint_lookup llc epid in
        case epi of
          None \<Rightarrow> Some (Inl ENOSPC, llc, env)
        | Some k \<Rightarrow>
            let ep = endpoints llc ! k in
            if awaiting_ack ep then Some (Inl EBUSY, llc, env)
            else do {
              let pdu = zero_pdu\<lparr>pdu_type := LlcPdu_BL_DATA, ns := ns_send ep, body_len_bits := n\<rparr>;
              bs \<leftarrow> bl_data_body bdy n;
              let pdu = pdu\<lparr>body := bs\<rparr>;
              (r, bytes) \<leftarrow> encode_to_bytes pdu (uninit (LLC_PDU_BODY_MAX_BYTES + 8));
              case r of
                Inl e \<Rightarrow> Some (Inl e, llc, env)
              | Inr bits \<Rightarrow>
                  let (h, env) = env_req_handle env in
                  if bits > TMA_SDU_MAX_BYTES * 8 then Some (Inl E2BIG, llc, env)
                  else do {
                    req \<leftarrow> mk_tma_req epid addr h bits bytes;
                    let (rc, env) = env_post env (sap_prio_default SapId_TmaSap) (tma_req_msg req);
                    case rc of
                      Inl e \<Rightarrow> Some (Inl e, llc, env)
                    | Inr _ \<Rightarrow> Some (Inr (), stats_tx (ep_update k (mark_sent pdu) llc), env)
                  }
            })"

text \<open>The length of everything in a PDU but its body.\<close>

definition llc_overhead :: "LlcPduType \<Rightarrow> nat" where
  "llc_overhead t =
     (let overhead = 4;
          overhead = (if llc_pdu_type_has_nr t then overhead + 1 else overhead);
          overhead = (if llc_pdu_type_has_ns t then overhead + 1 else overhead);
          overhead = (if llc_pdu_type_has_fcs t then overhead + 32 else overhead)
      in if t = LlcPdu_AL_SETUP then 4 else overhead)"

text \<open>The state machine on a decoded PDU: the \<open>switch\<close> at the end of the indication handler.\<close>

definition llc_rx_pdu :: "Llc \<Rightarrow> Env \<Rightarrow> TmaUnitdataInd \<Rightarrow> LlcPdu \<Rightarrow> nat \<Rightarrow> (Llc \<times> Env) option" where
  "llc_rx_pdu llc env ind pdu k =
     (let up = \<lparr>tle_endpoint = tma_endpoint ind, tle_addr = tma_addr ind, tle_pdu = pdu\<rparr>;
          ep = endpoints llc ! k
      in if is_bl_data (pdu_type pdu) then
           if ns pdu = nr_expected ep then do {
             let llc = ep_update k (\<lambda>ep. ep\<lparr>nr_expected := nr_expected ep XOR 1\<rparr>) llc;
             let (_, env) = llc_post_to_mle env up;
             (_, llc, env) \<leftarrow> llc_send_bl_ack llc env (tma_endpoint ind) (tma_addr ind);
             Some (llc, env)
           }
           else do {
             (_, llc, env) \<leftarrow> llc_send_bl_ack llc env (tma_endpoint ind) (tma_addr ind);
             Some (llc, env)
           }
         else if pdu_type pdu = LlcPdu_BL_ACK \<or> pdu_type pdu = LlcPdu_BL_ACK_FCS then
           if awaiting_ack ep \<and> nr pdu = ns_send ep
           then Some (ep_update k (\<lambda>ep. ep\<lparr>awaiting_ack := False, retx_count := 0\<rparr>) llc, env)
           else Some (llc, env)
         else
           let (_, env) = llc_post_to_mle env up in Some (llc, env))"

definition llc_handle_tma_unitdata_ind :: "Llc \<Rightarrow> Env \<Rightarrow> TmaUnitdataInd \<Rightarrow> (unit res \<times> Llc \<times> Env) option" where
  "llc_handle_tma_unitdata_ind llc env ind =
     (if sdu_len_bits ind = 0 \<or> sdu_len_bits ind > TMA_SDU_MAX_BYTES * 8 then Some (Inl EINVAL, llc, env)
      else do {
        sdu_buf \<leftarrow> memcpy_front (uninit TMA_SDU_MAX_BYTES) (sdu_bits ind) ((sdu_len_bits ind + 7) div 8);
        let bb = bb_init sdu_buf (sdu_len_bits ind);
        if bb_remaining bb < 4 then Some (Inl EPROTO, llc, env)
        else do {
          (raw_type, bb) \<leftarrow> bb_get_bits bb 4;
          if \<not> llc_pdu_type_is_valid (unat raw_type)
          then Some (Inl EPROTO,
                     llc\<lparr>llc_stats := (llc_stats llc)\<lparr>unknown_pdu_type := unknown_pdu_type (llc_stats llc) + 1\<rparr>\<rparr>, env)
          else
            let t = LlcPduType_of_code (unat raw_type); overhead = llc_overhead t in
            if sdu_len_bits ind < overhead then Some (Inl EPROTO, llc, env)
            else
              let body_bits = (if t = LlcPdu_AL_SETUP then 0 else to_u16 (sdu_len_bits ind - overhead)) in
              if body_bits > LLC_PDU_BODY_MAX_BYTES * 8 then Some (Inl EPROTO, llc, env)
              else do {
                bb \<leftarrow> bb_seek_bits bb 0;
                (rc, bb, pdu) \<leftarrow> llc_pdu_decode bb (zero_pdu\<lparr>body_len_bits := body_bits\<rparr>);
                case rc of
                  Inl e \<Rightarrow> Some (Inl e, llc, env)
                | Inr _ \<Rightarrow>
                    let llc = llc\<lparr>llc_stats := (llc_stats llc)\<lparr>pdus_rx := pdus_rx (llc_stats llc) + 1\<rparr>\<rparr> in
                    if llc_pdu_type_has_fcs (pdu_type pdu) \<and> \<not> fcs_valid pdu
                    then Some (Inr (),
                           llc\<lparr>llc_stats := (llc_stats llc)\<lparr>fcs_failures := fcs_failures (llc_stats llc) + 1\<rparr>\<rparr>, env)
                    else
                      let (epi, llc) = llc_endpoint_lookup llc (tma_endpoint ind) in
                      case epi of
                        None \<Rightarrow> Some (Inl ENOSPC, llc, env)
                      | Some k \<Rightarrow> do {
                          (llc, env) \<leftarrow> llc_rx_pdu llc env ind pdu k;
                          Some (Inr (), llc, env)
                        }
              }
        }
      })"

definition on_tma_unitdata_ind :: "Llc \<Rightarrow> Env \<Rightarrow> SapMsg \<Rightarrow> (Llc \<times> Env) option" where
  "on_tma_unitdata_ind llc env msg =
     (case payload msg of
        None \<Rightarrow> Some (llc, env)
      | Some pl \<Rightarrow>
          if len msg < sizeof_TmaUnitdataInd then Some (llc, env)
          else do {
            (_, llc, env) \<leftarrow> llc_handle_tma_unitdata_ind llc env (TmaUnitdataInd_of_bytes pl);
            Some (llc, env)
          })"

section \<open>Images\<close>

lemma length_LlcPdu_bytes [simp]: "length (body p) = 32 \<Longrightarrow> length (LlcPdu_bytes p) = 48"
  by (simp add: LlcPdu_bytes_def)

lemma length_TleSapMsg_bytes [simp]: "length (body (tle_pdu m)) = 32 \<Longrightarrow> length (TleSapMsg_bytes m) = 60"
  by (simp add: TleSapMsg_bytes_def)

lemma length_TmaUnitdataInd_bytes [simp]: "length (sdu_bits m) = 64 \<Longrightarrow> length (TmaUnitdataInd_bytes m) = 84"
  by (simp add: TmaUnitdataInd_bytes_def)

lemma LlcPdu_at_append:
  assumes "off = length p" "length (body u) = 32" "body_len_bits u < 65536"
  shows "LlcPdu_at (p @ LlcPdu_bytes u @ r) off = u"
proof -
  let ?t = "le32 (of_nat (LlcPduType_code (pdu_type u)))" and ?l = "le16 (body_len_bits u)"
  let ?bs = "p @ LlcPdu_bytes u @ r"
  have "LlcPduType_code (pdu_type u) < 2 ^ 32"
    by (cases "pdu_type u") simp_all
  then have "nat_at ?bs off = LlcPduType_code (pdu_type u)"
    using nat_at_append [OF assms(1), of "LlcPduType_code (pdu_type u)"] by (simp add: LlcPdu_bytes_def)
  moreover have "u8_at ?bs (off + 4) = nr u" "u8_at ?bs (off + 5) = ns u"
    using u8_at_append [of "off + 4" "p @ ?t"] u8_at_append [of "off + 5" "p @ ?t @ [nr u]"] assms(1)
    by (simp_all add: LlcPdu_bytes_def)
  moreover have "u16_at ?bs (off + 6) = body_len_bits u"
    using u16_at_append [of "off + 6" "p @ ?t @ [nr u] @ [ns u]"] assms by (simp add: LlcPdu_bytes_def)
  moreover have "bytes_at ?bs (off + 8) 32 = body u"
    using bytes_at_append [of "off + 8" "p @ ?t @ [nr u] @ [ns u] @ ?l"] assms by (simp add: LlcPdu_bytes_def)
  moreover have "u32_at ?bs (off + 40) = fcs u"
    using u32_at_append [of "off + 40" "p @ ?t @ [nr u] @ [ns u] @ ?l @ body u"] assms
    by (simp add: LlcPdu_bytes_def)
  moreover have "bool_at ?bs (off + 44) = fcs_valid u"
    using bool_at_append [of "off + 44" "p @ ?t @ [nr u] @ [ns u] @ ?l @ body u @ le32 (fcs u)"] assms
    by (simp add: LlcPdu_bytes_def)
  ultimately show ?thesis
    by (simp add: LlcPdu_at_def)
qed

lemma TleSapMsg_roundtrip [codec_simps]:
  assumes "length (body (tle_pdu m)) = 32" "body_len_bits (tle_pdu m) < 65536"
  shows "TleSapMsg_of_bytes (TleSapMsg_bytes m) = m"
proof -
  have "u32_at (TleSapMsg_bytes m) 0 = tle_endpoint m"
    using u32_at_append [of 0 "[]"] by (simp add: TleSapMsg_bytes_def)
  moreover have "TetraAddress_at (TleSapMsg_bytes m) 4 = tle_addr m"
    using TetraAddress_at_append [of 4 "le32 (tle_endpoint m)"] by (simp add: TleSapMsg_bytes_def)
  moreover have "LlcPdu_at (TleSapMsg_bytes m) 12 = tle_pdu m"
    using LlcPdu_at_append [of 12 "le32 (tle_endpoint m) @ TetraAddress_bytes (tle_addr m)" "tle_pdu m" "[]"] assms
    by (simp add: TleSapMsg_bytes_def)
  ultimately show ?thesis
    by (simp add: TleSapMsg_of_bytes_def)
qed

lemma TmaUnitdataInd_roundtrip [codec_simps]:
  assumes "length (sdu_bits m) = 64" "sdu_len_bits m < 65536"
  shows "TmaUnitdataInd_of_bytes (TmaUnitdataInd_bytes m) = m"
proof -
  let ?bs = "TmaUnitdataInd_bytes m" and ?e = "le32 (tma_endpoint m)" and ?a = "TetraAddress_bytes (tma_addr m)"
  have "u32_at ?bs 0 = tma_endpoint m"
    using u32_at_append [of 0 "[]"] by (simp add: TmaUnitdataInd_bytes_def)
  moreover have "TetraAddress_at ?bs 4 = tma_addr m"
    using TetraAddress_at_append [of 4 ?e] by (simp add: TmaUnitdataInd_bytes_def)
  moreover have "u32_at ?bs 12 = req_handle m"
    using u32_at_append [of 12 "?e @ ?a"] by (simp add: TmaUnitdataInd_bytes_def)
  moreover have "u16_at ?bs 16 = sdu_len_bits m"
    using u16_at_append [of 16 "?e @ ?a @ le32 (req_handle m)"] assms by (simp add: TmaUnitdataInd_bytes_def)
  moreover have "bytes_at ?bs 18 64 = sdu_bits m"
    using bytes_at_append [of 18 "?e @ ?a @ le32 (req_handle m) @ le16 (sdu_len_bits m)"] assms
    by (simp add: TmaUnitdataInd_bytes_def)
  ultimately show ?thesis
    by (simp add: TmaUnitdataInd_of_bytes_def)
qed

section \<open>Endpoint table\<close>

interpretation endpoint_table: slot_table ep_in_use ep_id fresh_endpoint
  by unfold_locales (simp_all add: fresh_endpoint_def)

definition ep_ok :: "LlcEndpoint \<Rightarrow> bool" where
  "ep_ok ep \<longleftrightarrow> ns_send ep \<in> {0, 1} \<and> nr_expected ep \<in> {0, 1}"

definition llc_inv :: "Llc \<Rightarrow> bool" where
  "llc_inv llc \<longleftrightarrow> length (endpoints llc) = LLC_MAX_ENDPOINTS \<and> slot_inv ep_in_use ep_id (endpoints llc)
     \<and> (\<forall>ep\<in>set (endpoints llc). ep_ok ep)"

lemma endpoint_find_slot: "endpoint_find llc i = slot_find ep_in_use ep_id i (endpoints llc)"
  by (simp add: endpoint_find_def slot_find_def)

lemma endpoint_lookup_ok:
  assumes "llc_inv llc" "llc_endpoint_lookup llc i = (Some k, llc')"
  shows "k < LLC_MAX_ENDPOINTS" "llc_inv llc'" "ep_in_use (endpoints llc' ! k)" "ep_id (endpoints llc' ! k) = i"
    "endpoint_find llc' i = Some k" "llc_stats llc' = llc_stats llc"
    "llc_initialised llc' = llc_initialised llc"
proof -
  have "k < LLC_MAX_ENDPOINTS \<and> llc_inv llc' \<and> ep_in_use (endpoints llc' ! k) \<and> ep_id (endpoints llc' ! k) = i \<and>
      endpoint_find llc' i = Some k \<and> llc_stats llc' = llc_stats llc \<and>
      llc_initialised llc' = llc_initialised llc"
  proof (cases "endpoint_find llc i")
    case (Some j)
    with assms have e: "llc' = llc" "k = j" by (simp_all add: llc_endpoint_lookup_def)
    from Some have "slot_find ep_in_use ep_id i (endpoints llc) = Some j"
      by (simp add: endpoint_find_slot)
    from slot_findD [OF this] e Some assms(1) show ?thesis
      by (simp add: llc_inv_def)
  next
    case None
    then have miss: "slot_find ep_in_use ep_id i (endpoints llc) = None"
      by (simp add: endpoint_find_slot)
    from None assms(2) have free: "slot_free ep_in_use (endpoints llc) = Some k"
      and llc': "llc' = llc\<lparr>endpoints := (endpoints llc)[k := fresh_endpoint i]\<rparr>"
      by (auto simp: llc_endpoint_lookup_def endpoint_alloc_def slot_free_def split: option.splits)
    have inv: "slot_inv ep_in_use ep_id (endpoints llc)" and l: "length (endpoints llc) = LLC_MAX_ENDPOINTS"
      and ok: "\<forall>ep\<in>set (endpoints llc). ep_ok ep"
      using assms(1) by (simp_all add: llc_inv_def)
    have "ep_ok (fresh_endpoint i)"
      by (simp add: ep_ok_def fresh_endpoint_def)
    from list_update_all [OF ok this, of k] endpoint_table.alloc_inv [OF inv miss free]
      endpoint_table.alloc_find [OF inv miss free] slot_freeD [OF free] l llc'
    show ?thesis
      by (simp add: llc_inv_def endpoint_find_slot endpoint_table.used_fresh endpoint_table.key_fresh)
  qed
  then show "k < LLC_MAX_ENDPOINTS" "llc_inv llc'" "ep_in_use (endpoints llc' ! k)" "ep_id (endpoints llc' ! k) = i"
    "endpoint_find llc' i = Some k" "llc_stats llc' = llc_stats llc"
    "llc_initialised llc' = llc_initialised llc" by simp_all
qed

lemma endpoint_lookup_full:
  "llc_endpoint_lookup llc i = (None, llc') \<Longrightarrow> llc' = llc"
  by (auto simp: llc_endpoint_lookup_def endpoint_alloc_def split: option.splits)

lemma endpoint_lookup_found: "endpoint_find llc i = Some k \<Longrightarrow> llc_endpoint_lookup llc i = (Some k, llc)"
  by (simp add: llc_endpoint_lookup_def)

text \<open>Updates that keep the identity of the endpoint keep the table.\<close>

lemma ep_update_inv:
  assumes "llc_inv llc" "k < LLC_MAX_ENDPOINTS" "ep_id (f (endpoints llc ! k)) = ep_id (endpoints llc ! k)"
    "ep_in_use (f (endpoints llc ! k)) = ep_in_use (endpoints llc ! k)" "ep_ok (f (endpoints llc ! k))"
  shows "llc_inv (ep_update k f llc)" "endpoint_find (ep_update k f llc) i = endpoint_find llc i"
proof -
  have l: "k < length (endpoints llc)"
    using assms(1,2) by (simp add: llc_inv_def)
  show "llc_inv (ep_update k f llc)"
    using assms slot_inv_update [of ep_in_use ep_id "endpoints llc" "f (endpoints llc ! k)" k]
      list_update_all [of "endpoints llc" ep_ok "f (endpoints llc ! k)" k]
    by (simp add: llc_inv_def ep_update_def)
  show "endpoint_find (ep_update k f llc) i = endpoint_find llc i"
    using slot_find_update [of k "endpoints llc" ep_in_use "f (endpoints llc ! k)" ep_id i] l assms(3,4)
    by (simp add: endpoint_find_slot ep_update_def)
qed

lemma ep_update_simps [simp]:
  "llc_stats (ep_update k f llc) = llc_stats llc"
  "llc_initialised (ep_update k f llc) = llc_initialised llc"
  by (simp_all add: ep_update_def)

lemma ep_update_nth [simp]:
  "llc_inv llc \<Longrightarrow> k < LLC_MAX_ENDPOINTS \<Longrightarrow> endpoints (ep_update k f llc) ! k = f (endpoints llc ! k)"
  by (simp add: ep_update_def llc_inv_def)

lemma llc_inv_stats [simp]:
  "llc_inv (stats_tx llc) = llc_inv llc" "endpoints (stats_tx llc) = endpoints llc"
  "llc_initialised (stats_tx llc) = llc_initialised llc"
  "llc_inv (llc\<lparr>llc_stats := s\<rparr>) = llc_inv llc"
  by (simp_all add: stats_tx_def llc_inv_def)

lemma ep_ok_nth: "llc_inv llc \<Longrightarrow> k < LLC_MAX_ENDPOINTS \<Longrightarrow> ep_ok (endpoints llc ! k)"
  by (simp add: llc_inv_def)

lemma toggle_01: "(x :: u8) \<in> {0, 1} \<Longrightarrow> x XOR 1 \<in> {0, 1}"
  by auto

lemma mark_sent_ok [simp]:
  "ep_id (mark_sent pdu ep) = ep_id ep" "ep_in_use (mark_sent pdu ep) = ep_in_use ep"
  "ep_ok ep \<Longrightarrow> ep_ok (mark_sent pdu ep)"
  by (auto simp: mark_sent_def ep_ok_def)

section \<open>Encoding into a byte array\<close>

lemma put_body_from_length: "put_body_from bb bs s n = Some bb' \<Longrightarrow> length (buffer bb') = length (buffer bb)"
proof (induction bb bs s n rule: put_body_from.induct)
  case (1 bb bs s n)
  then show ?case
    by (auto simp: put_body_from.simps [of bb] split: if_splits bind_splits dest!: bb_put_bits_length)
qed

lemma llc_pdu_encode_length: "llc_pdu_encode bb pdu = Some (r, bb') \<Longrightarrow> length (buffer bb') = length (buffer bb)"
  by (auto simp: llc_pdu_encode_def put_body_def Let_def split: if_splits bind_splits
      dest!: bb_put_bits_length put_body_from_length)

lemma llc_pdu_bits_max: "llc_pdu_wf pdu \<Longrightarrow> length (llc_pdu_bits pdu) \<le> 294"
  using llc_wf_lens [of pdu]
  by (auto simp: llc_pdu_bits_def llc_covered_bits_def llc_ctrl_len_def split: if_splits)

lemma encode_to_bytes_ok:
  assumes "llc_pdu_wf pdu" "length (llc_pdu_bits pdu) \<le> 8 * length buf"
  shows "\<exists>bytes. encode_to_bytes pdu buf = Some (Inr (length (llc_pdu_bits pdu)), bytes) \<and>
     length bytes = length buf \<and> take (length (llc_pdu_bits pdu)) (bits_of bytes) = llc_pdu_bits pdu"
proof -
  let ?bb = "bb_init_autoexpand buf (length buf * 8)"
  have "bb_inv ?bb" "length (llc_pdu_bits pdu) \<le> bb_room ?bb"
    using assms(2) by simp_all
  from llc_pdu_encode_ok [OF this(1) assms(1) this(2)] obtain bb'
    where bb': "llc_pdu_encode ?bb pdu = Some (Inr (length (llc_pdu_bits pdu)), bb')" "bb_inv bb'"
      "bb_out bb' = bb_out ?bb @ llc_pdu_bits pdu"
    by (elim exE conjE)
  have "length (buffer bb') = length buf"
    using llc_pdu_encode_length [OF bb'(1)] by (simp add: bb_init_autoexpand_def)
  moreover have "take (length (llc_pdu_bits pdu)) (bits_of (buffer bb')) = llc_pdu_bits pdu"
  proof -
    have o: "bb_out bb' = llc_pdu_bits pdu"
      using bb'(3) by simp
    then have "pos bb' = length (llc_pdu_bits pdu)"
      using length_bb_out [OF bb'(2)] by simp
    with o show ?thesis
      by (simp add: bb_out_def)
  qed
  moreover have "to_u16 (length (llc_pdu_bits pdu)) = length (llc_pdu_bits pdu)"
    using llc_pdu_bits_max [OF assms(1)] by simp
  ultimately show ?thesis
    using bb'(1) by (simp add: encode_to_bytes_def)
qed

text \<open>On 40 bytes the encoder always returns: it rejects the PDU or the PDU fits.\<close>

lemma encode_to_bytes_total:
  assumes "length (body pdu) = 32"
  shows "(\<exists>e bytes. encode_to_bytes pdu (uninit 40) = Some (Inl e, bytes) \<and> \<not> llc_pdu_wf pdu) \<or>
    (\<exists>bytes. encode_to_bytes pdu (uninit 40) = Some (Inr (length (llc_pdu_bits pdu)), bytes) \<and>
       length bytes = 40 \<and> take (length (llc_pdu_bits pdu)) (bits_of bytes) = llc_pdu_bits pdu \<and> llc_pdu_wf pdu)"
proof (cases "llc_pdu_wf pdu")
  case True
  then show ?thesis
    using encode_to_bytes_ok [OF True, of "uninit 40"] llc_pdu_bits_max [OF True] by auto
next
  case False
  with assms have "llc_pdu_encode bb pdu = Some (Inl EINVAL, bb)" for bb
    by (auto simp: llc_pdu_encode_def llc_pdu_wf_def LLC_PDU_BODY_MAX_BYTES_def)
  then show ?thesis
    using False by (simp add: encode_to_bytes_def)
qed

text \<open>The SDU of a request carries exactly the encoded bits.\<close>

lemma take_bits_of_prefix:
  assumes "n \<le> 8 * m" "m \<le> length bs"
  shows "take n (bits_of (take m bs @ xs)) = take n (bits_of bs)"
proof -
  have "bits_of bs = bits_of (take m bs) @ bits_of (drop m bs)"
    by (metis append_take_drop_id bits_of_append)
  with assms show ?thesis
    by simp
qed

lemma mk_tma_req_ok:
  assumes "bits \<le> 512" "(bits + 7) div 8 \<le> length bytes"
  shows "\<exists>req. mk_tma_req e a h bits bytes = Some req \<and> length (sdu_bits req) = 64 \<and> sdu_len_bits req = bits \<and>
     take bits (bits_of (sdu_bits req)) = take bits (bits_of bytes) \<and>
     tma_endpoint req = e \<and> tma_addr req = a \<and> req_handle req = h"
proof -
  have m: "(bits + 7) div 8 \<le> 64" "bits \<le> 8 * ((bits + 7) div 8)"
    using assms(1) by linarith+
  with assms(2) take_bits_of_prefix [OF m(2) assms(2), of "drop ((bits + 7) div 8) (replicate 64 0)"]
  show ?thesis
    by (simp add: mk_tma_req_def TMA_SDU_MAX_BYTES_def)
qed

lemma tma_req_msg_ok: "length (sdu_bits req) = 64 \<Longrightarrow> msg_ok (tma_req_msg req)"
  by (simp add: msg_ok_def tma_req_msg_def sapmsg_init_def sizeof_TmaUnitdataInd_def)

lemma tle_up_msg_ok: "length (body (tle_pdu m)) = 32 \<Longrightarrow> msg_ok (tle_up_msg m)"
  by (simp add: msg_ok_def tle_up_msg_def sapmsg_init_def sizeof_TleSapMsg_def)

section \<open>No operation aborts, and every operation keeps the entity well-formed\<close>

text \<open>A step that leaves a well-formed entity and changes the bus by posting only.\<close>

definition llc_safe :: "Llc \<Rightarrow> Env \<Rightarrow> (Llc \<times> Env) option \<Rightarrow> bool" where
  "llc_safe llc env r \<longleftrightarrow> (\<exists>llc' env'. r = Some (llc', env') \<and> llc_inv llc' \<and> env_posts env env' \<and>
     llc_initialised llc' = llc_initialised llc)"

lemma llc_safe_keep [simp]: "llc_safe llc env (Some (llc', env)) \<longleftrightarrow>
    llc_inv llc' \<and> llc_initialised llc' = llc_initialised llc"
  by (simp add: llc_safe_def)

lemma tma_req_msg_good: "msg_good (tma_req_msg req)"
  by (simp add: tma_req_msg_def sapmsg_init_def)

lemma env_req_then_post:
  "env_req_handle env = (h, env1) \<Longrightarrow> env_post env1 prio m = (rc, env2) \<Longrightarrow> msg_ok m \<Longrightarrow> msg_good m \<Longrightarrow> env_posts env env2"
  using env_req_handle_posts [of env] env_post_posts [of m env1 prio] env_posts_trans by fastforce

lemma llc_send_bl_ack_spec:
  assumes "llc_inv llc" "endpoint_find llc epid = Some k"
  shows "\<exists>req env1. length (sdu_bits req) = 64 \<and> sdu_len_bits req = 5 \<and>
     take 5 (bits_of (sdu_bits req)) = [False, False, True, True, bit (nr_expected (endpoints llc ! k)) 0] \<and>
     tma_endpoint req = epid \<and> tma_addr req = addr \<and>
     env1 = snd (env_req_handle env) \<and> req_handle req = fst (env_req_handle env) \<and>
     llc_send_bl_ack llc env epid addr =
       Some (fst (env_post env1 MsgPrio_High (tma_req_msg req)),
             if fst (env_post env1 MsgPrio_High (tma_req_msg req)) = Inr () then stats_tx llc else llc,
             snd (env_post env1 MsgPrio_High (tma_req_msg req)))"
proof -
  define pdu where "pdu = zero_pdu\<lparr>pdu_type := LlcPdu_BL_ACK, nr := nr_expected (endpoints llc ! k), body_len_bits := 0\<rparr>"
  have wf: "llc_pdu_wf pdu"
    by (simp add: pdu_def zero_pdu_def llc_pdu_wf_def LLC_PDU_BODY_MAX_BYTES_def)
  have bits: "llc_pdu_bits pdu = [False, False, True, True, bit (nr_expected (endpoints llc ! k)) 0]"
    by (simp add: llc_pdu_bits_def llc_covered_bits_def llc_ctrl_bits_def pdu_def word_bits_def
        llc_pdu_type_has_fcs_def bit_simps upt_conv_Cons)
  obtain bytes where bytes: "encode_to_bytes pdu (uninit 8) = Some (Inr 5, bytes)" "length bytes = 8"
      "take 5 (bits_of bytes) = llc_pdu_bits pdu"
  proof -
    have "length (llc_pdu_bits pdu) = 5" by (simp add: bits)
    with encode_to_bytes_ok [OF wf, of "uninit 8"] that show thesis by auto
  qed
  obtain h env1 where h: "env_req_handle env = (h, env1)" by fastforce
  obtain req where req: "mk_tma_req epid addr h 5 bytes = Some req" "length (sdu_bits req) = 64"
      "sdu_len_bits req = 5" "take 5 (bits_of (sdu_bits req)) = take 5 (bits_of bytes)"
      "tma_endpoint req = epid" "tma_addr req = addr" "req_handle req = h"
    using mk_tma_req_ok [of 5 bytes epid addr h] bytes(2) by auto
  have "llc_send_bl_ack llc env epid addr =
       Some (fst (env_post env1 MsgPrio_High (tma_req_msg req)),
             if fst (env_post env1 MsgPrio_High (tma_req_msg req)) = Inr () then stats_tx llc else llc,
             snd (env_post env1 MsgPrio_High (tma_req_msg req)))"
    unfolding llc_send_bl_ack_def endpoint_lookup_found [OF assms(2)]
    using bytes(1) h req(1)
    by (auto simp: Let_def pdu_def [symmetric] split_beta split: sum.splits)
  with req bytes(3) bits h show ?thesis
    by (intro exI [of _ req] exI [of _ env1]) simp
qed

lemma llc_send_bl_ack_safe:
  assumes "llc_inv llc"
  shows "\<exists>rc llc' env'. llc_send_bl_ack llc env epid addr = Some (rc, llc', env') \<and> llc_inv llc' \<and>
     env_posts env env' \<and> llc_initialised llc' = llc_initialised llc"
proof -
  obtain epi llc1 where look: "llc_endpoint_lookup llc epid = (epi, llc1)" by fastforce
  show ?thesis
  proof (cases epi)
    case None
    with look endpoint_lookup_full [of llc epid llc1] assms show ?thesis
      by (simp add: llc_send_bl_ack_def)
  next
    case (Some k)
    with look have l: "llc_endpoint_lookup llc epid = (Some k, llc1)" by simp
    note ok = endpoint_lookup_ok [OF assms l]
    from llc_send_bl_ack_spec [OF ok(2,5), of addr env] obtain req env1
      where r: "length (sdu_bits req) = 64" "env1 = snd (env_req_handle env)"
        "llc_send_bl_ack llc1 env epid addr =
         Some (fst (env_post env1 MsgPrio_High (tma_req_msg req)),
               if fst (env_post env1 MsgPrio_High (tma_req_msg req)) = Inr () then stats_tx llc1 else llc1,
               snd (env_post env1 MsgPrio_High (tma_req_msg req)))"
      by (elim exE conjE)
    have same: "llc_send_bl_ack llc env epid addr = llc_send_bl_ack llc1 env epid addr"
      unfolding llc_send_bl_ack_def l endpoint_lookup_found [OF ok(5)] ..
    have "env_posts env (snd (env_post env1 MsgPrio_High (tma_req_msg req)))"
      using env_post_posts [OF tma_req_msg_ok [OF r(1)] tma_req_msg_good] env_req_handle_posts [of env] r(2)
        env_posts_trans by blast
    then show ?thesis
      unfolding same r(3) using ok(2,7) by auto
  qed
qed

lemma tle_up_msg_good:
  assumes "length (body (tle_pdu m)) = 32" "body_len_bits (tle_pdu m) \<le> 256"
  shows "msg_good (tle_up_msg m)"
proof -
  have "body_len_bits (tle_pdu (TleSapMsg_of_bytes (TleSapMsg_bytes m))) = body_len_bits (tle_pdu m)"
    using assms by (simp add: TleSapMsg_roundtrip)
  then have "u16_at (TleSapMsg_bytes m) 18 = body_len_bits (tle_pdu m)"
    by (simp add: TleSapMsg_of_bytes_def LlcPdu_at_def)
  with assms(2) show ?thesis
    by (simp add: msg_good_def tle_up_msg_def sapmsg_init_def)
qed

text \<open>The message any entity posts for the image of a \<open>TleSapMsg\<close>, and the copy of a body into a zeroed PDU.\<close>

lemma tle_msg_facts:
  assumes "length (body (tle_pdu t)) = 32" "body_len_bits (tle_pdu t) \<le> 256"
    and "m = sapmsg_init s d SapId_TleSap (Some (TleSapMsg_bytes t)) sizeof_TleSapMsg"
  shows "msg_ok m" "msg_good m" "payload (norm_msg m) = Some (TleSapMsg_bytes t)" "TleSapMsg_of_bytes (TleSapMsg_bytes t) = t"
  using tle_up_msg_ok [OF assms(1)] tle_up_msg_good [OF assms(1,2)] assms TleSapMsg_roundtrip [OF assms(1)]
  by (simp_all add: tle_up_msg_def sapmsg_init_def msg_ok_def msg_good_def norm_msg_def sizeof_TleSapMsg_def)

lemma body_copy_ok:
  assumes "length b = 32" "n \<le> 256"
  shows "\<exists>b'. memcpy_front (body zero_pdu) b ((n + 7) div 8) = Some b' \<and> length b' = 32 \<and> take n (bits_of b') = take n (bits_of b)"
proof -
  have m: "(n + 7) div 8 \<le> 32" "n \<le> 8 * ((n + 7) div 8)" using assms(2) by linarith+
  with assms take_bits_of_prefix [OF m(2), of b "drop ((n + 7) div 8) (replicate 32 0)"] show ?thesis
    by (simp add: zero_pdu_def)
qed

lemma llc_post_to_mle_posts:
  "length (body (tle_pdu m)) = 32 \<Longrightarrow> body_len_bits (tle_pdu m) \<le> 256 \<Longrightarrow> env_posts env (snd (llc_post_to_mle env m))"
  by (simp add: llc_post_to_mle_def env_post_posts tle_up_msg_ok tle_up_msg_good)

lemma llc_safeI_ack:
  assumes "llc_inv llc1" "env_posts env env1" "llc_initialised llc1 = llc_initialised llc"
  shows "llc_safe llc env (Option.bind (llc_send_bl_ack llc1 env1 e a) (\<lambda>(_, y). Some y))"
  using llc_send_bl_ack_safe [OF assms(1), of env1 e a] assms(2,3) env_posts_trans
  by (fastforce simp: llc_safe_def)

lemma llc_rx_pdu_safe:
  assumes "llc_inv llc" "k < LLC_MAX_ENDPOINTS" "length (body pdu) = 32" "body_len_bits pdu \<le> 256"
  shows "llc_safe llc env (llc_rx_pdu llc env ind pdu k)"
proof -
  let ?up = "\<lparr>tle_endpoint = tma_endpoint ind, tle_addr = tma_addr ind, tle_pdu = pdu\<rparr>"
  have post: "env_posts env (snd (llc_post_to_mle env ?up))"
    by (rule llc_post_to_mle_posts) (simp_all add: assms(3,4))
  have ok: "ep_ok (endpoints llc ! k)"
    using ep_ok_nth [OF assms(1,2)] .
  have "llc_inv (ep_update k (\<lambda>ep. ep\<lparr>nr_expected := nr_expected ep XOR 1\<rparr>) llc)"
    using ok toggle_01 by (intro ep_update_inv [OF assms(1,2)]) (auto simp: ep_ok_def)
  moreover have "llc_inv (ep_update k (\<lambda>ep. ep\<lparr>awaiting_ack := False, retx_count := 0\<rparr>) llc)"
    using ok by (intro ep_update_inv [OF assms(1,2)]) (auto simp: ep_ok_def)
  moreover have "llc_safe llc env (Some (llc, snd (llc_post_to_mle env ?up)))"
    using assms(1) post by (simp add: llc_safe_def)
  ultimately show ?thesis
    using assms(1) post llc_safeI_ack [of _ env _ llc] unfolding llc_rx_pdu_def Let_def
    by (cases "is_bl_data (pdu_type pdu)"; cases "ns pdu = nr_expected (endpoints llc ! k)")
      (simp_all add: split_beta)
qed

lemma bytes_at_length [simp]: "off + n \<le> length bs \<Longrightarrow> length (bytes_at bs off n) = n"
  by (simp add: bytes_at_def)

text \<open>The decoder keeps the size of the body array.\<close>

lemma get_body_from_length: "get_body_from bb bs d n = Some (bb', bs') \<Longrightarrow> length bs' = length bs"
proof (induction bb bs d n rule: get_body_from.induct)
  case (1 bb bs d n)
  then show ?case
    by (auto simp: get_body_from.simps [of bb] arr_set_def Let_def split: if_splits bind_splits)
qed

lemma decode_body_length: "decode_body s i o1 = Some (rc, i', o2) \<Longrightarrow> body_len_bits o1 \<le> 256 \<Longrightarrow>
    length (body o1) = 32 \<Longrightarrow> length (body o2) = 32 \<and> body_len_bits o2 \<le> 256"
  by (auto simp: decode_body_def decode_fcs_def get_body_def Let_def split: if_splits bind_splits
      dest!: get_body_from_length)

lemma decode_ctrl_body: "decode_ctrl i o1 = Some (i', o2) \<Longrightarrow> body o2 = body o1 \<and> body_len_bits o2 = body_len_bits o1"
  by (auto simp: decode_ctrl_def split: if_splits bind_splits)

lemma llc_pdu_decode_body_length:
  assumes "llc_pdu_decode inb out = Some (rc, inb', out')" "length (body out) = 32" "body_len_bits out \<le> 256"
  shows "length (body out') = 32 \<and> body_len_bits out' \<le> 256"
  using assms
  by (auto simp: llc_pdu_decode_def Let_def LLC_PDU_BODY_MAX_BYTES_def split: if_splits bind_splits
      dest!: decode_ctrl_body decode_body_length)

lemma llc_handle_ind_safe:
  assumes "llc_inv llc" "length (sdu_bits ind) = 64"
  shows "\<exists>rc llc' env'. llc_handle_tma_unitdata_ind llc env ind = Some (rc, llc', env') \<and> llc_inv llc' \<and>
     env_posts env env' \<and> llc_initialised llc' = llc_initialised llc"
proof (cases "sdu_len_bits ind = 0 \<or> sdu_len_bits ind > 512")
  case True
  with assms(1) show ?thesis
    by (auto simp: llc_handle_tma_unitdata_ind_def TMA_SDU_MAX_BYTES_def)
next
  case False
  let ?n = "sdu_len_bits ind" and ?m = "(sdu_len_bits ind + 7) div 8"
  define buf where "buf = take ?m (sdu_bits ind) @ drop ?m (uninit 64)"
  have m: "?m \<le> 64" using False by linarith
  then have buf: "memcpy_front (uninit 64) (sdu_bits ind) ?m = Some buf" "length buf = 64"
    using assms(2) by (simp_all add: buf_def)
  have inv: "bb_inv (bb_init buf ?n)"
    using False buf(2) by simp
  show ?thesis
  proof (cases "bb_remaining (bb_init buf ?n) < 4")
    case True
    with False buf assms(1) show ?thesis
      by (auto simp: llc_handle_tma_unitdata_ind_def TMA_SDU_MAX_BYTES_def)
  next
    case rem: False
    define raw :: u32 where "raw = word_of_bits (take 4 (bb_rest (bb_init buf ?n)))"
    have get: "bb_get_bits (bb_init buf ?n) 4 = Some (raw, bb_adv (bb_init buf ?n) 4)"
      using bb_get_adv [OF inv, of 4 0] rem by (simp add: raw_def)
    have seek: "bb_seek_bits (bb_adv (bb_init buf ?n) 4) 0 = Some (bb_init buf ?n)"
      by (simp add: bb_seek_bits_def bb_adv_def bb_init_def)
    let ?t = "LlcPduType_of_code (unat raw)"
    let ?b = "if ?t = LlcPdu_AL_SETUP then 0 else to_u16 (?n - llc_overhead ?t)"
    obtain rc bb' pdu where dec: "llc_pdu_decode (bb_init buf ?n) (zero_pdu\<lparr>body_len_bits := ?b\<rparr>) = Some (rc, bb', pdu)"
      using llc_pdu_decode_total [OF inv, of "zero_pdu\<lparr>body_len_bits := ?b\<rparr>"]
      by (auto simp: zero_pdu_def LLC_PDU_BODY_MAX_BYTES_def)
    have lb: "length (body pdu) = 32" "body_len_bits pdu \<le> 256" if "?b \<le> 256"
      using llc_pdu_decode_body_length [OF dec] that by (simp_all add: zero_pdu_def)
    let ?llc = "llc\<lparr>llc_stats := (llc_stats llc)\<lparr>pdus_rx := pdus_rx (llc_stats llc) + 1\<rparr>\<rparr>"
    obtain epi llc1 where look: "llc_endpoint_lookup ?llc (tma_endpoint ind) = (epi, llc1)" by fastforce
    have fin: "\<exists>rc llc' env'. (case epi of None \<Rightarrow> Some (Inl ENOSPC, llc1, env)
        | Some k \<Rightarrow> Option.bind (llc_rx_pdu llc1 env ind pdu k) (\<lambda>(llc, env). Some (Inr (), llc, env))) =
        Some (rc, llc', env') \<and> llc_inv llc' \<and> env_posts env env' \<and> llc_initialised llc' = llc_initialised llc"
      if "?b \<le> 256"
    proof (cases epi)
      case None
      with look endpoint_lookup_full [of ?llc "tma_endpoint ind" llc1] assms(1) show ?thesis by simp
    next
      case (Some k)
      have inv': "llc_inv ?llc" using assms(1) by simp
      note ok = endpoint_lookup_ok [OF inv' look [unfolded Some]]
      from llc_rx_pdu_safe [OF ok(2,1) lb [OF that], of env ind] Some ok(7) show ?thesis
        by (auto simp: llc_safe_def)
    qed
    show ?thesis
    proof (cases "?b \<le> 256")
      case True
      show ?thesis
        using False rem buf assms(1) get seek dec look fin [OF True] unfolding llc_handle_tma_unitdata_ind_def
        by (auto simp: TMA_SDU_MAX_BYTES_def Let_def split: sum.splits)
    next
      case False
      then show ?thesis
        using \<open>\<not> (?n = 0 \<or> ?n > 512)\<close> rem buf assms(1) get unfolding llc_handle_tma_unitdata_ind_def
        by (auto simp: TMA_SDU_MAX_BYTES_def LLC_PDU_BODY_MAX_BYTES_def Let_def)
    qed
  qed
qed

lemma on_tma_unitdata_ind_safe:
  assumes "llc_inv llc" "msg_ok msg"
  shows "llc_safe llc env (on_tma_unitdata_ind llc env msg)"
proof (cases "payload msg = None \<or> len msg < 84")
  case True
  with assms(1) show ?thesis
    by (auto simp: on_tma_unitdata_ind_def sizeof_TmaUnitdataInd_def split: option.splits)
next
  case False
  then obtain pl where pl: "payload msg = Some pl" by auto
  with assms(2) False have "84 \<le> length pl" by (simp add: msg_ok_def)
  then have "length (sdu_bits (TmaUnitdataInd_of_bytes pl)) = 64"
    by (simp add: TmaUnitdataInd_of_bytes_def)
  from llc_handle_ind_safe [OF assms(1) this, of env] pl False show ?thesis
    by (auto simp: on_tma_unitdata_ind_def sizeof_TmaUnitdataInd_def llc_safe_def)
qed

lemma on_tle_send_spec:
  assumes "llc_pdu_wf pdu"
  shows "\<exists>req env1. env1 = snd (env_req_handle env) \<and> length (sdu_bits req) = 64 \<and>
     sdu_len_bits req = length (llc_pdu_bits pdu) \<and>
     take (length (llc_pdu_bits pdu)) (bits_of (sdu_bits req)) = llc_pdu_bits pdu \<and>
     tma_endpoint req = tle_endpoint inm \<and> tma_addr req = tle_addr inm \<and>
     on_tle_send llc env k inm pdu =
       (let (rc, env2) = env_post env1 MsgPrio_High (tma_req_msg req);
            llc = (if rc = Inr () then stats_tx llc else llc)
        in Some (if is_bl_data (pdu_type pdu) then ep_update k (mark_sent pdu) llc else llc, env2))"
proof -
  let ?n = "length (llc_pdu_bits pdu)"
  have n: "?n \<le> 294"
    using llc_pdu_bits_max [OF assms] .
  obtain bytes where bytes: "encode_to_bytes pdu (uninit 40) = Some (Inr ?n, bytes)" "length bytes = 40"
      "take ?n (bits_of bytes) = llc_pdu_bits pdu"
    using encode_to_bytes_ok [OF assms, of "uninit 40"] n by auto
  obtain h env1 where h: "env_req_handle env = (h, env1)" by fastforce
  have "?n \<le> 512" "(?n + 7) div 8 \<le> length bytes"
    using n bytes(2) by linarith+
  from mk_tma_req_ok [OF this, of "tle_endpoint inm" "tle_addr inm" h] obtain req
    where req: "mk_tma_req (tle_endpoint inm) (tle_addr inm) h ?n bytes = Some req" "length (sdu_bits req) = 64"
      "sdu_len_bits req = ?n" "take ?n (bits_of (sdu_bits req)) = take ?n (bits_of bytes)"
      "tma_endpoint req = tle_endpoint inm" "tma_addr req = tle_addr inm"
    by (elim exE conjE)
  have "on_tle_send llc env k inm pdu =
       (let (rc, env2) = env_post env1 MsgPrio_High (tma_req_msg req);
            llc = (if rc = Inr () then stats_tx llc else llc)
        in Some (if is_bl_data (pdu_type pdu) then ep_update k (mark_sent pdu) llc else llc, env2))"
    using bytes(1) h req(1) n unfolding on_tle_send_def
    by (simp add: LLC_PDU_BODY_MAX_BYTES_def TMA_SDU_MAX_BYTES_def)
  with req bytes(3) h show ?thesis
    by (intro exI [of _ req] exI [of _ env1]) simp
qed

lemma on_tle_send_safe:
  assumes "llc_inv llc" "k < LLC_MAX_ENDPOINTS" "length (body pdu) = 32"
  shows "llc_safe llc env (on_tle_send llc env k inm pdu)"
proof (cases "llc_pdu_wf pdu")
  case False
  with encode_to_bytes_total [OF assms(3)] assms(1) show ?thesis
    by (auto simp: on_tle_send_def LLC_PDU_BODY_MAX_BYTES_def)
next
  case True
  obtain req env1 where r: "env1 = snd (env_req_handle env)" "length (sdu_bits req) = 64"
     "on_tle_send llc env k inm pdu =
       (let (rc, env2) = env_post env1 MsgPrio_High (tma_req_msg req);
            llc = (if rc = Inr () then stats_tx llc else llc)
        in Some (if is_bl_data (pdu_type pdu) then ep_update k (mark_sent pdu) llc else llc, env2))"
    using on_tle_send_spec [OF True, of env inm llc k] by (elim exE conjE)
  have "env_posts env (snd (env_post env1 MsgPrio_High (tma_req_msg req)))"
    using env_post_posts [OF tma_req_msg_ok [OF r(2)] tma_req_msg_good] env_req_handle_posts [of env] r(1) env_posts_trans by blast
  moreover have "llc_inv (ep_update k (mark_sent pdu) l)" if "llc_inv l" for l
    using ep_ok_nth [OF that assms(2)] by (intro ep_update_inv [OF that assms(2)]) simp_all
  ultimately show ?thesis
    unfolding r(3) using assms(1) by (auto simp: llc_safe_def split_beta Let_def)
qed

lemma on_tle_msg_from_mle_safe:
  assumes "llc_inv llc" "msg_ok msg"
  shows "llc_safe llc env (on_tle_msg_from_mle llc env msg)"
proof (cases "payload msg = None \<or> len msg < 60 \<or> \<not> llc_initialised llc")
  case True
  with assms(1) show ?thesis
    by (auto simp: on_tle_msg_from_mle_def sizeof_TleSapMsg_def split: option.splits)
next
  case False
  then obtain pl where pl: "payload msg = Some pl" by auto
  define inm where "inm = TleSapMsg_of_bytes pl"
  obtain epi llc1 where look: "llc_endpoint_lookup llc (tle_endpoint inm) = (epi, llc1)" by fastforce
  have run: "on_tle_msg_from_mle llc env msg = (case epi of None \<Rightarrow> Some (llc1, env) | Some k \<Rightarrow>
      let ep = endpoints llc1 ! k; pdu = tle_pdu inm;
          pdu = (if llc_pdu_type_has_ns (pdu_type pdu) then pdu\<lparr>ns := ns_send ep\<rparr> else pdu);
          pdu = (if llc_pdu_type_has_nr (pdu_type pdu) then pdu\<lparr>nr := nr_expected ep\<rparr> else pdu)
      in on_tle_send llc1 env k inm pdu)"
    unfolding on_tle_msg_from_mle_def using pl False look
    by (simp add: sizeof_TleSapMsg_def inm_def [symmetric])
  show ?thesis
  proof (cases epi)
    case None
    with run look endpoint_lookup_full [of llc "tle_endpoint inm" llc1] assms(1) show ?thesis by simp
  next
    case (Some k)
    note ok = endpoint_lookup_ok [OF assms(1) look [unfolded Some]]
    have "60 \<le> length pl"
      using pl False assms(2) by (simp add: msg_ok_def)
    then have "length (body (tle_pdu inm)) = 32"
      by (simp add: inm_def TleSapMsg_of_bytes_def LlcPdu_at_def)
    then have "llc_safe llc1 env (on_tle_send llc1 env k inm pdu)" if "body pdu = body (tle_pdu inm)" for pdu
      using on_tle_send_safe [OF ok(2,1)] that by simp
    then show ?thesis
      unfolding run Some using ok(7) by (simp add: Let_def llc_safe_def)
  qed
qed

section \<open>Receiving\<close>

text \<open>An indication whose SDU is the on-air form of a PDU.\<close>

definition carries :: "TmaUnitdataInd \<Rightarrow> LlcPdu \<Rightarrow> bool" where
  "carries ind pdu \<longleftrightarrow> length (sdu_bits ind) = 64 \<and> llc_pdu_wf pdu \<and>
     sdu_len_bits ind = length (llc_pdu_bits pdu) \<and>
     take (length (llc_pdu_bits pdu)) (bits_of (sdu_bits ind)) = llc_pdu_bits pdu"

lemma llc_overhead_body:
  assumes "llc_pdu_wf pdu"
  shows "length (llc_pdu_bits pdu) = llc_overhead (pdu_type pdu) + body_len_bits pdu"
  using llc_wf_lens [OF assms] assms
  by (auto simp: llc_pdu_bits_def llc_covered_bits_def llc_overhead_def llc_ctrl_len_def Let_def llc_pdu_wf_def)

lemma carries_type:
  assumes "llc_pdu_wf pdu" "bb_rest bb = llc_pdu_bits pdu"
  shows "unat (word_of_bits (take 4 (bb_rest bb)) :: u32) = LlcPduType_code (pdu_type pdu)"
proof -
  let ?c = "LlcPduType_code (pdu_type pdu)"
  have c: "?c < 16"
    using assms(1) by (intro llc_type_less) (simp add: llc_pdu_wf_def)
  have "take 4 (bb_rest bb) = word_bits 4 (of_nat ?c :: u32)"
    by (simp add: assms(2) llc_pdu_bits_def llc_covered_bits_def)
  then have "(word_of_bits (take 4 (bb_rest bb)) :: u32) = take_bit 4 (of_nat ?c)"
    by (simp only: word_of_bits_word_bits ucast_id)
  with c show ?thesis
    by (simp add: take_bit_eq_mod unat_mod unat_of_nat)
qed

lemma llc_handle_ind_decoded:
  assumes "carries ind pdu"
  shows "\<exists>pdu'. llc_same_pdu pdu' pdu \<and> length (body pdu') = 32 \<and> nr pdu' \<in> {0, 1} \<and> ns pdu' \<in> {0, 1} \<and>
     llc_handle_tma_unitdata_ind llc env ind =
      (let llc = llc\<lparr>llc_stats := (llc_stats llc)\<lparr>pdus_rx := pdus_rx (llc_stats llc) + 1\<rparr>\<rparr>;
           (epi, llc) = llc_endpoint_lookup llc (tma_endpoint ind)
       in case epi of None \<Rightarrow> Some (Inl ENOSPC, llc, env)
          | Some k \<Rightarrow> Option.bind (llc_rx_pdu llc env ind pdu' k) (\<lambda>(llc, env). Some (Inr (), llc, env)))"
proof -
  let ?n = "sdu_len_bits ind" and ?m = "(sdu_len_bits ind + 7) div 8"
  have wf: "llc_pdu_wf pdu" and n: "?n = length (llc_pdu_bits pdu)"
    and l64: "length (sdu_bits ind) = 64" and bits: "take ?n (bits_of (sdu_bits ind)) = llc_pdu_bits pdu"
    using assms by (simp_all add: carries_def)
  have nb: "4 \<le> ?n" "?n \<le> 294"
    using n llc_pdu_bits_max [OF wf] by (simp_all add: llc_pdu_bits_def llc_covered_bits_def)
  define buf where "buf = take ?m (sdu_bits ind) @ drop ?m (uninit 64)"
  have m: "?m \<le> 64" "?n \<le> 8 * ?m" using nb by linarith+
  then have buf: "memcpy_front (uninit 64) (sdu_bits ind) ?m = Some buf" "length buf = 64"
    using l64 by (simp_all add: buf_def)
  have inv: "bb_inv (bb_init buf ?n)"
    using nb buf(2) by simp
  have rest: "bb_rest (bb_init buf ?n) = llc_pdu_bits pdu"
    using take_bits_of_prefix [OF m(2), of "sdu_bits ind"] m l64 bits
    by (simp add: bb_rest_init buf_def)
  have rem: "bb_remaining (bb_init buf ?n) = ?n"
    by (simp add: bb_remaining_def bb_init_def)
  define raw :: u32 where "raw = word_of_bits (take 4 (bb_rest (bb_init buf ?n)))"
  have raw: "unat raw = LlcPduType_code (pdu_type pdu)"
    unfolding raw_def using wf rest by (rule carries_type)
  have get: "bb_get_bits (bb_init buf ?n) 4 = Some (raw, bb_adv (bb_init buf ?n) 4)"
    using bb_get_adv [OF inv, of 4 0] rem nb by (simp add: raw_def)
  have seek: "bb_seek_bits (bb_adv (bb_init buf ?n) 4) 0 = Some (bb_init buf ?n)"
    by (simp add: bb_seek_bits_def bb_adv_def bb_init_def)
  have bl: "(if pdu_type pdu = LlcPdu_AL_SETUP then 0 else to_u16 (?n - llc_overhead (pdu_type pdu))) = body_len_bits pdu"
    and tu: "pdu_type pdu \<noteq> LlcPdu_Unknown" and oh: "\<not> ?n < llc_overhead (pdu_type pdu)"
    and b256: "body_len_bits pdu \<le> 256"
    using llc_overhead_body [OF wf] n wf by (auto simp: llc_pdu_wf_def)
  obtain i pdu' where dec: "llc_pdu_decode (bb_init buf ?n) (zero_pdu\<lparr>body_len_bits := body_len_bits pdu\<rparr>) = Some (Inr (), i, pdu')"
      "llc_same_pdu pdu' pdu" "fcs_valid pdu' = llc_pdu_type_has_fcs (pdu_type pdu)"
      "nr pdu' \<in> {0, 1}" "ns pdu' \<in> {0, 1}"
    using llc_decode_encoded [OF inv wf, of "[]" "zero_pdu\<lparr>body_len_bits := body_len_bits pdu\<rparr>"] rest
    by (auto simp: zero_pdu_def LLC_PDU_BODY_MAX_BYTES_def)
  have lb: "length (body pdu') = 32"
    using llc_pdu_decode_body_length [OF dec(1)] b256 by (simp add: zero_pdu_def)
  have "pdu_type pdu' = pdu_type pdu"
    using dec(2) by (simp add: llc_same_pdu_def)
  then have fcs: "\<not> (llc_pdu_type_has_fcs (pdu_type pdu') \<and> \<not> fcs_valid pdu')"
    using dec(3) by simp
  have "llc_handle_tma_unitdata_ind llc env ind =
      (let llc = llc\<lparr>llc_stats := (llc_stats llc)\<lparr>pdus_rx := pdus_rx (llc_stats llc) + 1\<rparr>\<rparr>;
           (epi, llc) = llc_endpoint_lookup llc (tma_endpoint ind)
       in case epi of None \<Rightarrow> Some (Inl ENOSPC, llc, env)
          | Some k \<Rightarrow> Option.bind (llc_rx_pdu llc env ind pdu' k) (\<lambda>(llc, env). Some (Inr (), llc, env)))"
    unfolding llc_handle_tma_unitdata_ind_def
    using nb rem get seek raw buf(1) tu oh dec(1) fcs b256
    by (auto simp: TMA_SDU_MAX_BYTES_def LLC_PDU_BODY_MAX_BYTES_def bl Let_def)
  with dec(2,4,5) lb show ?thesis by blast
qed

lemma lookup_stats:
  assumes "llc_endpoint_lookup llc i = (r, llc1)"
  shows "llc_endpoint_lookup (llc\<lparr>llc_stats := st\<rparr>) i = (r, llc1\<lparr>llc_stats := st\<rparr>)"
proof (cases "endpoint_find llc i")
  case None
  with assms show ?thesis
    by (auto simp: llc_endpoint_lookup_def endpoint_find_def endpoint_alloc_def split: option.splits)
next
  case (Some k)
  moreover have "endpoint_find (llc\<lparr>llc_stats := st\<rparr>) i = endpoint_find llc i"
    by (simp add: endpoint_find_def)
  moreover have "r = Some k" "llc1 = llc"
    using assms Some by (simp_all add: llc_endpoint_lookup_def)
  ultimately show ?thesis
    by (simp add: llc_endpoint_lookup_def)
qed

lemma endpoint_find_stats [simp]: "endpoint_find (llc\<lparr>llc_stats := st\<rparr>) i = endpoint_find llc i"
  by (simp add: endpoint_find_def)

lemma tma_req_msg_simps [simp]:
  "dest (tma_req_msg r) = SapId_TmaSap" "sap (tma_req_msg r) = SapId_TmaSap" "len (tma_req_msg r) = 84"
  by (simp_all add: tma_req_msg_def sapmsg_init_def sizeof_TmaUnitdataInd_def)

lemma tle_up_msg_simps [simp]:
  "dest (tle_up_msg r) = SapId_TleSap" "sap (tle_up_msg r) = SapId_TleSap" "len (tle_up_msg r) = 60"
  by (simp_all add: tle_up_msg_def sapmsg_init_def sizeof_TleSapMsg_def)

text \<open>The acknowledgement of an endpoint, with room on the bus.\<close>

definition ack_req :: "TmaUnitdataInd \<Rightarrow> EndpointId \<Rightarrow> TetraAddress \<Rightarrow> bool \<Rightarrow> bool" where
  "ack_req req e a n \<longleftrightarrow> length (sdu_bits req) = 64 \<and> sdu_len_bits req = 5 \<and>
     take 5 (bits_of (sdu_bits req)) = [False, False, True, True, n] \<and> tma_endpoint req = e \<and> tma_addr req = a"

lemma llc_send_bl_ack_room:
  assumes "llc_inv llc" "endpoint_find llc e = Some k" "env_inv env" "env_room env MsgPrio_High"
  shows "\<exists>req env'. ack_req req e a (bit (nr_expected (endpoints llc ! k)) 0) \<and>
     llc_send_bl_ack llc env e a = Some (Inr (), stats_tx llc, env') \<and> env_inv env' \<and>
     env_abs env' = (env_abs env)[0 := env_abs env ! 0 @ [norm_msg (tma_req_msg req)]]"
proof -
  obtain req env1 where r: "length (sdu_bits req) = 64" "sdu_len_bits req = 5"
     "take 5 (bits_of (sdu_bits req)) = [False, False, True, True, bit (nr_expected (endpoints llc ! k)) 0]"
     "tma_endpoint req = e" "tma_addr req = a" "env1 = snd (env_req_handle env)"
     "llc_send_bl_ack llc env e a =
       Some (fst (env_post env1 MsgPrio_High (tma_req_msg req)),
             if fst (env_post env1 MsgPrio_High (tma_req_msg req)) = Inr () then stats_tx llc else llc,
             snd (env_post env1 MsgPrio_High (tma_req_msg req)))"
    using llc_send_bl_ack_spec [OF assms(1,2), of a env] by (elim exE conjE)
  have e1: "env_inv env1" "env_room env1 MsgPrio_High" "env_abs env1 = env_abs env"
    using assms(3,4) r(6) by simp_all
  from env_post_room [OF e1(1,2) tma_req_msg_ok [OF r(1)] tma_req_msg_good, of 0] r e1(3) show ?thesis
    by (intro exI [of _ req] exI [of _ "snd (env_post env1 MsgPrio_High (tma_req_msg req))"])
      (simp add: ack_req_def)
qed

lemma bit0_eq_01: "(x :: u8) \<in> {0, 1} \<Longrightarrow> y \<in> {0, 1} \<Longrightarrow> x = y \<longleftrightarrow> bit x 0 = bit y 0"
  by auto

text \<open>The decoded sequence numbers are 0 or 1.\<close>

lemma llc_rx_data_in_sequence:
  assumes "llc_inv llc" "endpoint_find llc (tma_endpoint ind) = Some k" "is_bl_data (pdu_type pdu)"
    "length (body pdu) = 32" "ns pdu = nr_expected (endpoints llc ! k)"
    "env_inv env" "env_room env MsgPrio_High" "env_room env MsgPrio_Normal" "body_len_bits pdu \<le> 256"
  shows "\<exists>llc' env' ack. llc_rx_pdu llc env ind pdu k = Some (llc', env') \<and>
     nr_expected (endpoints llc' ! k) = nr_expected (endpoints llc ! k) XOR 1 \<and>
     ack_req ack (tma_endpoint ind) (tma_addr ind) (\<not> bit (nr_expected (endpoints llc ! k)) 0) \<and>
     env_abs env' = (env_abs env)[0 := env_abs env ! 0 @ [norm_msg (tma_req_msg ack)],
        1 := env_abs env ! 1 @ [norm_msg (tle_up_msg \<lparr>tle_endpoint = tma_endpoint ind, tle_addr = tma_addr ind, tle_pdu = pdu\<rparr>)]]"
proof -
  let ?up = "\<lparr>tle_endpoint = tma_endpoint ind, tle_addr = tma_addr ind, tle_pdu = pdu\<rparr>"
  let ?llc = "ep_update k (\<lambda>ep. ep\<lparr>nr_expected := nr_expected ep XOR 1\<rparr>) llc"
  let ?env = "snd (llc_post_to_mle env ?up)"
  have k: "k < LLC_MAX_ENDPOINTS"
    using assms(1,2) slot_findD(1) by (fastforce simp: endpoint_find_slot llc_inv_def)
  have ok: "ep_ok (endpoints llc ! k)"
    using ep_ok_nth [OF assms(1) k] .
  let ?f = "\<lambda>ep. ep\<lparr>nr_expected := nr_expected ep XOR 1\<rparr>"
  have f: "ep_id (?f (endpoints llc ! k)) = ep_id (endpoints llc ! k)"
      "ep_in_use (?f (endpoints llc ! k)) = ep_in_use (endpoints llc ! k)" "ep_ok (?f (endpoints llc ! k))"
    using ok toggle_01 by (simp, simp, auto simp: ep_ok_def)
  have upd: "llc_inv ?llc" "endpoint_find ?llc (tma_endpoint ind) = Some k"
    using ep_update_inv [where f = ?f, OF assms(1) k f] assms(2) by simp_all
  have nrx: "nr_expected (endpoints ?llc ! k) = nr_expected (endpoints llc ! k) XOR 1"
    using assms(1) k by simp
  note post = env_post_room [OF assms(6,8), of "tle_up_msg ?up" 1]
  have env1: "env_inv ?env" "env_abs ?env = (env_abs env)[1 := env_abs env ! 1 @ [norm_msg (tle_up_msg ?up)]]"
      "env_room ?env MsgPrio_High"
    using post assms(4,7,9) by (simp_all add: llc_post_to_mle_def tle_up_msg_ok tle_up_msg_good)
  from llc_send_bl_ack_room [OF upd env1(1,3), of "tma_addr ind"] nrx
  obtain ack env' where ack: "ack_req ack (tma_endpoint ind) (tma_addr ind) (bit (nr_expected (endpoints llc ! k) XOR 1) 0)"
     "llc_send_bl_ack ?llc ?env (tma_endpoint ind) (tma_addr ind) = Some (Inr (), stats_tx ?llc, env')"
     "env_abs env' = (env_abs ?env)[0 := env_abs ?env ! 0 @ [norm_msg (tma_req_msg ack)]]"
    by auto
  have l3: "length (env_abs env) = 3"
    using assms(6) by (simp add: env_inv_def bus_inv_def env_abs_def bus_abs_def)
  have "llc_rx_pdu llc env ind pdu k = Some (stats_tx ?llc, env')"
    using assms(3,5) ack(2) by (simp add: llc_rx_pdu_def Let_def split_beta)
  moreover have "bit (nr_expected (endpoints llc ! k) XOR 1) 0 = (\<not> bit (nr_expected (endpoints llc ! k)) 0)"
    by (simp add: bit_simps)
  ultimately show ?thesis
    using ack(1,3) env1(2) nrx l3
    by (intro exI [of _ "stats_tx ?llc"] exI [of _ env'] exI [of _ ack]) (simp add: list_update_swap)
qed

lemma llc_rx_data_duplicate:
  assumes "llc_inv llc" "endpoint_find llc (tma_endpoint ind) = Some k" "is_bl_data (pdu_type pdu)"
    "ns pdu \<noteq> nr_expected (endpoints llc ! k)" "env_inv env" "env_room env MsgPrio_High"
  shows "\<exists>env' ack. llc_rx_pdu llc env ind pdu k = Some (stats_tx llc, env') \<and>
     ack_req ack (tma_endpoint ind) (tma_addr ind) (bit (nr_expected (endpoints llc ! k)) 0) \<and>
     env_abs env' = (env_abs env)[0 := env_abs env ! 0 @ [norm_msg (tma_req_msg ack)]]"
  using llc_send_bl_ack_room [OF assms(1,2,5,6), of "tma_addr ind"] assms(3,4)
  by (auto simp: llc_rx_pdu_def Let_def)

lemma llc_send_bl_data_spec:
  assumes "llc_inv llc" "endpoint_find llc e = Some k" "\<not> awaiting_ack (endpoints llc ! k)"
    and "n \<le> 256" "(n + 7) div 8 \<le> length bs" "env_inv env" "env_room env MsgPrio_High"
  shows "\<exists>req pdu env'. llc_send_bl_data llc env e a (Some bs) n =
       Some (Inr (), stats_tx (ep_update k (mark_sent pdu) llc), env') \<and>
     carries req pdu \<and> tma_endpoint req = e \<and> tma_addr req = a \<and>
     pdu_type pdu = LlcPdu_BL_DATA \<and> ns pdu = ns_send (endpoints llc ! k) \<and> body_len_bits pdu = n \<and>
     take n (bits_of (body pdu)) = take n (bits_of bs) \<and>
     env_abs env' = (env_abs env)[0 := env_abs env ! 0 @ [norm_msg (tma_req_msg req)]]"
proof -
  let ?m = "(n + 7) div 8"
  define bd where "bd = take ?m bs @ drop ?m (replicate 32 (0 :: u8))"
  define pdu where "pdu = zero_pdu\<lparr>pdu_type := LlcPdu_BL_DATA, ns := ns_send (endpoints llc ! k), body_len_bits := n, body := bd\<rparr>"
  have m: "?m \<le> 32" "n \<le> 8 * ?m" using assms(4) by linarith+
  have bd: "memcpy_front (replicate 32 0) bs ?m = Some bd" "length bd = 32" "take n (bits_of bd) = take n (bits_of bs)"
    using m assms(5) take_bits_of_prefix [OF m(2) assms(5)] by (simp_all add: bd_def)
  have wf: "llc_pdu_wf pdu"
    using bd(2) assms(4) by (simp add: pdu_def zero_pdu_def llc_pdu_wf_def LLC_PDU_BODY_MAX_BYTES_def)
  let ?l = "length (llc_pdu_bits pdu)"
  have l: "?l \<le> 294" using llc_pdu_bits_max [OF wf] .
  obtain bytes where bytes: "encode_to_bytes pdu (uninit 40) = Some (Inr ?l, bytes)" "length bytes = 40"
      "take ?l (bits_of bytes) = llc_pdu_bits pdu"
    using encode_to_bytes_ok [OF wf, of "uninit 40"] l by auto
  obtain h env1 where h: "env_req_handle env = (h, env1)" by fastforce
  then have e1: "env_inv env1" "env_room env1 MsgPrio_High" "env_abs env1 = env_abs env"
    using assms(6,7) env_req_handle_simps [of env] by simp_all
  have "?l \<le> 512" "(?l + 7) div 8 \<le> length bytes"
    using l bytes(2) by linarith+
  from mk_tma_req_ok [OF this, of e a h] obtain req
    where req: "mk_tma_req e a h ?l bytes = Some req" "length (sdu_bits req) = 64"
      "sdu_len_bits req = ?l" "take ?l (bits_of (sdu_bits req)) = take ?l (bits_of bytes)"
      "tma_endpoint req = e" "tma_addr req = a"
    by (elim exE conjE)
  note post = env_post_room [OF e1(1,2) tma_req_msg_ok [OF req(2)] tma_req_msg_good, of 0]
  obtain env' where env': "env_post env1 MsgPrio_High (tma_req_msg req) = (Inr (), env')"
      "env_abs env' = (env_abs env1)[0 := env_abs env1 ! 0 @ [norm_msg (tma_req_msg req)]]"
    using post by (cases "env_post env1 MsgPrio_High (tma_req_msg req)") auto
  have bdy: "bl_data_body (Some bs) n = Some bd"
    using bd(1) by (auto simp: bl_data_body_def zero_pdu_def bd_def)
  have "llc_send_bl_data llc env e a (Some bs) n = Some (Inr (), stats_tx (ep_update k (mark_sent pdu) llc), env')"
    unfolding llc_send_bl_data_def endpoint_lookup_found [OF assms(2)]
    using assms(3,4) bdy bytes(1) h req(1) env'(1) l
    by (simp add: Let_def LLC_PDU_BODY_MAX_BYTES_def TMA_SDU_MAX_BYTES_def pdu_def [symmetric])
  moreover have "carries req pdu"
    using req(2-4) bytes(3) wf by (simp add: carries_def)
  ultimately show ?thesis
    using req(5,6) bd(3) env'(2) e1(3)
    by (intro exI [of _ req] exI [of _ pdu] exI [of _ env']) (simp add: pdu_def)
qed

lemma llc_send_busy:
  assumes "endpoint_find llc e = Some k" "awaiting_ack (endpoints llc ! k)" "n \<le> 256" "bdy = None \<longrightarrow> n = 0"
  shows "llc_send_bl_data llc env e a bdy n = Some (Inl EBUSY, llc, env)"
  using assms by (auto simp: llc_send_bl_data_def endpoint_lookup_found LLC_PDU_BODY_MAX_BYTES_def)

section \<open>Properties\<close>

text \<open>
  C2: stop-and-wait reception. A data frame arriving on a known endpoint is compared with the
  expected sequence bit. In sequence, it is forwarded to the MLE exactly once with its content, the
  expected bit toggles and an acknowledgement with the new bit is sent. Out of sequence (a
  retransmission), nothing is forwarded, the expected bit stays, and the previous acknowledgement is
  repeated. Hence a frame received twice is delivered once.
\<close>

theorem llc_stop_and_wait_rx:
  assumes "llc_inv llc" "endpoint_find llc (tma_endpoint ind) = Some k" "carries ind pdu"
    "is_bl_data (pdu_type pdu)" "env_inv env" "env_room env MsgPrio_High" "env_room env MsgPrio_Normal"
    and "exp = nr_expected (endpoints llc ! k)"
  shows "\<exists>llc' env' ack. llc_handle_tma_unitdata_ind llc env ind = Some (Inr (), llc', env') \<and>
    (if bit (ns pdu) 0 = bit exp 0
     then nr_expected (endpoints llc' ! k) = exp XOR 1 \<and>
          ack_req ack (tma_endpoint ind) (tma_addr ind) (\<not> bit exp 0) \<and>
          (\<exists>up. llc_same_pdu (tle_pdu up) pdu \<and> tle_endpoint up = tma_endpoint ind \<and> tle_addr up = tma_addr ind \<and>
             env_abs env' = (env_abs env)[0 := env_abs env ! 0 @ [norm_msg (tma_req_msg ack)],
                1 := env_abs env ! 1 @ [norm_msg (tle_up_msg up)]])
     else nr_expected (endpoints llc' ! k) = exp \<and>
          ack_req ack (tma_endpoint ind) (tma_addr ind) (bit exp 0) \<and>
          env_abs env' = (env_abs env)[0 := env_abs env ! 0 @ [norm_msg (tma_req_msg ack)]])"
proof -
  let ?st = "(llc_stats llc)\<lparr>pdus_rx := pdus_rx (llc_stats llc) + 1\<rparr>"
  let ?llc = "llc\<lparr>llc_stats := ?st\<rparr>"
  obtain pdu' where pdu': "llc_same_pdu pdu' pdu" "length (body pdu') = 32" "ns pdu' \<in> {0, 1}"
    and h: "llc_handle_tma_unitdata_ind llc env ind =
      (let llc = ?llc; (epi, llc) = llc_endpoint_lookup llc (tma_endpoint ind)
       in case epi of None \<Rightarrow> Some (Inl ENOSPC, llc, env)
          | Some k \<Rightarrow> Option.bind (llc_rx_pdu llc env ind pdu' k) (\<lambda>(llc, env). Some (Inr (), llc, env)))"
    using llc_handle_ind_decoded [OF assms(3), of llc env] by (elim exE conjE)
  have handle: "llc_handle_tma_unitdata_ind llc env ind =
      Option.bind (llc_rx_pdu ?llc env ind pdu' k) (\<lambda>(llc, env). Some (Inr (), llc, env))"
    unfolding h Let_def lookup_stats [OF endpoint_lookup_found [OF assms(2)]] by simp
  have inv: "llc_inv ?llc" "endpoint_find ?llc (tma_endpoint ind) = Some k"
    using assms(1,2) by simp_all
  have k: "k < LLC_MAX_ENDPOINTS"
    using assms(1,2) slot_findD(1) by (fastforce simp: endpoint_find_slot llc_inv_def)
  have data: "is_bl_data (pdu_type pdu')"
    using pdu'(1) assms(4) by (simp add: llc_same_pdu_def)
  have "llc_pdu_type_has_ns (pdu_type pdu)"
    using assms(4) by (auto simp: is_bl_data_def)
  then have "bit (ns pdu') 0 = bit (ns pdu) 0"
    using pdu'(1) by (simp add: llc_same_pdu_def)
  then have eq: "ns pdu' = exp \<longleftrightarrow> bit (ns pdu) 0 = bit exp 0"
    using bit0_eq_01 [OF pdu'(3), of exp] ep_ok_nth [OF assms(1) k] assms(8) by (simp add: ep_ok_def)
  have b256: "body_len_bits pdu' \<le> 256"
    using pdu'(1) assms(3) by (simp add: llc_same_pdu_def carries_def llc_pdu_wf_def)
  show ?thesis
  proof (cases "ns pdu' = exp")
    case True
    from llc_rx_data_in_sequence [OF inv data pdu'(2) _ assms(5-7) b256] True assms(8)
    obtain llc' env' ack where r: "llc_rx_pdu ?llc env ind pdu' k = Some (llc', env')"
       "nr_expected (endpoints llc' ! k) = exp XOR 1"
       "ack_req ack (tma_endpoint ind) (tma_addr ind) (\<not> bit exp 0)"
       "env_abs env' = (env_abs env)[0 := env_abs env ! 0 @ [norm_msg (tma_req_msg ack)],
          1 := env_abs env ! 1 @ [norm_msg (tle_up_msg \<lparr>tle_endpoint = tma_endpoint ind, tle_addr = tma_addr ind, tle_pdu = pdu'\<rparr>)]]"
      by auto
    let ?up = "\<lparr>tle_endpoint = tma_endpoint ind, tle_addr = tma_addr ind, tle_pdu = pdu'\<rparr>"
    have "llc_same_pdu (tle_pdu ?up) pdu \<and> tle_endpoint ?up = tma_endpoint ind \<and> tle_addr ?up = tma_addr ind"
      using pdu'(1) by simp
    with r(4) have "\<exists>up. llc_same_pdu (tle_pdu up) pdu \<and> tle_endpoint up = tma_endpoint ind \<and> tle_addr up = tma_addr ind \<and>
             env_abs env' = (env_abs env)[0 := env_abs env ! 0 @ [norm_msg (tma_req_msg ack)],
                1 := env_abs env ! 1 @ [norm_msg (tle_up_msg up)]]"
      by blast
    with r(1-3) True eq handle show ?thesis
      by (intro exI [of _ llc'] exI [of _ env'] exI [of _ ack]) simp
  next
    case False
    from llc_rx_data_duplicate [OF inv data _ assms(5,6)] False assms(8)
    obtain env' ack where r: "llc_rx_pdu ?llc env ind pdu' k = Some (stats_tx ?llc, env')"
       "ack_req ack (tma_endpoint ind) (tma_addr ind) (bit exp 0)"
       "env_abs env' = (env_abs env)[0 := env_abs env ! 0 @ [norm_msg (tma_req_msg ack)]]"
      by auto
    then show ?thesis
      using False eq handle assms(8)
      by (intro exI [of _ "stats_tx ?llc"] exI [of _ env'] exI [of _ ack]) simp
  qed
qed

text \<open>A concrete entity with one endpoint, and a five-bit BL-DATA frame for it.\<close>

definition ex_llc :: Llc where
  "ex_llc = zero_llc\<lparr>endpoints := (endpoints zero_llc)[0 := fresh_endpoint 1], llc_initialised := True\<rparr>"

definition ex_data :: LlcPdu where
  "ex_data = zero_pdu\<lparr>pdu_type := LlcPdu_BL_DATA\<rparr>"

definition ex_addr :: TetraAddress where
  "ex_addr = \<lparr>ssi = 0x282FF4, ssi_type = SsiType_Issi\<rparr>"

definition ex_ind :: TmaUnitdataInd where
  "ex_ind = \<lparr>tma_endpoint = 1, tma_addr = ex_addr, req_handle = 0, sdu_len_bits = 5,
     sdu_bits = 0x10 # replicate 63 0\<rparr>"

lemma ex_llc_facts:
  "llc_inv ex_llc" "endpoint_find ex_llc 1 = Some 0" "nr_expected (endpoints ex_llc ! 0) = 0"
  "\<not> awaiting_ack (endpoints ex_llc ! 0)"
proof -
  have e: "endpoints ex_llc = fresh_endpoint 1 # replicate 7 zero_endpoint"
    by (simp add: ex_llc_def zero_llc_def LLC_MAX_ENDPOINTS_def numeral_eq_Suc)
  have nth: "endpoints ex_llc ! i = (if i = 0 then fresh_endpoint 1 else zero_endpoint)" if "i < 8" for i
    using that by (simp add: e nth_Cons')
  have l: "length (endpoints ex_llc) = 8"
    by (simp add: e)
  have "slot_inv ep_in_use ep_id (endpoints ex_llc)"
    unfolding slot_inv_def l by (auto simp: nth zero_endpoint_def split: if_splits)
  moreover have "\<forall>ep\<in>set (endpoints ex_llc). ep_ok ep"
    by (simp add: e ep_ok_def fresh_endpoint_def zero_endpoint_def)
  ultimately show "llc_inv ex_llc"
    by (simp add: llc_inv_def l LLC_MAX_ENDPOINTS_def)
  show "endpoint_find ex_llc 1 = Some 0" "nr_expected (endpoints ex_llc ! 0) = 0"
    "\<not> awaiting_ack (endpoints ex_llc ! 0)"
    by (simp_all add: endpoint_find_def e fresh_endpoint_def zero_endpoint_def)
qed

lemma ex_ind_carries: "carries ex_ind ex_data"
proof -
  have "llc_pdu_bits ex_data = [False, False, False, True, False]"
    by (simp add: llc_pdu_bits_def llc_covered_bits_def llc_ctrl_bits_def ex_data_def zero_pdu_def word_bits_def
        llc_pdu_type_has_fcs_def bit_simps upt_conv_Cons)
  then have "llc_pdu_bits ex_data = take 5 (bits_of (sdu_bits ex_ind))" "length (llc_pdu_bits ex_data) = 5"
    by (simp_all add: ex_ind_def bits_of_Cons byte_bits_def word_bits_def bit_simps upt_conv_Cons)
  moreover have "llc_pdu_wf ex_data" "length (sdu_bits ex_ind) = 64" "sdu_len_bits ex_ind = 5"
    by (simp_all add: ex_ind_def ex_data_def zero_pdu_def llc_pdu_wf_def LLC_PDU_BODY_MAX_BYTES_def)
  ultimately show ?thesis
    by (simp add: carries_def)
qed

theorem llc_stop_and_wait_rx_witness:
  "\<exists>llc' env' ack. llc_handle_tma_unitdata_ind ex_llc ex_env ex_ind = Some (Inr (), llc', env') \<and>
    (if bit (ns ex_data) 0 = bit (0 :: u8) 0
     then nr_expected (endpoints llc' ! 0) = 0 XOR 1 \<and>
          ack_req ack (tma_endpoint ex_ind) (tma_addr ex_ind) (\<not> bit (0 :: u8) 0) \<and>
          (\<exists>up. llc_same_pdu (tle_pdu up) ex_data \<and> tle_endpoint up = tma_endpoint ex_ind \<and> tle_addr up = tma_addr ex_ind \<and>
             env_abs env' = (env_abs ex_env)[0 := env_abs ex_env ! 0 @ [norm_msg (tma_req_msg ack)],
                1 := env_abs ex_env ! 1 @ [norm_msg (tle_up_msg up)]])
     else nr_expected (endpoints llc' ! 0) = 0 \<and>
          ack_req ack (tma_endpoint ex_ind) (tma_addr ex_ind) (bit (0 :: u8) 0) \<and>
          env_abs env' = (env_abs ex_env)[0 := env_abs ex_env ! 0 @ [norm_msg (tma_req_msg ack)]])"
  by (rule llc_stop_and_wait_rx [OF ex_llc_facts(1) _ ex_ind_carries _ ex_env_inv])
    (simp_all add: ex_llc_facts ex_ind_def ex_data_def is_bl_data_def)

text \<open>
  C19: the transmit side of stop-and-wait. While a frame is unacknowledged \<open>llc_send_bl_data\<close>
  returns \<open>-EBUSY\<close> and changes nothing; otherwise, with room on the bus, it returns 0, emits one
  request whose SDU is the on-air BL-DATA PDU with the current NS and the caller's body bits, and the
  endpoint then awaits an acknowledgement with NS toggled and the frame kept for retransmission.
\<close>

theorem llc_stop_and_wait_tx:
  assumes "llc_inv llc" "endpoint_find llc e = Some k" "n \<le> 256" "(n + 7) div 8 \<le> length bs"
    "env_inv env" "env_room env MsgPrio_High"
  shows "if awaiting_ack (endpoints llc ! k)
    then llc_send_bl_data llc env e a (Some bs) n = Some (Inl EBUSY, llc, env)
    else \<exists>req pdu llc' env'. llc_send_bl_data llc env e a (Some bs) n = Some (Inr (), llc', env') \<and>
       env_abs env' = (env_abs env)[0 := env_abs env ! 0 @ [norm_msg (tma_req_msg req)]] \<and>
       carries req pdu \<and> tma_endpoint req = e \<and> tma_addr req = a \<and>
       pdu_type pdu = LlcPdu_BL_DATA \<and> ns pdu = ns_send (endpoints llc ! k) \<and>
       take n (bits_of (body pdu)) = take n (bits_of bs) \<and> body_len_bits pdu = n \<and>
       awaiting_ack (endpoints llc' ! k) \<and> last_sent (endpoints llc' ! k) = pdu \<and>
       ns_send (endpoints llc' ! k) = ns_send (endpoints llc ! k) XOR 1"
proof (cases "awaiting_ack (endpoints llc ! k)")
  case True
  with llc_send_busy [OF assms(2) True assms(3), of "Some bs" env a] show ?thesis
    by simp
next
  case False
  have k: "k < length (endpoints llc)"
    using assms(2) slot_findD(1) by (fastforce simp: endpoint_find_slot)
  obtain req pdu env' where r: "llc_send_bl_data llc env e a (Some bs) n =
       Some (Inr (), stats_tx (ep_update k (mark_sent pdu) llc), env')"
     "carries req pdu" "tma_endpoint req = e" "tma_addr req = a"
     "pdu_type pdu = LlcPdu_BL_DATA" "ns pdu = ns_send (endpoints llc ! k)" "body_len_bits pdu = n"
     "take n (bits_of (body pdu)) = take n (bits_of bs)"
     "env_abs env' = (env_abs env)[0 := env_abs env ! 0 @ [norm_msg (tma_req_msg req)]]"
    using llc_send_bl_data_spec [OF assms(1,2) False assms(3-6), of a] by (elim exE conjE)
  with False k show ?thesis
    by (simp add: ep_update_def mark_sent_def del: llc_inv_stats)
      (intro exI [of _ req] exI [of _ pdu] exI [of _ "stats_tx (ep_update k (mark_sent pdu) llc)"] exI [of _ env'],
       simp add: ep_update_def mark_sent_def)
qed

theorem llc_stop_and_wait_tx_witness:
  "if awaiting_ack (endpoints ex_llc ! 0)
    then llc_send_bl_data ex_llc ex_env 1 ex_addr (Some [0xA5, 0xC0]) 10 = Some (Inl EBUSY, ex_llc, ex_env)
    else \<exists>req pdu llc' env'. llc_send_bl_data ex_llc ex_env 1 ex_addr (Some [0xA5, 0xC0]) 10 = Some (Inr (), llc', env') \<and>
       env_abs env' = (env_abs ex_env)[0 := env_abs ex_env ! 0 @ [norm_msg (tma_req_msg req)]] \<and>
       carries req pdu \<and> tma_endpoint req = 1 \<and> tma_addr req = ex_addr \<and>
       pdu_type pdu = LlcPdu_BL_DATA \<and> ns pdu = ns_send (endpoints ex_llc ! 0) \<and>
       take 10 (bits_of (body pdu)) = take 10 (bits_of [0xA5, 0xC0]) \<and> body_len_bits pdu = 10 \<and>
       awaiting_ack (endpoints llc' ! 0) \<and> last_sent (endpoints llc' ! 0) = pdu \<and>
       ns_send (endpoints llc' ! 0) = ns_send (endpoints ex_llc ! 0) XOR 1"
  by (rule llc_stop_and_wait_tx [OF ex_llc_facts(1,2) _ _ ex_env_inv]) simp_all

text \<open>
  No message on the bus can make the LLC abort or break its tables. For every payload of every
  length, both callbacks return, keep the endpoint table well-formed (eight slots, no two in use for
  the same endpoint, sequence bits 0 or 1), and change the bus only by posting.
\<close>

theorem llc_handlers_safe:
  assumes "llc_inv llc" "msg_ok msg"
  shows "llc_safe llc env (on_tma_unitdata_ind llc env msg) \<and> llc_safe llc env (on_tle_msg_from_mle llc env msg)"
  using on_tma_unitdata_ind_safe [OF assms] on_tle_msg_from_mle_safe [OF assms] by blast

theorem llc_handlers_safe_witness:
  "llc_safe ex_llc ex_env (on_tma_unitdata_ind ex_llc ex_env (tma_req_msg ex_ind)) \<and>
   llc_safe ex_llc ex_env (on_tle_msg_from_mle ex_llc ex_env (tma_req_msg ex_ind))"
  by (rule llc_handlers_safe [OF ex_llc_facts(1)]) (simp add: tma_req_msg_ok ex_ind_def)

end
