(* ===== verification/Mm_Iep.thy ===== *)
theory Mm_Iep
  imports Core_Types BitBuffer
begin

text \<open>
  The uplink MM parser of \<open>sw/mm/mm_iep.c\<close> and the types it fills (\<open>sw/mm/include/tetra/mm.h\<close>):
  the read cursor with its sticky overrun flag, type-2 and type-3/4 element readers, and the
  decoders of U-LOCATION-UPDATE-DEMAND and U-ATTACH-DETACH-GROUP-IDENTITY. \<open>None\<close> is an access
  outside the input bytes. A decoder returns its error code, the cursor and the structure it has
  filled so far, as the C function leaves them.
\<close>

section \<open>Types\<close>

text \<open>Codes the enumeration does not name are kept as \<open>MmPduUl_Raw\<close>, as the cast in C keeps them.\<close>

datatype MmPduTypeUl =
    MmPduUl_DOtarCmac | MmPduUl_AuthenticationDemand | MmPduUl_ULocationUpdateDemand
  | MmPduUl_UMmStatus | MmPduUl_UCkChangeDemand | MmPduUl_UDisableStatus | MmPduUl_UItsiDetach
  | MmPduUl_UAttachDetachGroupIdentity | MmPduUl_FunctionNotSupported | MmPduUl_Raw nat

fun MmPduTypeUl_code :: "MmPduTypeUl \<Rightarrow> nat" where
  "MmPduTypeUl_code MmPduUl_DOtarCmac = 0"
| "MmPduTypeUl_code MmPduUl_AuthenticationDemand = 1"
| "MmPduTypeUl_code MmPduUl_ULocationUpdateDemand = 2"
| "MmPduTypeUl_code MmPduUl_UMmStatus = 3"
| "MmPduTypeUl_code MmPduUl_UCkChangeDemand = 4"
| "MmPduTypeUl_code MmPduUl_UDisableStatus = 5"
| "MmPduTypeUl_code MmPduUl_UItsiDetach = 6"
| "MmPduTypeUl_code MmPduUl_UAttachDetachGroupIdentity = 7"
| "MmPduTypeUl_code MmPduUl_FunctionNotSupported = 14"
| "MmPduTypeUl_code (MmPduUl_Raw n) = n"

definition MmPduTypeUl_of_code :: "nat \<Rightarrow> MmPduTypeUl" where
  "MmPduTypeUl_of_code c =
     (if c = 0 then MmPduUl_DOtarCmac else if c = 1 then MmPduUl_AuthenticationDemand
      else if c = 2 then MmPduUl_ULocationUpdateDemand else if c = 3 then MmPduUl_UMmStatus
      else if c = 4 then MmPduUl_UCkChangeDemand else if c = 5 then MmPduUl_UDisableStatus
      else if c = 6 then MmPduUl_UItsiDetach else if c = 7 then MmPduUl_UAttachDetachGroupIdentity
      else if c = 14 then MmPduUl_FunctionNotSupported else MmPduUl_Raw c)"

datatype LocationUpdateType =
    LocUpdate_RoamingLocation | LocUpdate_TemporaryRegistration | LocUpdate_PeriodicLocation
  | LocUpdate_ItsiAttach | LocUpdate_CallRestoration | LocUpdate_MigratingLocation
  | LocUpdate_DemandedLocation | LocUpdate_Disabled

fun LocationUpdateType_code :: "LocationUpdateType \<Rightarrow> nat" where
  "LocationUpdateType_code LocUpdate_RoamingLocation = 0"
| "LocationUpdateType_code LocUpdate_TemporaryRegistration = 1"
| "LocationUpdateType_code LocUpdate_PeriodicLocation = 2"
| "LocationUpdateType_code LocUpdate_ItsiAttach = 3"
| "LocationUpdateType_code LocUpdate_CallRestoration = 4"
| "LocationUpdateType_code LocUpdate_MigratingLocation = 5"
| "LocationUpdateType_code LocUpdate_DemandedLocation = 6"
| "LocationUpdateType_code LocUpdate_Disabled = 7"

definition LocationUpdateType_of_code :: "nat \<Rightarrow> LocationUpdateType" where
  "LocationUpdateType_of_code c =
     (if c = 0 then LocUpdate_RoamingLocation else if c = 1 then LocUpdate_TemporaryRegistration
      else if c = 2 then LocUpdate_PeriodicLocation else if c = 3 then LocUpdate_ItsiAttach
      else if c = 4 then LocUpdate_CallRestoration else if c = 5 then LocUpdate_MigratingLocation
      else if c = 6 then LocUpdate_DemandedLocation else LocUpdate_Disabled)"

lemma LocationUpdateType_roundtrip [simp, codec_simps]:
  "LocationUpdateType_of_code (LocationUpdateType_code t) = t"
  by (cases t) (simp_all add: LocationUpdateType_of_code_def)

datatype EnergySavingMode =
    EnergySaving_StayAlive | EnergySaving_EnergyEconomy1 | EnergySaving_EnergyEconomy2
  | EnergySaving_EnergyEconomy3 | EnergySaving_EnergyEconomy4 | EnergySaving_EnergyEconomy5
  | EnergySaving_EnergyEconomy6 | EnergySaving_EnergyEconomy7

fun EnergySavingMode_code :: "EnergySavingMode \<Rightarrow> nat" where
  "EnergySavingMode_code EnergySaving_StayAlive = 0"
| "EnergySavingMode_code EnergySaving_EnergyEconomy1 = 1"
| "EnergySavingMode_code EnergySaving_EnergyEconomy2 = 2"
| "EnergySavingMode_code EnergySaving_EnergyEconomy3 = 3"
| "EnergySavingMode_code EnergySaving_EnergyEconomy4 = 4"
| "EnergySavingMode_code EnergySaving_EnergyEconomy5 = 5"
| "EnergySavingMode_code EnergySaving_EnergyEconomy6 = 6"
| "EnergySavingMode_code EnergySaving_EnergyEconomy7 = 7"

definition EnergySavingMode_of_code :: "nat \<Rightarrow> EnergySavingMode" where
  "EnergySavingMode_of_code c =
     (if c = 0 then EnergySaving_StayAlive else if c = 1 then EnergySaving_EnergyEconomy1
      else if c = 2 then EnergySaving_EnergyEconomy2 else if c = 3 then EnergySaving_EnergyEconomy3
      else if c = 4 then EnergySaving_EnergyEconomy4 else if c = 5 then EnergySaving_EnergyEconomy5
      else if c = 6 then EnergySaving_EnergyEconomy6 else EnergySaving_EnergyEconomy7)"

lemma EnergySavingMode_roundtrip [simp, codec_simps]:
  "EnergySavingMode_of_code (EnergySavingMode_code m) = m"
  by (cases m) (simp_all add: EnergySavingMode_of_code_def)

text \<open>The uplink type-3/4 element identifiers the parser looks for.\<close>

definition MmElemUl_GroupIdentityLocationDemand :: nat where
  "MmElemUl_GroupIdentityLocationDemand = 3"
definition MmElemUl_GroupReportResponse :: nat where
  "MmElemUl_GroupReportResponse = 4"
definition MmElemUl_GroupIdentityUplink :: nat where
  "MmElemUl_GroupIdentityUplink = 8"
definition MmElemUl_AuthenticationUplink :: nat where
  "MmElemUl_AuthenticationUplink = 9"
definition MmElemUl_ExtendedCapabilities :: nat where
  "MmElemUl_ExtendedCapabilities = 11"
definition MmElemUl_Proprietary :: nat where
  "MmElemUl_Proprietary = 15"

lemmas MmElemUl_defs = MmElemUl_GroupIdentityLocationDemand_def MmElemUl_GroupReportResponse_def
  MmElemUl_GroupIdentityUplink_def MmElemUl_AuthenticationUplink_def
  MmElemUl_ExtendedCapabilities_def MmElemUl_Proprietary_def

definition MM_GIU_MAX :: nat where
  "MM_GIU_MAX = 4"

record MmGroupIdentityUplink =
  giu_is_attach :: bool
  giu_class_of_usage :: u8
  giu_detachment :: u8
  giu_address_type :: u8
  giu_gssi :: u32
  giu_address_extension :: u32
  giu_vgssi :: u32

definition zero_giu :: MmGroupIdentityUplink where
  "zero_giu = \<lparr>giu_is_attach = False, giu_class_of_usage = 0, giu_detachment = 0, giu_address_type = 0,
     giu_gssi = 0, giu_address_extension = 0, giu_vgssi = 0\<rparr>"

record MmGild =
  gild_attach_detach_mode :: u8
  gild_num_giu :: nat
  gild_giu :: "MmGroupIdentityUplink list"

definition zero_gild :: MmGild where
  "zero_gild = \<lparr>gild_attach_detach_mode = 0, gild_num_giu = 0, gild_giu = replicate MM_GIU_MAX zero_giu\<rparr>"

record MmDecoded =
  mm_pdu_type :: MmPduTypeUl
  location_update_type :: LocationUpdateType
  request_to_append_la :: bool
  cipher_control :: bool
  class_of_ms_present :: bool
  class_of_ms :: u32
  energy_saving_mode_present :: bool
  energy_saving_mode :: EnergySavingMode
  la_information_present :: bool
  la_information :: u32
  ssi_present :: bool
  dec_ssi :: u32
  address_extension_present :: bool
  address_extension :: u32
  gild_present :: bool
  gild :: MmGild
  group_identity_report :: bool
  attach_detach_mode :: u8
  num_giu :: nat
  giu :: "MmGroupIdentityUplink list"

definition zero_decoded :: MmDecoded where
  "zero_decoded = \<lparr>mm_pdu_type = MmPduUl_DOtarCmac, location_update_type = LocUpdate_RoamingLocation,
     request_to_append_la = False, cipher_control = False, class_of_ms_present = False, class_of_ms = 0,
     energy_saving_mode_present = False, energy_saving_mode = EnergySaving_StayAlive,
     la_information_present = False, la_information = 0, ssi_present = False, dec_ssi = 0,
     address_extension_present = False, address_extension = 0, gild_present = False, gild = zero_gild,
     group_identity_report = False, attach_detach_mode = 0, num_giu = 0,
     giu = replicate MM_GIU_MAX zero_giu\<rparr>"

section \<open>Read cursor\<close>

record RBuf =
  r_bits :: "u8 list"
  r_len_bits :: nat
  r_pos :: nat
  overrun :: bool

fun rbuf_loop :: "u8 list \<Rightarrow> nat \<Rightarrow> nat \<Rightarrow> u32 \<Rightarrow> u32 option" where
  "rbuf_loop B bit_idx 0 v = Some v"
| "rbuf_loop B bit_idx (Suc n) v = do {
     byte \<leftarrow> arr_get B (bit_idx div 8);
     let bit_off = 7 - bit_idx mod 8;
     rbuf_loop B (bit_idx + 1) n (push_bit 1 v OR of_bool (bit byte bit_off))
   }"

definition rbuf_read :: "RBuf \<Rightarrow> nat \<Rightarrow> (u32 \<times> RBuf) option" where
  "rbuf_read r n =
     (if n = 0 \<or> n > 32 then Some (0, r)
      else if r_pos r + n > r_len_bits r then Some (0, r\<lparr>overrun := True\<rparr>)
      else do {
        v \<leftarrow> rbuf_loop (r_bits r) (r_pos r) n 0;
        Some (v, r\<lparr>r_pos := r_pos r + n\<rparr>)
      })"

definition rbuf_read_bit :: "RBuf \<Rightarrow> (bool \<times> RBuf) option" where
  "rbuf_read_bit r = do { (v, r) \<leftarrow> rbuf_read r 1; Some (v \<noteq> 0, r) }"

text \<open>Type-2 elements: present flag and value.\<close>

definition decode_type2_generic :: "RBuf \<Rightarrow> bool \<Rightarrow> nat \<Rightarrow> ((bool \<times> u32) \<times> RBuf) option" where
  "decode_type2_generic r obit width =
     (if \<not> obit then Some ((False, 0), r)
      else do {
        (present, r) \<leftarrow> rbuf_read_bit r;
        if \<not> present then Some ((False, 0), r)
        else do {
          (v, r) \<leftarrow> rbuf_read r width;
          Some ((True, v), r)
        }
      })"

function read_u64 :: "RBuf \<Rightarrow> nat \<Rightarrow> u64 \<Rightarrow> (u64 \<times> RBuf) option" where
  "read_u64 r width v =
     (if width > 32 then do {
        (w, r) \<leftarrow> rbuf_read r 32;
        read_u64 r (width - 32) (push_bit 32 v OR ucast w)
      }
      else if width > 0 then do {
        (w, r) \<leftarrow> rbuf_read r width;
        Some (push_bit width v OR ucast w, r)
      }
      else Some (v, r))"
  by pat_completeness auto
termination by (relation "measure (\<lambda>(_, n, _). n)") auto

declare read_u64.simps [simp del]

definition decode_type2_u64 :: "RBuf \<Rightarrow> bool \<Rightarrow> nat \<Rightarrow> ((bool \<times> u64) \<times> RBuf) option" where
  "decode_type2_u64 r obit width =
     (if \<not> obit then Some ((False, 0), r)
      else do {
        (present, r) \<leftarrow> rbuf_read_bit r;
        if \<not> present then Some ((False, 0), r)
        else do {
          (v, r) \<leftarrow> read_u64 r width 0;
          Some ((True, v), r)
        }
      })"

definition peek_type34 :: "RBuf \<Rightarrow> nat \<Rightarrow> bool option" where
  "peek_type34 r expected_id =
     (if r_pos r + 5 > r_len_bits r then Some False
      else do {
        (mbit, tmp) \<leftarrow> rbuf_read r 1;
        if mbit = 0 then Some False
        else do {
          (i, tmp) \<leftarrow> rbuf_read tmp 4;
          Some (unat i = expected_id)
        }
      })"

definition skip_type34_header :: "RBuf \<Rightarrow> RBuf option" where
  "skip_type34_header r = do { (_, r) \<leftarrow> rbuf_read r 5; Some r }"

section \<open>Element decoders\<close>

definition proto_if :: "bool \<Rightarrow> unit res" where
  "proto_if b = (if b then Inl EPROTO else Inr ())"

text \<open>The usage field of a group identity, and its optional 24-bit addresses.\<close>

definition giu_usage :: "MmGroupIdentityUplink \<Rightarrow> RBuf \<Rightarrow> (MmGroupIdentityUplink \<times> RBuf) option" where
  "giu_usage out r =
     (if giu_is_attach out then do {
        (v, r) \<leftarrow> rbuf_read r 3;
        Some (out\<lparr>giu_class_of_usage := ucast v\<rparr>, r)
      } else do {
        (v, r) \<leftarrow> rbuf_read r 2;
        Some (out\<lparr>giu_detachment := ucast v\<rparr>, r)
      })"

definition read_ssi_if :: "bool \<Rightarrow> (u32 \<Rightarrow> MmGroupIdentityUplink) \<Rightarrow> MmGroupIdentityUplink \<Rightarrow> RBuf \<Rightarrow>
    (MmGroupIdentityUplink \<times> RBuf) option" where
  "read_ssi_if c upd out r =
     (if c then do { (v, r) \<leftarrow> rbuf_read r 24; Some (upd (v AND TETRA_SSI_MASK_24), r) } else Some (out, r))"

definition decode_giu :: "RBuf \<Rightarrow> (unit res \<times> MmGroupIdentityUplink \<times> RBuf) option" where
  "decode_giu r = do {
     (adt, r) \<leftarrow> rbuf_read r 1;
     (out, r) \<leftarrow> giu_usage (zero_giu\<lparr>giu_is_attach := (adt = 0)\<rparr>) r;
     (v, r) \<leftarrow> rbuf_read r 2;
     let out = out\<lparr>giu_address_type := ucast v\<rparr>;
     (out, r) \<leftarrow> read_ssi_if (giu_address_type out = 0 \<or> giu_address_type out = 1) (\<lambda>v. out\<lparr>giu_gssi := v\<rparr>) out r;
     (out, r) \<leftarrow> read_ssi_if (giu_address_type out = 1) (\<lambda>v. out\<lparr>giu_address_extension := v\<rparr>) out r;
     (out, r) \<leftarrow> read_ssi_if (giu_address_type out = 2) (\<lambda>v. out\<lparr>giu_vgssi := v\<rparr>) out r;
     Some (proto_if (overrun r), out, r)
   }"

text \<open>The loop over the announced elements, from index \<open>i\<close>, with \<open>k\<close> elements to go.\<close>

fun decode_giu_loop :: "RBuf \<Rightarrow> nat \<Rightarrow> nat \<Rightarrow> MmGroupIdentityUplink list \<Rightarrow>
    (unit res \<times> MmGroupIdentityUplink list \<times> RBuf) option" where
  "decode_giu_loop r i 0 gs = Some (Inr (), gs, r)"
| "decode_giu_loop r i (Suc k) gs =
     (if i < MM_GIU_MAX then do {
        (rc, g, r) \<leftarrow> decode_giu r;
        gs \<leftarrow> arr_set gs i g;
        case rc of
          Inl e \<Rightarrow> Some (Inl e, gs, r)
        | Inr _ \<Rightarrow> decode_giu_loop r (i + 1) k gs
      }
      else Some (Inl EPROTO, gs, r))"

definition decode_giu_list :: "RBuf \<Rightarrow> MmGroupIdentityUplink list \<Rightarrow>
    (unit res \<times> nat \<times> MmGroupIdentityUplink list \<times> RBuf) option" where
  "decode_giu_list r gs = do {
     here \<leftarrow> peek_type34 r MmElemUl_GroupIdentityUplink;
     if \<not> here then Some (Inr (), 0, gs, r)
     else do {
       r \<leftarrow> skip_type34_header r;
       (l, r) \<leftarrow> rbuf_read r 11;
       (n, r) \<leftarrow> rbuf_read r 6;
       let length_field = unat l;
       let num_elems = unat n;
       let start_pos = r_pos r;
       (rc, gs, r) \<leftarrow> decode_giu_loop r 0 num_elems gs;
       case rc of
         Inl e \<Rightarrow> Some (Inl e, 0, gs, r)
       | Inr _ \<Rightarrow>
           let out_count = (if num_elems < MM_GIU_MAX then num_elems else MM_GIU_MAX) in
           if length_field \<ge> 6 \<and> r_pos r - start_pos \<noteq> length_field - 6
           then Some (Inl EPROTO, out_count, gs, r)
           else Some (Inr (), out_count, gs, r)
     }
   }"

definition decode_gild :: "RBuf \<Rightarrow> (unit res \<times> MmGild \<times> RBuf) option" where
  "decode_gild r = do {
     let out = zero_gild;
     (reserved, r) \<leftarrow> rbuf_read r 1;
     if reserved \<noteq> 0 then Some (Inl EPROTO, out, r)
     else do {
       (v, r) \<leftarrow> rbuf_read r 1;
       let out = out\<lparr>gild_attach_detach_mode := ucast v\<rparr>;
       (obit, r) \<leftarrow> rbuf_read_bit r;
       if obit then do {
         (rc, n, gs, r) \<leftarrow> decode_giu_list r (gild_giu out);
         let out = out\<lparr>gild_num_giu := n, gild_giu := gs\<rparr>;
         case rc of
           Inl e \<Rightarrow> Some (Inl e, out, r)
         | Inr _ \<Rightarrow> do {
             (trailing, r) \<leftarrow> rbuf_read r 1;
             if trailing \<noteq> 0 then Some (Inl EPROTO, out, r)
             else Some (proto_if (overrun r), out, r)
           }
       }
       else Some (proto_if (overrun r), out, r)
     }
   }"

definition decode_type3_generic_skip :: "RBuf \<Rightarrow> nat \<Rightarrow> (unit res \<times> RBuf) option" where
  "decode_type3_generic_skip r expected_id = do {
     here \<leftarrow> peek_type34 r expected_id;
     if \<not> here then Some (Inr (), r)
     else do {
       r \<leftarrow> skip_type34_header r;
       (l, r) \<leftarrow> rbuf_read r 11;
       let length_field = unat l;
       if length_field > 256 then Some (Inl EPROTO, r)
       else if r_pos r + length_field > r_len_bits r then Some (Inl EPROTO, r\<lparr>overrun := True\<rparr>)
       else Some (Inr (), r\<lparr>r_pos := r_pos r + length_field\<rparr>)
     }
   }"

text \<open>Skipping several elements in turn, stopping at the first error.\<close>

fun skip_elems :: "RBuf \<Rightarrow> nat list \<Rightarrow> (unit res \<times> RBuf) option" where
  "skip_elems r [] = Some (Inr (), r)"
| "skip_elems r (i # is) = do {
     (rc, r) \<leftarrow> decode_type3_generic_skip r i;
     case rc of Inl e \<Rightarrow> Some (Inl e, r) | Inr _ \<Rightarrow> skip_elems r is
   }"

definition trailing_mbit :: "RBuf \<Rightarrow> (unit res \<times> RBuf) option" where
  "trailing_mbit r =
     (if r_pos r < r_len_bits r then do {
        (trailing, r) \<leftarrow> rbuf_read r 1;
        if trailing \<noteq> 0 then Some (Inl EPROTO, r)
        else Some (proto_if (overrun r), r)
      }
      else Some (proto_if (overrun r), r))"

section \<open>PDU decoders\<close>

text \<open>The type-2 block of the location update demand.\<close>

definition decode_demand_type2 :: "RBuf \<Rightarrow> bool \<Rightarrow> MmDecoded \<Rightarrow> (MmDecoded \<times> RBuf) option" where
  "decode_demand_type2 r obit out = do {
     ((p, v), r) \<leftarrow> decode_type2_u64 r obit 24;
     let out = out\<lparr>class_of_ms_present := p, class_of_ms := ucast v\<rparr>;
     ((p, v), r) \<leftarrow> decode_type2_generic r obit 3;
     let out = out\<lparr>energy_saving_mode_present := p, energy_saving_mode := EnergySavingMode_of_code (unat v)\<rparr>;
     ((p, v), r) \<leftarrow> decode_type2_generic r obit 15;
     let out = out\<lparr>la_information_present := p, la_information := drop_bit 1 v\<rparr>;
     ((p, v), r) \<leftarrow> decode_type2_generic r obit 24;
     let out = out\<lparr>ssi_present := p, dec_ssi := v AND TETRA_SSI_MASK_24\<rparr>;
     ((p, v), r) \<leftarrow> decode_type2_generic r obit 24;
     let out = out\<lparr>address_extension_present := p, address_extension := v AND TETRA_SSI_MASK_24\<rparr>;
     Some (out, r)
   }"

text \<open>The group identity location demand, when the next element is one.\<close>

definition decode_demand_gild :: "RBuf \<Rightarrow> MmDecoded \<Rightarrow> (unit res \<times> MmDecoded \<times> RBuf) option" where
  "decode_demand_gild r out = do {
     here \<leftarrow> peek_type34 r MmElemUl_GroupIdentityLocationDemand;
     if \<not> here then Some (Inr (), out, r)
     else do {
       r \<leftarrow> skip_type34_header r;
       (l, r) \<leftarrow> rbuf_read r 11;
       let start_pos = r_pos r;
       (rc, g, r) \<leftarrow> decode_gild r;
       let out = out\<lparr>gild_present := True, gild := g\<rparr>;
       case rc of
         Inl e \<Rightarrow> Some (Inl e, out, r)
       | Inr _ \<Rightarrow> if r_pos r - start_pos \<noteq> unat l then Some (Inl EPROTO, out, r) else Some (Inr (), out, r)
     }
   }"

definition decode_u_loc_update_demand :: "RBuf \<Rightarrow> MmDecoded \<Rightarrow> (unit res \<times> MmDecoded) option" where
  "decode_u_loc_update_demand r out = do {
     (t, r) \<leftarrow> rbuf_read r 4;
     if unat t \<noteq> MmPduTypeUl_code MmPduUl_ULocationUpdateDemand then Some (Inl EPROTO, out)
     else do {
       let out = out\<lparr>mm_pdu_type := MmPduUl_ULocationUpdateDemand\<rparr>;
       (v, r) \<leftarrow> rbuf_read r 3;
       let out = out\<lparr>location_update_type := LocationUpdateType_of_code (unat v)\<rparr>;
       (b, r) \<leftarrow> rbuf_read_bit r;
       let out = out\<lparr>request_to_append_la := b\<rparr>;
       (b, r) \<leftarrow> rbuf_read_bit r;
       let out = out\<lparr>cipher_control := b\<rparr>;
       (_, r) \<leftarrow> (if cipher_control out then rbuf_read r 10 else Some (0, r));
       (obit, r) \<leftarrow> rbuf_read_bit r;
       if \<not> obit then Some (proto_if (overrun r), out)
       else do {
         (out, r) \<leftarrow> decode_demand_type2 r obit out;
         (rc, out, r) \<leftarrow> decode_demand_gild r out;
         case rc of
           Inl e \<Rightarrow> Some (Inl e, out)
         | Inr _ \<Rightarrow> do {
             (rc, r) \<leftarrow> skip_elems r [MmElemUl_GroupReportResponse, MmElemUl_AuthenticationUplink,
                                     MmElemUl_ExtendedCapabilities, MmElemUl_Proprietary];
             case rc of
               Inl e \<Rightarrow> Some (Inl e, out)
             | Inr _ \<Rightarrow> do { (rc, r) \<leftarrow> trailing_mbit r; Some (rc, out) }
           }
       }
     }
   }"

definition decode_u_attach_detach_grp_id :: "RBuf \<Rightarrow> MmDecoded \<Rightarrow> (unit res \<times> MmDecoded) option" where
  "decode_u_attach_detach_grp_id r out = do {
     (t, r) \<leftarrow> rbuf_read r 4;
     if unat t \<noteq> MmPduTypeUl_code MmPduUl_UAttachDetachGroupIdentity then Some (Inl EPROTO, out)
     else do {
       let out = out\<lparr>mm_pdu_type := MmPduUl_UAttachDetachGroupIdentity\<rparr>;
       (b, r) \<leftarrow> rbuf_read_bit r;
       let out = out\<lparr>group_identity_report := b\<rparr>;
       (v, r) \<leftarrow> rbuf_read r 1;
       let out = out\<lparr>attach_detach_mode := ucast v\<rparr>;
       (obit, r) \<leftarrow> rbuf_read_bit r;
       if \<not> obit then Some (proto_if (overrun r), out)
       else do {
         (rc, r) \<leftarrow> decode_type3_generic_skip r MmElemUl_GroupReportResponse;
         case rc of
           Inl e \<Rightarrow> Some (Inl e, out)
         | Inr _ \<Rightarrow> do {
             (rc, n, gs, r) \<leftarrow> decode_giu_list r (giu out);
             let out = out\<lparr>num_giu := n, giu := gs\<rparr>;
             case rc of
               Inl e \<Rightarrow> Some (Inl e, out)
             | Inr _ \<Rightarrow> do {
                 (rc, r) \<leftarrow> decode_type3_generic_skip r MmElemUl_Proprietary;
                 case rc of
                   Inl e \<Rightarrow> Some (Inl e, out)
                 | Inr _ \<Rightarrow> do { (rc, r) \<leftarrow> trailing_mbit r; Some (rc, out) }
               }
           }
       }
     }
   }"

text \<open>\<open>bits = None\<close> is the NULL pointer; the structure is written only past the argument check.\<close>

definition mm_iep_decode :: "u8 list option \<Rightarrow> nat \<Rightarrow> MmDecoded \<Rightarrow> (unit res \<times> MmDecoded) option" where
  "mm_iep_decode bits_opt len_bits out =
     (case bits_opt of
        None \<Rightarrow> Some (Inl EINVAL, out)
      | Some bs \<Rightarrow>
          if len_bits < 4 then Some (Inl EINVAL, out)
          else do {
            let out = zero_decoded;
            let r = \<lparr>r_bits = bs, r_len_bits = len_bits, r_pos = 0, overrun = False\<rparr>;
            (t, peek) \<leftarrow> rbuf_read r 4;
            if overrun peek then Some (Inl EPROTO, out)
            else if unat t = MmPduTypeUl_code MmPduUl_ULocationUpdateDemand
            then decode_u_loc_update_demand r out
            else if unat t = MmPduTypeUl_code MmPduUl_UAttachDetachGroupIdentity
            then decode_u_attach_detach_grp_id r out
            else Some (Inl ENOTSUP, out\<lparr>mm_pdu_type := MmPduTypeUl_of_code (unat t)\<rparr>)
          })"

section \<open>The cursor reads slices\<close>

text \<open>The claimed length lies inside the byte array; no operation changes either.\<close>

definition rb_ok :: "RBuf \<Rightarrow> bool" where
  "rb_ok r \<longleftrightarrow> r_len_bits r \<le> 8 * length (r_bits r)"

definition rb_inv :: "RBuf \<Rightarrow> bool" where
  "rb_inv r \<longleftrightarrow> rb_ok r \<and> r_pos r \<le> r_len_bits r \<and> \<not> overrun r"

definition rb_rest :: "RBuf \<Rightarrow> bool list" where
  "rb_rest r = take (r_len_bits r - r_pos r) (drop (r_pos r) (bits_of (r_bits r)))"

lemma rbuf_loop_eq:
  "i + n \<le> 8 * length B \<Longrightarrow> rbuf_loop B i n (word_of_bits xs) = Some (word_of_bits (xs @ take n (drop i (bits_of B))))"
proof (induction n arbitrary: i xs)
  case 0
  then show ?case by simp
next
  case (Suc n)
  then have i: "i < 8 * length B" "i div 8 < length B" by auto
  then have d: "drop i (bits_of B) = bits_of B ! i # drop (Suc i) (bits_of B)"
    by (simp add: Cons_nth_drop_Suc)
  have "push_bit 1 (word_of_bits xs) OR of_bool (bit (B ! (i div 8)) (7 - i mod 8)) = (word_of_bits (xs @ [bits_of B ! i]) :: u32)"
    using i by (simp add: word_of_bits_snoc nth_bits_of)
  then show ?case
    using Suc.IH [of "Suc i" "xs @ [bits_of B ! i]"] Suc.prems i by (simp add: d del: push_bit_Suc)
qed

lemma rbuf_read_in:
  assumes "rb_ok r" "1 \<le> n" "n \<le> 32" "r_pos r + n \<le> r_len_bits r"
  shows "rbuf_read r n = Some (word_of_bits (take n (rb_rest r)), r\<lparr>r_pos := r_pos r + n\<rparr>)"
proof -
  have "r_pos r + n \<le> 8 * length (r_bits r)" "n \<le> r_len_bits r - r_pos r"
    using assms by (simp_all add: rb_ok_def)
  with rbuf_loop_eq [of "r_pos r" n "r_bits r" "[]"] assms show ?thesis
    by (simp add: rbuf_read_def rb_rest_def min_def)
qed

lemma rbuf_read_total:
  assumes "rb_ok r"
  shows "\<exists>v r'. rbuf_read r n = Some (v, r') \<and> rb_ok r' \<and> r_len_bits r' = r_len_bits r \<and> r_pos r' \<le> r_pos r + n
     \<and> v = take_bit n v"
proof (cases "1 \<le> n \<and> n \<le> 32 \<and> r_pos r + n \<le> r_len_bits r")
  case True
  have "take_bit n (word_of_bits (take n xs)) = (word_of_bits (take n xs) :: u32)" for xs
    by (rule bit_word_eqI) (auto simp: bit_simps bits_simps)
  with True rbuf_read_in [OF assms] show ?thesis
    using assms by (simp add: rb_ok_def)
next
  case False
  with assms show ?thesis
    by (auto simp: rbuf_read_def rb_ok_def)
qed

interpretation rbuf_source: bit_source rb_inv rb_rest rbuf_read
proof unfold_locales
  fix s n
  assume a: "rb_inv s" "1 \<le> n" "n \<le> 32" "n \<le> length (rb_rest s)"
  then have p: "r_pos s + n \<le> r_len_bits s"
    by (auto simp: rb_inv_def rb_rest_def)
  have "rb_rest (s\<lparr>r_pos := r_pos s + n\<rparr>) = drop n (rb_rest s)"
    by (simp add: rb_rest_def drop_take add.commute)
  with a p rbuf_read_in [of s n]
  show "\<exists>s'. rbuf_read s n = Some (word_of_bits (take n (rb_rest s)), s') \<and> rb_inv s' \<and> rb_rest s' = drop n (rb_rest s)"
    by (simp add: rb_inv_def rb_ok_def)
qed

section \<open>No decoder leaves the input\<close>

text \<open>
  The cursor after a read, and that every read succeeds on a cursor whose length is honest. With these
  as rewrite rules each decoder is total by unfolding.
\<close>

definition rd_val :: "RBuf \<Rightarrow> nat \<Rightarrow> u32" where
  "rd_val r n = fst (the (rbuf_read r n))"

definition rd_next :: "RBuf \<Rightarrow> nat \<Rightarrow> RBuf" where
  "rd_next r n = snd (the (rbuf_read r n))"

lemma rbuf_read_eq: "rb_ok r \<Longrightarrow> rbuf_read r n = Some (rd_val r n, rd_next r n)"
  using rbuf_read_total [of r n] by (auto simp: rd_val_def rd_next_def)

lemma rd_next_ok [simp]: "rb_ok r \<Longrightarrow> rb_ok (rd_next r n)"
  using rbuf_read_total [of r n] by (auto simp: rd_next_def)

lemma rb_ok_upd [simp]: "rb_ok (r\<lparr>r_pos := p\<rparr>) = rb_ok r" "rb_ok (r\<lparr>overrun := b\<rparr>) = rb_ok r"
  by (simp_all add: rb_ok_def)

lemma rbuf_read_bit_total: "rb_ok r \<Longrightarrow> \<exists>b r'. rbuf_read_bit r = Some (b, r') \<and> rb_ok r'"
  by (simp add: rbuf_read_bit_def rbuf_read_eq)

lemma decode_type2_generic_total:
  "rb_ok r \<Longrightarrow> \<exists>p v r'. decode_type2_generic r obit w = Some ((p, v), r') \<and> rb_ok r'"
  using rbuf_read_bit_total [of r] by (auto simp: decode_type2_generic_def rbuf_read_eq)

lemma read_u64_total: "rb_ok r \<Longrightarrow> \<exists>u r'. read_u64 r w v = Some (u, r') \<and> rb_ok r'"
proof (induction r w v rule: read_u64.induct)
  case (1 r w v)
  then show ?case
    by (auto simp: read_u64.simps [of r] rbuf_read_eq)
qed

lemma decode_type2_u64_total:
  assumes "rb_ok r"
  shows "\<exists>p v r'. decode_type2_u64 r obit w = Some ((p, v), r') \<and> rb_ok r'"
proof -
  obtain b r1 where 1: "rbuf_read_bit r = Some (b, r1)" "rb_ok r1"
    using rbuf_read_bit_total [OF assms] by blast
  obtain u r2 where 2: "read_u64 r1 w 0 = Some (u, r2)" "rb_ok r2"
    using read_u64_total [OF 1(2)] by blast
  show ?thesis
    using assms 1 2 by (auto simp: decode_type2_u64_def)
qed

lemma peek_type34_total: "rb_ok r \<Longrightarrow> \<exists>b. peek_type34 r i = Some b"
  by (auto simp: peek_type34_def rbuf_read_eq)

lemma skip_type34_header_total: "rb_ok r \<Longrightarrow> \<exists>r'. skip_type34_header r = Some r' \<and> rb_ok r'"
  by (simp add: skip_type34_header_def rbuf_read_eq)

lemma decode_giu_total: "rb_ok r \<Longrightarrow> \<exists>rc g r'. decode_giu r = Some (rc, g, r') \<and> rb_ok r'"
  by (simp add: decode_giu_def giu_usage_def read_ssi_if_def rbuf_read_eq Let_def)

lemma decode_giu_loop_total:
  "rb_ok r \<Longrightarrow> length gs = MM_GIU_MAX \<Longrightarrow> \<exists>rc gs' r'. decode_giu_loop r i k gs = Some (rc, gs', r') \<and> rb_ok r' \<and>
     length gs' = MM_GIU_MAX \<and> (rc = Inr () \<longrightarrow> k = 0 \<or> i + k \<le> MM_GIU_MAX)"
proof (induction k arbitrary: r i gs)
  case 0
  then show ?case by simp
next
  case (Suc k)
  show ?case
  proof (cases "i < MM_GIU_MAX")
    case True
    obtain rc g r1 where g: "decode_giu r = Some (rc, g, r1)" "rb_ok r1"
      using decode_giu_total [OF Suc.prems(1)] by blast
    with True Suc.prems Suc.IH [of r1 "gs[i := g]" "i + 1"] show ?thesis
      by (cases rc) auto
  next
    case False
    with Suc.prems show ?thesis by simp
  qed
qed

lemma decode_giu_list_total:
  assumes "rb_ok r" "length gs = MM_GIU_MAX"
  shows "\<exists>rc n gs' r'. decode_giu_list r gs = Some (rc, n, gs', r') \<and> rb_ok r' \<and> length gs' = MM_GIU_MAX \<and> n \<le> MM_GIU_MAX"
proof -
  obtain h where h: "peek_type34 r MmElemUl_GroupIdentityUplink = Some h"
    using peek_type34_total [OF assms(1)] by blast
  obtain r1 where r1: "skip_type34_header r = Some r1" "rb_ok r1"
    using skip_type34_header_total [OF assms(1)] by blast
  let ?r3 = "rd_next (rd_next r1 11) 6"
  obtain rc gs' r4 where l: "decode_giu_loop ?r3 0 (unat (rd_val (rd_next r1 11) 6)) gs = Some (rc, gs', r4)"
      "rb_ok r4" "length gs' = MM_GIU_MAX"
    using decode_giu_loop_total [of ?r3 gs 0 "unat (rd_val (rd_next r1 11) 6)"] r1(2) assms(2) by auto
  show ?thesis
    using assms h r1 l by (cases rc) (auto simp: decode_giu_list_def rbuf_read_eq Let_def)
qed

lemma decode_gild_total:
  assumes "rb_ok r"
  shows "\<exists>rc g r'. decode_gild r = Some (rc, g, r') \<and> rb_ok r' \<and> gild_num_giu g \<le> MM_GIU_MAX \<and> length (gild_giu g) = MM_GIU_MAX"
proof -
  let ?r2 = "rd_next (rd_next r 1) 1"
  obtain b r3 where b: "rbuf_read_bit ?r2 = Some (b, r3)" "rb_ok r3"
    using rbuf_read_bit_total [of ?r2] assms by auto
  obtain rc n gs r4 where l: "decode_giu_list r3 (replicate MM_GIU_MAX zero_giu) = Some (rc, n, gs, r4)" "rb_ok r4"
      "length gs = MM_GIU_MAX" "n \<le> MM_GIU_MAX"
    using decode_giu_list_total [OF b(2), of "replicate MM_GIU_MAX zero_giu"] by auto
  show ?thesis
    using assms b l by (cases rc) (auto simp: decode_gild_def rbuf_read_eq zero_gild_def Let_def)
qed

lemma decode_type3_generic_skip_total:
  "rb_ok r \<Longrightarrow> \<exists>rc r'. decode_type3_generic_skip r i = Some (rc, r') \<and> rb_ok r'"
  using peek_type34_total [of r i] skip_type34_header_total [of r]
  by (auto simp: decode_type3_generic_skip_def rbuf_read_eq Let_def)

lemma skip_elems_total: "rb_ok r \<Longrightarrow> \<exists>rc r'. skip_elems r is = Some (rc, r') \<and> rb_ok r'"
proof (induction "is" arbitrary: r)
  case (Cons i "is")
  obtain rc r1 where "decode_type3_generic_skip r i = Some (rc, r1)" "rb_ok r1"
    using decode_type3_generic_skip_total [OF Cons.prems] by blast
  with Cons.IH [of r1] show ?case by (cases rc) auto
qed simp

lemma trailing_mbit_total: "rb_ok r \<Longrightarrow> \<exists>rc r'. trailing_mbit r = Some (rc, r')"
  by (simp add: trailing_mbit_def rbuf_read_eq)

text \<open>What a decoded structure guarantees its users.\<close>

definition decoded_ok :: "MmDecoded \<Rightarrow> bool" where
  "decoded_ok d \<longleftrightarrow> num_giu d \<le> MM_GIU_MAX \<and> length (giu d) = MM_GIU_MAX \<and>
     gild_num_giu (gild d) \<le> MM_GIU_MAX \<and> length (gild_giu (gild d)) = MM_GIU_MAX"

lemma zero_decoded_ok [simp]: "decoded_ok zero_decoded"
  by (simp add: decoded_ok_def zero_decoded_def zero_gild_def)

lemma decode_demand_type2_total:
  assumes "rb_ok r"
  shows "\<exists>out' r'. decode_demand_type2 r obit out = Some (out', r') \<and> rb_ok r' \<and> decoded_ok out' = decoded_ok out"
proof -
  obtain p1 v1 r1 where 1: "decode_type2_u64 r obit 24 = Some ((p1, v1), r1)" "rb_ok r1"
    using decode_type2_u64_total [OF assms] by blast
  obtain p2 v2 r2 where 2: "decode_type2_generic r1 obit 3 = Some ((p2, v2), r2)" "rb_ok r2"
    using decode_type2_generic_total [OF 1(2)] by blast
  obtain p3 v3 r3 where 3: "decode_type2_generic r2 obit 15 = Some ((p3, v3), r3)" "rb_ok r3"
    using decode_type2_generic_total [OF 2(2)] by blast
  obtain p4 v4 r4 where 4: "decode_type2_generic r3 obit 24 = Some ((p4, v4), r4)" "rb_ok r4"
    using decode_type2_generic_total [OF 3(2)] by blast
  obtain p5 v5 r5 where 5: "decode_type2_generic r4 obit 24 = Some ((p5, v5), r5)" "rb_ok r5"
    using decode_type2_generic_total [OF 4(2)] by blast
  show ?thesis
    using 1 2 3 4 5 by (simp add: decode_demand_type2_def Let_def decoded_ok_def)
qed

lemma decode_demand_gild_total:
  assumes "rb_ok r" "decoded_ok out"
  shows "\<exists>rc out' r'. decode_demand_gild r out = Some (rc, out', r') \<and> rb_ok r' \<and> decoded_ok out'"
proof -
  obtain h where h: "peek_type34 r MmElemUl_GroupIdentityLocationDemand = Some h"
    using peek_type34_total [OF assms(1)] by blast
  obtain r1 where r1: "skip_type34_header r = Some r1" "rb_ok r1"
    using skip_type34_header_total [OF assms(1)] by blast
  obtain rc g r2 where g: "decode_gild (rd_next r1 11) = Some (rc, g, r2)" "rb_ok r2"
      "gild_num_giu g \<le> MM_GIU_MAX" "length (gild_giu g) = MM_GIU_MAX"
    using decode_gild_total [of "rd_next r1 11"] r1(2) by auto
  show ?thesis
    using assms h r1 g by (cases rc) (auto simp: decode_demand_gild_def rbuf_read_eq Let_def decoded_ok_def)
qed

lemma decode_u_attach_detach_grp_id_total:
  assumes "rb_ok r" "decoded_ok out"
  shows "\<exists>rc out'. decode_u_attach_detach_grp_id r out = Some (rc, out') \<and> decoded_ok out'"
proof -
  obtain b1 r1 where 1: "rbuf_read_bit (rd_next r 4) = Some (b1, r1)" "rb_ok r1"
    using rbuf_read_bit_total [of "rd_next r 4"] assms(1) by auto
  obtain b2 r2 where 2: "rbuf_read_bit (rd_next r1 1) = Some (b2, r2)" "rb_ok r2"
    using rbuf_read_bit_total [of "rd_next r1 1"] 1(2) by auto
  obtain rc3 r3 where 3: "decode_type3_generic_skip r2 MmElemUl_GroupReportResponse = Some (rc3, r3)" "rb_ok r3"
    using decode_type3_generic_skip_total [OF 2(2)] by blast
  obtain rc4 n gs r4 where 4: "decode_giu_list r3 (giu out) = Some (rc4, n, gs, r4)" "rb_ok r4"
      "length gs = MM_GIU_MAX" "n \<le> MM_GIU_MAX"
    using decode_giu_list_total [OF 3(2), of "giu out"] assms(2) by (auto simp: decoded_ok_def)
  obtain rc5 r5 where 5: "decode_type3_generic_skip r4 MmElemUl_Proprietary = Some (rc5, r5)" "rb_ok r5"
    using decode_type3_generic_skip_total [OF 4(2)] by blast
  obtain rc6 r6 where 6: "trailing_mbit r5 = Some (rc6, r6)"
    using trailing_mbit_total [OF 5(2)] by blast
  show ?thesis
    using assms 1 2 3 4 5 6
    by (cases rc3; cases rc4; cases rc5)
      (auto simp: decode_u_attach_detach_grp_id_def rbuf_read_eq Let_def decoded_ok_def)
qed

lemma decode_u_loc_update_demand_total:
  assumes "rb_ok r" "decoded_ok out"
  shows "\<exists>rc out'. decode_u_loc_update_demand r out = Some (rc, out') \<and> decoded_ok out'"
proof -
  obtain b1 r1 where 1: "rbuf_read_bit (rd_next (rd_next r 4) 3) = Some (b1, r1)" "rb_ok r1"
    using rbuf_read_bit_total [of "rd_next (rd_next r 4) 3"] assms(1) by auto
  obtain b2 r2 where 2: "rbuf_read_bit r1 = Some (b2, r2)" "rb_ok r2"
    using rbuf_read_bit_total [OF 1(2)] by auto
  let ?r3 = "if b2 then rd_next r2 10 else r2"
  have r3: "rb_ok ?r3" using 2(2) by simp
  obtain b4 r4 where 4: "rbuf_read_bit ?r3 = Some (b4, r4)" "rb_ok r4"
    using rbuf_read_bit_total [OF r3] by blast
  let ?o = "out\<lparr>mm_pdu_type := MmPduUl_ULocationUpdateDemand,
     location_update_type := LocationUpdateType_of_code (unat (rd_val (rd_next r 4) 3)),
     request_to_append_la := b1, cipher_control := b2\<rparr>"
  obtain o5 r5 where 5: "decode_demand_type2 r4 True ?o = Some (o5, r5)" "rb_ok r5" "decoded_ok o5"
    using decode_demand_type2_total [OF 4(2), of True ?o] assms(2) by (auto simp: decoded_ok_def)
  obtain rc6 o6 r6 where 6: "decode_demand_gild r5 o5 = Some (rc6, o6, r6)" "rb_ok r6" "decoded_ok o6"
    using decode_demand_gild_total [OF 5(2,3)] by blast
  obtain rc7 r7 where 7: "skip_elems r6 [MmElemUl_GroupReportResponse, MmElemUl_AuthenticationUplink,
      MmElemUl_ExtendedCapabilities, MmElemUl_Proprietary] = Some (rc7, r7)" "rb_ok r7"
    using skip_elems_total [OF 6(2)] by blast
  obtain rc8 r8 where 8: "trailing_mbit r7 = Some (rc8, r8)"
    using trailing_mbit_total [OF 7(2)] by blast
  have dec: "decoded_ok (out\<lparr>mm_pdu_type := a, location_update_type := b, request_to_append_la := c, cipher_control := d\<rparr>)" for a b c d
    using assms(2) by (simp add: decoded_ok_def)
  show ?thesis
    unfolding decode_u_loc_update_demand_def
    using assms 1 2 4 5 6 7 8 dec
    by (cases b2; cases b4; cases rc6; cases rc7) (simp_all add: rbuf_read_eq Let_def del: skip_elems.simps)
qed

lemma mm_iep_decode_total:
  assumes "len_bits \<le> 8 * length bs" "decoded_ok out"
  shows "\<exists>rc out'. mm_iep_decode (Some bs) len_bits out = Some (rc, out') \<and> decoded_ok out'"
proof -
  let ?r = "\<lparr>r_bits = bs, r_len_bits = len_bits, r_pos = 0, overrun = False\<rparr>"
  have ok: "rb_ok ?r" using assms(1) by (simp add: rb_ok_def)
  show ?thesis
    using decode_u_loc_update_demand_total [OF ok, of zero_decoded]
      decode_u_attach_detach_grp_id_total [OF ok, of zero_decoded] assms(2)
    by (auto simp: mm_iep_decode_def rbuf_read_eq [OF ok] Let_def) (simp add: decoded_ok_def zero_decoded_def zero_gild_def)
qed

section \<open>Parsing a group attachment request\<close>

text \<open>The on-air form of a group identity and of the whole request.\<close>

definition giu_fields :: "MmGroupIdentityUplink \<Rightarrow> field list" where
  "giu_fields g =
     (if giu_is_attach g then [(0, 1), (ucast (giu_class_of_usage g), 3)]
      else [(1, 1), (ucast (giu_detachment g), 2)]) @
     [(ucast (giu_address_type g), 2)] @
     (if giu_address_type g = 0 \<or> giu_address_type g = 1 then [(giu_gssi g, 24)] else []) @
     (if giu_address_type g = 1 then [(giu_address_extension g, 24)] else []) @
     (if giu_address_type g = 2 then [(giu_vgssi g, 24)] else [])"

definition giu_wf :: "MmGroupIdentityUplink \<Rightarrow> bool" where
  "giu_wf g \<longleftrightarrow> take_bit 3 (giu_class_of_usage g) = giu_class_of_usage g \<and>
     take_bit 2 (giu_detachment g) = giu_detachment g \<and> take_bit 2 (giu_address_type g) = giu_address_type g \<and>
     (giu_is_attach g \<longrightarrow> giu_detachment g = 0) \<and> (\<not> giu_is_attach g \<longrightarrow> giu_class_of_usage g = 0) \<and>
     fits 24 (giu_gssi g) \<and> fits 24 (giu_address_extension g) \<and> fits 24 (giu_vgssi g) \<and>
     (giu_address_type g \<notin> {0, 1} \<longrightarrow> giu_gssi g = 0) \<and> (giu_address_type g \<noteq> 1 \<longrightarrow> giu_address_extension g = 0) \<and>
     (giu_address_type g \<noteq> 2 \<longrightarrow> giu_vgssi g = 0)"

definition giu_elem_fields :: "MmGroupIdentityUplink list \<Rightarrow> field list" where
  "giu_elem_fields gl =
     [(1, 1), (8, 4), (of_nat (6 + length (field_bits (concat (map giu_fields gl)))), 11), (of_nat (length gl), 6)] @
     concat (map giu_fields gl)"

definition attach_request_bits :: "bool \<Rightarrow> u8 \<Rightarrow> MmGroupIdentityUplink list \<Rightarrow> bool list" where
  "attach_request_bits rep mode gl =
     field_bits ([(7, 4), (of_bool rep, 1), (ucast mode, 1), (1, 1)] @ giu_elem_fields gl @ [(0, 1)])"

lemma rbuf_read_len: "rbuf_read r n = Some (v, r') \<Longrightarrow> r_len_bits r' = r_len_bits r"
  by (auto simp: rbuf_read_def split: if_splits bind_splits)

lemma get_fields_len: "get_fields rbuf_read ns r = Some (vs, r') \<Longrightarrow> r_len_bits r' = r_len_bits r"
proof (induction ns arbitrary: r vs)
  case (Cons n ns)
  then obtain v r1 vs1 where "rbuf_read r n = Some (v, r1)" "get_fields rbuf_read ns r1 = Some (vs1, r')"
    by (auto split: bind_splits)
  with Cons.IH rbuf_read_len show ?case by metis
qed simp

lemma rb_pos: "rb_inv r \<Longrightarrow> r_pos r = r_len_bits r - length (rb_rest r)"
  by (auto simp: rb_inv_def rb_ok_def rb_rest_def)

lemma rb_rest_le: "rb_inv r \<Longrightarrow> length (rb_rest r) \<le> r_len_bits r"
  by (auto simp: rb_inv_def rb_ok_def rb_rest_def)

text \<open>A parser step: it consumes exactly the given bits.\<close>

definition rb_step :: "RBuf \<Rightarrow> bool list \<Rightarrow> RBuf \<Rightarrow> bool" where
  "rb_step r xs r' \<longleftrightarrow> rb_inv r' \<and> r_len_bits r' = r_len_bits r \<and> rb_rest r = xs @ rb_rest r'"

lemma rb_step_trans: "rb_step r xs r' \<Longrightarrow> rb_step r' ys r'' \<Longrightarrow> rb_step r (xs @ ys) r''"
  by (simp add: rb_step_def)

lemma rb_step_pos:
  assumes "rb_inv r" "rb_step r xs r'"
  shows "r_pos r' - r_pos r = length xs"
  using assms rb_pos [of r] rb_pos [of r'] rb_rest_le [of r] by (auto simp: rb_step_def)

lemma rb_fields:
  assumes "rb_inv r" "fields_ok fs" "rb_rest r = field_bits fs @ xs"
  shows "\<exists>r'. get_fields rbuf_read (map snd fs) r = Some (map fst fs, r') \<and> rb_step r (field_bits fs) r' \<and> rb_rest r' = xs"
  using rbuf_source.get_fields_ok [OF assms] assms(3) get_fields_len by (fastforce simp: rb_step_def)

lemma rb_field:
  assumes "rb_inv r" "fits n v" "rb_rest r = word_bits n v @ xs"
  shows "\<exists>r'. rbuf_read r n = Some (v, r') \<and> rb_step r (word_bits n v) r' \<and> rb_rest r' = xs"
  using rbuf_source.get_field [OF assms] assms(3) rbuf_read_len by (fastforce simp: rb_step_def)

lemma fits_u8: "1 \<le> n \<Longrightarrow> n \<le> 32 \<Longrightarrow> take_bit n (w :: u8) = w \<Longrightarrow> fits n (ucast w)"
  by (simp add: fits_def flip: unsigned_take_bit_eq)

lemma ucast_ucast_u8 [simp]: "ucast (ucast (w :: u8) :: u32) = w"
  by (rule bit_word_eqI) (auto simp: bit_simps)

lemma fits_24_mask: "fits 24 v \<Longrightarrow> v AND TETRA_SSI_MASK_24 = v"
proof -
  have "(0x00FFFFFF :: u32) = mask 24"
    by (simp add: mask_eq_exp_minus_1)
  then show "fits 24 v \<Longrightarrow> ?thesis"
    by (simp add: fits_def TETRA_SSI_MASK_24_def take_bit_eq_mask)
qed

lemma giu_fields_ok: "giu_wf g \<Longrightarrow> fields_ok (giu_fields g)"
  by (auto simp: giu_wf_def giu_fields_def fits_u8) (simp_all add: fits_def take_bit_eq_mask mask_eq_exp_minus_1)

text \<open>An optional address: read and stored when the condition holds, otherwise nothing consumed.\<close>

lemma read_ssi_if_field:
  assumes "rb_inv r" "fits 24 v" "rb_rest r = (if c then word_bits 24 v else []) @ xs"
  shows "\<exists>r'. read_ssi_if c f x r = Some (if c then f v else x, r') \<and>
     rb_step r (if c then word_bits 24 v else []) r' \<and> rb_rest r' = xs"
proof (cases c)
  case True
  with assms rb_field [OF assms(1,2), of xs] show ?thesis
    by (auto simp: read_ssi_if_def fits_24_mask)
next
  case False
  with assms show ?thesis by (simp add: rb_step_def read_ssi_if_def)
qed

lemma decode_giu_fields:
  assumes "rb_inv r" "giu_wf g" "rb_rest r = field_bits (giu_fields g) @ xs"
  shows "\<exists>r'. decode_giu r = Some (Inr (), g, r') \<and> rb_step r (field_bits (giu_fields g)) r' \<and> rb_rest r' = xs"
proof -
  let ?a = "giu_is_attach g" and ?t = "giu_address_type g"
  let ?A = "if ?a then 0 else 1 :: u32"
  let ?n = "if ?a then 3 else 2 :: nat"
  let ?u = "ucast (if ?a then giu_class_of_usage g else giu_detachment g) :: u32"
  let ?G = "if ?t = 0 \<or> ?t = 1 then word_bits 24 (giu_gssi g) else []"
  let ?E = "if ?t = 1 then word_bits 24 (giu_address_extension g) else []"
  let ?V = "if ?t = 2 then word_bits 24 (giu_vgssi g) else []"
  have fb: "field_bits (giu_fields g) = word_bits 1 ?A @ word_bits ?n ?u @ word_bits 2 (ucast ?t :: u32) @ ?G @ ?E @ ?V"
    by (simp add: giu_fields_def)
  have f: "fits 1 ?A" "fits ?n ?u" "fits 2 (ucast ?t)" "fits 24 (giu_gssi g)" "fits 24 (giu_address_extension g)"
      "fits 24 (giu_vgssi g)"
    using assms(2) by (auto simp: giu_wf_def fits_u8) (simp_all add: fits_def take_bit_eq_mask mask_eq_exp_minus_1)
  have r0: "rb_rest r = word_bits 1 ?A @ word_bits ?n ?u @ word_bits 2 (ucast ?t :: u32) @ ?G @ ?E @ ?V @ xs"
    using assms(3) unfolding fb by (simp only: append.assoc)
  obtain r1 where 1: "rbuf_read r 1 = Some (?A, r1)" "rb_step r (word_bits 1 ?A) r1"
      "rb_rest r1 = word_bits ?n ?u @ word_bits 2 (ucast ?t :: u32) @ ?G @ ?E @ ?V @ xs"
    using rb_field [OF assms(1) f(1) r0] by (elim exE conjE)
  have i1: "rb_inv r1" using 1(2) by (simp only: rb_step_def)
  obtain r2 where 2: "rbuf_read r1 ?n = Some (?u, r2)" "rb_step r1 (word_bits ?n ?u) r2"
      "rb_rest r2 = word_bits 2 (ucast ?t :: u32) @ ?G @ ?E @ ?V @ xs"
    using rb_field [OF i1 f(2) 1(3)] by (elim exE conjE)
  have i2: "rb_inv r2" using 2(2) by (simp only: rb_step_def)
  obtain r3 where 3: "rbuf_read r2 2 = Some (ucast ?t, r3)" "rb_step r2 (word_bits 2 (ucast ?t :: u32)) r3"
      "rb_rest r3 = ?G @ ?E @ ?V @ xs"
    using rb_field [OF i2 f(3) 2(3)] by (elim exE conjE)
  have i3: "rb_inv r3" using 3(2) by (simp only: rb_step_def)
  define o3 where "o3 = zero_giu\<lparr>giu_is_attach := ?a, giu_class_of_usage := (if ?a then giu_class_of_usage g else 0),
      giu_detachment := (if ?a then 0 else giu_detachment g), giu_address_type := ?t\<rparr>"
  define o4 where "o4 = (if ?t = 0 \<or> ?t = 1 then o3\<lparr>giu_gssi := giu_gssi g\<rparr> else o3)"
  define o5 where "o5 = (if ?t = 1 then o4\<lparr>giu_address_extension := giu_address_extension g\<rparr> else o4)"
  define o6 where "o6 = (if ?t = 2 then o5\<lparr>giu_vgssi := giu_vgssi g\<rparr> else o5)"
  have at: "giu_address_type o3 = ?t" "giu_address_type o4 = ?t" "giu_address_type o5 = ?t"
    by (simp_all add: o3_def o4_def o5_def)
  obtain r4 where 4: "read_ssi_if (?t = 0 \<or> ?t = 1) (\<lambda>w. o3\<lparr>giu_gssi := w\<rparr>) o3 r3 = Some (o4, r4)"
      "rb_step r3 ?G r4" "rb_rest r4 = ?E @ ?V @ xs"
    using read_ssi_if_field [OF i3 f(4) 3(3), of "\<lambda>w. o3\<lparr>giu_gssi := w\<rparr>" o3]
    unfolding o4_def by (elim exE conjE)
  have i4: "rb_inv r4" using 4(2) by (simp only: rb_step_def)
  obtain r5 where 5: "read_ssi_if (?t = 1) (\<lambda>w. o4\<lparr>giu_address_extension := w\<rparr>) o4 r4 = Some (o5, r5)"
      "rb_step r4 ?E r5" "rb_rest r5 = ?V @ xs"
    using read_ssi_if_field [OF i4 f(5) 4(3), of "\<lambda>w. o4\<lparr>giu_address_extension := w\<rparr>" o4]
    unfolding o5_def by (elim exE conjE)
  have i5: "rb_inv r5" using 5(2) by (simp only: rb_step_def)
  obtain r6 where 6: "read_ssi_if (?t = 2) (\<lambda>w. o5\<lparr>giu_vgssi := w\<rparr>) o5 r5 = Some (o6, r6)"
      "rb_step r5 ?V r6" "rb_rest r6 = xs"
    using read_ssi_if_field [OF i5 f(6) 5(3), of "\<lambda>w. o5\<lparr>giu_vgssi := w\<rparr>" o5]
    unfolding o6_def by (elim exE conjE)
  have step: "rb_step r (field_bits (giu_fields g)) r6"
    using rb_step_trans [OF 1(2) rb_step_trans [OF 2(2) rb_step_trans [OF 3(2) rb_step_trans [OF 4(2)
          rb_step_trans [OF 5(2) 6(2)]]]]] unfolding fb .
  have use: "giu_usage (zero_giu\<lparr>giu_is_attach := ?A = 0\<rparr>) r1 = Some (o3\<lparr>giu_address_type := 0\<rparr>, r2)"
    using 2(1) by (cases ?a) (simp_all add: o3_def zero_giu_def giu_usage_def)
  have "o6 = g"
    using assms(2) by (cases g) (auto simp: giu_wf_def o6_def o5_def o4_def o3_def zero_giu_def)
  moreover have "\<not> overrun r6"
    using step by (simp add: rb_step_def rb_inv_def)
  moreover have "decode_giu r = Some (proto_if (overrun r6), o6, r6)"
  proof -
    have o3: "o3\<lparr>giu_address_type := ?t\<rparr> = o3" "o3\<lparr>giu_address_type := ?t, giu_gssi := v\<rparr> = o3\<lparr>giu_gssi := v\<rparr>" for v
      by (simp_all add: o3_def)
    show ?thesis
      unfolding decode_giu_def Let_def using 1(1) use 3(1) 4(1) 5(1) 6(1) by (simp add: at o3)
  qed
  ultimately show ?thesis
    using step 6(3) by (simp add: proto_if_def)
qed

lemma decode_giu_loop_fields:
  assumes "rb_inv r" "\<forall>g\<in>set gl. giu_wf g" "rb_rest r = field_bits (concat (map giu_fields gl)) @ xs"
    and "i + length gl \<le> MM_GIU_MAX" "length gs = MM_GIU_MAX"
  shows "\<exists>r'. decode_giu_loop r i (length gl) gs = Some (Inr (), take i gs @ gl @ drop (i + length gl) gs, r') \<and>
     rb_step r (field_bits (concat (map giu_fields gl))) r' \<and> rb_rest r' = xs"
  using assms
proof (induction gl arbitrary: r i gs)
  case Nil
  then show ?case by (simp add: rb_step_def)
next
  case (Cons g gl)
  have rest: "rb_rest r = field_bits (giu_fields g) @ (field_bits (concat (map giu_fields gl)) @ xs)"
    using Cons.prems(3) by simp
  have "giu_wf g" using Cons.prems(2) by simp
  from decode_giu_fields [OF Cons.prems(1) this rest] obtain r1
    where r1: "decode_giu r = Some (Inr (), g, r1)" "rb_step r (field_bits (giu_fields g)) r1"
      "rb_rest r1 = field_bits (concat (map giu_fields gl)) @ xs" by (elim exE conjE)
  have i: "i < MM_GIU_MAX" "i + 1 + length gl \<le> MM_GIU_MAX"
    using Cons.prems(4) by simp_all
  have "rb_inv r1" "\<forall>g\<in>set gl. giu_wf g" "length (gs[i := g]) = MM_GIU_MAX"
    using r1(2) Cons.prems by (simp_all add: rb_step_def)
  from Cons.IH [OF this(1,2) r1(3) i(2) this(3)] obtain r'
    where r': "decode_giu_loop r1 (i + 1) (length gl) (gs[i := g]) =
        Some (Inr (), take (i + 1) (gs[i := g]) @ gl @ drop (i + 1 + length gl) (gs[i := g]), r')"
      "rb_step r1 (field_bits (concat (map giu_fields gl))) r'" "rb_rest r' = xs" by (elim exE conjE)
  have "take (i + 1) (gs[i := g]) = take i gs @ [g]" "drop (i + 1 + length gl) (gs[i := g]) = drop (i + 1 + length gl) gs"
    using i(1) Cons.prems(5) by (simp_all add: take_Suc_conv_app_nth)
  then show ?case
    using r1(1) r' i(1) Cons.prems(5) rb_step_trans [OF r1(2) r'(2)] by simp
qed

text \<open>Recognising the header of a type-3/4 element.\<close>

lemma fits_small [simp]: "fits 1 1" "fits 1 0" "fits 4 7" "fits 4 8" "fits 1 (of_bool b)"
  by (cases b; simp add: fits_def take_bit_eq_mask mask_eq_exp_minus_1)+

lemma peek_type34_here:
  assumes "rb_inv r" "fits 4 i" "rb_rest r = word_bits 1 (1 :: u32) @ word_bits 4 i @ xs"
  shows "peek_type34 r e = Some (unat i = e)"
    "\<exists>r'. skip_type34_header r = Some r' \<and> rb_step r (word_bits 1 (1 :: u32) @ word_bits 4 i) r' \<and> rb_rest r' = xs"
proof -
  obtain r1 where r1: "rbuf_read r 1 = Some (1, r1)" "rb_step r (word_bits 1 (1 :: u32)) r1" "rb_rest r1 = word_bits 4 i @ xs"
    using rb_field [OF assms(1) fits_small(1) assms(3)] by (elim exE conjE)
  then have inv1: "rb_inv r1" by (simp add: rb_step_def)
  obtain r2 where r2: "rbuf_read r1 4 = Some (i, r2)"
    using rb_field [OF inv1 assms(2) r1(3)] by auto
  have len: "5 \<le> length (rb_rest r)" using assms(3) by simp
  then have "\<not> r_pos r + 5 > r_len_bits r"
    using assms(1) rb_pos [OF assms(1)] rb_rest_le [OF assms(1)] by simp
  then show "peek_type34 r e = Some (unat i = e)"
    using r1(1) r2 by (simp add: peek_type34_def)
  obtain r3 where r3: "rbuf_read r 5 = Some (word_of_bits (take 5 (rb_rest r)), r3)" "rb_inv r3" "rb_rest r3 = drop 5 (rb_rest r)"
    using rbuf_source.get_ok [OF assms(1), of 5] len by auto
  then show "\<exists>r'. skip_type34_header r = Some r' \<and> rb_step r (word_bits 1 (1 :: u32) @ word_bits 4 i) r' \<and> rb_rest r' = xs"
    using assms(3) rbuf_read_len [OF r3(1)] by (simp add: skip_type34_header_def rb_step_def)
qed

lemma peek_type34_absent:
  assumes "rb_inv r" "rb_rest r = word_bits 1 (0 :: u32) @ xs"
  shows "peek_type34 r e = Some False"
proof -
  obtain r1 where "rbuf_read r 1 = Some (0, r1)"
    using rb_field [OF assms(1) fits_small(2) assms(2)] by (elim exE conjE)
  then show ?thesis
    by (simp add: peek_type34_def)
qed

lemma field_bits_map_length: "length (field_bits (giu_fields g)) \<le> 54"
  by (simp add: giu_fields_def)

lemma giu_list_length: "length (field_bits (concat (map giu_fields gl))) \<le> 54 * length gl"
proof (induction gl)
  case (Cons g gl)
  then show ?case using field_bits_map_length [of g] by simp
qed simp

lemma fits_of_nat: "1 \<le> n \<Longrightarrow> n \<le> 31 \<Longrightarrow> k < 2 ^ n \<Longrightarrow> fits n (of_nat k)"
proof -
  assume a: "1 \<le> n" "n \<le> 31" "k < 2 ^ n"
  have "take_bit n (of_nat k :: u32) = of_nat (take_bit n k)"
    by (simp add: take_bit_of_nat)
  also have "take_bit n k = k"
    using a(3) by (simp add: take_bit_nat_eq_self)
  finally show ?thesis
    using a by (simp add: fits_def)
qed

lemma decode_giu_list_fields:
  assumes "rb_inv r" "\<forall>g\<in>set gl. giu_wf g" "length gl \<le> MM_GIU_MAX" "length gs = MM_GIU_MAX"
    and "rb_rest r = field_bits (giu_elem_fields gl) @ xs"
  shows "\<exists>r'. decode_giu_list r gs = Some (Inr (), length gl, gl @ drop (length gl) gs, r') \<and>
     rb_step r (field_bits (giu_elem_fields gl)) r' \<and> rb_rest r' = xs"
proof -
  let ?B = "field_bits (concat (map giu_fields gl))"
  let ?L = "of_nat (6 + length ?B) :: u32" and ?N = "of_nat (length gl) :: u32"
  have n4: "length gl \<le> 4" using assms(3) by (simp add: MM_GIU_MAX_def)
  then have lB: "6 + length ?B < 2 ^ 11" using giu_list_length [of gl] by simp
  have n6: "length gl < 2 ^ 6" using n4 by simp
  have fits: "fits 11 ?L" "fits 6 ?N" "fits 4 8"
    using fits_of_nat [OF _ _ lB] fits_of_nat [OF _ _ n6] fits_small(4) by (simp_all del: of_nat_add)
  have unat: "unat ?L = 6 + length ?B" "unat ?N = length gl"
    using lB n4 by (simp_all add: unat_of_nat del: of_nat_add)
  have fb: "field_bits (giu_elem_fields gl) = (word_bits 1 (1 :: u32) @ word_bits 4 (8 :: u32)) @ word_bits 11 ?L @ word_bits 6 ?N @ ?B"
    by (simp add: giu_elem_fields_def)
  have r0: "rb_rest r = word_bits 1 (1 :: u32) @ word_bits 4 (8 :: u32) @ (word_bits 11 ?L @ word_bits 6 ?N @ ?B @ xs)"
    using assms(5) unfolding fb by (simp only: append.assoc)
  note here = peek_type34_here [OF assms(1) fits(3) r0]
  obtain r1 where 1: "skip_type34_header r = Some r1" "rb_step r (word_bits 1 (1 :: u32) @ word_bits 4 (8 :: u32)) r1"
      "rb_rest r1 = word_bits 11 ?L @ word_bits 6 ?N @ ?B @ xs"
    using here(2) by (elim exE conjE)
  have i1: "rb_inv r1" using 1(2) by (simp only: rb_step_def)
  obtain r2 where 2: "rbuf_read r1 11 = Some (?L, r2)" "rb_step r1 (word_bits 11 ?L) r2"
      "rb_rest r2 = word_bits 6 ?N @ ?B @ xs"
    using rb_field [OF i1 fits(1) 1(3)] by (elim exE conjE)
  have i2: "rb_inv r2" using 2(2) by (simp only: rb_step_def)
  obtain r3 where 3: "rbuf_read r2 6 = Some (?N, r3)" "rb_step r2 (word_bits 6 ?N) r3" "rb_rest r3 = ?B @ xs"
    using rb_field [OF i2 fits(2) 2(3)] by (elim exE conjE)
  have i3: "rb_inv r3" using 3(2) by (simp only: rb_step_def)
  have z: "0 + length gl \<le> MM_GIU_MAX" using assms(3) by simp
  obtain r4 where 4: "decode_giu_loop r3 0 (length gl) gs = Some (Inr (), take 0 gs @ gl @ drop (0 + length gl) gs, r4)"
      "rb_step r3 ?B r4" "rb_rest r4 = xs"
    using decode_giu_loop_fields [OF i3 assms(2) 3(3) z assms(4)] by (elim exE conjE)
  have pos: "r_pos r4 - r_pos r3 = length ?B"
    using rb_step_pos [OF i3 4(2)] .
  have "peek_type34 r MmElemUl_GroupIdentityUplink = Some True"
    using here(1) [of 8] by (simp add: MmElemUl_GroupIdentityUplink_def)
  then have "decode_giu_list r gs = Some (Inr (), length gl, gl @ drop (length gl) gs, r4)"
    unfolding decode_giu_list_def using 1(1) 2(1) 3(1) 4(1) assms(3)
    by (simp add: Let_def unat pos del: of_nat_add)
  moreover have "rb_step r (field_bits (giu_elem_fields gl)) r4"
    using rb_step_trans [OF 1(2) rb_step_trans [OF 2(2) rb_step_trans [OF 3(2) 4(2)]]] unfolding fb .
  ultimately show ?thesis
    using 4(3) by blast
qed

lemma skip_absent: "peek_type34 r i = Some False \<Longrightarrow> decode_type3_generic_skip r i = Some (Inr (), r)"
  by (simp add: decode_type3_generic_skip_def)

lemma attach_request_parsed:
  assumes "rb_inv r" "mode \<in> {0, 1}" "\<forall>g\<in>set gl. giu_wf g" "length gl \<le> MM_GIU_MAX"
    and "rb_rest r = attach_request_bits rep mode gl @ xs"
  shows "decode_u_attach_detach_grp_id r zero_decoded = Some (Inr (),
     zero_decoded\<lparr>mm_pdu_type := MmPduUl_UAttachDetachGroupIdentity, group_identity_report := rep,
       attach_detach_mode := mode, num_giu := length gl,
       giu := gl @ drop (length gl) (replicate MM_GIU_MAX zero_giu)\<rparr>)"
proof -
  let ?E = "field_bits (giu_elem_fields gl)" and ?m = "ucast mode :: u32"
  have r0: "rb_rest r = word_bits 4 (7 :: u32) @ word_bits 1 (of_bool rep :: u32) @ word_bits 1 ?m @
      word_bits 1 (1 :: u32) @ ?E @ word_bits 1 (0 :: u32) @ xs"
    using assms(5) by (simp add: attach_request_bits_def)
  have m: "fits 1 ?m" using assms(2) fits_small(1,2) by auto
  obtain r1 where 1: "rbuf_read r 4 = Some (7, r1)" "rb_step r (word_bits 4 (7 :: u32)) r1"
      "rb_rest r1 = word_bits 1 (of_bool rep :: u32) @ word_bits 1 ?m @ word_bits 1 (1 :: u32) @ ?E @ word_bits 1 (0 :: u32) @ xs"
    using rb_field [OF assms(1) fits_small(3) r0] by (elim exE conjE)
  have i1: "rb_inv r1" using 1(2) by (simp only: rb_step_def)
  obtain r2 where 2: "rbuf_read r1 1 = Some (of_bool rep, r2)" "rb_step r1 (word_bits 1 (of_bool rep :: u32)) r2"
      "rb_rest r2 = word_bits 1 ?m @ word_bits 1 (1 :: u32) @ ?E @ word_bits 1 (0 :: u32) @ xs"
    using rb_field [OF i1 fits_small(5) 1(3)] by (elim exE conjE)
  have i2: "rb_inv r2" using 2(2) by (simp only: rb_step_def)
  obtain r3 where 3: "rbuf_read r2 1 = Some (?m, r3)" "rb_step r2 (word_bits 1 ?m) r3"
      "rb_rest r3 = word_bits 1 (1 :: u32) @ ?E @ word_bits 1 (0 :: u32) @ xs"
    using rb_field [OF i2 m 2(3)] by (elim exE conjE)
  have i3: "rb_inv r3" using 3(2) by (simp only: rb_step_def)
  obtain r4 where 4: "rbuf_read r3 1 = Some (1, r4)" "rb_step r3 (word_bits 1 (1 :: u32)) r4"
      "rb_rest r4 = ?E @ word_bits 1 (0 :: u32) @ xs"
    using rb_field [OF i3 fits_small(1) 3(3)] by (elim exE conjE)
  have i4: "rb_inv r4" using 4(2) by (simp only: rb_step_def)
  have "rb_rest r4 = word_bits 1 (1 :: u32) @ word_bits 4 (8 :: u32) @
      (field_bits ([(of_nat (6 + length (field_bits (concat (map giu_fields gl)))), 11), (of_nat (length gl), 6)] @
        concat (map giu_fields gl)) @ word_bits 1 (0 :: u32) @ xs)"
    unfolding 4(3) giu_elem_fields_def by simp
  then have "peek_type34 r4 MmElemUl_GroupReportResponse = Some False"
    using peek_type34_here(1) [OF i4 fits_small(4)] by (simp add: MmElemUl_GroupReportResponse_def)
  note skip1 = skip_absent [OF this]
  have lz: "length (replicate MM_GIU_MAX zero_giu) = MM_GIU_MAX" by simp
  obtain r5 where 5: "decode_giu_list r4 (replicate MM_GIU_MAX zero_giu) =
        Some (Inr (), length gl, gl @ drop (length gl) (replicate MM_GIU_MAX zero_giu), r5)"
      "rb_step r4 ?E r5" "rb_rest r5 = word_bits 1 (0 :: u32) @ xs"
    using decode_giu_list_fields [OF i4 assms(3,4) lz 4(3)] by (elim exE conjE)
  have i5: "rb_inv r5" using 5(2) by (simp only: rb_step_def)
  note skip2 = skip_absent [OF peek_type34_absent [OF i5 5(3)]]
  obtain r6 where 6: "rbuf_read r5 1 = Some (0, r6)" "rb_step r5 (word_bits 1 (0 :: u32)) r6"
    using rb_field [OF i5 fits_small(2) 5(3)] by (elim exE conjE)
  have "r_pos r5 < r_len_bits r5"
    using rb_pos [OF i5] rb_rest_le [OF i5] 5(3) by simp
  then have tm: "trailing_mbit r5 = Some (Inr (), r6)"
    using 6 by (simp add: trailing_mbit_def proto_if_def rb_step_def rb_inv_def)
  have g: "giu (zero_decoded\<lparr>mm_pdu_type := a, group_identity_report := b, attach_detach_mode := c\<rparr>) = replicate MM_GIU_MAX zero_giu" for a b c
    by (simp add: zero_decoded_def)
  show ?thesis
    unfolding decode_u_attach_detach_grp_id_def rbuf_read_bit_def
    using 1(1) 2(1) 3(1) 4(1) skip1 5(1) skip2 tm g by (simp add: Let_def)
qed

text \<open>The structure the parser leaves for a group attachment request.\<close>

definition attach_decoded :: "bool \<Rightarrow> u8 \<Rightarrow> MmGroupIdentityUplink list \<Rightarrow> MmDecoded" where
  "attach_decoded rep mode gl = zero_decoded\<lparr>mm_pdu_type := MmPduUl_UAttachDetachGroupIdentity,
     group_identity_report := rep, attach_detach_mode := mode, num_giu := length gl,
     giu := gl @ drop (length gl) (replicate MM_GIU_MAX zero_giu)\<rparr>"

lemma attach_request_decoded:
  assumes "mode \<in> {0, 1}" "\<forall>g\<in>set gl. giu_wf g" "length gl \<le> MM_GIU_MAX"
    and "n \<le> 8 * length bs" "take n (bits_of bs) = attach_request_bits rep mode gl @ xs"
  shows "mm_iep_decode (Some bs) n out = Some (Inr (), attach_decoded rep mode gl)"
proof -
  let ?r = "\<lparr>r_bits = bs, r_len_bits = n, r_pos = 0, overrun = False\<rparr>"
  have inv: "rb_inv ?r" using assms(4) by (simp add: rb_inv_def rb_ok_def)
  have rest: "rb_rest ?r = attach_request_bits rep mode gl @ xs"
    using assms(5) by (simp add: rb_rest_def)
  have "n = length (take n (bits_of bs))" using assms(4) by simp
  then have n: "\<not> n < 4"
    unfolding assms(5) by (simp add: attach_request_bits_def)
  have r0: "rb_rest ?r = word_bits 4 (7 :: u32) @ (field_bits ([(of_bool rep, 1), (ucast mode, 1), (1, 1)] @ giu_elem_fields gl @ [(0, 1)]) @ xs)"
    unfolding rest attach_request_bits_def by simp
  obtain r1 where 1: "rbuf_read ?r 4 = Some (7, r1)" "rb_step ?r (word_bits 4 (7 :: u32)) r1"
    using rb_field [OF inv fits_small(3) r0] by (elim exE conjE)
  then have "\<not> overrun r1" by (simp add: rb_step_def rb_inv_def)
  then show ?thesis
    using attach_request_parsed [OF inv assms(1-3) rest] n 1(1) by (simp add: mm_iep_decode_def Let_def attach_decoded_def)
qed

section \<open>Properties\<close>

text \<open>
  The MM parser is safe on every input. For any bytes and any bit length that lies within them,
  \<open>mm_iep_decode\<close> returns (0 or an error code) without reading outside the array, and the
  structure it leaves never claims more group identities than its arrays hold, on every error path
  as well.
\<close>

theorem mm_iep_decode_safe:
  assumes "len_bits \<le> 8 * length bs" "decoded_ok out"
  shows "\<exists>rc out'. mm_iep_decode (Some bs) len_bits out = Some (rc, out') \<and> decoded_ok out'"
  using assms by (rule mm_iep_decode_total)

theorem mm_iep_decode_safe_witness:
  "\<exists>rc out'. mm_iep_decode (Some [0x7F, 0xFF, 0xFF]) 23 zero_decoded = Some (rc, out') \<and> decoded_ok out'"
  by (rule mm_iep_decode_safe) simp_all

text \<open>
  C22: a group attachment request is parsed to what was sent. For every report flag, mode and list of
  at most four well-formed group identities, in their on-air encoding with the element length and
  count fields, whatever follows the trailing bit, \<open>mm_iep_decode\<close> returns 0 and exactly that
  flag, mode and list.
\<close>

theorem mm_iep_attach_request:
  assumes "mode \<in> {0, 1}" "\<forall>g\<in>set gl. giu_wf g" "length gl \<le> MM_GIU_MAX"
    and "n \<le> 8 * length bs" "take n (bits_of bs) = attach_request_bits rep mode gl @ xs"
  shows "mm_iep_decode (Some bs) n out = Some (Inr (),
     zero_decoded\<lparr>mm_pdu_type := MmPduUl_UAttachDetachGroupIdentity, group_identity_report := rep,
       attach_detach_mode := mode, num_giu := length gl,
       giu := gl @ drop (length gl) (replicate MM_GIU_MAX zero_giu)\<rparr>)"
  using attach_request_decoded [OF assms] by (simp add: attach_decoded_def)

text \<open>The request of one terminal for the talk group 0x2F4D61: 60 bits in 8 bytes.\<close>

definition ex_giu :: MmGroupIdentityUplink where
  "ex_giu = zero_giu\<lparr>giu_is_attach := True, giu_class_of_usage := 4, giu_gssi := 0x2F4D61\<rparr>"

definition ex_attach_bytes :: "u8 list" where
  "ex_attach_bytes = [0x77, 0x80, 0x48, 0x0A, 0x05, 0xE9, 0xAC, 0x20]"

theorem mm_iep_attach_request_witness:
  "mm_iep_decode (Some ex_attach_bytes) 60 zero_decoded = Some (Inr (),
     zero_decoded\<lparr>mm_pdu_type := MmPduUl_UAttachDetachGroupIdentity, group_identity_report := False,
       attach_detach_mode := 1, num_giu := 1, giu := [ex_giu, zero_giu, zero_giu, zero_giu]\<rparr>)"
proof -
  have wf: "giu_wf ex_giu"
    by (simp add: giu_wf_def ex_giu_def zero_giu_def fits_def take_bit_eq_mask mask_eq_exp_minus_1)
  have "take 60 (bits_of ex_attach_bytes) = attach_request_bits False 1 [ex_giu] @ []"
    by code_simp
  from mm_iep_attach_request [OF _ _ _ _ this, of zero_decoded] wf show ?thesis
    by (simp add: MM_GIU_MAX_def ex_attach_bytes_def numeral_eq_Suc)
qed

end
