(* ===== verification/Mm_Msg.thy ===== *)
theory Mm_Msg
  imports Llc Mm_Iep
begin

text \<open>
  The envelope the MLE sends to the MM (\<open>TlaSapPayload\<close>, \<open>sw/mm/include/tetra/mm.h\<close>) and the memory
  images of the structures in it. Offsets and padding are those of the ABI; the round trip is proved
  by reading the fields out of the image one after the other.
\<close>

record TlaSapPayload =
  tla_endpoint :: EndpointId
  tla_addr :: TetraAddress
  tla_decoded :: MmDecoded
  tla_is_attach :: bool

section \<open>Images\<close>

definition MmGroupIdentityUplink_bytes :: "MmGroupIdentityUplink \<Rightarrow> u8 list" where
  "MmGroupIdentityUplink_bytes g = [byte_bool (giu_is_attach g), giu_class_of_usage g, giu_detachment g, giu_address_type g] @
     le32 (giu_gssi g) @ le32 (giu_address_extension g) @ le32 (giu_vgssi g)"

definition MmGroupIdentityUplink_of_bytes :: "u8 list \<Rightarrow> MmGroupIdentityUplink" where
  "MmGroupIdentityUplink_of_bytes bs = \<lparr>giu_is_attach = bool_at bs 0, giu_class_of_usage = u8_at bs 1, giu_detachment = u8_at bs 2,
     giu_address_type = u8_at bs 3, giu_gssi = u32_at bs 4, giu_address_extension = u32_at bs 8, giu_vgssi = u32_at bs 12\<rparr>"

text \<open>\<open>MmGroupIdentityUplink giu[MM_GIU_MAX]\<close>\<close>

definition giu_array_bytes :: "MmGroupIdentityUplink list \<Rightarrow> u8 list" where
  "giu_array_bytes gs = concat (map MmGroupIdentityUplink_bytes gs)"

definition giu_array_of_bytes :: "u8 list \<Rightarrow> MmGroupIdentityUplink list" where
  "giu_array_of_bytes bs = map (\<lambda>i. MmGroupIdentityUplink_of_bytes (drop (16 * i) bs)) [0..<MM_GIU_MAX]"

definition MmGild_bytes :: "MmGild \<Rightarrow> u8 list" where
  "MmGild_bytes g = [gild_attach_detach_mode g, of_nat (gild_num_giu g), 0, 0] @ giu_array_bytes (gild_giu g)"

definition MmGild_of_bytes :: "u8 list \<Rightarrow> MmGild" where
  "MmGild_of_bytes bs = \<lparr>gild_attach_detach_mode = u8_at bs 0, gild_num_giu = unat (u8_at bs 1), gild_giu = giu_array_of_bytes (drop 4 bs)\<rparr>"

definition MmDecoded_bytes :: "MmDecoded \<Rightarrow> u8 list" where
  "MmDecoded_bytes d =
     le32 (of_nat (MmPduTypeUl_code (mm_pdu_type d))) @ le32 (of_nat (LocationUpdateType_code (location_update_type d))) @
     [byte_bool (request_to_append_la d), byte_bool (cipher_control d), byte_bool (class_of_ms_present d), 0] @ le32 (class_of_ms d) @
     [byte_bool (energy_saving_mode_present d), 0, 0, 0] @ le32 (of_nat (EnergySavingMode_code (energy_saving_mode d))) @
     [byte_bool (la_information_present d), 0, 0, 0] @ le32 (la_information d) @
     [byte_bool (ssi_present d), 0, 0, 0] @ le32 (dec_ssi d) @
     [byte_bool (address_extension_present d), 0, 0, 0] @ le32 (address_extension d) @
     [byte_bool (gild_present d), 0, 0, 0] @ MmGild_bytes (gild d) @
     [byte_bool (group_identity_report d), attach_detach_mode d, of_nat (num_giu d), 0] @ giu_array_bytes (giu d)"

definition MmDecoded_of_bytes :: "u8 list \<Rightarrow> MmDecoded" where
  "MmDecoded_of_bytes bs =
     \<lparr>mm_pdu_type = MmPduTypeUl_of_code (nat_at bs 0), location_update_type = LocationUpdateType_of_code (nat_at bs 4),
      request_to_append_la = bool_at bs 8, cipher_control = bool_at bs 9, class_of_ms_present = bool_at bs 10, class_of_ms = u32_at bs 12,
      energy_saving_mode_present = bool_at bs 16, energy_saving_mode = EnergySavingMode_of_code (nat_at bs 20),
      la_information_present = bool_at bs 24, la_information = u32_at bs 28, ssi_present = bool_at bs 32, dec_ssi = u32_at bs 36,
      address_extension_present = bool_at bs 40, address_extension = u32_at bs 44, gild_present = bool_at bs 48,
      gild = MmGild_of_bytes (drop 52 bs), group_identity_report = bool_at bs 120, attach_detach_mode = u8_at bs 121,
      num_giu = unat (u8_at bs 122), giu = giu_array_of_bytes (drop 124 bs)\<rparr>"

definition sizeof_TlaSapPayload :: nat where
  "sizeof_TlaSapPayload = 204"

definition TlaSapPayload_bytes :: "TlaSapPayload \<Rightarrow> u8 list" where
  "TlaSapPayload_bytes p = le32 (tla_endpoint p) @ TetraAddress_bytes (tla_addr p) @ MmDecoded_bytes (tla_decoded p) @
     [byte_bool (tla_is_attach p), 0, 0, 0]"

definition TlaSapPayload_of_bytes :: "u8 list \<Rightarrow> TlaSapPayload" where
  "TlaSapPayload_of_bytes bs = \<lparr>tla_endpoint = u32_at bs 0, tla_addr = TetraAddress_at bs 4,
     tla_decoded = MmDecoded_of_bytes (drop 12 bs), tla_is_attach = bool_at bs 200\<rparr>"

section \<open>Copying bits\<close>

text \<open>
  The loop that \<open>strip_mle_pd\<close> and \<open>prepend_mle_disc_mm\<close> share: \<open>n\<close> bits from position \<open>sb\<close> of one
  array are or-ed into position \<open>db\<close> of another.
\<close>

fun or_bits :: "u8 list \<Rightarrow> nat \<Rightarrow> u8 list \<Rightarrow> nat \<Rightarrow> nat \<Rightarrow> u8 list option" where
  "or_bits srcb sb dst db 0 = Some dst"
| "or_bits srcb sb dst db (Suc n) = do {
     s \<leftarrow> arr_get srcb (sb div 8);
     dst \<leftarrow> (if bit s (7 - sb mod 8) then do {
               d \<leftarrow> arr_get dst (db div 8);
               arr_set dst (db div 8) (d OR push_bit (7 - db mod 8) 1)
             } else Some dst);
     or_bits srcb (sb + 1) dst (db + 1) n
   }"

lemma bits_of_or:
  assumes "i < 8 * length B" "\<not> bits_of B ! i"
  shows "bits_of (B[i div 8 := B ! (i div 8) OR push_bit (7 - i mod 8) 1]) = (bits_of B)[i := True]"
proof (rule nth_equalityI)
  let ?B = "B[i div 8 := B ! (i div 8) OR push_bit (7 - i mod 8) 1]"
  show "length (bits_of ?B) = length ((bits_of B)[i := True])" by simp
  fix j assume "j < length (bits_of ?B)"
  then have j: "j < 8 * length B" by simp
  have k: "i div 8 < length B" using assms(1) by auto
  have b: "bit (w OR push_bit k 1 :: u8) n \<longleftrightarrow> n = k \<and> k < 8 \<or> bit w n" for w k n
    by (auto simp: bit_simps)
  show "bits_of ?B ! j = (bits_of B)[i := True] ! j"
    using j k assms bit_pos_eq [of j i] by (auto simp: nth_bits_of nth_list_update b simp del: push_bit_of_1)
qed

lemma or_bits_ok:
  assumes "sb + n \<le> 8 * length srcb" "db + n \<le> 8 * length dst" "\<forall>i<n. \<not> bits_of dst ! (db + i)"
  shows "\<exists>dst'. or_bits srcb sb dst db n = Some dst' \<and> length dst' = length dst \<and>
     bits_of dst' = overwrite (bits_of dst) db (take n (drop sb (bits_of srcb)))"
  using assms
proof (induction n arbitrary: sb db dst)
  case 0
  then show ?case by simp
next
  case (Suc n)
  let ?b = "bits_of srcb ! sb"
  have sb: "sb div 8 < length srcb" "sb < 8 * length srcb" and db: "db div 8 < length dst" "db < 8 * length dst"
    using Suc.prems(1,2) by auto
  have z: "\<not> bits_of dst ! db" using Suc.prems(3) [rule_format, of 0] by simp
  define d1 where "d1 = (if ?b then dst[db div 8 := dst ! (db div 8) OR push_bit (7 - db mod 8) 1] else dst)"
  have d1: "length d1 = length dst" "bits_of d1 = overwrite (bits_of dst) db [?b]"
  proof -
    have "overwrite (bits_of dst) db [c] = (bits_of dst)[db := c]" for c
      using db by (intro nth_equalityI) (auto simp: nth_overwrite nth_list_update)
    moreover have "(bits_of dst)[db := False] = bits_of dst"
      using z by (metis list_update_id)
    ultimately show "bits_of d1 = overwrite (bits_of dst) db [?b]"
      using bits_of_or [OF db(2) z] by (simp add: d1_def)
  qed (simp add: d1_def)
  have step: "or_bits srcb sb dst db (Suc n) = or_bits srcb (Suc sb) d1 (Suc db) n"
    using sb db nth_bits_of [OF sb(2)] by (simp add: d1_def)
  have "\<forall>i<n. \<not> bits_of d1 ! (Suc db + i)"
    using Suc.prems(2,3) d1 by (auto simp: nth_overwrite dest: spec [of _ "Suc _"])
  with Suc.IH [of "Suc sb" "Suc db" d1] Suc.prems(1,2) d1(1) obtain dst' where
    r: "or_bits srcb (Suc sb) d1 (Suc db) n = Some dst'" "length dst' = length d1"
      "bits_of dst' = overwrite (bits_of d1) (Suc db) (take n (drop (Suc sb) (bits_of srcb)))" by auto
  have "take (Suc n) (drop sb (bits_of srcb)) = [?b] @ take n (drop (Suc sb) (bits_of srcb))"
    using sb(2) by (simp add: Cons_nth_drop_Suc [symmetric])
  moreover have "overwrite (overwrite (bits_of dst) db [?b]) (db + length [?b]) (take n (drop (Suc sb) (bits_of srcb))) =
      overwrite (bits_of dst) db ([?b] @ take n (drop (Suc sb) (bits_of srcb)))"
    using Suc.prems(2) by (intro overwrite_overwrite) simp
  ultimately show ?case
    using step r d1 by simp
qed

section \<open>Round trips\<close>

text \<open>Skipping what lies before a field.\<close>

lemma at_skip:
  "length xs \<le> off \<Longrightarrow> u8_at (xs @ ys) off = u8_at ys (off - length xs)"
  "length xs \<le> off \<Longrightarrow> bool_at (xs @ ys) off = bool_at ys (off - length xs)"
  "length xs \<le> off \<Longrightarrow> u32_at (xs @ ys) off = u32_at ys (off - length xs)"
  "length xs \<le> off \<Longrightarrow> nat_at (xs @ ys) off = nat_at ys (off - length xs)"
  by (simp_all add: u8_at_def bool_at_def u32_at_def nat_at_def nth_append Suc_diff_le)

lemma at_skip1:
  "0 < off \<Longrightarrow> u8_at (x # ys) off = u8_at ys (off - 1)" "0 < off \<Longrightarrow> bool_at (x # ys) off = bool_at ys (off - 1)"
  "0 < off \<Longrightarrow> u32_at (x # ys) off = u32_at ys (off - 1)" "0 < off \<Longrightarrow> nat_at (x # ys) off = nat_at ys (off - 1)"
  by (simp_all add: u8_at_def bool_at_def u32_at_def nat_at_def)

lemma at_here:
  "u8_at (b # r) 0 = b" "bool_at (byte_bool c # r) 0 = c" "u32_at (le32 w @ r) 0 = w" "u32_at (le32 w) 0 = w"
  "n < 2 ^ 32 \<Longrightarrow> nat_at (le32 (of_nat n) @ r) 0 = n"
  using u8_at_append [of 0 "[]" b r] bool_at_append [of 0 "[]" c r] u32_at_append [of 0 "[]" w r] u32_at_append [of 0 "[]" w "[]"]
    nat_at_append [of 0 "[]" n r] by simp_all

lemmas at_simps = at_skip at_skip1 at_here

lemma length_giu_bytes [simp]: "length (MmGroupIdentityUplink_bytes g) = 16"
  by (simp add: MmGroupIdentityUplink_bytes_def)

lemma giu_roundtrip: "MmGroupIdentityUplink_of_bytes (MmGroupIdentityUplink_bytes g @ r) = g"
  by (cases g) (simp add: MmGroupIdentityUplink_of_bytes_def MmGroupIdentityUplink_bytes_def at_simps)

lemma length_giu_array [simp]: "length gs = MM_GIU_MAX \<Longrightarrow> length (giu_array_bytes gs) = 64"
  by (simp add: giu_array_bytes_def length_concat comp_def sum_list_triv MM_GIU_MAX_def)

lemma giu_array_roundtrip: "length gs = MM_GIU_MAX \<Longrightarrow> giu_array_of_bytes (giu_array_bytes gs @ r) = gs"
proof -
  assume "length gs = MM_GIU_MAX"
  then obtain a b c d where gs: "gs = [a, b, c, d]"
    by (auto simp: MM_GIU_MAX_def numeral_eq_Suc length_Suc_conv)
  have "[0..<MM_GIU_MAX] = [0, 1, 2, 3]" by (simp add: MM_GIU_MAX_def upt_rec)
  then show ?thesis
    by (simp add: gs giu_array_of_bytes_def giu_array_bytes_def giu_roundtrip)
qed

lemma length_gild_bytes [simp]: "length (gild_giu g) = MM_GIU_MAX \<Longrightarrow> length (MmGild_bytes g) = 68"
  by (simp add: MmGild_bytes_def)

lemma gild_roundtrip:
  "length (gild_giu g) = MM_GIU_MAX \<Longrightarrow> gild_num_giu g < 256 \<Longrightarrow> MmGild_of_bytes (MmGild_bytes g @ r) = g"
  by (cases g) (simp add: MmGild_of_bytes_def MmGild_bytes_def at_simps giu_array_roundtrip unat_of_nat)

text \<open>A decoded PDU whose type code is one the parser produces and whose counts fit their bytes.\<close>

definition decoded_image_ok :: "MmDecoded \<Rightarrow> bool" where
  "decoded_image_ok d \<longleftrightarrow> MmPduTypeUl_of_code (MmPduTypeUl_code (mm_pdu_type d)) = mm_pdu_type d \<and>
     MmPduTypeUl_code (mm_pdu_type d) < 16 \<and> decoded_ok d"

lemma enum_codes_small: "LocationUpdateType_code l < 4294967296" "EnergySavingMode_code m < 4294967296"
  by (cases l; simp) (cases m; simp)

lemma length_decoded_bytes [simp]: "decoded_ok d \<Longrightarrow> length (MmDecoded_bytes d) = 188"
  by (simp add: MmDecoded_bytes_def decoded_ok_def)

lemma decoded_roundtrip:
  assumes "decoded_image_ok d"
  shows "MmDecoded_of_bytes (MmDecoded_bytes d @ r) = d"
proof -
  have l: "length (gild_giu (gild d)) = MM_GIU_MAX" "length (giu d) = MM_GIU_MAX" "gild_num_giu (gild d) < 256" "num_giu d < 256"
    and t: "MmPduTypeUl_code (mm_pdu_type d) < 2 ^ 32" "MmPduTypeUl_of_code (MmPduTypeUl_code (mm_pdu_type d)) = mm_pdu_type d"
    using assms by (auto simp: decoded_image_ok_def decoded_ok_def MM_GIU_MAX_def)
  show ?thesis
    using l t by (intro MmDecoded.equality)
      (simp_all add: MmDecoded_of_bytes_def MmDecoded_bytes_def at_simps enum_codes_small gild_roundtrip giu_array_roundtrip unat_of_nat)
qed

lemma length_TlaSapPayload_bytes [simp]: "decoded_ok (tla_decoded p) \<Longrightarrow> length (TlaSapPayload_bytes p) = 204"
  by (simp add: TlaSapPayload_bytes_def)

lemma TlaSapPayload_roundtrip:
  assumes "decoded_image_ok (tla_decoded p)"
  shows "TlaSapPayload_of_bytes (TlaSapPayload_bytes p) = p"
proof -
  have ok: "decoded_ok (tla_decoded p)" using assms by (simp add: decoded_image_ok_def)
  have "TetraAddress_at (TlaSapPayload_bytes p) 4 = tla_addr p"
    using TetraAddress_at_append [of 4 "le32 (tla_endpoint p)"] by (simp add: TlaSapPayload_bytes_def)
  then show ?thesis
    using decoded_roundtrip [OF assms] ok
    by (intro TlaSapPayload.equality) (simp_all add: TlaSapPayload_of_bytes_def TlaSapPayload_bytes_def at_simps)
qed

end
