(* ===== verification/Store.thy ===== *)
theory Store
  imports Prelude
begin

text \<open>
  The ground the persistence layer stands on: JSON documents as the code sees them through jansson, a
  file system as a map from paths to contents, and the write-then-rename routine that
  \<open>sw/persistence/src/db.c\<close> and \<open>sw/persistence/src/ast_snapshot.c\<close> both carry. Printing and
  parsing of the text belong to jansson and are parameters of the operations that use them.

  System calls can fail, write less than asked, or never return because the process dies. Their
  outcomes are an input list, consumed in program order; a routine that reaches the end of the list
  has died there, and its return value is \<open>None\<close> with the file system as it was left.
\<close>

section \<open>JSON documents\<close>

datatype Json =
    JObject "(string \<times> Json) list" | JArray "Json list" | JString string
  | JInteger int | JReal string | JBool bool | JNull

fun json_object_get :: "Json \<Rightarrow> string \<Rightarrow> Json option" where
  "json_object_get (JObject kvs) k = map_of kvs k"
| "json_object_get _ k = None"

fun json_is_object :: "Json \<Rightarrow> bool" where
  "json_is_object (JObject _) = True"
| "json_is_object _ = False"

fun json_array_items :: "Json option \<Rightarrow> Json list option" where
  "json_array_items (Some (JArray xs)) = Some xs"
| "json_array_items _ = None"

definition json_get_uint :: "Json \<Rightarrow> string \<Rightarrow> nat \<Rightarrow> nat res" where
  "json_get_uint obj k mx =
     (case json_object_get obj k of
        Some (JInteger i) \<Rightarrow> if i < 0 then Inl EINVAL else if nat i > mx then Inl EINVAL else Inr (nat i)
      | _ \<Rightarrow> Inl EINVAL)"

definition json_get_bool :: "Json \<Rightarrow> string \<Rightarrow> bool res" where
  "json_get_bool obj k = (case json_object_get obj k of Some (JBool b) \<Rightarrow> Inr b | _ \<Rightarrow> Inl EINVAL)"

text \<open>\<open>if ((rc = e) != 0) return rc;\<close>\<close>

definition res_bind :: "'a res \<Rightarrow> ('a \<Rightarrow> 'b res) \<Rightarrow> 'b res" where
  "res_bind r f = (case r of Inl e \<Rightarrow> Inl e | Inr v \<Rightarrow> f v)"

lemma res_bind_simps [simp]: "res_bind (Inl e) f = Inl e" "res_bind (Inr v) f = f v"
  by (simp_all add: res_bind_def)

lemma res_bind_Inr: "res_bind r f = Inr v \<longleftrightarrow> (\<exists>u. r = Inr u \<and> f u = Inr v)"
  by (cases r) simp_all

lemma json_get_uint_bound: "json_get_uint obj k mx = Inr n \<Longrightarrow> n \<le> mx"
  by (auto simp: json_get_uint_def split: option.splits Json.splits if_splits)

section \<open>Files\<close>

type_synonym Fs = "string \<rightharpoonup> string"

datatype SysRet = Fail | Done nat

definition TETRA_DB_PATH_MAX :: nat where
  "TETRA_DB_PATH_MAX = 256"

definition tmp_path :: "string \<Rightarrow> string" where
  "tmp_path path = path @ ''.tmp''"

text \<open>The error exits: \<open>unlink(tmp)\<close>, and \<open>close(fd)\<close> before it; both results are ignored.\<close>

fun drop_tmp :: "SysRet list \<Rightarrow> Fs \<Rightarrow> string \<Rightarrow> unit res option \<times> Fs" where
  "drop_tmp [] fs path = (None, fs)"
| "drop_tmp (Fail # cs) fs path = (Some (Inl EIO), fs)"
| "drop_tmp (Done _ # cs) fs path = (Some (Inl EIO), fs(tmp_path path := None))"

fun close_and_drop :: "SysRet list \<Rightarrow> Fs \<Rightarrow> string \<Rightarrow> unit res option \<times> Fs" where
  "close_and_drop [] fs path = (None, fs)"
| "close_and_drop (_ # cs) fs path = drop_tmp cs fs path"

fun rename_step :: "SysRet list \<Rightarrow> Fs \<Rightarrow> string \<Rightarrow> unit res option \<times> Fs" where
  "rename_step [] fs path = (None, fs)"
| "rename_step (Fail # cs) fs path = drop_tmp cs fs path"
| "rename_step (Done _ # cs) fs path = (Some (Inr ()), fs(path := fs (tmp_path path), tmp_path path := None))"

fun close_step :: "SysRet list \<Rightarrow> Fs \<Rightarrow> string \<Rightarrow> unit res option \<times> Fs" where
  "close_step [] fs path = (None, fs)"
| "close_step (Fail # cs) fs path = drop_tmp cs fs path"
| "close_step (Done _ # cs) fs path = rename_step cs fs path"

fun fsync_step :: "SysRet list \<Rightarrow> Fs \<Rightarrow> string \<Rightarrow> unit res option \<times> Fs" where
  "fsync_step [] fs path = (None, fs)"
| "fsync_step (Fail # cs) fs path = close_and_drop cs fs path"
| "fsync_step (Done _ # cs) fs path = close_step cs fs path"

text \<open>The write loop; a call may accept fewer bytes than offered, never more.\<close>

fun write_loop :: "SysRet list \<Rightarrow> Fs \<Rightarrow> string \<Rightarrow> string \<Rightarrow> nat \<Rightarrow> unit res option \<times> Fs" where
  "write_loop [] fs path tx written = (None, fs)"
| "write_loop (c # cs) fs path tx written =
     (if written < length tx
      then (case c of
              Fail \<Rightarrow> close_and_drop cs fs path
            | Done w \<Rightarrow>
                let written = written + min w (length tx - written)
                in write_loop cs (fs(tmp_path path \<mapsto> take written tx)) path tx written)
      else fsync_step (c # cs) fs path)"

definition atomic_write_text :: "SysRet list \<Rightarrow> Fs \<Rightarrow> string \<Rightarrow> string \<Rightarrow> unit res option \<times> Fs" where
  "atomic_write_text calls fs path tx =
     (if length (tmp_path path) \<ge> TETRA_DB_PATH_MAX + 8 then (Some (Inl EINVAL), fs)
      else case calls of
             [] \<Rightarrow> (None, fs)
           | Fail # cs \<Rightarrow> (Some (Inl EIO), fs)
           | Done _ # cs \<Rightarrow> write_loop cs (fs(tmp_path path \<mapsto> [])) path tx 0)"

text \<open>The same routine in \<open>ast_snapshot.c\<close>, statement for statement.\<close>

definition ast_atomic_write :: "SysRet list \<Rightarrow> Fs \<Rightarrow> string \<Rightarrow> string \<Rightarrow> unit res option \<times> Fs" where
  "ast_atomic_write calls fs path tx = atomic_write_text calls fs path tx"

definition cleanup_stale_tmp :: "bool \<Rightarrow> Fs \<Rightarrow> string \<Rightarrow> Fs" where
  "cleanup_stale_tmp unlink_ok fs path =
     (if length (tmp_path path) \<ge> TETRA_DB_PATH_MAX + 8 then fs
      else if fs (tmp_path path) \<noteq> None \<and> unlink_ok then fs(tmp_path path := None)
      else fs)"

section \<open>Atomicity\<close>

text \<open>
  What a run may do: leave the target alone, or, only when it returns 0, replace it by the whole text.
  Nothing but the target and its temporary file changes.
\<close>

definition saves :: "string \<Rightarrow> string \<Rightarrow> Fs \<Rightarrow> unit res option \<times> Fs \<Rightarrow> bool" where
  "saves path tx fs r \<longleftrightarrow>
     (if fst r = Some (Inr ()) then snd r path = Some tx \<and> snd r (tmp_path path) = None else snd r path = fs path) \<and>
     (\<forall>q. q \<noteq> path \<longrightarrow> q \<noteq> tmp_path path \<longrightarrow> snd r q = fs q)"

lemma tmp_neq [simp]: "tmp_path path \<noteq> path" "path \<noteq> tmp_path path"
  by (simp_all add: tmp_path_def)

lemma saves_same:
  "fst r \<noteq> Some (Inr ()) \<Longrightarrow> (\<forall>q. q \<noteq> tmp_path path \<longrightarrow> snd r q = fs q) \<Longrightarrow> saves path tx fs r"
  by (simp add: saves_def)

lemma drop_tmp_saves:
  assumes "\<forall>q. q \<noteq> tmp_path path \<longrightarrow> fs' q = fs q"
  shows "saves path tx fs (drop_tmp cs fs' path)" "saves path tx fs (close_and_drop cs fs' path)"
proof -
  show *: "saves path tx fs (drop_tmp cs fs' path)" for cs
    using assms by (cases "(cs, fs', path)" rule: drop_tmp.cases) (auto intro!: saves_same)
  show "saves path tx fs (close_and_drop cs fs' path)"
    using assms * by (cases cs) (auto intro!: saves_same)
qed

lemma fsync_step_saves:
  assumes "\<forall>q. q \<noteq> tmp_path path \<longrightarrow> fs' q = fs q" "fs' (tmp_path path) = Some tx"
  shows "saves path tx fs (fsync_step cs fs' path)"
proof -
  have r: "saves path tx fs (rename_step cs fs' path)" for cs
    using assms drop_tmp_saves [OF assms(1)]
    by (cases "(cs, fs', path)" rule: rename_step.cases) (auto simp: saves_def)
  have c: "saves path tx fs (close_step cs fs' path)" for cs
    using assms r drop_tmp_saves [OF assms(1)]
    by (cases "(cs, fs', path)" rule: close_step.cases) (auto intro!: saves_same)
  show ?thesis
    using assms c drop_tmp_saves [OF assms(1)]
    by (cases "(cs, fs', path)" rule: fsync_step.cases) (auto intro!: saves_same)
qed

lemma write_loop_saves:
  assumes "\<forall>q. q \<noteq> tmp_path path \<longrightarrow> fs' q = fs q" "fs' (tmp_path path) = Some (take written tx)"
  shows "saves path tx fs (write_loop cs fs' path tx written)"
  using assms
proof (induction cs arbitrary: fs' written)
  case Nil
  then show ?case by (auto intro!: saves_same)
next
  case (Cons c cs)
  show ?case
  proof (cases "written < length tx")
    case True
    with Cons show ?thesis
      by (cases c) (auto simp: Let_def drop_tmp_saves)
  next
    case False
    with Cons.prems have "fs' (tmp_path path) = Some tx" by simp
    from fsync_step_saves [OF Cons.prems(1) this, of "c # cs"] False show ?thesis by simp
  qed
qed

lemma atomic_write_saves: "saves path tx fs (atomic_write_text calls fs path tx)"
proof -
  have "saves path tx fs (write_loop cs (fs(tmp_path path \<mapsto> [])) path tx 0)" for cs
    by (rule write_loop_saves) simp_all
  moreover have "saves path tx fs (Some (Inl e), fs)" "saves path tx fs (None, fs)" for e
    by (simp_all add: saves_same)
  ultimately show ?thesis
    by (simp add: atomic_write_text_def split: list.split SysRet.split)
qed

text \<open>Returning 0 takes the whole text accepted by the writes and then three more successful calls.\<close>

definition all_called :: "string \<Rightarrow> SysRet list \<Rightarrow> bool" where
  "all_called tx calls \<longleftrightarrow> (\<exists>opened_fd ws synced closed renamed rest.
     calls = Done opened_fd # map Done ws @ Done synced # Done closed # Done renamed # rest \<and> length tx \<le> sum_list ws)"

lemma drop_tmp_fails: "fst (drop_tmp cs fs path) \<noteq> Some (Inr ())" "fst (close_and_drop cs fs path) \<noteq> Some (Inr ())"
proof -
  show *: "fst (drop_tmp cs fs path) \<noteq> Some (Inr ())" for cs
    by (cases "(cs, fs, path)" rule: drop_tmp.cases) auto
  show "fst (close_and_drop cs fs path) \<noteq> Some (Inr ())" using * by (cases cs) auto
qed

lemma fsync_step_calls:
  "fst (fsync_step cs fs path) = Some (Inr ()) \<Longrightarrow> \<exists>synced closed renamed rest. cs = Done synced # Done closed # Done renamed # rest"
proof -
  have r: "fst (rename_step cs fs path) = Some (Inr ()) \<Longrightarrow> \<exists>k rest. cs = Done k # rest" for cs
    using drop_tmp_fails(1) by (cases "(cs, fs, path)" rule: rename_step.cases) auto
  have c: "fst (close_step cs fs path) = Some (Inr ()) \<Longrightarrow> \<exists>j k rest. cs = Done j # Done k # rest" for cs
    using drop_tmp_fails(1) r by (cases "(cs, fs, path)" rule: close_step.cases) fastforce+
  show "fst (fsync_step cs fs path) = Some (Inr ()) \<Longrightarrow> ?thesis"
    using drop_tmp_fails(2) c by (cases "(cs, fs, path)" rule: fsync_step.cases) fastforce+
qed

lemma write_loop_calls:
  "fst (write_loop cs fs path tx written) = Some (Inr ()) \<Longrightarrow>
    \<exists>ws synced closed renamed rest. cs = map Done ws @ Done synced # Done closed # Done renamed # rest \<and> length tx \<le> written + sum_list ws"
proof (induction cs arbitrary: fs written)
  case (Cons c cs)
  show ?case
  proof (cases "written < length tx")
    case True
    with Cons.prems drop_tmp_fails(2) obtain w where w: "c = Done w" by (cases c) auto
    let ?n = "written + min w (length tx - written)"
    have "fst (write_loop cs (fs(tmp_path path \<mapsto> take ?n tx)) path tx ?n) = Some (Inr ())"
      using Cons.prems True w by (simp add: Let_def)
    from Cons.IH [OF this] obtain ws y z k rest
      where "cs = map Done ws @ Done y # Done z # Done k # rest" "length tx \<le> ?n + sum_list ws" by blast
    then have "c # cs = map Done (w # ws) @ Done y # Done z # Done k # rest" "length tx \<le> written + sum_list (w # ws)"
      using w by simp_all
    then show ?thesis by blast
  next
    case False
    with Cons.prems fsync_step_calls [of "c # cs" fs path] obtain y z k rest
      where "c # cs = map Done [] @ Done y # Done z # Done k # rest" by auto
    with False show ?thesis by (intro exI [of _ "[]"]) auto
  qed
qed simp

lemma atomic_write_calls: "fst (atomic_write_text calls fs path tx) = Some (Inr ()) \<Longrightarrow> all_called tx calls"
proof -
  assume r: "fst (atomic_write_text calls fs path tx) = Some (Inr ())"
  then obtain k cs where calls: "calls = Done k # cs"
    by (auto simp: atomic_write_text_def split: if_splits list.splits SysRet.splits)
  with r have "fst (write_loop cs (fs(tmp_path path \<mapsto> [])) path tx 0) = Some (Inr ())"
    by (auto simp: atomic_write_text_def split: if_splits)
  from write_loop_calls [OF this] calls show ?thesis unfolding all_called_def by fastforce
qed

text \<open>With no failures the routine returns 0, however the bytes are split over the writes.\<close>

lemma write_loop_succeeds:
  assumes "written + sum_list ws \<ge> length tx" "\<forall>w\<in>set ws. 0 < w" "written \<le> length tx"
    and "written = length tx \<longrightarrow> ws = []" "written + sum_list (butlast ws) < length tx \<or> ws = []"
  shows "\<exists>fs'. write_loop (map Done ws @ [Done 0, Done 0, Done 0]) fs path tx written = (Some (Inr ()), fs')"
  using assms
proof (induction ws arbitrary: fs written)
  case Nil
  then show ?case by simp
next
  case (Cons w ws)
  have less: "written < length tx" using Cons.prems(3,4) by auto
  let ?n = "written + min w (length tx - written)"
  have n: "ws \<noteq> [] \<Longrightarrow> w < length tx - written" using Cons.prems(5) by (auto split: if_splits)
  have "ws = [] \<Longrightarrow> ?n = length tx" using Cons.prems(1) less by simp
  moreover have "ws \<noteq> [] \<Longrightarrow> ?n = written + w" using n by simp
  ultimately have "?n + sum_list ws \<ge> length tx" "?n \<le> length tx" "?n = length tx \<longrightarrow> ws = []"
      "?n + sum_list (butlast ws) < length tx \<or> ws = []"
    using Cons.prems n less by (cases "ws = []"; auto)+
  with Cons.IH [of ?n] Cons.prems(2) less show ?case by (simp add: Let_def)
qed

section \<open>Properties\<close>

text \<open>
  C14: saving is all or nothing. Whatever system calls fail, however the writes are split, and after
  whichever call the process dies, the target file holds either its former contents or the complete
  new text. It holds the new text exactly when the routine returned 0; then no temporary file is left,
  and the call to open the temporary file, writes that took the whole text, \<open>fsync\<close>, \<open>close\<close> and
  \<open>rename\<close> were made in this order and each succeeded. No other file is touched. Files here are what other
  processes see: the loss of power, and what \<open>fsync\<close> makes durable, are not modelled.
\<close>

theorem atomic_write_all_or_nothing:
  "case atomic_write_text calls fs path tx of (rc, fs') \<Rightarrow>
     (if rc = Some (Inr ()) then fs' path = Some tx \<and> fs' (tmp_path path) = None \<and> all_called tx calls else fs' path = fs path) \<and>
     (\<forall>q. q \<notin> {path, tmp_path path} \<longrightarrow> fs' q = fs q)"
  using atomic_write_saves [of path tx fs calls] atomic_write_calls [of calls fs path tx]
  by (auto simp: saves_def split: prod.split)

theorem atomic_write_all_or_nothing_witness:
  "case atomic_write_text [Done 0, Done 2, Fail, Done 0, Done 0] [''db'' \<mapsto> ''old''] ''db'' ''new'' of (rc, fs') \<Rightarrow>
     (if rc = Some (Inr ()) then fs' ''db'' = Some ''new'' \<and> fs' (tmp_path ''db'') = None else fs' ''db'' = Some ''old'') \<and>
     (\<forall>q. q \<notin> {''db'', tmp_path ''db''} \<longrightarrow> fs' q = [''db'' \<mapsto> ''old''] q)"
  using atomic_write_all_or_nothing [where calls = "[Done 0, Done 2, Fail, Done 0, Done 0]" and path = "''db''"
      and fs = "[''db'' \<mapsto> ''old'']" and tx = "''new''"] by (auto split: prod.splits if_splits)

text \<open>
  C36: without failures saving completes: for every way the text is split over the writes, \<open>open\<close>, the
  writes, \<open>fsync\<close>, \<open>close\<close> and \<open>rename\<close> all succeeding, the routine returns 0 with the new text in
  place.
\<close>

theorem atomic_write_completes:
  assumes "length (tmp_path path) < TETRA_DB_PATH_MAX + 8" "\<forall>w\<in>set ws. 0 < w" "sum_list ws = length tx"
  shows "\<exists>fs'. atomic_write_text (Done 0 # map Done ws @ [Done 0, Done 0, Done 0]) fs path tx = (Some (Inr ()), fs') \<and> fs' path = Some tx"
proof -
  have "ws = [] \<or> sum_list (butlast ws) < length tx"
  proof (cases "ws = []")
    case False
    then have "sum_list ws = sum_list (butlast ws) + last ws" "0 < last ws"
      using assms(2) by (metis append_butlast_last_id sum_list.Cons sum_list.Nil sum_list_append add_0_right, simp)
    with assms(3) show ?thesis by simp
  qed simp
  moreover have "length tx = 0 \<Longrightarrow> ws = []"
    using assms(2,3) by (cases ws) auto
  ultimately obtain fs' where r: "atomic_write_text (Done 0 # map Done ws @ [Done 0, Done 0, Done 0]) fs path tx = (Some (Inr ()), fs')"
    using write_loop_succeeds [of tx 0 ws "fs(tmp_path path \<mapsto> [])" path] assms
    by (auto simp: atomic_write_text_def)
  with atomic_write_saves [of path tx fs "Done 0 # map Done ws @ [Done 0, Done 0, Done 0]"] show ?thesis
    by (simp add: saves_def)
qed

theorem atomic_write_completes_witness:
  "\<exists>fs'. atomic_write_text (Done 0 # map Done [1, 2] @ [Done 0, Done 0, Done 0]) Map.empty ''db'' ''new'' = (Some (Inr ()), fs') \<and>
     fs' ''db'' = Some ''new''"
  by (rule atomic_write_completes) (simp_all add: tmp_path_def TETRA_DB_PATH_MAX_def)

end
