(* ===== verification/Db.thy ===== *)
theory Db
  imports Core_Types Store
begin

text \<open>
  The subscriber database of \<open>sw/persistence/src/db.c\<close> (types in
  \<open>sw/persistence/include/tetra/db.h\<close>): packed profiles, the read-only profile 0, the entity table
  with its linear lookup, and loading and saving as a JSON document. The text layer of jansson is the
  pair of parameters \<open>json_dumps\<close> and \<open>json_loads\<close>; an allocation failure anywhere while the
  document is built or printed is \<open>json_dumps\<close> returning \<open>None\<close>.
\<close>

section \<open>Types\<close>

definition TETRA_DB_PROFILE_COUNT :: nat where
  "TETRA_DB_PROFILE_COUNT = 6"
definition TETRA_DB_ENTITY_COUNT :: nat where
  "TETRA_DB_ENTITY_COUNT = 256"
definition TETRA_DB_PROFILE0_BITS :: u32 where
  "TETRA_DB_PROFILE0_BITS = 0x0000088F"

lemmas db_counts = TETRA_DB_PROFILE_COUNT_def TETRA_DB_ENTITY_COUNT_def

record Profile =
  max_call_duration :: u8
  hangtime :: u8
  priority :: u8
  gila_class :: u8
  gila_lifetime :: u8
  reserved3 :: u8
  permit_voice :: bool
  permit_data :: bool
  permit_reg :: bool
  pr_valid :: bool

record Entity =
  entity_id :: u32
  entity_type :: u8
  profile_id :: u8
  reserved34 :: u64
  en_valid :: bool

record SubscriberDb =
  profiles :: "Profile list"
  entities :: "Entity list"
  db_path :: string
  opened :: bool

section \<open>Profile words\<close>

definition profile_pack :: "Profile \<Rightarrow> u32" where
  "profile_pack p =
     push_bit 24 (ucast (max_call_duration p) AND 0xFF) OR
     push_bit 16 (ucast (hangtime p) AND 0xFF) OR
     push_bit 12 (ucast (priority p) AND 0x0F) OR
     push_bit 9 (ucast (gila_class p) AND 0x07) OR
     push_bit 7 (ucast (gila_lifetime p) AND 0x03) OR
     push_bit 4 (ucast (reserved3 p) AND 0x07) OR
     push_bit 3 (if permit_voice p then 1 else 0) OR
     push_bit 2 (if permit_data p then 1 else 0) OR
     push_bit 1 (if permit_reg p then 1 else 0) OR
     (if pr_valid p then 1 else 0)"

definition profile_unpack :: "u32 \<Rightarrow> Profile" where
  "profile_unpack b =
     \<lparr>max_call_duration = ucast (drop_bit 24 b AND 0xFF),
      hangtime = ucast (drop_bit 16 b AND 0xFF),
      priority = ucast (drop_bit 12 b AND 0x0F),
      gila_class = ucast (drop_bit 9 b AND 0x07),
      gila_lifetime = ucast (drop_bit 7 b AND 0x03),
      reserved3 = ucast (drop_bit 4 b AND 0x07),
      permit_voice = (drop_bit 3 b AND 1 \<noteq> 0),
      permit_data = (drop_bit 2 b AND 1 \<noteq> 0),
      permit_reg = (drop_bit 1 b AND 1 \<noteq> 0),
      pr_valid = (b AND 1 \<noteq> 0)\<rparr>"

definition zero_profile :: Profile where
  "zero_profile = \<lparr>max_call_duration = 0, hangtime = 0, priority = 0, gila_class = 0, gila_lifetime = 0,
     reserved3 = 0, permit_voice = False, permit_data = False, permit_reg = False, pr_valid = False\<rparr>"

definition zero_entity :: Entity where
  "zero_entity = \<lparr>entity_id = 0, entity_type = 0, profile_id = 0, reserved34 = 0, en_valid = False\<rparr>"

definition zero_db :: SubscriberDb where
  "zero_db = \<lparr>profiles = replicate TETRA_DB_PROFILE_COUNT zero_profile,
     entities = replicate TETRA_DB_ENTITY_COUNT zero_entity, db_path = '''', opened = False\<rparr>"

section \<open>Loading and saving\<close>

definition db_init_empty :: "SubscriberDb \<Rightarrow> SubscriberDb" where
  "db_init_empty db = db\<lparr>profiles := (replicate TETRA_DB_PROFILE_COUNT zero_profile)[0 := profile_unpack TETRA_DB_PROFILE0_BITS],
     entities := replicate TETRA_DB_ENTITY_COUNT zero_entity, opened := True\<rparr>"

fun load_profiles :: "SubscriberDb \<Rightarrow> Json list \<Rightarrow> unit res \<times> SubscriberDb" where
  "load_profiles db [] = (Inr (), db)"
| "load_profiles db (item # items) =
     (if \<not> json_is_object item then (Inl EINVAL, db)
      else case json_get_uint item ''id'' (TETRA_DB_PROFILE_COUNT - 1) of
             Inl _ \<Rightarrow> (Inl EINVAL, db)
           | Inr i \<Rightarrow>
               (case json_get_uint item ''bits'' 0xFFFFFFFF of
                  Inl _ \<Rightarrow> (Inl EINVAL, db)
                | Inr b \<Rightarrow>
                    if i = 0 then load_profiles db items
                    else load_profiles (db\<lparr>profiles := (profiles db)[i := profile_unpack (of_nat b)]\<rparr>) items))"

definition load_entity :: "Json \<Rightarrow> (nat \<times> Entity) res" where
  "load_entity item =
     (if \<not> json_is_object item then Inl EINVAL
      else res_bind (json_get_uint item ''idx'' (TETRA_DB_ENTITY_COUNT - 1)) (\<lambda>idx.
           res_bind (json_get_uint item ''entity_id'' 0xFFFFFF) (\<lambda>eid.
           res_bind (json_get_uint item ''entity_type'' 1) (\<lambda>etype.
           res_bind (json_get_uint item ''profile_id'' (TETRA_DB_PROFILE_COUNT - 1)) (\<lambda>pid.
           res_bind (json_get_uint item ''reserved'' (2 ^ 34 - 1)) (\<lambda>res.
           res_bind (json_get_bool item ''valid'') (\<lambda>valid.
           Inr (idx, \<lparr>entity_id = of_nat eid, entity_type = of_nat etype, profile_id = of_nat pid,
                      reserved34 = of_nat res, en_valid = valid\<rparr>))))))))"

fun load_entities :: "SubscriberDb \<Rightarrow> Json list \<Rightarrow> unit res \<times> SubscriberDb" where
  "load_entities db [] = (Inr (), db)"
| "load_entities db (item # items) =
     (case load_entity item of
        Inl e \<Rightarrow> (Inl EINVAL, db)
      | Inr (idx, e) \<Rightarrow> load_entities (db\<lparr>entities := (entities db)[idx := e]\<rparr>) items)"

definition db_load_json :: "SubscriberDb \<Rightarrow> Json \<Rightarrow> unit res \<times> SubscriberDb" where
  "db_load_json db root =
     (if \<not> json_is_object root then (Inl EINVAL, db)
      else if json_get_uint root ''version'' 1 \<noteq> Inr 1 then (Inl EINVAL, db)
      else case (json_array_items (json_object_get root ''profiles''), json_array_items (json_object_get root ''entities'')) of
             (Some ps, Some es) \<Rightarrow>
               (case load_profiles (db_init_empty db) ps of
                  (Inl e, db) \<Rightarrow> (Inl e, db)
                | (Inr _, db) \<Rightarrow> load_entities db es)
           | _ \<Rightarrow> (Inl EINVAL, db))"

text \<open>\<open>json_pack("{s:i,s:i}", ...)\<close> takes C \<open>int\<close>s: the packed profile goes through a conversion to a signed 32-bit value.\<close>

definition dump_profile :: "SubscriberDb \<Rightarrow> nat \<Rightarrow> Json" where
  "dump_profile db i =
     (let b = (if i = 0 then TETRA_DB_PROFILE0_BITS else profile_pack (profiles db ! i))
      in JObject [(''id'', JInteger (int i)), (''bits'', JInteger (sint b))])"

definition entity_is_empty :: "Entity \<Rightarrow> bool" where
  "entity_is_empty e \<longleftrightarrow> \<not> en_valid e \<and> entity_id e = 0 \<and> reserved34 e = 0 \<and> profile_id e = 0 \<and> entity_type e = 0"

definition dump_entity :: "SubscriberDb \<Rightarrow> nat \<Rightarrow> Json" where
  "dump_entity db i =
     (let e = entities db ! i
      in JObject [(''idx'', JInteger (int i)), (''entity_id'', JInteger (uint (entity_id e))),
           (''entity_type'', JInteger (uint (entity_type e))), (''profile_id'', JInteger (uint (profile_id e))),
           (''reserved'', JInteger (sint (reserved34 e))), (''valid'', JBool (en_valid e))])"

definition db_doc :: "SubscriberDb \<Rightarrow> Json" where
  "db_doc db = JObject [(''version'', JInteger 1),
     (''profiles'', JArray (map (dump_profile db) [0..<TETRA_DB_PROFILE_COUNT])),
     (''entities'', JArray (map (dump_entity db)
        (filter (\<lambda>i. \<not> entity_is_empty (entities db ! i)) [0..<TETRA_DB_ENTITY_COUNT])))]"

definition db_dump_json :: "(Json \<Rightarrow> string option) \<Rightarrow> SubscriberDb \<Rightarrow> string option" where
  "db_dump_json json_dumps db = json_dumps (db_doc db)"

section \<open>Public operations\<close>

definition db_open :: "(string \<Rightarrow> Json option) \<Rightarrow> bool \<Rightarrow> Fs \<Rightarrow> string \<Rightarrow> SubscriberDb \<Rightarrow> unit res \<times> SubscriberDb \<times> Fs" where
  "db_open json_loads unlink_ok fs path db =
     (if length path = 0 \<or> length path \<ge> TETRA_DB_PATH_MAX then (Inl EINVAL, db, fs)
      else
        let db = zero_db\<lparr>db_path := path\<rparr>;
            fs = cleanup_stale_tmp unlink_ok fs path
        in case fs path of
             None \<Rightarrow> (Inr (), db_init_empty db, fs)
           | Some content \<Rightarrow>
               (case json_loads content of
                  None \<Rightarrow> (Inl EIO, db, fs)
                | Some root \<Rightarrow>
                    (case db_load_json db root of
                       (Inl e, _) \<Rightarrow> (Inl e, zero_db, fs)
                     | (Inr _, db) \<Rightarrow>
                         (Inr (), db\<lparr>profiles := (profiles db)[0 := profile_unpack TETRA_DB_PROFILE0_BITS]\<rparr>, fs))))"

definition db_get_profile :: "SubscriberDb \<Rightarrow> nat \<Rightarrow> Profile res" where
  "db_get_profile db i =
     (if \<not> opened db then Inl EINVAL
      else if i \<ge> TETRA_DB_PROFILE_COUNT then Inl EINVAL
      else Inr (profiles db ! i))"

definition db_put_profile :: "SubscriberDb \<Rightarrow> nat \<Rightarrow> Profile \<Rightarrow> unit res \<times> SubscriberDb" where
  "db_put_profile db i p =
     (if \<not> opened db then (Inl EINVAL, db)
      else if i \<ge> TETRA_DB_PROFILE_COUNT then (Inl EINVAL, db)
      else if i = 0 then (Inl EPERM, db)
      else (Inr (), db\<lparr>profiles := (profiles db)[i := p]\<rparr>))"

definition db_get_entity :: "SubscriberDb \<Rightarrow> nat \<Rightarrow> Entity res" where
  "db_get_entity db idx =
     (if \<not> opened db then Inl EINVAL
      else if idx \<ge> TETRA_DB_ENTITY_COUNT then Inl EINVAL
      else Inr (entities db ! idx))"

definition db_put_entity :: "SubscriberDb \<Rightarrow> nat \<Rightarrow> Entity \<Rightarrow> unit res \<times> SubscriberDb" where
  "db_put_entity db idx e =
     (if \<not> opened db then (Inl EINVAL, db)
      else if idx \<ge> TETRA_DB_ENTITY_COUNT then (Inl EINVAL, db)
      else if unat (profile_id e) \<ge> TETRA_DB_PROFILE_COUNT then (Inl EINVAL, db)
      else if entity_type e > 1 then (Inl EINVAL, db)
      else if entity_id e AND NOT 0x00FFFFFF \<noteq> 0 then (Inl EINVAL, db)
      else (Inr (), db\<lparr>entities := (entities db)[idx := e]\<rparr>))"

definition db_lookup_entity :: "SubscriberDb \<Rightarrow> u32 \<Rightarrow> nat res" where
  "db_lookup_entity db eid =
     (if \<not> opened db then Inl EINVAL
      else case find_index (\<lambda>e. en_valid e \<and> entity_id e = eid) (entities db) of
             Some i \<Rightarrow> Inr i
           | None \<Rightarrow> Inl ENOENT)"

definition db_atomic_save :: "(Json \<Rightarrow> string option) \<Rightarrow> SysRet list \<Rightarrow> Fs \<Rightarrow> SubscriberDb \<Rightarrow> unit res option \<times> Fs" where
  "db_atomic_save json_dumps calls fs db =
     (if \<not> opened db \<or> db_path db = '''' then (Some (Inl EINVAL), fs)
      else case db_dump_json json_dumps db of
             None \<Rightarrow> (Some (Inl ENOMEM), fs)
           | Some t \<Rightarrow> atomic_write_text calls fs (db_path db) t)"

section \<open>Packing is exact\<close>

definition profile_ok :: "Profile \<Rightarrow> bool" where
  "profile_ok p \<longleftrightarrow> take_bit 4 (priority p) = priority p \<and> take_bit 3 (gila_class p) = gila_class p \<and>
     take_bit 2 (gila_lifetime p) = gila_lifetime p \<and> take_bit 3 (reserved3 p) = reserved3 p"

lemma u32_masks: "(0xFF :: u32) = mask 8" "(0x0F :: u32) = mask 4" "(0x07 :: u32) = mask 3" "(0x03 :: u32) = mask 2"
  by (simp_all add: mask_eq_exp_minus_1)

lemma and_1_nonzero: "(w :: u32) AND 1 \<noteq> 0 \<longleftrightarrow> bit w 0"
  by (simp add: and_one_eq bit_0 odd_iff_mod_2_eq_one)

lemma bit_if_1: "bit ((if c then 1 else 0) :: u32) n \<longleftrightarrow> c \<and> n = 0"
  by (simp add: bit_simps)

lemma bit_field:
  "k + m \<le> 32 \<Longrightarrow> bit (push_bit k (ucast (f :: u8) AND mask m) :: u32) n \<longleftrightarrow> k \<le> n \<and> n < k + m \<and> bit f (n - k)"
  by (auto simp: bit_simps)

lemma bit_flag: "k < 32 \<Longrightarrow> bit (push_bit k (if c then 1 else 0) :: u32) n \<longleftrightarrow> n = k \<and> c"
  by (auto simp: bit_simps)

lemma u8_bit_less: "bit (f :: u8) i \<Longrightarrow> i < 8"
  using bit_imp_le_length [of f i] by simp

lemma bit_profile_pack_raw:
  "bit (profile_pack p) n \<longleftrightarrow>
     (24 \<le> n \<and> n < 32 \<and> bit (max_call_duration p) (n - 24)) \<or> (16 \<le> n \<and> n < 24 \<and> bit (hangtime p) (n - 16)) \<or>
     (12 \<le> n \<and> n < 16 \<and> bit (priority p) (n - 12)) \<or> (9 \<le> n \<and> n < 12 \<and> bit (gila_class p) (n - 9)) \<or>
     (7 \<le> n \<and> n < 9 \<and> bit (gila_lifetime p) (n - 7)) \<or> (4 \<le> n \<and> n < 7 \<and> bit (reserved3 p) (n - 4)) \<or>
     (n = 3 \<and> permit_voice p) \<or> (n = 2 \<and> permit_data p) \<or> (n = 1 \<and> permit_reg p) \<or> (n = 0 \<and> pr_valid p)"
proof -
  have f: "bit (push_bit 24 (ucast f AND mask 8) :: u32) n \<longleftrightarrow> 24 \<le> n \<and> n < 32 \<and> bit f (n - 24)"
    "bit (push_bit 16 (ucast f AND mask 8) :: u32) n \<longleftrightarrow> 16 \<le> n \<and> n < 24 \<and> bit f (n - 16)"
    "bit (push_bit 12 (ucast f AND mask 4) :: u32) n \<longleftrightarrow> 12 \<le> n \<and> n < 16 \<and> bit f (n - 12)"
    "bit (push_bit 9 (ucast f AND mask 3) :: u32) n \<longleftrightarrow> 9 \<le> n \<and> n < 12 \<and> bit f (n - 9)"
    "bit (push_bit 7 (ucast f AND mask 2) :: u32) n \<longleftrightarrow> 7 \<le> n \<and> n < 9 \<and> bit f (n - 7)"
    "bit (push_bit 4 (ucast f AND mask 3) :: u32) n \<longleftrightarrow> 4 \<le> n \<and> n < 7 \<and> bit f (n - 4)"
    "bit ((if c then 1 else 0) :: u32) n \<longleftrightarrow> n = 0 \<and> c"
    for f :: u8 and c
    using bit_field [of 24 8 f n] bit_field [of 16 8 f n] bit_field [of 12 4 f n] bit_field [of 9 3 f n]
      bit_field [of 7 2 f n] bit_field [of 4 3 f n] bit_flag [of 0 c n] by simp_all
  have g: "bit (push_bit 3 (if c then 1 else 0) :: u32) n \<longleftrightarrow> n = 3 \<and> c"
    "bit (push_bit 2 (if c then 1 else 0) :: u32) n \<longleftrightarrow> n = 2 \<and> c"
    "bit (push_bit 1 (if c then 1 else 0) :: u32) n \<longleftrightarrow> n = 1 \<and> c" for c
    by (rule bit_flag; simp)+
  show ?thesis
    unfolding profile_pack_def u32_masks bit_or_iff f g by (rule refl)
qed

lemma bit_profile_pack:
  "bit (profile_pack p) (24 + i) \<longleftrightarrow> bit (max_call_duration p) i"
  "i < 8 \<Longrightarrow> bit (profile_pack p) (16 + i) \<longleftrightarrow> bit (hangtime p) i"
  "i < 4 \<Longrightarrow> bit (profile_pack p) (12 + i) \<longleftrightarrow> bit (priority p) i"
  "i < 3 \<Longrightarrow> bit (profile_pack p) (9 + i) \<longleftrightarrow> bit (gila_class p) i"
  "i < 2 \<Longrightarrow> bit (profile_pack p) (7 + i) \<longleftrightarrow> bit (gila_lifetime p) i"
  "i < 3 \<Longrightarrow> bit (profile_pack p) (4 + i) \<longleftrightarrow> bit (reserved3 p) i"
  "bit (profile_pack p) 3 = permit_voice p" "bit (profile_pack p) 2 = permit_data p"
  "bit (profile_pack p) 1 = permit_reg p" "bit (profile_pack p) 0 = pr_valid p"
  by (simp_all add: bit_profile_pack_raw) (auto dest: u8_bit_less)

lemma unpack_fields:
  "bit (max_call_duration (profile_unpack b)) i \<longleftrightarrow> i < 8 \<and> bit b (24 + i)"
  "bit (hangtime (profile_unpack b)) i \<longleftrightarrow> i < 8 \<and> bit b (16 + i)"
  "bit (priority (profile_unpack b)) i \<longleftrightarrow> i < 4 \<and> bit b (12 + i)"
  "bit (gila_class (profile_unpack b)) i \<longleftrightarrow> i < 3 \<and> bit b (9 + i)"
  "bit (gila_lifetime (profile_unpack b)) i \<longleftrightarrow> i < 2 \<and> bit b (7 + i)"
  "bit (reserved3 (profile_unpack b)) i \<longleftrightarrow> i < 3 \<and> bit b (4 + i)"
  "permit_voice (profile_unpack b) = bit b 3" "permit_data (profile_unpack b) = bit b 2"
  "permit_reg (profile_unpack b) = bit b 1" "pr_valid (profile_unpack b) = bit b 0"
  unfolding profile_unpack_def u32_masks and_1_nonzero
  by (auto simp: bit_simps dest: bit_imp_le_length)

lemma profile_pack_unpack: "profile_pack (profile_unpack b) = b"
proof (rule bit_word_eqI)
  fix n assume n: "n < LENGTH(32)"
  consider "n \<ge> 24" | "16 \<le> n" "n < 24" | "12 \<le> n" "n < 16" | "9 \<le> n" "n < 12" | "7 \<le> n" "n < 9" | "4 \<le> n" "n < 7"
    | "n = 3" | "n = 2" | "n = 1" | "n = 0" by linarith
  then show "bit (profile_pack (profile_unpack b)) n = bit b n"
    using n by cases (auto simp add: bit_profile_pack_raw unpack_fields)
qed

lemma profile_unpack_pack:
  assumes "profile_ok p"
  shows "profile_unpack (profile_pack p) = p"
proof -
  have t: "bit f i \<Longrightarrow> take_bit k f = f \<Longrightarrow> i < k" for k i and f :: u8
    by (metis bit_take_bit_iff)
  have b: "bit (priority p) i \<Longrightarrow> i < 4" "bit (gila_class p) i \<Longrightarrow> i < 3" "bit (gila_lifetime p) i \<Longrightarrow> i < 2"
      "bit (reserved3 p) i \<Longrightarrow> i < 3" for i
    using assms t by (auto simp: profile_ok_def)
  have "max_call_duration (profile_unpack (profile_pack p)) = max_call_duration p"
    "hangtime (profile_unpack (profile_pack p)) = hangtime p" "priority (profile_unpack (profile_pack p)) = priority p"
    "gila_class (profile_unpack (profile_pack p)) = gila_class p"
    "gila_lifetime (profile_unpack (profile_pack p)) = gila_lifetime p"
    "reserved3 (profile_unpack (profile_pack p)) = reserved3 p"
    by (rule bit_word_eqI; use b in \<open>auto simp: unpack_fields bit_profile_pack\<close>)+
  then show ?thesis
    by (intro Profile.equality) (simp_all add: unpack_fields bit_profile_pack bit_profile_pack(9) [unfolded One_nat_def])
qed

lemma profile_unpack_ok: "profile_ok (profile_unpack b)"
proof -
  have *: "take_bit k f = f" if "\<And>i. bit f i \<Longrightarrow> i < k" for k and f :: u8
    using that by (intro bit_word_eqI) (auto simp: bit_simps)
  show ?thesis
    unfolding profile_ok_def by (intro conjI; rule *; simp add: unpack_fields)
qed

section \<open>Invariant\<close>

definition entity_ok :: "Entity \<Rightarrow> bool" where
  "entity_ok e \<longleftrightarrow> entity_id e \<le> 0xFFFFFF \<and> entity_type e \<le> 1 \<and> unat (profile_id e) < TETRA_DB_PROFILE_COUNT"

text \<open>
  What the daemon relies on: the tables have their fixed size, every entity is in range, and profile 0
  of an open database is the guard profile.
\<close>

definition db_inv :: "SubscriberDb \<Rightarrow> bool" where
  "db_inv db \<longleftrightarrow> length (profiles db) = TETRA_DB_PROFILE_COUNT \<and> length (entities db) = TETRA_DB_ENTITY_COUNT \<and>
     (\<forall>e\<in>set (entities db). entity_ok e) \<and> (opened db \<longrightarrow> profiles db ! 0 = profile_unpack TETRA_DB_PROFILE0_BITS)"

lemma zero_entity_ok [simp]: "entity_ok zero_entity"
  by (simp add: entity_ok_def zero_entity_def db_counts)

lemma zero_db_inv [simp]: "db_inv (zero_db\<lparr>db_path := p\<rparr>)" "db_inv zero_db"
  by (simp_all add: db_inv_def zero_db_def)

lemma db_init_empty_inv [simp]: "db_inv (db_init_empty db)"
  by (simp add: db_inv_def db_init_empty_def db_counts)

lemma load_profiles_inv: "db_inv db \<Longrightarrow> db_inv (snd (load_profiles db items))"
proof (induction db items rule: load_profiles.induct)
  case (2 db item items)
  show ?case
  proof (cases "\<exists>i b. json_is_object item \<and> json_get_uint item ''id'' (TETRA_DB_PROFILE_COUNT - 1) = Inr i \<and>
      json_get_uint item ''bits'' 0xFFFFFFFF = Inr b")
    case True
    then obtain i b where ib: "json_is_object item" "json_get_uint item ''id'' (TETRA_DB_PROFILE_COUNT - 1) = Inr i"
        "json_get_uint item ''bits'' 0xFFFFFFFF = Inr b" by blast
    have "db_inv (db\<lparr>profiles := (profiles db)[i := q]\<rparr>)" if "i \<noteq> 0" for q
      using 2(3) that by (simp add: db_inv_def)
    with 2(1,2) [OF _ ib(2,3)] ib 2(3) show ?thesis by (cases "i = 0") simp_all
  next
    case False
    with 2(3) show ?thesis by (auto split: sum.split)
  qed
qed simp

lemma load_entity_ok: "load_entity item = Inr (idx, e) \<Longrightarrow> entity_ok e \<and> idx < TETRA_DB_ENTITY_COUNT"
proof -
  assume "load_entity item = Inr (idx, e)"
  then obtain eid et pid rs v where
    b: "json_get_uint item ''idx'' (TETRA_DB_ENTITY_COUNT - 1) = Inr idx" "json_get_uint item ''entity_id'' 0xFFFFFF = Inr eid"
      "json_get_uint item ''entity_type'' 1 = Inr et" "json_get_uint item ''profile_id'' (TETRA_DB_PROFILE_COUNT - 1) = Inr pid"
    and e: "e = \<lparr>entity_id = of_nat eid, entity_type = of_nat et, profile_id = of_nat pid, reserved34 = of_nat rs, en_valid = v\<rparr>"
    by (auto simp: load_entity_def res_bind_Inr split: if_splits)
  then show ?thesis
    using b [THEN json_get_uint_bound]
    by (auto simp: entity_ok_def db_counts word_le_nat_alt unat_of_nat)
qed

lemma load_entities_inv: "db_inv db \<Longrightarrow> db_inv (snd (load_entities db items))"
proof (induction items arbitrary: db)
  case (Cons item items)
  show ?case
  proof (cases "load_entity item")
    case (Inr p)
    then obtain idx e where p: "load_entity item = Inr (idx, e)" by (cases p) auto
    have "db_inv (db\<lparr>entities := (entities db)[idx := e]\<rparr>)"
      using Cons.prems load_entity_ok [OF p] list_update_all [of "entities db" entity_ok e idx]
      by (simp add: db_inv_def)
    with p Cons.IH show ?thesis by simp
  qed (use Cons.prems in simp)
qed simp

lemma db_load_json_inv: "db_inv db \<Longrightarrow> db_inv (snd (db_load_json db root))"
  using load_profiles_inv [of "db_init_empty db"] load_entities_inv
  by (auto simp: db_load_json_def split: option.split sum.split prod.split) (metis snd_conv)+

lemma db_open_inv: "db_inv db \<Longrightarrow> db_inv (fst (snd (db_open loads u fs path db)))"
proof -
  assume i: "db_inv db"
  have "db_inv (d\<lparr>profiles := (profiles d)[0 := profile_unpack TETRA_DB_PROFILE0_BITS]\<rparr>)"
    if "db_load_json (zero_db\<lparr>db_path := path\<rparr>) root = (r, d)" for root r d
    using db_load_json_inv [OF zero_db_inv(1), of path root] that by (auto simp add: db_inv_def db_counts)
  with i show ?thesis
    by (auto simp: db_open_def Let_def split: option.split sum.split prod.split)
qed

lemma and_not_24: "(w :: u32) AND NOT 0x00FFFFFF = 0 \<Longrightarrow> w \<le> 0xFFFFFF"
proof -
  assume a: "w AND NOT 0x00FFFFFF = 0"
  have m: "(0xFFFFFF :: u32) = mask 24" by (simp add: mask_eq_exp_minus_1)
  have "take_bit 24 w = w"
  proof (rule bit_word_eqI)
    fix n assume "n < LENGTH(32)"
    moreover have "bit (w AND NOT (mask 24)) n = bit (0 :: u32) n" using a unfolding m by simp
    ultimately show "bit (take_bit 24 w) n = bit w n" by (auto simp: bit_simps)
  qed
  then have "unat w = take_bit 24 (unat w)" by (simp flip: unsigned_take_bit_eq)
  then have "unat w < 2 ^ 24" by (metis take_bit_nat_less_exp)
  then show ?thesis by (simp add: word_le_nat_alt)
qed

lemma put_entity_checked:
  "fst (db_put_entity db j e) = Inr () \<Longrightarrow> entity_ok e \<and> db_put_entity db j e = (Inr (), db\<lparr>entities := (entities db)[j := e]\<rparr>)"
  using and_not_24 [of "entity_id e"] by (auto simp: db_put_entity_def entity_ok_def split: if_splits)

lemma put_entity_refused: "fst (db_put_entity db j e) \<noteq> Inr () \<Longrightarrow> snd (db_put_entity db j e) = db"
  by (simp add: db_put_entity_def split: if_splits)

lemma db_put_inv:
  "db_inv db \<Longrightarrow> db_inv (snd (db_put_profile db i p))" "db_inv db \<Longrightarrow> db_inv (snd (db_put_entity db j e))"
proof -
  assume i: "db_inv db"
  show "db_inv (snd (db_put_entity db j e))"
  proof (cases "fst (db_put_entity db j e) = Inr ()")
    case True
    note put = put_entity_checked [OF True]
    have "\<forall>x\<in>set ((entities db)[j := e]). entity_ok x"
      using i put by (intro list_update_all) (simp_all add: db_inv_def)
    with i show ?thesis unfolding conjunct2 [OF put] by (simp add: db_inv_def)
  qed (use i put_entity_refused in metis)
next
  show "db_inv db \<Longrightarrow> db_inv (snd (db_put_profile db i p))"
    by (auto simp: db_put_profile_def db_inv_def)
qed

section \<open>The document round trip\<close>

text \<open>
  What a saved database must satisfy to be read back: profile fields within their widths and, because
  \<open>bits\<close> passes through a signed \<open>int\<close>, a call duration below 128; reserved bits within 34.
\<close>

definition profile_storable :: "Profile \<Rightarrow> bool" where
  "profile_storable p \<longleftrightarrow> profile_ok p \<and> max_call_duration p < 128"

definition db_storable :: "SubscriberDb \<Rightarrow> bool" where
  "db_storable db \<longleftrightarrow> db_inv db \<and> opened db \<and> (\<forall>p\<in>set (tl (profiles db)). profile_storable p) \<and>
     (\<forall>e\<in>set (entities db). reserved34 e < 2 ^ 34)"

lemma sint_positive:
  fixes w :: "'a::len word"
  assumes "\<not> bit w (LENGTH('a) - 1)"
  shows "sint w = uint w"
proof -
  have "sint w = signed_take_bit (LENGTH('a) - Suc 0) (uint w)"
    by (rule sint_uint)
  also have "\<dots> = take_bit (LENGTH('a) - Suc 0) (uint w)"
    using assms by (simp add: signed_take_bit_eq_if_positive bit_uint_iff)
  also have "\<dots> = uint w"
  proof (rule bit_eqI)
    fix n
    have "n = LENGTH('a) - 1" if "n < LENGTH('a)" "\<not> n < LENGTH('a) - Suc 0" using that by simp
    then show "bit (take_bit (LENGTH('a) - Suc 0) (uint w)) n = bit (uint w) n"
      using assms by (auto simp: bit_take_bit_iff bit_uint_iff)
  qed
  finally show ?thesis .
qed

lemma sint_negative: "bit w (LENGTH('a) - 1) \<Longrightarrow> sint (w :: 'a::len word) < 0"
  by (simp add: sint_uint signed_take_bit_negative_iff bit_uint_iff)

lemma top_bit_pack: "bit (profile_pack p) 31 \<longleftrightarrow> 128 \<le> max_call_duration p"
proof -
  have "bit (profile_pack p) 31 = bit (max_call_duration p) 7"
    using bit_profile_pack(1) [of p 7] by simp
  also have "\<dots> \<longleftrightarrow> 128 \<le> max_call_duration p"
  proof
    assume "bit (max_call_duration p) 7"
    then have "bit (unat (max_call_duration p)) 7" by (simp add: bit_unsigned_iff)
    then have "odd (unat (max_call_duration p) div 128)" by (simp add: bit_iff_odd)
    then have "\<not> unat (max_call_duration p) < 128" by auto
    then show "128 \<le> max_call_duration p" by (simp add: word_le_nat_alt)
  next
    assume a: "128 \<le> max_call_duration p"
    show "bit (max_call_duration p) 7"
    proof (rule ccontr)
      assume b: "\<not> bit (max_call_duration p) 7"
      have "take_bit 7 (max_call_duration p) = max_call_duration p"
        by (rule bit_word_eqI) (use b in \<open>auto simp: bit_simps less_Suc_eq numeral_eq_Suc\<close>)
      then have "unat (max_call_duration p) = take_bit 7 (unat (max_call_duration p))"
        by (simp flip: unsigned_take_bit_eq)
      then have "unat (max_call_duration p) < 2 ^ 7" by (metis take_bit_nat_less_exp)
      with a show False by (simp add: word_le_nat_alt)
    qed
  qed
  finally show ?thesis .
qed

lemma load_dumped_profile:
  assumes "i < TETRA_DB_PROFILE_COUNT" "i \<noteq> 0 \<longrightarrow> profile_storable (profiles d ! i)"
  shows "load_profiles db (dump_profile d i # items) =
     load_profiles (if i = 0 then db else db\<lparr>profiles := (profiles db)[i := profiles d ! i]\<rparr>) items"
proof -
  let ?b = "if i = 0 then TETRA_DB_PROFILE0_BITS else profile_pack (profiles d ! i)"
  have "\<not> bit ?b 31"
    using assms(2) by (auto simp: top_bit_pack profile_storable_def not_le TETRA_DB_PROFILE0_BITS_def)
  then have s: "sint ?b = uint ?b" by (intro sint_positive) simp
  have "json_get_uint (dump_profile d i) ''id'' (TETRA_DB_PROFILE_COUNT - 1) = Inr i"
    using assms(1) by (simp add: json_get_uint_def dump_profile_def Let_def db_counts)
  moreover have "json_get_uint (dump_profile d i) ''bits'' 0xFFFFFFFF = Inr (unat ?b)"
  proof -
    have "unat ?b < 2 ^ LENGTH(32)" by (rule unsigned_less)
    then have "unat ?b \<le> 0xFFFFFFFF" by simp
    then show ?thesis
      unfolding json_get_uint_def dump_profile_def Let_def s by (simp add: not_less)
  qed
  moreover have "json_is_object (dump_profile d i)" by (simp add: dump_profile_def Let_def)
  ultimately show ?thesis
    using assms(2) by (simp add: profile_unpack_pack profile_storable_def)
qed

lemma load_dumped_profiles:
  assumes "\<forall>i\<in>set is. i < TETRA_DB_PROFILE_COUNT \<and> (i \<noteq> 0 \<longrightarrow> profile_storable (profiles d ! i))"
    and "length (profiles db) = TETRA_DB_PROFILE_COUNT"
  shows "\<exists>ps. load_profiles db (map (dump_profile d) is) = (Inr (), db\<lparr>profiles := ps\<rparr>) \<and> length ps = TETRA_DB_PROFILE_COUNT \<and>
     (\<forall>j<TETRA_DB_PROFILE_COUNT. ps ! j = (if j \<in> set is \<and> j \<noteq> 0 then profiles d ! j else profiles db ! j))"
  using assms
proof (induction "is" arbitrary: db)
  case Nil
  then show ?case by (intro exI [of _ "profiles db"]) simp
next
  case (Cons i "is")
  let ?db = "if i = 0 then db else db\<lparr>profiles := (profiles db)[i := profiles d ! i]\<rparr>"
  have "length (profiles ?db) = TETRA_DB_PROFILE_COUNT" using Cons.prems(2) by simp
  from Cons.IH [OF _ this] Cons.prems(1) obtain ps where ps: "load_profiles ?db (map (dump_profile d) is) = (Inr (), ?db\<lparr>profiles := ps\<rparr>)"
      "length ps = TETRA_DB_PROFILE_COUNT" "\<forall>j<TETRA_DB_PROFILE_COUNT. ps ! j = (if j \<in> set is \<and> j \<noteq> 0 then profiles d ! j else profiles ?db ! j)"
    by auto
  have "load_profiles db (map (dump_profile d) (i # is)) = load_profiles ?db (map (dump_profile d) is)"
    using load_dumped_profile [of i d db] Cons.prems(1) by simp
  moreover have "?db\<lparr>profiles := ps\<rparr> = db\<lparr>profiles := ps\<rparr>" by simp
  moreover have "\<forall>j<TETRA_DB_PROFILE_COUNT. ps ! j = (if j \<in> set (i # is) \<and> j \<noteq> 0 then profiles d ! j else profiles db ! j)"
    using ps(3) Cons.prems(2) by (auto simp: nth_list_update)
  ultimately show ?case using ps(1,2) by (intro exI [of _ ps]) simp
qed

lemma load_dumped_entity:
  assumes "i < TETRA_DB_ENTITY_COUNT" "entity_ok (entities d ! i)" "reserved34 (entities d ! i) < 2 ^ 34"
  shows "load_entity (dump_entity d i) = Inr (i, entities d ! i)"
proof -
  let ?e = "entities d ! i"
  have r: "unat (reserved34 ?e) < 2 ^ 34" using assms(3) by (simp add: word_less_nat_alt)
  then have "unat (reserved34 ?e) div 2 ^ 63 = 0" by simp
  then have "\<not> bit (unat (reserved34 ?e)) 63" unfolding bit_iff_odd by presburger
  then have "sint (reserved34 ?e) = uint (reserved34 ?e)"
    by (intro sint_positive) (simp add: bit_unsigned_iff)
  moreover have "unat (entity_id ?e) \<le> 0xFFFFFF" "unat (entity_type ?e) \<le> 1" "unat (profile_id ?e) < TETRA_DB_PROFILE_COUNT"
    using assms(2) by (simp_all add: entity_ok_def word_le_nat_alt)
  ultimately show ?thesis
    using assms(1) r by (simp add: load_entity_def dump_entity_def json_get_uint_def json_get_bool_def Let_def
        db_counts not_less)
qed

lemma load_dumped_entities:
  assumes "\<forall>i\<in>set is. i < TETRA_DB_ENTITY_COUNT \<and> entity_ok (entities d ! i) \<and> reserved34 (entities d ! i) < 2 ^ 34"
    and "length (entities db) = TETRA_DB_ENTITY_COUNT"
  shows "\<exists>es. load_entities db (map (dump_entity d) is) = (Inr (), db\<lparr>entities := es\<rparr>) \<and> length es = TETRA_DB_ENTITY_COUNT \<and>
     (\<forall>j<TETRA_DB_ENTITY_COUNT. es ! j = (if j \<in> set is then entities d ! j else entities db ! j))"
  using assms
proof (induction "is" arbitrary: db)
  case Nil
  then show ?case by (intro exI [of _ "entities db"]) simp
next
  case (Cons i "is")
  let ?db = "db\<lparr>entities := (entities db)[i := entities d ! i]\<rparr>"
  have "length (entities ?db) = TETRA_DB_ENTITY_COUNT" using Cons.prems(2) by simp
  from Cons.IH [OF _ this] Cons.prems(1) obtain es where es: "load_entities ?db (map (dump_entity d) is) = (Inr (), ?db\<lparr>entities := es\<rparr>)"
      "length es = TETRA_DB_ENTITY_COUNT" "\<forall>j<TETRA_DB_ENTITY_COUNT. es ! j = (if j \<in> set is then entities d ! j else entities ?db ! j)"
    by auto
  have "load_entity (dump_entity d i) = Inr (i, entities d ! i)"
    using Cons.prems(1) by (intro load_dumped_entity) simp_all
  moreover have "\<forall>j<TETRA_DB_ENTITY_COUNT. es ! j = (if j \<in> set (i # is) then entities d ! j else entities db ! j)"
    using es(3) Cons.prems(2) by (auto simp: nth_list_update)
  ultimately show ?case using es(1,2) by (intro exI [of _ es]) simp
qed

lemma entity_empty_zero: "entity_is_empty e \<Longrightarrow> e = zero_entity"
  by (cases e) (simp add: entity_is_empty_def zero_entity_def)

lemma db_doc_loads:
  assumes "db_storable db"
  shows "db_load_json (zero_db\<lparr>db_path := p\<rparr>) (db_doc db) = (Inr (), db\<lparr>db_path := p\<rparr>)"
proof -
  let ?e = "db_init_empty (zero_db\<lparr>db_path := p\<rparr>)"
  let ?is = "filter (\<lambda>i. \<not> entity_is_empty (entities db ! i)) [0..<TETRA_DB_ENTITY_COUNT]"
  have len: "length (profiles db) = TETRA_DB_PROFILE_COUNT" "length (entities db) = TETRA_DB_ENTITY_COUNT"
    and p0: "profiles db ! 0 = profile_unpack TETRA_DB_PROFILE0_BITS"
    using assms by (simp_all add: db_storable_def db_inv_def)
  have "\<forall>i\<in>set [0..<TETRA_DB_PROFILE_COUNT]. i < TETRA_DB_PROFILE_COUNT \<and> (i \<noteq> 0 \<longrightarrow> profile_storable (profiles db ! i))"
  proof (intro ballI conjI impI)
    fix i assume "i \<in> set [0..<TETRA_DB_PROFILE_COUNT]" "i \<noteq> 0"
    then have "profiles db ! i = tl (profiles db) ! (i - 1)" "i - 1 < length (tl (profiles db))"
      using len(1) by (auto simp: nth_tl)
    then have "profiles db ! i \<in> set (tl (profiles db))" by simp
    then show "profile_storable (profiles db ! i)" using assms by (simp add: db_storable_def)
  qed simp
  from load_dumped_profiles [OF this, of ?e] obtain ps where ps:
    "load_profiles ?e (map (dump_profile db) [0..<TETRA_DB_PROFILE_COUNT]) = (Inr (), ?e\<lparr>profiles := ps\<rparr>)"
    "length ps = TETRA_DB_PROFILE_COUNT"
    "\<forall>j<TETRA_DB_PROFILE_COUNT. ps ! j = (if j \<noteq> 0 then profiles db ! j else profiles ?e ! j)"
    by (auto simp: db_init_empty_def)
  have "ps = profiles db"
    using ps(2,3) len p0 by (intro nth_equalityI) (auto simp: db_init_empty_def db_counts)
  note ps = ps(1) [unfolded this]
  have "\<forall>i\<in>set ?is. i < TETRA_DB_ENTITY_COUNT \<and> entity_ok (entities db ! i) \<and> reserved34 (entities db ! i) < 2 ^ 34"
    using assms len by (auto simp: db_storable_def db_inv_def)
  from load_dumped_entities [OF this, of "?e\<lparr>profiles := profiles db\<rparr>"] obtain es where es:
    "load_entities (?e\<lparr>profiles := profiles db\<rparr>) (map (dump_entity db) ?is) = (Inr (), ?e\<lparr>profiles := profiles db, entities := es\<rparr>)"
    "length es = TETRA_DB_ENTITY_COUNT"
    "\<forall>j<TETRA_DB_ENTITY_COUNT. es ! j = (if j \<in> set ?is then entities db ! j else entities ?e ! j)"
    by (auto simp: db_init_empty_def)
  have "es = entities db"
    using es(2,3) len by (intro nth_equalityI) (auto simp: db_init_empty_def dest: entity_empty_zero)
  moreover have "?e\<lparr>profiles := profiles db, entities := entities db\<rparr> = db\<lparr>db_path := p\<rparr>"
    using assms by (cases db) (simp add: db_init_empty_def zero_db_def db_storable_def)
  ultimately show ?thesis
    using ps es(1) by (simp add: db_load_json_def db_doc_def json_get_uint_def)
qed

text \<open>A stored profile with a call duration of 128 or more comes out negative and is refused on loading.\<close>

lemma load_dumped_negative:
  assumes "\<forall>i\<in>set is. i < TETRA_DB_PROFILE_COUNT" "i \<in> set is" "i \<noteq> 0" "128 \<le> max_call_duration (profiles d ! i)"
  shows "fst (load_profiles db (map (dump_profile d) is)) = Inl EINVAL"
  using assms
proof (induction "is" arbitrary: db)
  case (Cons k "is")
  let ?b = "if k = 0 then TETRA_DB_PROFILE0_BITS else profile_pack (profiles d ! k)"
  have j: "json_get_uint (dump_profile d k) ''bits'' mx = Inl EINVAL" if "bit ?b 31" for mx
  proof -
    have "sint ?b < 0" using that by (intro sint_negative) simp
    then show ?thesis unfolding json_get_uint_def dump_profile_def Let_def by simp
  qed
  show ?case
  proof (cases "bit ?b 31")
    case True
    then show ?thesis using j by (simp split: sum.split)
  next
    case False
    with Cons.prems(3,4) have "k \<noteq> i" by (auto simp: top_bit_pack)
    with Cons show ?thesis by (auto split: sum.split)
  qed
qed simp

lemma db_doc_negative:
  assumes "0 < i" "i < TETRA_DB_PROFILE_COUNT" "128 \<le> max_call_duration (profiles db ! i)"
  shows "fst (db_load_json d0 (db_doc db)) = Inl EINVAL"
proof -
  have "fst (load_profiles d (map (dump_profile db) [0..<TETRA_DB_PROFILE_COUNT])) = Inl EINVAL" for d
    by (rule load_dumped_negative [of _ i]) (use assms in auto)
  then obtain d where "load_profiles (db_init_empty d0) (map (dump_profile db) [0..<TETRA_DB_PROFILE_COUNT]) = (Inl EINVAL, d)"
    by (metis prod.collapse)
  then show ?thesis
    by (simp add: db_load_json_def db_doc_def json_get_uint_def)
qed

lemma db_save_file:
  assumes "db_atomic_save json_dumps calls fs db = (Some (Inr ()), fs')" "json_dumps (db_doc db) = Some t"
  shows "fs' (db_path db) = Some t" "cleanup_stale_tmp u fs' (db_path db) = fs'" "db_path db \<noteq> []"
proof -
  have "atomic_write_text calls fs (db_path db) t = (Some (Inr ()), fs')" and ne: "db_path db \<noteq> []"
    using assms by (auto simp: db_atomic_save_def db_dump_json_def split: if_splits)
  then show "fs' (db_path db) = Some t" "cleanup_stale_tmp u fs' (db_path db) = fs'" "db_path db \<noteq> []"
    using atomic_write_saves [of "db_path db" t fs calls] by (simp_all add: saves_def cleanup_stale_tmp_def)
qed

section \<open>Runs\<close>

text \<open>The databases a client can reach: opened from any file system, then changed through the API.\<close>

inductive db_run :: "SubscriberDb \<Rightarrow> bool" where
  run_open: "db_open json_loads u fs path db0 = (Inr (), db, fs') \<Longrightarrow> db_run db"
| run_put_profile: "db_run db \<Longrightarrow> db_run (snd (db_put_profile db i p))"
| run_put_entity: "db_run db \<Longrightarrow> db_run (snd (db_put_entity db j e))"

lemma load_opened:
  "opened (snd (load_profiles d ps)) = opened d" "opened (snd (load_entities d es)) = opened d"
proof -
  show "opened (snd (load_profiles d ps)) = opened d"
    by (induction d ps rule: load_profiles.induct) (auto split: sum.split)
  show "opened (snd (load_entities d es)) = opened d"
    by (induction es arbitrary: d) (auto split: sum.split)
qed

lemma db_load_json_opened:
  assumes "db_load_json d root = (Inr u, d')"
  shows "opened d'"
proof -
  obtain ps es d1 where "load_profiles (db_init_empty d) ps = (Inr (), d1)" "load_entities d1 es = (Inr u, d')"
    using assms by (auto simp: db_load_json_def split: option.splits sum.splits prod.splits if_splits)
  then show ?thesis
    using load_opened(1) [of "db_init_empty d" ps] load_opened(2) [of d1 es] by (simp add: db_init_empty_def)
qed

lemma db_open_Inr:
  assumes "db_open loads u fs path db0 = (Inr (), db, fs')"
  shows "db_inv db \<and> opened db"
proof -
  have "fst (snd (db_open loads u fs path db0)) = fst (snd (db_open loads u fs path zero_db))"
    using assms by (auto simp: db_open_def Let_def split: if_splits)
  then have "db_inv db" using db_open_inv [OF zero_db_inv(2), of loads u fs path] assms by simp
  moreover have "opened db"
    using assms by (auto simp: db_open_def Let_def db_init_empty_def dest: db_load_json_opened
        split: if_splits option.splits prod.splits sum.splits)
  ultimately show ?thesis by simp
qed

lemma db_run_inv: "db_run db \<Longrightarrow> db_inv db \<and> opened db"
proof (induction rule: db_run.induct)
  case (run_put_profile db i p)
  then show ?case using db_put_inv(1) [of db i p] by (auto simp: db_put_profile_def)
next
  case (run_put_entity db j e)
  then show ?case using db_put_inv(2) [of db j e] by (auto simp: db_put_entity_def)
qed (rule db_open_Inr)

text \<open>A saved database is the one the next \<open>db_open\<close> yields.\<close>

lemma saved_db_opens:
  assumes "db_storable db" "length (db_path db) < TETRA_DB_PATH_MAX"
    and "json_dumps (db_doc db) = Some t" "json_loads t = Some (db_doc db)"
    and "db_atomic_save json_dumps calls fs db = (Some (Inr ()), fs')"
  shows "db_open json_loads u fs' (db_path db) db0 = (Inr (), db, fs')"
proof -
  note f = db_save_file [OF assms(5,3)]
  have "profiles db = (profiles db)[0 := profile_unpack TETRA_DB_PROFILE0_BITS]"
    using assms(1) by (metis db_storable_def db_inv_def list_update_id)
  then show ?thesis
    using f assms(2,4) db_doc_loads [OF assms(1), of "db_path db"] by (simp add: db_open_def Let_def)
qed

section \<open>Properties\<close>

text \<open>
  The packed profile word is exact. Every 32-bit word unpacks to a profile that packs to the same
  word, bit for bit, and every profile whose fields are within their widths survives packing.
\<close>

theorem profile_word_roundtrip:
  "profile_pack (profile_unpack b) = b \<and> (profile_ok p \<longrightarrow> profile_unpack (profile_pack p) = p)"
  using profile_pack_unpack profile_unpack_pack by blast

theorem profile_word_roundtrip_witness:
  "profile_pack (profile_unpack 0xDEADBEEF) = 0xDEADBEEF \<and> profile_unpack (profile_pack (profile_unpack 0x088F)) = profile_unpack 0x088F"
  using profile_word_roundtrip [where b = "0xDEADBEEF" and p = "profile_unpack 0x088F"] profile_unpack_ok by blast

text \<open>
  C15: profile 0 is immutable. In every database reached by opening any file, whatever it contains, and
  any sequence of writes, profile 0 reads as the guard word \<open>0x0000088F\<close>, writing it is refused with
  \<open>-EPERM\<close>, and every entity stays in range.
\<close>

theorem db_profile0_guard:
  assumes "db_run db"
  shows "db_get_profile db 0 = Inr (profile_unpack TETRA_DB_PROFILE0_BITS) \<and> db_put_profile db 0 p = (Inl EPERM, db) \<and>
     (\<forall>idx e. db_get_entity db idx = Inr e \<longrightarrow> entity_ok e)"
  using db_run_inv [OF assms]
  by (auto simp: db_inv_def db_get_profile_def db_put_profile_def db_get_entity_def db_counts split: if_splits)

theorem db_profile0_guard_witness:
  "\<exists>db. db_run db \<and> db_get_profile db 0 = Inr (profile_unpack TETRA_DB_PROFILE0_BITS) \<and> db_put_profile db 0 zero_profile = (Inl EPERM, db)"
proof -
  have "db_run (db_init_empty (zero_db\<lparr>db_path := ''db''\<rparr>))"
    by (rule run_open [of "\<lambda>_. None" True Map.empty "''db''" zero_db _ Map.empty])
      (simp add: db_open_def Let_def cleanup_stale_tmp_def TETRA_DB_PATH_MAX_def)
  with db_profile0_guard [OF this] show ?thesis by blast
qed

text \<open>
  C16: a saved database reads back. When the save returned 0 and the text layer parses what it printed,
  opening the file again yields exactly the saved tables, provided every profile's fields are within
  their widths with a call duration below 128 and the reserved bits of the entities fit in 34 bits.
\<close>

theorem db_save_open_roundtrip:
  assumes "db_storable db" "length (db_path db) < TETRA_DB_PATH_MAX"
    and "json_dumps (db_doc db) = Some t" "json_loads t = Some (db_doc db)"
    and "db_atomic_save json_dumps calls fs db = (Some (Inr ()), fs')"
  shows "db_open json_loads u fs' (db_path db) db0 = (Inr (), db, fs')"
  using assms by (rule saved_db_opens)

text \<open>A fresh database at the path \<open>db\<close>, and one whose first free profile allows calls of 200 seconds.\<close>

definition ex_db :: SubscriberDb where
  "ex_db = db_init_empty (zero_db\<lparr>db_path := ''db''\<rparr>)"

definition ex_db_long :: SubscriberDb where
  "ex_db_long = ex_db\<lparr>profiles := (profiles ex_db)[1 := zero_profile\<lparr>max_call_duration := 200\<rparr>]\<rparr>"

lemma ex_db_facts:
  "db_storable ex_db" "db_path ex_db = ''db''" "db_path ex_db_long = ''db''" "max_call_duration (profiles ex_db_long ! 1) = 200"
  "length ''db'' < TETRA_DB_PATH_MAX"
proof -
  have "tl ((replicate (Suc n) x)[0 := y]) = replicate n x" for n and x y :: Profile by simp
  from this [of 5] have "tl ((replicate TETRA_DB_PROFILE_COUNT x)[0 := y]) = replicate 5 x" for x y :: Profile
    by (simp add: db_counts)
  then show "db_storable ex_db"
    unfolding db_storable_def ex_db_def by simp
      (simp add: db_init_empty_def zero_profile_def zero_entity_def profile_storable_def profile_ok_def)
qed (simp_all add: ex_db_def ex_db_long_def db_init_empty_def db_counts TETRA_DB_PATH_MAX_def)

lemma ex_db_save:
  assumes "opened db" "db_path db = ''db''"
  shows "\<exists>fs'. db_atomic_save (\<lambda>_. Some ''{}'') [Done 0, Done 2, Done 0, Done 0, Done 0] Map.empty db = (Some (Inr ()), fs')"
  using assms by (simp add: db_atomic_save_def db_dump_json_def atomic_write_text_def tmp_path_def TETRA_DB_PATH_MAX_def Let_def)

theorem db_save_open_roundtrip_witness:
  "\<exists>fs'. db_atomic_save (\<lambda>_. Some ''{}'') [Done 0, Done 2, Done 0, Done 0, Done 0] Map.empty ex_db = (Some (Inr ()), fs') \<and>
     db_open (\<lambda>_. Some (db_doc ex_db)) True fs' ''db'' zero_db = (Inr (), ex_db, fs')"
proof -
  have "opened ex_db" by (simp add: ex_db_def db_init_empty_def)
  from ex_db_save [OF this ex_db_facts(2)] obtain fs' where
    fs': "db_atomic_save (\<lambda>_. Some ''{}'') [Done 0, Done 2, Done 0, Done 0, Done 0] Map.empty ex_db = (Some (Inr ()), fs')" ..
  have l: "length (db_path ex_db) < TETRA_DB_PATH_MAX" using ex_db_facts by simp
  have "db_open (\<lambda>_. Some (db_doc ex_db)) True fs' (db_path ex_db) zero_db = (Inr (), ex_db, fs')"
    by (rule db_save_open_roundtrip [OF ex_db_facts(1) l _ _ fs']) simp_all
  with fs' show ?thesis using ex_db_facts(2) by auto
qed

text \<open>
  C37: a profile with a call duration of 128 seconds or more makes the saved file unreadable. The save
  returns 0, but \<open>bits\<close> is stored through a signed \<open>int\<close> and comes out negative, so the next
  \<open>db_open\<close> refuses the file with \<open>-EINVAL\<close> and leaves the database closed.
\<close>

theorem db_long_call_duration_unreadable:
  assumes "0 < i" "i < TETRA_DB_PROFILE_COUNT" "128 \<le> max_call_duration (profiles db ! i)" "length (db_path db) < TETRA_DB_PATH_MAX"
    and "json_dumps (db_doc db) = Some t" "json_loads t = Some (db_doc db)"
    and "db_atomic_save json_dumps calls fs db = (Some (Inr ()), fs')"
  shows "db_open json_loads u fs' (db_path db) db0 = (Inl EINVAL, zero_db, fs')"
proof -
  note f = db_save_file [OF assms(7,5)]
  obtain d where "db_load_json (zero_db\<lparr>db_path := db_path db\<rparr>) (db_doc db) = (Inl EINVAL, d)"
    using db_doc_negative [OF assms(1-3), of "zero_db\<lparr>db_path := db_path db\<rparr>"] by (metis prod.collapse)
  then show ?thesis
    using f assms(4,6) by (simp add: db_open_def Let_def)
qed

theorem db_long_call_duration_unreadable_witness:
  "\<exists>fs'. max_call_duration (profiles ex_db_long ! 1) = 200 \<and>
     db_atomic_save (\<lambda>_. Some ''{}'') [Done 0, Done 2, Done 0, Done 0, Done 0] Map.empty ex_db_long = (Some (Inr ()), fs') \<and>
     db_open (\<lambda>_. Some (db_doc ex_db_long)) True fs' ''db'' zero_db = (Inl EINVAL, zero_db, fs')"
proof -
  have "opened ex_db_long" by (simp add: ex_db_long_def ex_db_def db_init_empty_def)
  from ex_db_save [OF this ex_db_facts(3)] obtain fs' where
    fs': "db_atomic_save (\<lambda>_. Some ''{}'') [Done 0, Done 2, Done 0, Done 0, Done 0] Map.empty ex_db_long = (Some (Inr ()), fs')" ..
  have c: "(0 :: nat) < 1" "1 < TETRA_DB_PROFILE_COUNT" "128 \<le> max_call_duration (profiles ex_db_long ! 1)"
      "length (db_path ex_db_long) < TETRA_DB_PATH_MAX"
    using ex_db_facts(3,4,5) by (simp_all add: db_counts)
  have "db_open (\<lambda>_. Some (db_doc ex_db_long)) True fs' (db_path ex_db_long) zero_db = (Inl EINVAL, zero_db, fs')"
    by (rule db_long_call_duration_unreadable [OF c _ _ fs']) simp_all
  with fs' show ?thesis using ex_db_facts(3,4) by auto
qed

text \<open>
  Entities written are found. After a successful write of a valid entity it reads back from its
  slot, and a lookup by its identity returns the first valid slot with that identity, which is that
  slot or an earlier one.
\<close>

theorem db_put_lookup:
  assumes "db_inv db" "fst (db_put_entity db idx e) = Inr ()" "en_valid e" "db' = snd (db_put_entity db idx e)"
  shows "db_get_entity db' idx = Inr e \<and> (\<exists>j\<le>idx. db_lookup_entity db' (entity_id e) = Inr j \<and>
     (\<exists>e'. db_get_entity db' j = Inr e' \<and> en_valid e' \<and> entity_id e' = entity_id e) \<and>
     (\<forall>i<j. \<forall>e'. db_get_entity db' i = Inr e' \<longrightarrow> \<not> (en_valid e' \<and> entity_id e' = entity_id e)))"
proof -
  have o: "opened db" "idx < TETRA_DB_ENTITY_COUNT" "db' = db\<lparr>entities := (entities db)[idx := e]\<rparr>"
    using assms(2) put_entity_checked [OF assms(2)] assms(4) by (auto simp: db_put_entity_def split: if_splits)
  let ?P = "\<lambda>e'. en_valid e' \<and> entity_id e' = entity_id e"
  have len: "length (entities db') = TETRA_DB_ENTITY_COUNT" using assms(1) o by (simp add: db_inv_def)
  have idx: "entities db' ! idx = e" using o len by simp
  then have "?P (entities db' ! idx)" using assms(3) by simp
  then have "find_index ?P (entities db') \<noteq> None" using o(2) len by (auto simp: find_index_None_iff)
  then obtain j where j: "find_index ?P (entities db') = Some j" by auto
  then have j': "j < length (entities db')" "?P (entities db' ! j)" "\<forall>i<j. \<not> ?P (entities db' ! i)"
    by (auto simp: find_index_Some_iff)
  have "j \<le> idx" using j'(3) \<open>?P (entities db' ! idx)\<close> by (meson not_le)
  then show ?thesis
    using j j' o len idx by (auto simp: db_get_entity_def db_lookup_entity_def)
qed

theorem db_put_lookup_witness:
  "\<exists>j\<le>7. db_lookup_entity (snd (db_put_entity ex_db 7 (zero_entity\<lparr>entity_id := 0x282FF4, en_valid := True\<rparr>))) 0x282FF4 = Inr j"
proof -
  let ?e = "zero_entity\<lparr>entity_id := 0x282FF4, en_valid := True\<rparr>"
  have "fst (db_put_entity ex_db 7 ?e) = Inr ()"
    by (simp add: db_put_entity_def ex_db_def db_init_empty_def zero_entity_def db_counts)
  moreover have "db_inv ex_db" using ex_db_facts(1) by (simp add: db_storable_def)
  ultimately show ?thesis
    using db_put_lookup [of ex_db 7 ?e "snd (db_put_entity ex_db 7 ?e)"] by auto
qed

end
