(* ===== verification/Mle.thy ===== *)
theory Mle
  imports Mm_Msg Db
begin

text \<open>
  The MLE (\<open>sw/mle/mle.c\<close>, \<open>sw/mle/mle_fsm.c\<close>, \<open>sw/mle/include/tetra/mle.h\<close>): the per-terminal
  registration state machine, the session table keyed by ISSI, the database look-up with automatic
  enrolment, the protocol discriminator, and both bus callbacks. The database is shared with the MM
  and passed explicitly; \<open>None\<close> is the null pointer the initialisers accept.
\<close>

section \<open>Types\<close>

datatype MleDisc =
    MleDisc_Reserved0 | MleDisc_Mm | MleDisc_Cmce | MleDisc_Reserved3 | MleDisc_Sndcp
  | MleDisc_MleItself | MleDisc_TmcoSync | MleDisc_Reserved7

definition MleDisc_of_code :: "nat \<Rightarrow> MleDisc" where
  "MleDisc_of_code c =
     (if c = 0 then MleDisc_Reserved0 else if c = 1 then MleDisc_Mm else if c = 2 then MleDisc_Cmce
      else if c = 3 then MleDisc_Reserved3 else if c = 4 then MleDisc_Sndcp else if c = 5 then MleDisc_MleItself
      else if c = 6 then MleDisc_TmcoSync else MleDisc_Reserved7)"

datatype MleState =
  MleState_Idle | MleState_AttachPending | MleState_Registered | MleState_GroupAttach | MleState_Detaching

datatype MleEvt =
    MleEvt_DemandReceived | MleEvt_AcceptSent | MleEvt_AcceptAcked | MleEvt_GrpDemandReceived
  | MleEvt_GrpAckSent | MleEvt_DetachReceived | MleEvt_DetachComplete

definition MLE_SESSION_MAX :: nat where
  "MLE_SESSION_MAX = 16"

record MleSession =
  ms_in_use :: bool
  ms_issi :: u32
  ms_endpoint :: EndpointId
  ms_state :: MleState
  ms_gila_class :: u8
  ms_gila_lifetime :: u8
  pending_giu_count :: u8
  ms_fallback_gssi :: u32

record MleCfg =
  accept_unknown :: bool
  default_profile_id :: u8
  fallback_gssi :: u32

record MleStats =
  demands_received :: nat
  accepts_sent :: nat
  grp_demands_received :: nat
  grp_acks_sent :: nat
  lookups_failed :: nat
  fsm_transitions :: nat

record Mle =
  mle_cfg :: MleCfg
  sessions :: "MleSession list"
  mle_stats :: MleStats
  mle_initialised :: bool

definition zero_session :: MleSession where
  "zero_session = \<lparr>ms_in_use = False, ms_issi = 0, ms_endpoint = 0, ms_state = MleState_Idle, ms_gila_class = 0,
     ms_gila_lifetime = 0, pending_giu_count = 0, ms_fallback_gssi = 0\<rparr>"

definition zero_mle :: Mle where
  "zero_mle = \<lparr>mle_cfg = \<lparr>accept_unknown = False, default_profile_id = 0, fallback_gssi = 0\<rparr>,
     sessions = replicate MLE_SESSION_MAX zero_session,
     mle_stats = \<lparr>demands_received = 0, accepts_sent = 0, grp_demands_received = 0, grp_acks_sent = 0, lookups_failed = 0, fsm_transitions = 0\<rparr>,
     mle_initialised = False\<rparr>"

section \<open>State machine\<close>

fun mle_next :: "MleState \<Rightarrow> MleEvt \<Rightarrow> MleState" where
  "mle_next MleState_Idle e = (if e = MleEvt_DemandReceived then MleState_AttachPending else MleState_Idle)"
| "mle_next MleState_AttachPending e =
     (if e = MleEvt_AcceptSent then MleState_Registered
      else if e = MleEvt_DetachReceived then MleState_Detaching else MleState_AttachPending)"
| "mle_next MleState_Registered e =
     (if e = MleEvt_GrpDemandReceived then MleState_GroupAttach
      else if e = MleEvt_DetachReceived then MleState_Detaching
      else if e = MleEvt_DemandReceived then MleState_AttachPending else MleState_Registered)"
| "mle_next MleState_GroupAttach e =
     (if e = MleEvt_GrpAckSent then MleState_Registered
      else if e = MleEvt_DetachReceived then MleState_Detaching else MleState_GroupAttach)"
| "mle_next MleState_Detaching e = (if e = MleEvt_DetachComplete then MleState_Idle else MleState_Detaching)"

definition mle_fsm_step :: "MleSession \<Rightarrow> MleEvt \<Rightarrow> MleSession" where
  "mle_fsm_step s e = s\<lparr>ms_state := mle_next (ms_state s) e\<rparr>"

section \<open>Sessions and database\<close>

definition mle_session_lookup :: "Mle \<Rightarrow> u32 \<Rightarrow> nat option" where
  "mle_session_lookup mle issi = slot_find ms_in_use ms_issi (issi AND TETRA_SSI_MASK_24) (sessions mle)"

definition fresh_session :: "u32 \<Rightarrow> u32 \<Rightarrow> MleSession" where
  "fresh_session fallback issi = zero_session\<lparr>ms_in_use := True, ms_issi := issi, ms_state := MleState_Idle,
     ms_gila_class := 4, ms_gila_lifetime := 1, ms_fallback_gssi := fallback\<rparr>"

definition mle_session_alloc :: "Mle \<Rightarrow> u32 \<Rightarrow> nat option \<times> Mle" where
  "mle_session_alloc mle issi =
     (let issi = issi AND TETRA_SSI_MASK_24 in
      case mle_session_lookup mle issi of
        Some k \<Rightarrow> (Some k, mle)
      | None \<Rightarrow>
          (case slot_free ms_in_use (sessions mle) of
             Some k \<Rightarrow> (Some k, mle\<lparr>sessions := (sessions mle)[k := fresh_session (fallback_gssi (mle_cfg mle)) issi]\<rparr>)
           | None \<Rightarrow> (None, mle)))"

text \<open>The profile of a valid entity, as both \<open>refresh_session_from_db\<close> and the MM look it up.\<close>

definition profile_of_issi :: "SubscriberDb \<Rightarrow> u32 \<Rightarrow> Profile option" where
  "profile_of_issi db issi =
     (case db_lookup_entity db issi of
        Inl _ \<Rightarrow> None
      | Inr idx \<Rightarrow>
          (case db_get_entity db idx of
             Inl _ \<Rightarrow> None
           | Inr e \<Rightarrow>
               if \<not> en_valid e then None
               else (case db_get_profile db (unat (profile_id e)) of
                       Inl _ \<Rightarrow> None
                     | Inr pr \<Rightarrow> if \<not> pr_valid pr then None else Some pr)))"

definition refresh_session_from_db :: "SubscriberDb option \<Rightarrow> MleSession \<Rightarrow> bool \<times> MleSession" where
  "refresh_session_from_db db s =
     (case db of
        None \<Rightarrow> (False, s)
      | Some db \<Rightarrow>
          (case profile_of_issi db (ms_issi s) of
             None \<Rightarrow> (False, s)
           | Some pr \<Rightarrow> (True, s\<lparr>ms_gila_class := gila_class pr, ms_gila_lifetime := gila_lifetime pr\<rparr>)))"

definition is_free_entity :: "SubscriberDb \<Rightarrow> nat \<Rightarrow> bool" where
  "is_free_entity db i = (case db_get_entity db i of Inl _ \<Rightarrow> False | Inr e \<Rightarrow> \<not> en_valid e)"

definition maybe_auto_enroll :: "Mle \<Rightarrow> SubscriberDb option \<Rightarrow> u32 \<Rightarrow> bool \<times> Mle \<times> SubscriberDb option" where
  "maybe_auto_enroll mle db issi =
     (case db of
        None \<Rightarrow> (accept_unknown (mle_cfg mle), mle, db)
      | Some d \<Rightarrow>
          (case db_lookup_entity d (issi AND TETRA_SSI_MASK_24) of
             Inr _ \<Rightarrow> (True, mle, db)
           | Inl _ \<Rightarrow>
               if \<not> accept_unknown (mle_cfg mle)
               then (False, mle\<lparr>mle_stats := (mle_stats mle)\<lparr>lookups_failed := lookups_failed (mle_stats mle) + 1\<rparr>\<rparr>, db)
               else (case find_index (is_free_entity d) [0..<TETRA_DB_ENTITY_COUNT] of
                       None \<Rightarrow> (False, mle, db)
                     | Some i \<Rightarrow>
                         let e = zero_entity\<lparr>entity_id := issi AND TETRA_SSI_MASK_24, entity_type := 0,
                                profile_id := default_profile_id (mle_cfg mle), en_valid := True\<rparr>;
                             (rc, d) = db_put_entity d i e
                         in (True, mle, Some d))))"

section \<open>Protocol discriminator\<close>

definition strip_mle_pd :: "LlcPdu \<Rightarrow> u8 list \<Rightarrow> nat \<Rightarrow> (MleDisc \<times> u8 list \<times> nat) res option" where
  "strip_mle_pd pdu out_body out_capb =
     (if body_len_bits pdu < 3 then Some (Inl EPROTO)
      else do {
        b0 \<leftarrow> arr_get (body pdu) 0;
        let disc = MleDisc_of_code (unat (drop_bit 5 b0 AND 7));
        let rest_bits = body_len_bits pdu - 3;
        if rest_bits > out_capb then Some (Inl ENOSPC)
        else if (out_capb + 7) div 8 > length out_body then None
        else do {
          out \<leftarrow> or_bits (body pdu) 3 (replicate ((out_capb + 7) div 8) 0 @ drop ((out_capb + 7) div 8) out_body) 0 rest_bits;
          Some (Inr (disc, out, rest_bits))
        }
      })"

section \<open>Handlers\<close>

definition tla_request :: "EndpointId \<Rightarrow> TetraAddress \<Rightarrow> MmDecoded \<Rightarrow> TlaSapPayload" where
  "tla_request ep addr d = \<lparr>tla_endpoint = ep, tla_addr = addr, tla_decoded = d,
     tla_is_attach = (location_update_type d = LocUpdate_ItsiAttach \<or> mm_pdu_type d = MmPduUl_UAttachDetachGroupIdentity)\<rparr>"

definition tla_msg :: "TlaSapPayload \<Rightarrow> SapMsg" where
  "tla_msg pl = sapmsg_init SapId_TleSap SapId_TmaSap SapId_TlmcSap (Some (TlaSapPayload_bytes pl)) sizeof_TlaSapPayload"

definition forward_mm_request :: "Env \<Rightarrow> EndpointId \<Rightarrow> TetraAddress \<Rightarrow> MmDecoded \<Rightarrow> unit res \<times> Env" where
  "forward_mm_request env ep addr d = env_post env (sap_prio_default SapId_TlmcSap) (tla_msg (tla_request ep addr d))"

definition session_update :: "nat \<Rightarrow> (MleSession \<Rightarrow> MleSession) \<Rightarrow> Mle \<Rightarrow> Mle" where
  "session_update k f mle = mle\<lparr>sessions := (sessions mle)[k := f (sessions mle ! k)]\<rparr>"

text \<open>The \<open>switch\<close> on the PDU type: the event and the counters, \<open>None\<close> for an unsupported type.\<close>

definition mm_pdu_event :: "MmPduTypeUl \<Rightarrow> MleStats \<Rightarrow> (MleEvt \<times> MleStats) option" where
  "mm_pdu_event t st =
     (case t of
        MmPduUl_ULocationUpdateDemand \<Rightarrow>
          Some (MleEvt_DemandReceived, st\<lparr>demands_received := demands_received st + 1, fsm_transitions := fsm_transitions st + 1\<rparr>)
      | MmPduUl_UAttachDetachGroupIdentity \<Rightarrow>
          Some (MleEvt_GrpDemandReceived, st\<lparr>grp_demands_received := grp_demands_received st + 1, fsm_transitions := fsm_transitions st + 1\<rparr>)
      | MmPduUl_UItsiDetach \<Rightarrow> Some (MleEvt_DetachReceived, st\<lparr>fsm_transitions := fsm_transitions st + 1\<rparr>)
      | _ \<Rightarrow> None)"

type_synonym mle_result = "(unit res \<times> Mle \<times> SubscriberDb option \<times> Env) option"

definition handle_mm_pdu :: "Mle \<Rightarrow> SubscriberDb option \<Rightarrow> Env \<Rightarrow> TleSapMsg \<Rightarrow> u8 list \<Rightarrow> nat \<Rightarrow> mle_result" where
  "handle_mm_pdu mle db env m bdy body_bits = do {
     (rc, decoded) \<leftarrow> mm_iep_decode (Some bdy) body_bits zero_decoded;
     case rc of
       Inl e \<Rightarrow> Some (Inl e, mle, db, env)
     | Inr _ \<Rightarrow>
         let (ki, mle) = mle_session_alloc mle (ssi (tle_addr m)) in
         (case ki of
            None \<Rightarrow> Some (Inl ENOSPC, mle, db, env)
          | Some k \<Rightarrow>
              let mle = session_update k (\<lambda>s. s\<lparr>ms_endpoint := tle_endpoint m\<rparr>) mle;
                  (_, mle, db) = maybe_auto_enroll mle db (ssi (tle_addr m));
                  mle = session_update k (\<lambda>s. snd (refresh_session_from_db db s)) mle
              in (case mm_pdu_event (mm_pdu_type decoded) (mle_stats mle) of
                    None \<Rightarrow> Some (Inr (), mle, db, env)
                  | Some (e, st) \<Rightarrow>
                      let mle = session_update k (\<lambda>s. mle_fsm_step s e) (mle\<lparr>mle_stats := st\<rparr>);
                          (rc, env) = forward_mm_request env (tle_endpoint m) (tle_addr m) decoded
                      in Some (rc, mle, db, env)))
   }"

definition handle_mle_itself :: "Mle \<Rightarrow> SubscriberDb option \<Rightarrow> Env \<Rightarrow> mle_result" where
  "handle_mle_itself mle db env = Some (Inr (), mle, db, env)"

definition mle_handle_tle_msg :: "Mle \<Rightarrow> SubscriberDb option \<Rightarrow> Env \<Rightarrow> TleSapMsg \<Rightarrow> mle_result" where
  "mle_handle_tle_msg mle db env m =
     (if \<not> mle_initialised mle then Some (Inl EINVAL, mle, db, env)
      else do {
        r \<leftarrow> strip_mle_pd (tle_pdu m) (uninit LLC_PDU_BODY_MAX_BYTES) (LLC_PDU_BODY_MAX_BYTES * 8);
        case r of
          Inl e \<Rightarrow> Some (Inl e, mle, db, env)
        | Inr (disc, after_pd, after_pd_bits) \<Rightarrow>
            (if disc = MleDisc_Mm then handle_mm_pdu mle db env m after_pd after_pd_bits
             else if disc = MleDisc_MleItself then handle_mle_itself mle db env
             else Some (Inr (), mle, db, env))
      })"

definition mle_handle_tla_msg :: "Mle \<Rightarrow> TlaSapPayload \<Rightarrow> unit res \<times> Mle" where
  "mle_handle_tla_msg mle m =
     (if \<not> mle_initialised mle then (Inl EINVAL, mle)
      else case mle_session_lookup mle (ssi (tla_addr m)) of
             None \<Rightarrow> (Inl ENOENT, mle)
           | Some k \<Rightarrow>
               let st = mle_stats mle in
               (Inr (), case mm_pdu_type (tla_decoded m) of
                  MmPduUl_ULocationUpdateDemand \<Rightarrow>
                    session_update k (\<lambda>s. mle_fsm_step s MleEvt_AcceptSent)
                      (mle\<lparr>mle_stats := st\<lparr>accepts_sent := accepts_sent st + 1, fsm_transitions := fsm_transitions st + 1\<rparr>\<rparr>)
                | MmPduUl_UAttachDetachGroupIdentity \<Rightarrow>
                    session_update k (\<lambda>s. mle_fsm_step s MleEvt_GrpAckSent)
                      (mle\<lparr>mle_stats := st\<lparr>grp_acks_sent := grp_acks_sent st + 1, fsm_transitions := fsm_transitions st + 1\<rparr>\<rparr>)
                | MmPduUl_UItsiDetach \<Rightarrow>
                    session_update k (\<lambda>s. mle_fsm_step s MleEvt_DetachComplete)
                      (mle\<lparr>mle_stats := st\<lparr>fsm_transitions := fsm_transitions st + 1\<rparr>\<rparr>)
                | _ \<Rightarrow> mle))"

definition on_tle_msg :: "Mle \<Rightarrow> SubscriberDb option \<Rightarrow> Env \<Rightarrow> SapMsg \<Rightarrow> (Mle \<times> SubscriberDb option \<times> Env) option" where
  "on_tle_msg mle db env msg =
     (case payload msg of
        None \<Rightarrow> Some (mle, db, env)
      | Some pl \<Rightarrow>
          if len msg < sizeof_TleSapMsg then Some (mle, db, env)
          else do {
            (_, r) \<leftarrow> mle_handle_tle_msg mle db env (TleSapMsg_of_bytes pl);
            Some r
          })"

definition on_tla_msg :: "Mle \<Rightarrow> SapMsg \<Rightarrow> Mle" where
  "on_tla_msg mle msg =
     (case payload msg of
        None \<Rightarrow> mle
      | Some pl \<Rightarrow>
          if len msg < sizeof_TlaSapPayload then mle
          else snd (mle_handle_tla_msg mle (TlaSapPayload_of_bytes pl)))"

definition mle_init :: "Env \<Rightarrow> MleCfg option \<Rightarrow> unit res \<times> Mle \<times> Env" where
  "mle_init env cfg =
     (let mle = (case cfg of Some c \<Rightarrow> zero_mle\<lparr>mle_cfg := c\<rparr> | None \<Rightarrow> zero_mle);
          (rc, b) = msgbus_register (bus env) SapId_TmaSap SapId_TleSap Mle_on_tle_msg;
          env = env\<lparr>bus := b\<rparr>
      in case rc of
           Inl e \<Rightarrow> (Inl e, mle, env)
         | Inr _ \<Rightarrow>
             let (rc, b) = msgbus_register (bus env) SapId_TmaSap SapId_TnmmSap Mle_on_tla_msg;
                 env = env\<lparr>bus := b\<rparr>
             in case rc of
                  Inl e \<Rightarrow> (Inl e, mle, env)
                | Inr _ \<Rightarrow> (Inr (), mle\<lparr>mle_initialised := True\<rparr>, env))"

section \<open>Session table\<close>

interpretation session_table: slot_table ms_in_use ms_issi "fresh_session f" for f
  by unfold_locales (simp_all add: fresh_session_def)

definition session_ok :: "MleSession \<Rightarrow> bool" where
  "session_ok s \<longleftrightarrow> ms_issi s AND TETRA_SSI_MASK_24 = ms_issi s"

definition mle_inv :: "Mle \<Rightarrow> bool" where
  "mle_inv mle \<longleftrightarrow> length (sessions mle) = MLE_SESSION_MAX \<and> slot_inv ms_in_use ms_issi (sessions mle) \<and>
     (\<forall>s\<in>set (sessions mle). session_ok s)"

lemma mask24_idem [simp]: "w AND TETRA_SSI_MASK_24 AND TETRA_SSI_MASK_24 = w AND TETRA_SSI_MASK_24"
  by (simp add: and.assoc)

lemma session_alloc_ok:
  assumes "mle_inv mle" "mle_session_alloc mle issi = (Some k, mle')"
  shows "k < MLE_SESSION_MAX" "mle_inv mle'" "mle_session_lookup mle' issi = Some k"
    "ms_issi (sessions mle' ! k) = issi AND TETRA_SSI_MASK_24"
    "mle' = mle\<lparr>sessions := sessions mle'\<rparr>" "j \<noteq> k \<Longrightarrow> sessions mle' ! j = sessions mle ! j"
proof -
  let ?i = "issi AND TETRA_SSI_MASK_24" and ?f = "fallback_gssi (mle_cfg mle)"
  have inv: "slot_inv ms_in_use ms_issi (sessions mle)" and l: "length (sessions mle) = MLE_SESSION_MAX"
    and ok: "\<forall>s\<in>set (sessions mle). session_ok s"
    using assms(1) by (simp_all add: mle_inv_def)
  have *: "k < MLE_SESSION_MAX \<and> mle_inv mle' \<and> mle_session_lookup mle' issi = Some k \<and> ms_issi (sessions mle' ! k) = ?i \<and>
      mle' = mle\<lparr>sessions := sessions mle'\<rparr> \<and> (j \<noteq> k \<longrightarrow> sessions mle' ! j = sessions mle ! j)"
  proof (cases "mle_session_lookup mle issi")
    case (Some i)
    then have "slot_find ms_in_use ms_issi ?i (sessions mle) = Some i" by (simp add: mle_session_lookup_def)
    from slot_findD [OF this] Some assms l show ?thesis
      by (simp add: mle_session_alloc_def mle_session_lookup_def)
  next
    case None
    then have miss: "slot_find ms_in_use ms_issi ?i (sessions mle) = None" by (simp add: mle_session_lookup_def)
    with assms(2) have free: "slot_free ms_in_use (sessions mle) = Some k"
      and m': "mle' = mle\<lparr>sessions := (sessions mle)[k := fresh_session ?f ?i]\<rparr>"
      by (auto simp: mle_session_alloc_def mle_session_lookup_def Let_def split: option.splits)
    have "session_ok (fresh_session ?f ?i)" by (simp add: session_ok_def fresh_session_def)
    from list_update_all [OF ok this, of k] session_table.alloc_inv [OF inv miss free, of ?f]
      session_table.alloc_find [OF inv miss free, of ?f] slot_freeD [OF free] l
    show ?thesis
      by (simp add: m' mle_inv_def mle_session_lookup_def session_table.key_fresh)
  qed
  then show "k < MLE_SESSION_MAX" "mle_inv mle'" "mle_session_lookup mle' issi = Some k" "ms_issi (sessions mle' ! k) = ?i"
    "mle' = mle\<lparr>sessions := sessions mle'\<rparr>" by simp_all
  show "sessions mle' ! j = sessions mle ! j" if "j \<noteq> k" using * that by simp
qed

lemma session_alloc_full: "mle_session_alloc mle issi = (None, mle') \<Longrightarrow> mle' = mle"
  by (auto simp: mle_session_alloc_def Let_def split: option.splits)

text \<open>Updates that keep the identity of the session keep the table.\<close>

lemma session_update_ok:
  assumes "mle_inv mle" "k < MLE_SESSION_MAX" "\<And>s. ms_issi (f s) = ms_issi s" "\<And>s. ms_in_use (f s) = ms_in_use s"
  shows "mle_inv (session_update k f mle)" "mle_session_lookup (session_update k f mle) i = mle_session_lookup mle i"
    "sessions (session_update k f mle) ! k = f (sessions mle ! k)"
proof -
  let ?s = "sessions mle ! k"
  have l: "k < length (sessions mle)" using assms(1,2) by (simp add: mle_inv_def)
  have "session_ok (f ?s)" using assms(1,3) l by (simp add: mle_inv_def session_ok_def)
  moreover have "\<forall>s\<in>set (sessions mle). session_ok s" using assms(1) by (simp add: mle_inv_def)
  ultimately have "\<forall>s\<in>set ((sessions mle)[k := f ?s]). session_ok s" by (rule list_update_all [rotated])
  moreover have "slot_inv ms_in_use ms_issi ((sessions mle)[k := f ?s])"
    using assms by (intro slot_inv_update) (simp_all add: mle_inv_def)
  ultimately show "mle_inv (session_update k f mle)"
    using assms(1) by (simp add: mle_inv_def session_update_def)
  show "mle_session_lookup (session_update k f mle) i = mle_session_lookup mle i"
    unfolding mle_session_lookup_def session_update_def
    using slot_find_update [of k "sessions mle" ms_in_use "f ?s" ms_issi] l assms(3,4) by simp
  show "sessions (session_update k f mle) ! k = f (sessions mle ! k)"
    using l by (simp add: session_update_def)
qed

lemma session_update_keeps [simp]:
  "mle_stats (session_update k f mle) = mle_stats mle" "mle_cfg (session_update k f mle) = mle_cfg mle"
  "mle_initialised (session_update k f mle) = mle_initialised mle"
  "mle_inv (mle\<lparr>mle_stats := st\<rparr>) = mle_inv mle"
  "mle_session_lookup (mle\<lparr>mle_stats := st\<rparr>) i = mle_session_lookup mle i"
  by (simp_all add: session_update_def mle_inv_def mle_session_lookup_def)

lemma refresh_keeps [simp]:
  "ms_issi (snd (refresh_session_from_db db s)) = ms_issi s" "ms_in_use (snd (refresh_session_from_db db s)) = ms_in_use s"
  "ms_state (snd (refresh_session_from_db db s)) = ms_state s" "ms_endpoint (snd (refresh_session_from_db db s)) = ms_endpoint s"
  by (simp_all add: refresh_session_from_db_def split: option.split)

lemma fsm_keeps [simp]: "ms_issi (mle_fsm_step s e) = ms_issi s" "ms_in_use (mle_fsm_step s e) = ms_in_use s"
  "ms_endpoint (mle_fsm_step s e) = ms_endpoint s" "ms_state (mle_fsm_step s e) = mle_next (ms_state s) e"
  by (simp_all add: mle_fsm_step_def)

section \<open>Automatic enrolment\<close>

definition db_opt_inv :: "SubscriberDb option \<Rightarrow> bool" where
  "db_opt_inv db \<longleftrightarrow> (\<forall>d. db = Some d \<longrightarrow> db_inv d)"

lemma auto_enroll_keeps:
  assumes "maybe_auto_enroll mle db issi = (r, mle', db')"
  shows "sessions mle' = sessions mle" "mle_initialised mle' = mle_initialised mle" "mle_cfg mle' = mle_cfg mle"
    "db_opt_inv db \<Longrightarrow> db_opt_inv db'"
proof -
  show "sessions mle' = sessions mle" "mle_initialised mle' = mle_initialised mle" "mle_cfg mle' = mle_cfg mle"
    using assms by (auto simp: maybe_auto_enroll_def Let_def split: option.splits sum.splits if_splits prod.splits)
  show "db_opt_inv db'" if "db_opt_inv db"
  proof (cases db)
    case None
    with assms show ?thesis by (simp add: maybe_auto_enroll_def db_opt_inv_def)
  next
    case (Some d)
    have "db' = db \<or> (\<exists>i e. db' = Some (snd (db_put_entity d i e)))"
      using assms Some by (auto simp: maybe_auto_enroll_def Let_def split: option.splits sum.splits if_splits prod.splits)
        (metis snd_conv)+
    with that Some db_put_inv(2) [of d] show ?thesis by (auto simp: db_opt_inv_def)
  qed
qed

section \<open>Protocol discriminator\<close>

lemma strip_mle_pd_ok:
  assumes "length (body pdu) = 32" "body_len_bits pdu \<le> 256" "3 \<le> body_len_bits pdu"
  shows "\<exists>out. strip_mle_pd pdu (uninit 32) 256 =
       Some (Inr (MleDisc_of_code (unat (drop_bit 5 (body pdu ! 0) AND 7)), out, body_len_bits pdu - 3)) \<and> length out = 32 \<and>
     take (body_len_bits pdu - 3) (bits_of out) = take (body_len_bits pdu - 3) (drop 3 (bits_of (body pdu)))"
proof -
  let ?n = "body_len_bits pdu - 3" and ?z = "replicate 32 0 :: u8 list"
  have n: "3 + ?n \<le> 8 * length (body pdu)" "0 + ?n \<le> 8 * length ?z" using assms by simp_all
  have z: "\<not> bits_of ?z ! (0 + i)" if "i < ?n" for i
    using that assms(2) by (simp add: nth_bits_of)
  obtain out where o: "or_bits (body pdu) 3 ?z 0 ?n = Some out" "length out = length ?z"
      "bits_of out = overwrite (bits_of ?z) 0 (take ?n (drop 3 (bits_of (body pdu))))"
    using or_bits_ok [OF n] z by blast
  have "take ?n (bits_of out) = take ?n (drop 3 (bits_of (body pdu)))"
    unfolding o(3) using n by (simp add: overwrite_def)
  with o assms show ?thesis
    by (auto simp: strip_mle_pd_def Let_def uninit_def)
qed

lemma strip_mle_pd_short: "body_len_bits pdu < 3 \<Longrightarrow> strip_mle_pd pdu out c = Some (Inl EPROTO)"
  by (simp add: strip_mle_pd_def)

section \<open>No handler aborts, and every handler keeps the entity well-formed\<close>

definition mle_safe :: "Mle \<Rightarrow> Env \<Rightarrow> (Mle \<times> SubscriberDb option \<times> Env) option \<Rightarrow> bool" where
  "mle_safe mle env r \<longleftrightarrow> (\<exists>mle' db' env'. r = Some (mle', db', env') \<and> mle_inv mle' \<and> db_opt_inv db' \<and>
     env_posts env env' \<and> mle_initialised mle' = mle_initialised mle)"

lemma mle_safe_keep [simp]: "mle_safe mle env (Some (mle', db, env)) \<longleftrightarrow>
    mle_inv mle' \<and> db_opt_inv db \<and> mle_initialised mle' = mle_initialised mle"
  by (simp add: mle_safe_def)

lemma tla_msg_facts:
  assumes "decoded_ok (tla_decoded pl)"
  shows "msg_ok (tla_msg pl)" "msg_good (tla_msg pl)"
  using assms by (simp_all add: tla_msg_def sapmsg_init_def msg_ok_def sizeof_TlaSapPayload_def)

lemma forward_posts: "decoded_ok d \<Longrightarrow> env_posts env (snd (forward_mm_request env ep a d))"
  using tla_msg_facts [of "tla_request ep a d"]
  by (simp add: forward_mm_request_def env_post_posts tla_request_def)

text \<open>The session part of \<open>handle_mm_pdu\<close>, before the state machine.\<close>

lemma handle_mm_pdu_eq:
  assumes "mm_iep_decode (Some bdy) n zero_decoded = Some (Inr (), d)"
    and "mle_session_alloc mle (ssi (tle_addr m)) = (Some k, mle1)"
    and "maybe_auto_enroll (session_update k (\<lambda>s. s\<lparr>ms_endpoint := tle_endpoint m\<rparr>) mle1) db (ssi (tle_addr m)) = (r, mle2, db')"
  shows "handle_mm_pdu mle db env m bdy n =
     (let mle3 = session_update k (\<lambda>s. snd (refresh_session_from_db db' s)) mle2
      in case mm_pdu_event (mm_pdu_type d) (mle_stats mle3) of
           None \<Rightarrow> Some (Inr (), mle3, db', env)
         | Some (e, st) \<Rightarrow> Some (fst (forward_mm_request env (tle_endpoint m) (tle_addr m) d),
             session_update k (\<lambda>s. mle_fsm_step s e) (mle3\<lparr>mle_stats := st\<rparr>), db', snd (forward_mm_request env (tle_endpoint m) (tle_addr m) d)))"
  using assms by (simp add: handle_mm_pdu_def Let_def split_beta split: option.split)

lemma handle_mm_pdu_safe:
  assumes "mle_inv mle" "db_opt_inv db" "n \<le> 8 * length bdy"
  shows "\<exists>rc r. handle_mm_pdu mle db env m bdy n = Some (rc, r) \<and> mle_safe mle env (Some r)"
proof -
  obtain rc d where d: "mm_iep_decode (Some bdy) n zero_decoded = Some (rc, d)" "decoded_ok d"
    using mm_iep_decode_total [OF assms(3) zero_decoded_ok] by blast
  obtain ki mle1 where a: "mle_session_alloc mle (ssi (tle_addr m)) = (ki, mle1)" by fastforce
  consider (err) e where "rc = Inl e" | (full) "rc = Inr ()" "ki = None" | (ok) k where "rc = Inr ()" "ki = Some k"
    by (cases rc; cases ki) auto
  then show ?thesis
  proof cases
    case err
    with d assms show ?thesis by (simp add: handle_mm_pdu_def)
  next
    case full
    with d a assms session_alloc_full [of mle "ssi (tle_addr m)" mle1] show ?thesis by (simp add: handle_mm_pdu_def)
  next
    case ok
    note al = session_alloc_ok [OF assms(1) a [unfolded ok(2)]]
    define m1 where "m1 = session_update k (\<lambda>s. s\<lparr>ms_endpoint := tle_endpoint m\<rparr>) mle1"
    obtain r mle2 db' where e: "maybe_auto_enroll m1 db (ssi (tle_addr m)) = (r, mle2, db')" by (metis prod_cases3)
    have i1: "mle_inv m1" unfolding m1_def using al by (intro session_update_ok) simp_all
    note en = auto_enroll_keeps [OF e]
    have i2: "mle_inv mle2" using i1 en by (simp add: mle_inv_def)
    have i3: "mle_inv (session_update k (\<lambda>s. snd (refresh_session_from_db db' s)) mle2)"
      using i2 al by (intro session_update_ok) simp_all
    then have i4: "mle_inv (session_update k (\<lambda>s. mle_fsm_step s ev)
        (session_update k (\<lambda>s. snd (refresh_session_from_db db' s)) mle2\<lparr>mle_stats := st\<rparr>))" for ev st
      using al by (intro session_update_ok) simp_all
    have "mle_initialised mle2 = mle_initialised mle"
      using en(2) al(5) by (simp add: m1_def) (metis Mle.select_convs(4) Mle.surjective Mle.update_convs(2))
    with handle_mm_pdu_eq [OF d(1) [unfolded ok(1)] a [unfolded ok(2)] e [unfolded m1_def]] i3 i4 en(4) assms(2)
      forward_posts [OF d(2), of env "tle_endpoint m" "tle_addr m"]
    show ?thesis by (auto simp: Let_def mle_safe_def split: option.splits)
  qed
qed

lemma mle_handle_tle_msg_safe:
  assumes "mle_inv mle" "db_opt_inv db" "length (body (tle_pdu m)) = 32" "body_len_bits (tle_pdu m) \<le> 256"
  shows "\<exists>rc r. mle_handle_tle_msg mle db env m = Some (rc, r) \<and> mle_safe mle env (Some r)"
proof (cases "mle_initialised mle \<and> 3 \<le> body_len_bits (tle_pdu m)")
  case True
  then obtain out where s: "strip_mle_pd (tle_pdu m) (uninit 32) 256 =
       Some (Inr (MleDisc_of_code (unat (drop_bit 5 (body (tle_pdu m) ! 0) AND 7)), out, body_len_bits (tle_pdu m) - 3))"
      "length out = 32"
    using strip_mle_pd_ok [OF assms(3,4)] by (elim conjE) blast
  have "body_len_bits (tle_pdu m) - 3 \<le> 8 * length out" using assms(4) s(2) by simp
  from handle_mm_pdu_safe [OF assms(1,2) this, of env m] s True assms(1,2) show ?thesis
    by (auto simp: mle_handle_tle_msg_def LLC_PDU_BODY_MAX_BYTES_def handle_mle_itself_def)
next
  case False
  with assms(1,2) strip_mle_pd_short [of "tle_pdu m" "uninit 32" 256] show ?thesis
    by (auto simp: mle_handle_tle_msg_def LLC_PDU_BODY_MAX_BYTES_def)
qed

lemma on_tle_msg_safe:
  assumes "mle_inv mle" "db_opt_inv db" "msg_ok msg" "msg_good msg" "sap msg = SapId_TleSap"
  shows "mle_safe mle env (on_tle_msg mle db env msg)"
proof (cases "payload msg = None \<or> len msg < 60")
  case True
  with assms show ?thesis by (auto simp: on_tle_msg_def sizeof_TleSapMsg_def split: option.splits)
next
  case False
  then obtain pl where pl: "payload msg = Some pl" by auto
  with assms(3,4,5) False have l: "60 \<le> length pl" "u16_at pl 18 \<le> 256" by (auto simp: msg_ok_def msg_good_def)
  have "length (body (tle_pdu (TleSapMsg_of_bytes pl))) = 32" "body_len_bits (tle_pdu (TleSapMsg_of_bytes pl)) \<le> 256"
    using l by (simp_all add: TleSapMsg_of_bytes_def LlcPdu_at_def)
  from mle_handle_tle_msg_safe [OF assms(1,2) this, of env] pl False show ?thesis
    by (auto simp: on_tle_msg_def sizeof_TleSapMsg_def)
qed

lemma mle_handle_tla_msg_inv:
  assumes "mle_inv mle"
  shows "mle_inv (snd (mle_handle_tla_msg mle m))" "mle_initialised (snd (mle_handle_tla_msg mle m)) = mle_initialised mle"
proof -
  have "mle_inv (snd (mle_handle_tla_msg mle m)) \<and> mle_initialised (snd (mle_handle_tla_msg mle m)) = mle_initialised mle"
  proof (cases "mle_session_lookup mle (ssi (tla_addr m))")
    case (Some k)
    then have "k < MLE_SESSION_MAX"
      using assms slot_findD(1) by (fastforce simp: mle_session_lookup_def mle_inv_def)
    then have "mle_inv (session_update k (\<lambda>s. mle_fsm_step s e) (mle\<lparr>mle_stats := st\<rparr>))" for e st
      using assms by (intro session_update_ok) simp_all
    with Some assms show ?thesis by (simp add: mle_handle_tla_msg_def Let_def split: MmPduTypeUl.split)
  qed (use assms in \<open>simp add: mle_handle_tla_msg_def\<close>)
  then show "mle_inv (snd (mle_handle_tla_msg mle m))" "mle_initialised (snd (mle_handle_tla_msg mle m)) = mle_initialised mle"
    by simp_all
qed

lemma on_tla_msg_inv:
  assumes "mle_inv mle"
  shows "mle_inv (on_tla_msg mle msg)" "mle_initialised (on_tla_msg mle msg) = mle_initialised mle"
  using mle_handle_tla_msg_inv [OF assms] assms by (simp_all add: on_tla_msg_def split: option.split)

section \<open>Runs of the state machine\<close>

text \<open>Where a session stands after a sequence of events, and what must have happened for it to be there.\<close>

definition attach_trace :: "MleEvt list \<Rightarrow> bool" where
  "attach_trace es \<longleftrightarrow> (\<exists>as bs. es = as @ MleEvt_DemandReceived # bs \<and> set bs \<inter> {MleEvt_AcceptSent, MleEvt_DetachReceived} = {})"

definition registered_trace :: "MleEvt list \<Rightarrow> bool" where
  "registered_trace es \<longleftrightarrow> (\<exists>as cs. es = as @ MleEvt_AcceptSent # cs \<and> attach_trace as \<and> MleEvt_DetachReceived \<notin> set cs)"

lemma attach_trace_snoc:
  "attach_trace (es @ [MleEvt_DemandReceived])"
  "attach_trace es \<Longrightarrow> e \<noteq> MleEvt_AcceptSent \<Longrightarrow> e \<noteq> MleEvt_DetachReceived \<Longrightarrow> attach_trace (es @ [e])"
  unfolding attach_trace_def by (fastforce, force)

lemma registered_trace_snoc:
  "attach_trace es \<Longrightarrow> registered_trace (es @ [MleEvt_AcceptSent])"
  "registered_trace es \<Longrightarrow> e \<noteq> MleEvt_DetachReceived \<Longrightarrow> registered_trace (es @ [e])"
  unfolding registered_trace_def by (fastforce, force)

lemma fsm_run_trace:
  assumes "st = ms_state (foldl mle_fsm_step s es)" "ms_state s = MleState_Idle"
  shows "(st = MleState_AttachPending \<longrightarrow> attach_trace es) \<and> (st \<in> {MleState_Registered, MleState_GroupAttach} \<longrightarrow> registered_trace es)"
  using assms
proof (induction es arbitrary: st rule: rev_induct)
  case (snoc e es)
  let ?s = "ms_state (foldl mle_fsm_step s es)"
  have st: "st = mle_next ?s e" using snoc.prems by simp
  from snoc.IH [OF refl snoc.prems(2)] st show ?case
    by (cases ?s) (auto intro: attach_trace_snoc registered_trace_snoc split: if_splits)
qed auto

section \<open>Forwarding to the MM\<close>

text \<open>What the MLE posts for a decoded PDU, and that the receiver reads back the same structure.\<close>

lemma tla_msg_read_back:
  assumes "decoded_image_ok d"
  shows "payload (norm_msg (tla_msg (tla_request ep a d))) = Some (TlaSapPayload_bytes (tla_request ep a d))"
    "TlaSapPayload_of_bytes (TlaSapPayload_bytes (tla_request ep a d)) = tla_request ep a d"
proof -
  have ok: "decoded_ok d" using assms by (simp add: decoded_image_ok_def)
  show "payload (norm_msg (tla_msg (tla_request ep a d))) = Some (TlaSapPayload_bytes (tla_request ep a d))"
    using ok by (simp add: norm_msg_def tla_msg_def sapmsg_init_def sizeof_TlaSapPayload_def tla_request_def)
  show "TlaSapPayload_of_bytes (TlaSapPayload_bytes (tla_request ep a d)) = tla_request ep a d"
    using assms by (intro TlaSapPayload_roundtrip) (simp add: tla_request_def)
qed

lemma attach_decoded_image: "length gl \<le> MM_GIU_MAX \<Longrightarrow> decoded_image_ok (attach_decoded rep mode gl)"
  by (simp add: decoded_image_ok_def attach_decoded_def decoded_ok_def zero_decoded_def zero_gild_def MmPduTypeUl_of_code_def)

definition session_state :: "Mle \<Rightarrow> u32 \<Rightarrow> MleState" where
  "session_state mle issi = (case mle_session_lookup mle issi of None \<Rightarrow> MleState_Idle | Some k \<Rightarrow> ms_state (sessions mle ! k))"

lemma session_alloc_state:
  assumes "mle_inv mle" "mle_session_alloc mle issi = (Some k, mle')"
  shows "ms_state (sessions mle' ! k) = session_state mle issi"
  using assms slot_freeD(1) [of ms_in_use "sessions mle" k]
  by (auto simp: mle_session_alloc_def session_state_def mle_session_lookup_def fresh_session_def Let_def split: option.splits)

lemma disc_mm:
  assumes "take 3 (bits_of bs) = [False, False, True]" "bs \<noteq> []"
  shows "MleDisc_of_code (unat (drop_bit 5 (bs ! 0) AND 7)) = MleDisc_Mm"
proof -
  have l: "8 \<le> 8 * length bs" using assms(2) by (cases bs) auto
  have n: "bits_of bs ! i = [False, False, True] ! i" if "i < 3" for i
    using that unfolding assms(1) [symmetric] by simp
  have b: "\<not> bit (bs ! 0) 7" "\<not> bit (bs ! 0) 6" "bit (bs ! 0) 5"
    using n [of 0] n [of 1] n [of 2] l assms(2) nth_bits_of [of 0 bs] by (simp_all add: nth_bits_of)
  have m: "(7 :: u8) = mask 3" by (simp add: mask_eq_exp_minus_1)
  have "bit (drop_bit 5 (bs ! 0) AND mask 3) k \<longleftrightarrow> k < 3 \<and> bit (bs ! 0) (5 + k)" for k
    by (simp add: bit_simps ac_simps) (auto dest: bit_imp_le_length)
  moreover have "k < 3 \<and> bit (bs ! 0) (5 + k) \<longleftrightarrow> k = 0" for k :: nat
    using b by (auto simp: less_Suc_eq numeral_3_eq_3)
  ultimately have "drop_bit 5 (bs ! 0) AND 7 = 1"
    unfolding m by (intro bit_word_eqI) (simp add: bit_1_iff)
  then show ?thesis by (simp add: MleDisc_of_code_def)
qed

text \<open>A supported PDU from a terminal with a session: the session follows the event and the request is forwarded.\<close>

lemma handle_mm_pdu_forward:
  assumes "mle_inv mle" "mm_iep_decode (Some bdy) n zero_decoded = Some (Inr (), d)"
    and "mle_session_alloc mle (ssi (tle_addr m)) = (Some k, mle1)" "\<And>st. \<exists>st'. mm_pdu_event (mm_pdu_type d) st = Some (e, st')"
    and "f = forward_mm_request env (tle_endpoint m) (tle_addr m) d"
  shows "\<exists>mle' db'. handle_mm_pdu mle db env m bdy n = Some (fst f, mle', db', snd f) \<and>
     mle_session_lookup mle' (ssi (tle_addr m)) = Some k \<and> ms_endpoint (sessions mle' ! k) = tle_endpoint m \<and>
     ms_state (sessions mle' ! k) = mle_next (session_state mle (ssi (tle_addr m))) e"
proof -
  let ?i = "ssi (tle_addr m)"
  note al = session_alloc_ok [OF assms(1,3)]
  define m1 where "m1 = session_update k (\<lambda>s. s\<lparr>ms_endpoint := tle_endpoint m\<rparr>) mle1"
  obtain r mle2 db' where en: "maybe_auto_enroll m1 db ?i = (r, mle2, db')" by (metis prod_cases3)
  define m3 where "m3 = session_update k (\<lambda>s. snd (refresh_session_from_db db' s)) mle2"
  have u1: "mle_inv m1" "mle_session_lookup m1 ?i = Some k" "ms_endpoint (sessions m1 ! k) = tle_endpoint m"
      "ms_state (sessions m1 ! k) = session_state mle ?i"
    unfolding m1_def using session_update_ok [OF al(2,1), of "\<lambda>s. s\<lparr>ms_endpoint := tle_endpoint m\<rparr>"] al(3)
      session_alloc_state [OF assms(1,3)] by simp_all
  have u2: "mle_inv mle2" "mle_session_lookup mle2 ?i = Some k" "sessions mle2 = sessions m1"
    using auto_enroll_keeps [OF en] u1 by (simp_all add: mle_inv_def mle_session_lookup_def)
  have u3: "mle_inv m3" "mle_session_lookup m3 ?i = Some k" "ms_endpoint (sessions m3 ! k) = tle_endpoint m"
      "ms_state (sessions m3 ! k) = session_state mle ?i"
    unfolding m3_def using session_update_ok [OF u2(1) al(1), of "\<lambda>s. snd (refresh_session_from_db db' s)"] u1 u2 by simp_all
  obtain st where st: "mm_pdu_event (mm_pdu_type d) (mle_stats m3) = Some (e, st)" using assms(4) by blast
  define m4 where "m4 = session_update k (\<lambda>s. mle_fsm_step s e) (m3\<lparr>mle_stats := st\<rparr>)"
  have "mle_inv (m3\<lparr>mle_stats := st\<rparr>)" using u3(1) by simp
  from session_update_ok [OF this al(1), of "\<lambda>s. mle_fsm_step s e"] u3
  have "mle_session_lookup m4 ?i = Some k" "ms_endpoint (sessions m4 ! k) = tle_endpoint m"
      "ms_state (sessions m4 ! k) = mle_next (session_state mle ?i) e"
    unfolding m4_def by simp_all
  moreover have "handle_mm_pdu mle db env m bdy n = Some (fst f, m4, db', snd f)"
    using handle_mm_pdu_eq [OF assms(2,3) en [unfolded m1_def]] st by (simp add: m3_def [symmetric] m4_def assms(5))
  ultimately show ?thesis by blast
qed

lemma mle_attach_forwarded_full:
  assumes "mle_inv mle" "mle_initialised mle" "env_inv env" "env_room env MsgPrio_Normal"
    and "fst (mle_session_alloc mle (ssi (tle_addr m))) \<noteq> None"
    and "length (body (tle_pdu m)) = 32" "body_len_bits (tle_pdu m) = n" "n \<le> 256"
    and "take n (bits_of (body (tle_pdu m))) = [False, False, True] @ attach_request_bits rep mode gl @ xs"
    and "mode \<in> {0, 1}" "\<forall>g\<in>set gl. giu_wf g" "length gl \<le> MM_GIU_MAX"
  shows "\<exists>mle' db' env' k. mle_handle_tle_msg mle db env m = Some (Inr (), mle', db', env') \<and>
     mle_session_lookup mle' (ssi (tle_addr m)) = Some k \<and> ms_endpoint (sessions mle' ! k) = tle_endpoint m \<and>
     ms_state (sessions mle' ! k) = mle_next (session_state mle (ssi (tle_addr m))) MleEvt_GrpDemandReceived \<and>
     env_abs env' = (env_abs env)[1 := env_abs env ! 1 @
       [norm_msg (tla_msg (tla_request (tle_endpoint m) (tle_addr m) (attach_decoded rep mode gl)))]]"
proof -
  let ?d = "attach_decoded rep mode gl" and ?i = "ssi (tle_addr m)" and ?B = "body (tle_pdu m)"
  let ?f = "forward_mm_request env (tle_endpoint m) (tle_addr m) ?d"
  have "n = length (take n (bits_of ?B))" using assms(6,8) by simp
  then have n: "3 \<le> n" unfolding assms(9) by simp
  have t3: "take 3 (bits_of ?B) = [False, False, True]"
    using n arg_cong [OF assms(9), of "take 3"] by (simp add: min_def)
  obtain out where s: "strip_mle_pd (tle_pdu m) (uninit 32) 256 = Some (Inr (MleDisc_Mm, out, n - 3))" "length out = 32"
      "take (n - 3) (bits_of out) = take (n - 3) (drop 3 (bits_of ?B))"
    using strip_mle_pd_ok [OF assms(6)] disc_mm [OF t3] assms(6,7,8) n by force
  have "take (n - 3) (bits_of out) = attach_request_bits rep mode gl @ xs"
    unfolding s(3) using n arg_cong [OF assms(9), of "drop 3"] by (simp add: drop_take)
  then have dec: "mm_iep_decode (Some out) (n - 3) zero_decoded = Some (Inr (), ?d)"
    using assms(8,10-12) s(2) by (intro attach_request_decoded) simp_all
  obtain k mle1 where a: "mle_session_alloc mle ?i = (Some k, mle1)" using assms(5) by (metis fst_conv option.exhaust prod.exhaust)
  have "\<exists>st'. mm_pdu_event (mm_pdu_type ?d) st = Some (MleEvt_GrpDemandReceived, st')" for st
    by (simp add: mm_pdu_event_def attach_decoded_def)
  from handle_mm_pdu_forward [OF assms(1) dec a this refl, of db env] obtain mle' db' where
    h: "handle_mm_pdu mle db env m out (n - 3) = Some (fst ?f, mle', db', snd ?f)" "mle_session_lookup mle' ?i = Some k"
      "ms_endpoint (sessions mle' ! k) = tle_endpoint m" "ms_state (sessions mle' ! k) = mle_next (session_state mle ?i) MleEvt_GrpDemandReceived"
    by blast
  have f: "fst ?f = Inr ()" "env_abs (snd ?f) = (env_abs env)[1 := env_abs env ! 1 @ [norm_msg (tla_msg (tla_request (tle_endpoint m) (tle_addr m) ?d))]]"
    unfolding forward_mm_request_def using assms(3,4) attach_decoded_image [OF assms(12), of rep mode]
      tla_msg_facts [of "tla_request (tle_endpoint m) (tle_addr m) ?d"]
    by (simp_all add: env_post_room [where p = 1] tla_request_def decoded_image_ok_def)
      (simp_all add: env_post_room [where p = 1] tla_msg_def sapmsg_init_def sizeof_TlaSapPayload_def)
  have "mle_handle_tle_msg mle db env m = Some (Inr (), mle', db', snd ?f)"
    using s(1) h(1) f(1) assms(2) by (simp add: mle_handle_tle_msg_def LLC_PDU_BODY_MAX_BYTES_def)
  with h f(2) show ?thesis by blast
qed

section \<open>Detach\<close>

text \<open>The parser knows two PDU types only; a U-ITSI-DETACH is refused before any session is touched.\<close>

lemma detach_not_decoded:
  assumes "4 \<le> n" "n \<le> 8 * length bs" "take 4 (bits_of bs) = word_bits 4 (6 :: u32)"
  shows "\<exists>d. mm_iep_decode (Some bs) n zero_decoded = Some (Inl ENOTSUP, d)"
proof -
  let ?r = "\<lparr>r_bits = bs, r_len_bits = n, r_pos = 0, overrun = False\<rparr>"
  have inv: "rb_inv ?r" using assms(2) by (simp add: rb_inv_def rb_ok_def)
  have "rb_rest ?r = take 4 (bits_of bs) @ drop 4 (take n (bits_of bs))"
    using assms(1) append_take_drop_id [of 4 "take n (bits_of bs)"] by (simp add: rb_rest_def min_def)
  then have r: "rb_rest ?r = word_bits 4 (6 :: u32) @ drop 4 (take n (bits_of bs))" by (simp add: assms(3))
  have "fits 4 6" by (simp add: fits_def take_bit_eq_mask mask_eq_exp_minus_1)
  from rb_field [OF inv this r] obtain r1 where "rbuf_read ?r 4 = Some (6, r1)" "rb_step ?r (word_bits 4 (6 :: u32)) r1"
    by (elim exE conjE)
  then show ?thesis using assms(1) by (simp add: mm_iep_decode_def Let_def rb_step_def rb_inv_def)
qed

section \<open>Properties\<close>

text \<open>
  C5: a terminal counts as registered only after it registered. A session, from its allocation on and
  through any sequence of events, stands in \<open>Registered\<close> or \<open>GroupAttach\<close> only if a location update
  demand was received, an accept was sent later, and no detach arrived since that demand; it stands in
  \<open>AttachPending\<close> only if a demand was received and since then neither accept nor detach.
\<close>

theorem mle_registered_only_after_accept:
  assumes "st = ms_state (foldl mle_fsm_step (fresh_session g issi) es)"
  shows "(st = MleState_AttachPending \<longrightarrow> attach_trace es) \<and> (st \<in> {MleState_Registered, MleState_GroupAttach} \<longrightarrow> registered_trace es)"
  using fsm_run_trace [OF assms] by (simp add: fresh_session_def)

theorem mle_registered_only_after_accept_witness:
  "ms_state (foldl mle_fsm_step (fresh_session 0 7)
      [MleEvt_GrpDemandReceived, MleEvt_DemandReceived, MleEvt_AcceptSent, MleEvt_GrpDemandReceived]) = MleState_GroupAttach \<and>
   registered_trace [MleEvt_GrpDemandReceived, MleEvt_DemandReceived, MleEvt_AcceptSent, MleEvt_GrpDemandReceived]"
  using mle_registered_only_after_accept [where g = 0 and issi = 7 and
      es = "[MleEvt_GrpDemandReceived, MleEvt_DemandReceived, MleEvt_AcceptSent, MleEvt_GrpDemandReceived]", OF refl]
  by (simp add: fresh_session_def)

text \<open>
  The MLE's bus handlers are safe. For every message whose payload covers its length, a TLE-SAP
  message carrying a body length within its array, every well-formed session table and database, the
  handlers return without reading outside an array; at most one session per ISSI is in use afterwards,
  the database keeps its invariant with profile 0 intact, and the bus is changed by well-formed posts
  only.
\<close>

theorem mle_handlers_safe:
  assumes "mle_inv mle" "db_opt_inv db" "msg_ok msg"
  shows "(msg_good msg \<and> sap msg = SapId_TleSap \<longrightarrow> (\<exists>mle' db' env'. on_tle_msg mle db env msg = Some (mle', db', env') \<and>
      mle_inv mle' \<and> db_opt_inv db' \<and> env_posts env env')) \<and> mle_inv (on_tla_msg mle msg)"
  using on_tle_msg_safe [OF assms, of env] on_tla_msg_inv(1) [OF assms(1)] by (auto simp: mle_safe_def)

definition ex_mle :: Mle where
  "ex_mle = zero_mle\<lparr>mle_cfg := \<lparr>accept_unknown = True, default_profile_id = 0, fallback_gssi = 0x2F4D61\<rparr>, mle_initialised := True\<rparr>"

lemma ex_mle_inv: "mle_inv ex_mle"
  by (simp add: mle_inv_def ex_mle_def zero_mle_def zero_session_def session_ok_def slot_inv_def)

lemma ex_mle_flags [simp]: "mle_initialised ex_mle"
  by (simp add: ex_mle_def)

theorem mle_handlers_safe_witness:
  "(\<exists>mle' db' env'. on_tle_msg ex_mle None ex_env (sapmsg_init SapId_TmaSap SapId_TmaSap SapId_TleSap (Some (replicate 60 0)) 60) =
      Some (mle', db', env') \<and> mle_inv mle' \<and> db_opt_inv db' \<and> env_posts ex_env env')"
  using mle_handlers_safe [OF ex_mle_inv, of None "sapmsg_init SapId_TmaSap SapId_TmaSap SapId_TleSap (Some (replicate 60 0)) 60" ex_env]
  by (simp add: db_opt_inv_def msg_ok_def sapmsg_init_def msg_good_def u16_at_def)

text \<open>
  C23: a group attachment request reaches the MM unchanged. When the LLC delivers a body of the MM
  discriminator followed by a request for at most four well-formed group identities, whatever follows,
  with a session slot available and room on the bus, the MLE returns 0, the terminal's session carries
  the endpoint and the state after the group demand event, and exactly one message is appended to the
  normal queue; the MM reads from its payload the same endpoint, address, mode and identities.
\<close>

theorem mle_attach_forwarded:
  assumes "mle_inv mle" "mle_initialised mle" "env_inv env" "env_room env MsgPrio_Normal"
    and "fst (mle_session_alloc mle (ssi (tle_addr m))) \<noteq> None"
    and "length (body (tle_pdu m)) = 32" "body_len_bits (tle_pdu m) = n" "n \<le> 256"
    and "take n (bits_of (body (tle_pdu m))) = [False, False, True] @ attach_request_bits rep mode gl @ xs"
    and "mode \<in> {0, 1}" "\<forall>g\<in>set gl. giu_wf g" "length gl \<le> MM_GIU_MAX"
  shows "\<exists>mle' db' env' k bs msg. mle_handle_tle_msg mle db env m = Some (Inr (), mle', db', env') \<and>
     mle_session_lookup mle' (ssi (tle_addr m)) = Some k \<and> ms_endpoint (sessions mle' ! k) = tle_endpoint m \<and>
     ms_state (sessions mle' ! k) = mle_next (session_state mle (ssi (tle_addr m))) MleEvt_GrpDemandReceived \<and>
     env_abs env' = (env_abs env)[1 := env_abs env ! 1 @ [msg]] \<and> dest msg = SapId_TmaSap \<and> sap msg = SapId_TlmcSap \<and>
     payload msg = Some bs \<and> TlaSapPayload_of_bytes bs = \<lparr>tla_endpoint = tle_endpoint m, tla_addr = tle_addr m,
       tla_decoded = attach_decoded rep mode gl, tla_is_attach = True\<rparr>"
proof -
  let ?t = "tla_request (tle_endpoint m) (tle_addr m) (attach_decoded rep mode gl)"
  have "?t = \<lparr>tla_endpoint = tle_endpoint m, tla_addr = tle_addr m, tla_decoded = attach_decoded rep mode gl, tla_is_attach = True\<rparr>"
    by (simp add: tla_request_def attach_decoded_def)
  moreover have "dest (norm_msg (tla_msg ?t)) = SapId_TmaSap" "sap (norm_msg (tla_msg ?t)) = SapId_TlmcSap"
    by (simp_all add: norm_msg_def tla_msg_def sapmsg_init_def)
  ultimately show ?thesis
    using mle_attach_forwarded_full [OF assms, of db] tla_msg_read_back [OF attach_decoded_image [OF assms(12), of rep mode]]
    by metis
qed

definition ex_tle_up :: TleSapMsg where
  "ex_tle_up = \<lparr>tle_endpoint = 5, tle_addr = \<lparr>ssi = 0x282FF4, ssi_type = SsiType_Issi\<rparr>,
     tle_pdu = zero_pdu\<lparr>body := [0x2E, 0xF0, 0x09, 0x01, 0x40, 0xBD, 0x35, 0x84] @ replicate 24 0, body_len_bits := 63\<rparr>\<rparr>"

lemma ex_tle_up_simps [simp]: "ssi (tle_addr ex_tle_up) = 0x282FF4" "tle_endpoint ex_tle_up = 5"
  "length (body (tle_pdu ex_tle_up)) = 32" "body_len_bits (tle_pdu ex_tle_up) = 63"
  by (simp_all add: ex_tle_up_def)

lemma ex_attach_giu: "giu (attach_decoded rep mode [ex_giu]) = [ex_giu, zero_giu, zero_giu, zero_giu]"
  by (simp add: attach_decoded_def MM_GIU_MAX_def numeral_eq_Suc)

lemma ex_giu_wf: "giu_wf ex_giu"
  by (simp add: giu_wf_def ex_giu_def zero_giu_def fits_def take_bit_eq_mask mask_eq_exp_minus_1)

theorem mle_attach_forwarded_witness:
  "\<exists>mle' db' env' k bs msg. mle_handle_tle_msg ex_mle None ex_env ex_tle_up = Some (Inr (), mle', db', env') \<and>
     mle_session_lookup mle' 0x282FF4 = Some k \<and> ms_endpoint (sessions mle' ! k) = 5 \<and>
     ms_state (sessions mle' ! k) = MleState_Idle \<and> env_abs env' = (env_abs ex_env)[1 := env_abs ex_env ! 1 @ [msg]] \<and>
     payload msg = Some bs \<and> giu (tla_decoded (TlaSapPayload_of_bytes bs)) = [ex_giu, zero_giu, zero_giu, zero_giu]"
proof -
  have b: "take 63 (bits_of (body (tle_pdu ex_tle_up))) = [False, False, True] @ attach_request_bits False 1 [ex_giu] @ []"
    by code_simp
  have a: "fst (mle_session_alloc ex_mle (ssi (tle_addr ex_tle_up))) \<noteq> None"
    by code_simp
  have s: "session_state ex_mle 0x282FF4 = MleState_Idle"
    by code_simp
  show ?thesis
    using mle_attach_forwarded [OF ex_mle_inv _ ex_env_inv _ a _ _ _ b, of None] ex_giu_wf s
    by (simp add: MM_GIU_MAX_def) (elim exE conjE, intro exI conjI, assumption+, simp add: ex_attach_giu)
qed

text \<open>
  A terminal's detach is dropped. A U-ITSI-DETACH delivered by the LLC is answered with
  \<open>-ENOTSUP\<close> by the MM parser, so the MLE changes neither sessions nor database and forwards nothing:
  the detach branch of the MLE is never reached from the air and no session ever leaves the table.
\<close>

theorem mle_detach_ignored:
  assumes "mle_initialised mle" "length (body (tle_pdu m)) = 32" "7 \<le> body_len_bits (tle_pdu m)" "body_len_bits (tle_pdu m) \<le> 256"
    and "take 7 (bits_of (body (tle_pdu m))) = [False, False, True] @ word_bits 4 (of_nat (MmPduTypeUl_code MmPduUl_UItsiDetach) :: u32)"
  shows "mle_handle_tle_msg mle db env m = Some (Inl ENOTSUP, mle, db, env)"
proof -
  let ?B = "body (tle_pdu m)" and ?n = "body_len_bits (tle_pdu m)"
  have t3: "take 3 (bits_of ?B) = [False, False, True]" using arg_cong [OF assms(5), of "take 3"] by simp
  obtain out where s: "strip_mle_pd (tle_pdu m) (uninit 32) 256 = Some (Inr (MleDisc_Mm, out, ?n - 3))" "length out = 32"
      "take (?n - 3) (bits_of out) = take (?n - 3) (drop 3 (bits_of ?B))"
    using strip_mle_pd_ok [OF assms(2,4)] disc_mm [OF t3] assms(2,3) by force
  have "take 4 (bits_of out) = take 4 (take (?n - 3) (bits_of out))" using assms(3) by (simp add: min_absorb1)
  also have "\<dots> = take 4 (drop 3 (bits_of ?B))" unfolding s(3) using assms(3) by (simp add: min_absorb1)
  also have "\<dots> = word_bits 4 (6 :: u32)" using arg_cong [OF assms(5), of "drop 3"] by (simp add: drop_take)
  finally have "\<exists>d. mm_iep_decode (Some out) (?n - 3) zero_decoded = Some (Inl ENOTSUP, d)"
    using assms(3,4) s(2) by (intro detach_not_decoded) simp_all
  with s assms(1) show ?thesis
    by (auto simp: mle_handle_tle_msg_def LLC_PDU_BODY_MAX_BYTES_def handle_mm_pdu_def)
qed

theorem mle_detach_ignored_witness:
  "mle_handle_tle_msg ex_mle None ex_env (ex_tle_up\<lparr>tle_pdu := (tle_pdu ex_tle_up)\<lparr>body := 0x2C # replicate 31 0\<rparr>\<rparr>) =
     Some (Inl ENOTSUP, ex_mle, None, ex_env)"
proof -
  have "take 7 (bits_of (0x2C # replicate 31 0)) = [False, False, True] @ word_bits 4 (of_nat (MmPduTypeUl_code MmPduUl_UItsiDetach) :: u32)"
    by code_simp
  then show ?thesis
    by (intro mle_detach_ignored) (simp_all add: ex_mle_def ex_tle_up_def)
qed

end
