(* ===== verification/Mm_Build.thy ===== *)
theory Mm_Build
  imports Mm_Iep
begin

text \<open>
  The downlink MM builders of \<open>sw/mm/mm_accept_builder.c\<close> with the parameter structures of
  \<open>sw/mm/include/tetra/mm.h\<close>: the write cursor with its sticky overflow flag and the
  back-patched length fields, the group-identity elements, D-LOCATION-UPDATE-ACCEPT and
  D-ATTACH-DETACH-GROUP-IDENTITY-ACK. \<open>None\<close> is an access outside an array. The bit strings the
  builders are meant to emit are specified independently, with their true element lengths, and the
  builders are proved to emit them exactly, or to report \<open>-ENOSPC\<close>.
\<close>

section \<open>Parameter structures\<close>

definition MmPduDl_DLocationUpdateAccept :: u64 where
  "MmPduDl_DLocationUpdateAccept = 5"
definition MmPduDl_DAttachDetachGroupIdentityAck :: u64 where
  "MmPduDl_DAttachDetachGroupIdentityAck = 11"
definition MmElemDl_GroupIdentityLocationAccept :: u64 where
  "MmElemDl_GroupIdentityLocationAccept = 5"
definition MmElemDl_GroupIdentityDownlink :: u64 where
  "MmElemDl_GroupIdentityDownlink = 7"

lemmas MmDl_defs = MmPduDl_DLocationUpdateAccept_def MmPduDl_DAttachDetachGroupIdentityAck_def
  MmElemDl_GroupIdentityLocationAccept_def MmElemDl_GroupIdentityDownlink_def

definition MM_GID_MAX :: nat where
  "MM_GID_MAX = 4"

record MmGroupIdentityAttachment =
  att_lifetime :: u8
  att_class_of_usage :: u8

record MmGroupIdentityDownlink =
  gid_is_attach :: bool
  gid_attach :: MmGroupIdentityAttachment
  gid_detachment_type :: u8
  gid_address_type :: u8
  gid_gssi :: u32
  gid_address_extension :: u32
  gid_vgssi :: u32

record MmAcceptParams =
  accept_type :: LocationUpdateType
  energy_saving_info_present :: bool
  ap_energy_saving_mode :: EnergySavingMode
  energy_saving_frame_number :: u8
  energy_saving_multiframe :: u8
  gila_present :: bool
  gila_accept_reject :: u8
  ap_num_gid :: u8
  ap_gid :: "MmGroupIdentityDownlink list"

record MmGrpAckParams =
  accept_reject :: u8
  gid_downlink_present :: bool
  ga_num_gid :: u8
  ga_gid :: "MmGroupIdentityDownlink list"

section \<open>Write cursor\<close>

record WBuf =
  w_bits :: "u8 list"
  w_cap_bits :: nat
  w_pos :: nat
  w_overflow :: bool

text \<open>The loop shared by both writers: \<open>n\<close> bits of \<open>v\<close>, most significant first, from bit \<open>i\<close>.\<close>

fun wbuf_loop :: "u8 list \<Rightarrow> nat \<Rightarrow> nat \<Rightarrow> 'a::len word \<Rightarrow> u8 list option" where
  "wbuf_loop B bit_idx 0 v = Some B"
| "wbuf_loop B bit_idx (Suc n) v = do {
     byte \<leftarrow> arr_get B (bit_idx div 8);
     let m = push_bit (7 - bit_idx mod 8) 1;
     B \<leftarrow> arr_set B (bit_idx div 8) (if bit v n then byte OR m else byte AND NOT m);
     wbuf_loop B (bit_idx + 1) n v
   }"

definition wbuf_put :: "WBuf \<Rightarrow> u64 \<Rightarrow> nat \<Rightarrow> WBuf option" where
  "wbuf_put w v n =
     (if n = 0 then Some w
      else if n > 64 \<or> w_pos w + n > w_cap_bits w then Some (w\<lparr>w_overflow := True\<rparr>)
      else do {
        B \<leftarrow> wbuf_loop (w_bits w) (w_pos w) n v;
        Some (w\<lparr>w_bits := B, w_pos := w_pos w + n\<rparr>)
      })"

definition wbuf_patch_11 :: "WBuf \<Rightarrow> nat \<Rightarrow> u16 \<Rightarrow> WBuf option" where
  "wbuf_patch_11 w p v11 =
     (if p + 11 > w_cap_bits w then Some (w\<lparr>w_overflow := True\<rparr>)
      else do {
        B \<leftarrow> wbuf_loop (w_bits w) p 11 v11;
        Some (w\<lparr>w_bits := B\<rparr>)
      })"

section \<open>Elements\<close>

definition put_type2_generic :: "WBuf \<Rightarrow> bool \<Rightarrow> u64 \<Rightarrow> nat \<Rightarrow> WBuf option" where
  "put_type2_generic w present v width = do {
     w \<leftarrow> wbuf_put w (if present then 1 else 0) 1;
     if present then wbuf_put w v width else Some w
   }"

definition put_gid_downlink :: "WBuf \<Rightarrow> MmGroupIdentityDownlink \<Rightarrow> WBuf option" where
  "put_gid_downlink w g = do {
     w \<leftarrow> wbuf_put w (if gid_is_attach g then 0 else 1) 1;
     w \<leftarrow> (if gid_is_attach g then do {
             w \<leftarrow> wbuf_put w (ucast (att_lifetime (gid_attach g))) 2;
             wbuf_put w (ucast (att_class_of_usage (gid_attach g))) 3
           } else wbuf_put w (ucast (gid_detachment_type g)) 2);
     w \<leftarrow> wbuf_put w (ucast (gid_address_type g)) 2;
     w \<leftarrow> (if gid_address_type g = 0 \<or> gid_address_type g = 1 \<or> gid_address_type g = 3
           then wbuf_put w (ucast (gid_gssi g AND TETRA_SSI_MASK_24)) 24 else Some w);
     w \<leftarrow> (if gid_address_type g = 1 \<or> gid_address_type g = 3
           then wbuf_put w (ucast (gid_address_extension g AND TETRA_SSI_MASK_24)) 24 else Some w);
     if gid_address_type g = 2 \<or> gid_address_type g = 3
     then wbuf_put w (ucast (gid_vgssi g AND TETRA_SSI_MASK_24)) 24 else Some w
   }"

text \<open>\<open>for (i = 0; i < num_gid; ++i) put_gid_downlink(w, &gids[i]);\<close> from index \<open>i\<close> with \<open>k\<close> to go.\<close>

fun put_gids :: "WBuf \<Rightarrow> nat \<Rightarrow> nat \<Rightarrow> MmGroupIdentityDownlink list \<Rightarrow> WBuf option" where
  "put_gids w i 0 gids = Some w"
| "put_gids w i (Suc k) gids = do {
     g \<leftarrow> arr_get gids i;
     w \<leftarrow> put_gid_downlink w g;
     put_gids w (i + 1) k gids
   }"

definition put_gid_downlink_list :: "WBuf \<Rightarrow> u8 \<Rightarrow> MmGroupIdentityDownlink list \<Rightarrow> WBuf option" where
  "put_gid_downlink_list w num_gid gids =
     (if num_gid = 0 then Some w
      else do {
        w \<leftarrow> wbuf_put w 1 1;
        w \<leftarrow> wbuf_put w MmElemDl_GroupIdentityDownlink 4;
        let length_pos = w_pos w;
        w \<leftarrow> wbuf_put w 0 11;
        let after_length = w_pos w;
        w \<leftarrow> wbuf_put w (ucast num_gid) 6;
        w \<leftarrow> put_gids w 0 (unat num_gid) gids;
        let actual_after_lf = w_pos w - after_length;
        wbuf_patch_11 w length_pos (of_nat actual_after_lf)
      })"

definition put_gila :: "WBuf \<Rightarrow> MmAcceptParams \<Rightarrow> WBuf option" where
  "put_gila w p = do {
     w \<leftarrow> wbuf_put w 1 1;
     w \<leftarrow> wbuf_put w MmElemDl_GroupIdentityLocationAccept 4;
     let length_pos = w_pos w;
     w \<leftarrow> wbuf_put w 0 11;
     let payload_start = w_pos w;
     w \<leftarrow> wbuf_put w (ucast (gila_accept_reject p)) 1;
     w \<leftarrow> wbuf_put w 0 1;
     let inner_obit = ap_num_gid p > 0;
     w \<leftarrow> wbuf_put w (if inner_obit then 1 else 0) 1;
     w \<leftarrow> (if inner_obit then do {
             w \<leftarrow> put_gid_downlink_list w (ap_num_gid p) (ap_gid p);
             wbuf_put w 0 1
           } else Some w);
     wbuf_patch_11 w length_pos (of_nat (w_pos w - payload_start))
   }"

section \<open>Builders\<close>

definition put_energy_saving :: "WBuf \<Rightarrow> MmAcceptParams \<Rightarrow> WBuf option" where
  "put_energy_saving w p =
     (if energy_saving_info_present p then do {
        w \<leftarrow> wbuf_put w 1 1;
        w \<leftarrow> wbuf_put w (of_nat (EnergySavingMode_code (ap_energy_saving_mode p)) AND 7) 3;
        w \<leftarrow> wbuf_put w (ucast (energy_saving_frame_number p AND 0x1F)) 5;
        wbuf_put w (ucast (energy_saving_multiframe p AND 0x3F)) 6
      } else wbuf_put w 0 1)"

text \<open>The return value of a builder: \<open>-ENOSPC\<close> on overflow, otherwise the number of bits.\<close>

definition wbuf_finish :: "WBuf \<Rightarrow> nat res \<times> u8 list" where
  "wbuf_finish w = (if w_overflow w then Inl ENOSPC else Inr (w_pos w), w_bits w)"

definition wbuf_open :: "u8 list \<Rightarrow> nat \<Rightarrow> WBuf option" where
  "wbuf_open out capb =
     (if (capb + 7) div 8 \<le> length out
      then Some \<lparr>w_bits = replicate ((capb + 7) div 8) 0 @ drop ((capb + 7) div 8) out,
             w_cap_bits = capb, w_pos = 0, w_overflow = False\<rparr>
      else None)"

definition mm_build_d_loc_update_accept :: "u8 list \<Rightarrow> nat \<Rightarrow> MmAcceptParams \<Rightarrow> (nat res \<times> u8 list) option" where
  "mm_build_d_loc_update_accept out capb p =
     (if capb < 16 then Some (Inl EINVAL, out)
      else do {
        w \<leftarrow> wbuf_open out capb;
        w \<leftarrow> wbuf_put w MmPduDl_DLocationUpdateAccept 4;
        w \<leftarrow> wbuf_put w (of_nat (LocationUpdateType_code (accept_type p)) AND 7) 3;
        let obit = energy_saving_info_present p \<or> gila_present p;
        w \<leftarrow> wbuf_put w (if obit then 1 else 0) 1;
        if \<not> obit then Some (wbuf_finish w)
        else do {
          w \<leftarrow> put_type2_generic w False 0 24;
          w \<leftarrow> put_type2_generic w False 0 24;
          w \<leftarrow> put_type2_generic w False 0 16;
          w \<leftarrow> put_energy_saving w p;
          w \<leftarrow> put_type2_generic w False 0 6;
          w \<leftarrow> (if gila_present p then put_gila w p else Some w);
          w \<leftarrow> wbuf_put w 0 1;
          Some (wbuf_finish w)
        }
      })"

definition mm_build_d_attach_detach_grp_id_ack :: "u8 list \<Rightarrow> nat \<Rightarrow> MmGrpAckParams \<Rightarrow> (nat res \<times> u8 list) option" where
  "mm_build_d_attach_detach_grp_id_ack out capb p =
     (if capb < 8 then Some (Inl EINVAL, out)
      else do {
        w \<leftarrow> wbuf_open out capb;
        w \<leftarrow> wbuf_put w MmPduDl_DAttachDetachGroupIdentityAck 4;
        w \<leftarrow> wbuf_put w (ucast (accept_reject p AND 1)) 1;
        w \<leftarrow> wbuf_put w 0 1;
        let obit = gid_downlink_present p \<and> ga_num_gid p > 0;
        w \<leftarrow> wbuf_put w (if obit then 1 else 0) 1;
        if \<not> obit then Some (wbuf_finish w)
        else do {
          w \<leftarrow> put_gid_downlink_list w (ga_num_gid p) (ga_gid p);
          w \<leftarrow> wbuf_put w 0 1;
          Some (wbuf_finish w)
        }
      })"

section \<open>What the builders are to emit\<close>

definition gid_bits :: "MmGroupIdentityDownlink \<Rightarrow> bool list" where
  "gid_bits g =
     [\<not> gid_is_attach g] @
     (if gid_is_attach g then word_bits 2 (att_lifetime (gid_attach g)) @ word_bits 3 (att_class_of_usage (gid_attach g))
      else word_bits 2 (gid_detachment_type g)) @
     word_bits 2 (gid_address_type g) @
     (if gid_address_type g \<in> {0, 1, 3} then word_bits 24 (gid_gssi g) else []) @
     (if gid_address_type g \<in> {1, 3} then word_bits 24 (gid_address_extension g) else []) @
     (if gid_address_type g \<in> {2, 3} then word_bits 24 (gid_vgssi g) else [])"

text \<open>A type-3/4 element: m-bit, identifier, the length of its content in bits, content.\<close>

definition elem_bits :: "u8 \<Rightarrow> bool list \<Rightarrow> bool list" where
  "elem_bits i content = [True] @ word_bits 4 i @ word_bits 11 (of_nat (length content) :: u16) @ content"

definition gid_list_bits :: "MmGroupIdentityDownlink list \<Rightarrow> bool list" where
  "gid_list_bits gl =
     (if gl = [] then [] else elem_bits 7 (word_bits 6 (of_nat (length gl) :: u8) @ concat (map gid_bits gl)))"

definition ap_gids :: "MmAcceptParams \<Rightarrow> MmGroupIdentityDownlink list" where
  "ap_gids p = take (unat (ap_num_gid p)) (ap_gid p)"

definition gila_bits :: "MmAcceptParams \<Rightarrow> bool list" where
  "gila_bits p = elem_bits 5 ([bit (gila_accept_reject p) 0, False, ap_gids p \<noteq> []] @
     (if ap_gids p \<noteq> [] then gid_list_bits (ap_gids p) @ [False] else []))"

definition esi_bits :: "MmAcceptParams \<Rightarrow> bool list" where
  "esi_bits p =
     (if energy_saving_info_present p
      then [True] @ word_bits 3 (of_nat (EnergySavingMode_code (ap_energy_saving_mode p)) :: u8) @
           word_bits 5 (energy_saving_frame_number p) @ word_bits 6 (energy_saving_multiframe p)
      else [False])"

definition accept_bits :: "MmAcceptParams \<Rightarrow> bool list" where
  "accept_bits p =
     word_bits 4 (5 :: u8) @ word_bits 3 (of_nat (LocationUpdateType_code (accept_type p)) :: u8) @
     (if energy_saving_info_present p \<or> gila_present p
      then [True, False, False, False] @ esi_bits p @ [False] @ (if gila_present p then gila_bits p else []) @ [False]
      else [False])"

definition ga_gids :: "MmGrpAckParams \<Rightarrow> MmGroupIdentityDownlink list" where
  "ga_gids p = (if gid_downlink_present p then take (unat (ga_num_gid p)) (ga_gid p) else [])"

definition grp_ack_bits :: "MmGrpAckParams \<Rightarrow> bool list" where
  "grp_ack_bits p = word_bits 4 (11 :: u8) @ [bit (accept_reject p) 0, False] @
     (if ga_gids p \<noteq> [] then [True] @ gid_list_bits (ga_gids p) @ [False] else [False])"

section \<open>The cursor appends\<close>

definition wb_ok :: "WBuf \<Rightarrow> bool" where
  "wb_ok w \<longleftrightarrow> w_cap_bits w \<le> 8 * length (w_bits w) \<and> w_pos w \<le> w_cap_bits w"

definition wb_out :: "WBuf \<Rightarrow> bool list" where
  "wb_out w = take (w_pos w) (bits_of (w_bits w))"

definition wb_room :: "WBuf \<Rightarrow> nat" where
  "wb_room w = w_cap_bits w - w_pos w"

text \<open>
  One writer step. It appends \<open>xs\<close> when they fit, leaving every bit after them alone, and sets the
  overflow flag when they do not; the flag is never cleared. Steps compose (\<open>wb_does_trans\<close>), so a
  builder needs no case distinction on where it runs out of room.
\<close>

definition wb_does :: "WBuf \<Rightarrow> bool list \<Rightarrow> WBuf \<Rightarrow> bool" where
  "wb_does w xs w' \<longleftrightarrow> wb_ok w' \<and> w_cap_bits w' = w_cap_bits w \<and> length (w_bits w') = length (w_bits w) \<and>
     (w_overflow w \<longrightarrow> w_overflow w') \<and>
     (\<not> w_overflow w \<longrightarrow>
        (if length xs \<le> wb_room w
         then \<not> w_overflow w' \<and> bits_of (w_bits w') = overwrite (bits_of (w_bits w)) (w_pos w) xs \<and>
              w_pos w' = w_pos w + length xs
         else w_overflow w'))"

lemma wb_does_refl [simp]: "wb_ok w \<Longrightarrow> wb_does w [] w"
  by (simp add: wb_does_def)

lemma wb_does_ok: "wb_does w xs w' \<Longrightarrow> wb_ok w'"
  by (simp add: wb_does_def)

lemma wb_does_trans:
  assumes "wb_ok w" "wb_does w xs w'" "wb_does w' ys w''"
  shows "wb_does w (xs @ ys) w''"
proof (cases "w_overflow w \<or> \<not> length xs \<le> wb_room w")
  case True
  then show ?thesis using assms(2,3) by (auto simp: wb_does_def)
next
  case False
  then have a: "\<not> w_overflow w'" "bits_of (w_bits w') = overwrite (bits_of (w_bits w)) (w_pos w) xs"
      "w_pos w' = w_pos w + length xs" "wb_room w' = wb_room w - length xs"
    using assms(2) by (auto simp: wb_does_def wb_room_def)
  show ?thesis
  proof (cases "length (xs @ ys) \<le> wb_room w")
    case True
    then have "w_pos w + length xs + length ys \<le> length (bits_of (w_bits w))"
      using assms(1) by (auto simp: wb_ok_def wb_room_def)
    from overwrite_overwrite [OF this] True False assms(2,3) a show ?thesis
      by (auto simp: wb_does_def)
  next
    case False
    then show ?thesis using assms(2,3) a \<open>\<not> (w_overflow w \<or> _)\<close> by (auto simp: wb_does_def)
  qed
qed

lemma bit_set_byte:
  "j < 8 \<Longrightarrow> bit ((if c then b OR push_bit k 1 else b AND NOT (push_bit k 1)) :: u8) j = (if j = k then c else bit b j)"
  by (auto simp: bit_simps)

lemma wbuf_loop_ok:
  "i + n \<le> 8 * length B \<Longrightarrow>
   \<exists>B'. wbuf_loop B i n v = Some B' \<and> length B' = length B \<and> bits_of B' = overwrite (bits_of B) i (word_bits n v)"
proof (induction n arbitrary: B i)
  case 0
  then show ?case by simp
next
  case (Suc n)
  let ?k = "i div 8" and ?m = "push_bit (7 - i mod 8) 1 :: u8"
  let ?b = "if bit v n then B ! ?k OR ?m else B ! ?k AND NOT ?m"
  let ?B = "B[?k := ?b]"
  have k: "?k < length B" using Suc.prems by auto
  have one: "bits_of ?B = overwrite (bits_of B) i [bit v n]"
  proof (rule nth_equalityI)
    show "length (bits_of ?B) = length (overwrite (bits_of B) i [bit v n])"
      using Suc.prems by simp
    fix j assume "j < length (bits_of ?B)"
    then have j: "j < 8 * length B" by simp
    note eq = bit_pos_eq [of j i]
    show "bits_of ?B ! j = overwrite (bits_of B) i [bit v n] ! j"
      using Suc.prems j k eq bit_set_byte [of "7 - j mod 8" "bit v n" "B ! ?k" "7 - i mod 8"]
      by (cases "j = i") (auto simp: nth_bits_of nth_overwrite nth_list_update)
  qed
  have "Suc i + n \<le> 8 * length ?B" using Suc.prems by simp
  from Suc.IH [OF this] obtain B' where B': "wbuf_loop ?B (Suc i) n v = Some B'" "length B' = length B"
      "bits_of B' = overwrite (bits_of ?B) (Suc i) (word_bits n v)" by auto
  have "word_bits (Suc n) v = [bit v n] @ word_bits n v"
    using word_bits_add [of 1 n v] by (simp add: word_bits_def bit_simps)
  moreover have "overwrite (overwrite (bits_of B) i [bit v n]) (i + length [bit v n]) (word_bits n v) =
      overwrite (bits_of B) i ([bit v n] @ word_bits n v)"
    using Suc.prems by (intro overwrite_overwrite) simp
  moreover have "wbuf_loop B i (Suc n) v = wbuf_loop ?B (Suc i) n v"
    using k by (simp add: Let_def)
  ultimately show ?case
    using B' one by simp
qed

lemma wbuf_put_does:
  assumes "wb_ok w" "n \<le> 64"
  shows "\<exists>w'. wbuf_put w v n = Some w' \<and> wb_does w (word_bits n v) w'"
proof (cases "n = 0 \<or> w_pos w + n > w_cap_bits w")
  case True
  then show ?thesis
    using assms by (auto simp: wbuf_put_def wb_does_def wb_ok_def wb_room_def)
next
  case False
  then have "w_pos w + n \<le> 8 * length (w_bits w)" using assms(1) by (simp add: wb_ok_def)
  from wbuf_loop_ok [OF this, of v] False assms show ?thesis
    by (auto simp: wbuf_put_def wb_does_def wb_ok_def wb_room_def)
qed

interpretation wbuf_sink: bit_sink "\<lambda>w. wb_ok w \<and> \<not> w_overflow w" wb_room wb_out "\<lambda>w v n. wbuf_put w (ucast v) n"
proof unfold_locales
  fix w :: WBuf and n v
  assume a: "wb_ok w \<and> \<not> w_overflow w" "fits n v" "n \<le> wb_room w"
  then have n: "n \<le> 64" "w_pos w + n \<le> length (bits_of (w_bits w))" and wb: "word_bits n (ucast v :: u64) = word_bits n v"
    by (auto simp: fits_def word_bits_ucast wb_ok_def wb_room_def)
  obtain w' where w': "wbuf_put w (ucast v) n = Some w'" "wb_does w (word_bits n v) w'"
    using wbuf_put_does [of w n "ucast v"] a n wb by auto
  have "wb_out w' = wb_out w @ word_bits n v"
    using w'(2) a n take_overwrite [of "w_pos w" "word_bits n v" "bits_of (w_bits w)"]
    by (simp add: wb_does_def wb_out_def)
  with w' a show "\<exists>w'. wbuf_put w (ucast v) n = Some w' \<and> (wb_ok w' \<and> \<not> w_overflow w') \<and>
      wb_out w' = wb_out w @ word_bits n v \<and> wb_room w' = wb_room w - n"
    by (auto simp: wb_does_def wb_room_def)
qed

text \<open>
  Sequencing: \<open>wb_runs f xs\<close> says that a writer program \<open>f\<close> is total on well-formed cursors and
  emits \<open>xs\<close>. The rules below mirror the program constructors.
\<close>

definition wb_runs :: "(WBuf \<Rightarrow> WBuf option) \<Rightarrow> bool list \<Rightarrow> bool" where
  "wb_runs f xs \<longleftrightarrow> (\<forall>w. wb_ok w \<longrightarrow> (\<exists>w'. f w = Some w' \<and> wb_does w xs w'))"

lemma wb_runsD: "wb_runs f xs \<Longrightarrow> wb_ok w \<Longrightarrow> \<exists>w'. f w = Some w' \<and> wb_does w xs w'"
  by (simp add: wb_runs_def)

lemma wb_runs_skip: "wb_runs (\<lambda>w. Some w) []"
  by (simp add: wb_runs_def)

lemma wb_runs_put: "n \<le> 64 \<Longrightarrow> word_bits n v = xs \<Longrightarrow> wb_runs (\<lambda>w. wbuf_put w v n) xs"
  using wbuf_put_does by (auto simp: wb_runs_def)

lemma wb_runs_seq:
  assumes "wb_runs f xs" "wb_runs g ys"
  shows "wb_runs (\<lambda>w. f w \<bind> g) (xs @ ys)"
  unfolding wb_runs_def
proof (intro allI impI)
  fix w assume w: "wb_ok w"
  obtain w1 where 1: "f w = Some w1" "wb_does w xs w1" using wb_runsD [OF assms(1) w] by blast
  obtain w2 where 2: "g w1 = Some w2" "wb_does w1 ys w2"
    using wb_runsD [OF assms(2) wb_does_ok [OF 1(2)]] by blast
  show "\<exists>w'. f w \<bind> g = Some w' \<and> wb_does w (xs @ ys) w'"
    using 1(1) 2(1) wb_does_trans [OF w 1(2) 2(2)] by simp
qed

lemma wb_runs_if:
  "(c \<Longrightarrow> wb_runs f xs) \<Longrightarrow> (\<not> c \<Longrightarrow> wb_runs g ys) \<Longrightarrow>
   wb_runs (\<lambda>w. if c then f w else g w) (if c then xs else ys)"
  by simp

text \<open>A length-prefixed element: header, placeholder, content, and the patch of the placeholder.\<close>

lemma patch_does:
  assumes "wb_ok w" "wb_does w (word_bits 11 (0 :: u64) @ xs) w1" "k = of_nat (length xs) \<or> w_overflow w1"
  shows "\<exists>w2. wbuf_patch_11 w1 (w_pos w) k = Some w2 \<and> wb_does w (word_bits 11 (of_nat (length xs) :: u16) @ xs) w2"
proof (cases "w_pos w + 11 > w_cap_bits w")
  case True
  then have "wbuf_patch_11 w1 (w_pos w) k = Some (w1\<lparr>w_overflow := True\<rparr>)"
    using assms(2) by (simp add: wbuf_patch_11_def wb_does_def)
  with True assms show ?thesis
    by (auto simp: wb_does_def wb_ok_def wb_room_def)
next
  case False
  have i: "w_pos w + 11 \<le> 8 * length (w_bits w1)"
    using False assms by (auto simp: wb_does_def wb_ok_def)
  obtain B where B: "wbuf_loop (w_bits w1) (w_pos w) 11 k = Some B" "length B = length (w_bits w1)"
      "bits_of B = overwrite (bits_of (w_bits w1)) (w_pos w) (word_bits 11 k)"
    using wbuf_loop_ok [OF i] by blast
  have p: "wbuf_patch_11 w1 (w_pos w) k = Some (w1\<lparr>w_bits := B\<rparr>)"
    using False B(1) assms(2) by (simp add: wbuf_patch_11_def wb_does_def)
  have o: "overwrite (overwrite A q (word_bits 11 (0 :: u64) @ xs)) q (word_bits 11 k) = overwrite A q (word_bits 11 k @ xs)"
    if "q + 11 + length xs \<le> length A" for A q
    using that by (intro nth_equalityI) (auto simp: nth_overwrite nth_append)
  have "wb_does w (word_bits 11 (of_nat (length xs) :: u16) @ xs) (w1\<lparr>w_bits := B\<rparr>)"
  proof (cases "w_overflow w1")
    case True
    then show ?thesis using assms(2) B(2) by (auto simp: wb_does_def wb_ok_def)
  next
    case False
    then have "length xs + 11 \<le> wb_room w" "\<not> w_overflow w"
      using assms(2) by (auto simp: wb_does_def split: if_splits)
    moreover from this have "w_pos w + 11 + length xs \<le> length (bits_of (w_bits w))"
      using assms(1) by (auto simp: wb_room_def wb_ok_def)
    ultimately show ?thesis
      using assms(2,3) False B o by (auto simp: wb_does_def wb_ok_def)
  qed
  with p show ?thesis by blast
qed

lemma wb_runs_patched:
  assumes "wb_runs f xs"
  shows "wb_runs (\<lambda>w. wbuf_put w 0 11 \<bind> (\<lambda>w1. f w1 \<bind> (\<lambda>w2. wbuf_patch_11 w2 (w_pos w) (of_nat (w_pos w2 - w_pos w1)))))
     (word_bits 11 (of_nat (length xs) :: u16) @ xs)"
  unfolding wb_runs_def
proof (intro allI impI)
  fix w assume w: "wb_ok w"
  obtain w1 where 1: "wbuf_put w 0 11 = Some w1" "wb_does w (word_bits 11 (0 :: u64)) w1"
    using wbuf_put_does [OF w, of 11 0] by auto
  obtain w2 where 2: "f w1 = Some w2" "wb_does w1 xs w2"
    using wb_runsD [OF assms wb_does_ok [OF 1(2)]] by blast
  have "w_pos w2 - w_pos w1 = length xs \<or> w_overflow w2"
    using 2(2) by (auto simp: wb_does_def split: if_splits)
  then have "(of_nat (w_pos w2 - w_pos w1) :: u16) = of_nat (length xs) \<or> w_overflow w2" by auto
  from patch_does [OF w wb_does_trans [OF w 1(2) 2(2)] this] 1(1) 2(1)
  show "\<exists>w'. (wbuf_put w 0 11 \<bind> (\<lambda>w1. f w1 \<bind> (\<lambda>w2. wbuf_patch_11 w2 (w_pos w) (of_nat (w_pos w2 - w_pos w1))))) = Some w' \<and>
      wb_does w (word_bits 11 (of_nat (length xs) :: u16) @ xs) w'"
    by simp
qed

section \<open>The elements and builders emit their specification\<close>

lemma word_bits_small [simp]:
  "word_bits (Suc 0) (0 :: 'a::len word) = [False]" "word_bits (Suc 0) (1 :: 'a::len word) = [True]"
  "word_bits (Suc 0) w = [bit w 0]"
  by (simp_all add: word_bits_def)

lemma word_bits_24: "word_bits 24 (ucast (v AND TETRA_SSI_MASK_24) :: u64) = word_bits 24 v"
proof -
  have m: "TETRA_SSI_MASK_24 = mask 24" by (simp add: TETRA_SSI_MASK_24_def mask_eq_exp_minus_1)
  show ?thesis using word_bits_and_mask [of 24 v] unfolding m [symmetric] by (simp add: word_bits_ucast)
qed

lemma ucast_if: "(ucast (if c then a else b) :: 'a::len word) = (if c then ucast a else ucast b)"
  by simp

lemma put_gid_downlink_runs: "wb_runs (\<lambda>w. put_gid_downlink w g) (gid_bits g)"
proof -
  let ?t = "gid_address_type g"
  have t: "?t \<in> {0, 1, 3} \<longleftrightarrow> ?t = 0 \<or> ?t = 1 \<or> ?t = 3" "?t \<in> {1, 3} \<longleftrightarrow> ?t = 1 \<or> ?t = 3" "?t \<in> {2, 3} \<longleftrightarrow> ?t = 2 \<or> ?t = 3"
    by simp_all
  show ?thesis
    unfolding put_gid_downlink_def gid_bits_def t
    by (intro wb_runs_seq wb_runs_if wb_runs_skip wb_runs_put)
      (simp_all add: word_bits_ucast word_bits_24 ucast_if)
qed

lemma put_gids_runs:
  "i + k \<le> length gids \<Longrightarrow> wb_runs (\<lambda>w. put_gids w i k gids) (concat (map gid_bits (take k (drop i gids))))"
proof (induction k arbitrary: i)
  case 0
  then show ?case by (simp add: wb_runs_skip)
next
  case (Suc k)
  have "take (Suc k) (drop i gids) = gids ! i # take k (drop (Suc i) gids)"
    using Suc.prems by (simp add: Cons_nth_drop_Suc [symmetric])
  moreover have "wb_runs (\<lambda>w. put_gid_downlink w (gids ! i) \<bind> (\<lambda>w. put_gids w (Suc i) k gids))
      (gid_bits (gids ! i) @ concat (map gid_bits (take k (drop (Suc i) gids))))"
    using Suc by (intro wb_runs_seq put_gid_downlink_runs) simp
  ultimately show ?case using Suc.prems by simp
qed

lemma elem_id:
  "word_bits 4 MmElemDl_GroupIdentityLocationAccept = word_bits 4 (5 :: u8)"
  "word_bits 4 MmElemDl_GroupIdentityDownlink = word_bits 4 (7 :: u8)"
  "word_bits 4 MmPduDl_DLocationUpdateAccept = word_bits 4 (5 :: u8)"
  "word_bits 4 MmPduDl_DAttachDetachGroupIdentityAck = word_bits 4 (11 :: u8)"
  by code_simp+

lemma wb_runs_elem:
  assumes "word_bits 4 i = word_bits 4 (j :: u8)" "wb_runs f xs"
  shows "wb_runs (\<lambda>w. wbuf_put w 1 1 \<bind> (\<lambda>w. wbuf_put w i 4 \<bind> (\<lambda>w. wbuf_put w 0 11 \<bind>
      (\<lambda>w1. f w1 \<bind> (\<lambda>w2. wbuf_patch_11 w2 (w_pos w) (of_nat (w_pos w2 - w_pos w1)))))))
    ([True] @ word_bits 4 j @ word_bits 11 (of_nat (length xs) :: u16) @ xs)"
  by (rule wb_runs_seq [OF wb_runs_put wb_runs_seq [OF wb_runs_put wb_runs_patched]]) (simp_all add: assms)

lemma u8_gt_0: "n > 0 \<longleftrightarrow> n \<noteq> (0 :: u8)"
  by (simp add: word_gt_0)

lemma put_gid_downlink_list_runs:
  assumes "unat n \<le> length gids"
  shows "wb_runs (\<lambda>w. put_gid_downlink_list w n gids) (gid_list_bits (take (unat n) gids))"
proof (cases "n = 0")
  case True
  then show ?thesis by (simp add: put_gid_downlink_list_def gid_list_bits_def wb_runs_skip)
next
  case False
  then have ne: "take (unat n) gids \<noteq> []" using assms by (auto simp: unat_eq_0)
  have "min (length gids) (unat n) = unat n" using assms by simp
  then have len: "word_bits 6 (of_nat (length (take (unat n) gids)) :: u8) = word_bits 6 n" by simp
  have body: "wb_runs (\<lambda>w. wbuf_put w (ucast n) 6 \<bind> (\<lambda>w. put_gids w 0 (unat n) gids))
      (word_bits 6 n @ concat (map gid_bits (take (unat n) gids)))"
    using put_gids_runs [of 0 "unat n" gids] assms by (intro wb_runs_seq wb_runs_put) (simp_all add: word_bits_ucast)
  have "wb_runs (\<lambda>w. wbuf_put w 1 1 \<bind> (\<lambda>w. wbuf_put w MmElemDl_GroupIdentityDownlink 4 \<bind>
       (\<lambda>w. wbuf_put w 0 11 \<bind> (\<lambda>w1. (wbuf_put w1 (ucast n) 6 \<bind> (\<lambda>w. put_gids w 0 (unat n) gids)) \<bind>
       (\<lambda>w2. wbuf_patch_11 w2 (w_pos w) (of_nat (w_pos w2 - w_pos w1)))))))
     (gid_list_bits (take (unat n) gids))"
    unfolding gid_list_bits_def if_not_P [OF ne] elem_bits_def len
    by (rule wb_runs_elem [OF elem_id(2) body])
  with False show ?thesis
    by (simp add: put_gid_downlink_list_def Let_def)
qed

lemma ap_gids_Nil: "unat (ap_num_gid p) \<le> length (ap_gid p) \<Longrightarrow> ap_gids p \<noteq> [] \<longleftrightarrow> ap_num_gid p > 0"
  by (auto simp: ap_gids_def u8_gt_0 unat_eq_0)

lemma put_gila_runs:
  assumes "unat (ap_num_gid p) \<le> length (ap_gid p)"
  shows "wb_runs (\<lambda>w. put_gila w p) (gila_bits p)"
proof -
  let ?c = "ap_num_gid p > 0"
  have "wb_runs (\<lambda>w. wbuf_put w (ucast (gila_accept_reject p)) 1 \<bind> (\<lambda>w. wbuf_put w 0 1 \<bind>
      (\<lambda>w. wbuf_put w (if ?c then 1 else 0) 1 \<bind> (\<lambda>w. if ?c then put_gid_downlink_list w (ap_num_gid p) (ap_gid p) \<bind>
        (\<lambda>w. wbuf_put w 0 1) else Some w))))
     ([bit (gila_accept_reject p) 0] @ [False] @ [?c] @ (if ?c then gid_list_bits (ap_gids p) @ [False] else []))"
    unfolding ap_gids_def
    by (intro wb_runs_seq wb_runs_if wb_runs_skip wb_runs_put put_gid_downlink_list_runs assms) (simp_all add: bit_simps)
  from wb_runs_elem [OF elem_id(1) this] show ?thesis
    using ap_gids_Nil [OF assms] by (simp add: put_gila_def gila_bits_def elem_bits_def Let_def)
qed

lemma word_bits_and_7: "word_bits 3 ((of_nat k :: u64) AND 7) = word_bits 3 (of_nat k :: u8)"
proof -
  have m: "(7 :: u64) = mask 3" by (simp add: mask_eq_exp_minus_1)
  have "word_bits 3 (of_nat k :: u64) = word_bits 3 (of_nat k :: u8)"
    by (rule nth_equalityI) (auto simp: bit_of_nat_iff)
  then show ?thesis unfolding m word_bits_and_mask .
qed

lemma word_bits_and_u8:
  "word_bits 5 (ucast (v AND 0x1F) :: u64) = word_bits 5 (v :: u8)"
  "word_bits 6 (ucast (v AND 0x3F) :: u64) = word_bits 6 (v :: u8)"
proof -
  have m: "(0x1F :: u8) = mask 5" "(0x3F :: u8) = mask 6" by (simp_all add: mask_eq_exp_minus_1)
  show "word_bits 5 (ucast (v AND 0x1F) :: u64) = word_bits 5 (v :: u8)"
    using word_bits_and_mask [of 5 v] unfolding m [symmetric] by (simp add: word_bits_ucast)
  show "word_bits 6 (ucast (v AND 0x3F) :: u64) = word_bits 6 (v :: u8)"
    using word_bits_and_mask [of 6 v] unfolding m [symmetric] by (simp add: word_bits_ucast)
qed

lemma put_energy_saving_runs: "wb_runs (\<lambda>w. put_energy_saving w p) (esi_bits p)"
  unfolding put_energy_saving_def esi_bits_def
  by (intro wb_runs_if wb_runs_seq wb_runs_put) (simp_all add: word_bits_and_7 word_bits_and_u8)

lemma put_type2_absent_runs: "wb_runs (\<lambda>w. put_type2_generic w False v n) [False]"
  using wb_runs_put [of 1 0] by (simp add: put_type2_generic_def)

text \<open>The whole body of each builder as one writer program.\<close>

definition accept_prog :: "MmAcceptParams \<Rightarrow> WBuf \<Rightarrow> WBuf option" where
  "accept_prog p = (\<lambda>w. wbuf_put w MmPduDl_DLocationUpdateAccept 4 \<bind> (\<lambda>w.
     wbuf_put w (of_nat (LocationUpdateType_code (accept_type p)) AND 7) 3 \<bind> (\<lambda>w.
     if energy_saving_info_present p \<or> gila_present p then
       wbuf_put w 1 1 \<bind> (\<lambda>w. put_type2_generic w False 0 24 \<bind> (\<lambda>w. put_type2_generic w False 0 24 \<bind> (\<lambda>w.
       put_type2_generic w False 0 16 \<bind> (\<lambda>w. put_energy_saving w p \<bind> (\<lambda>w. put_type2_generic w False 0 6 \<bind> (\<lambda>w.
       (if gila_present p then put_gila w p else Some w) \<bind> (\<lambda>w. wbuf_put w 0 1)))))))
     else wbuf_put w 0 1)))"

lemma accept_prog_runs:
  assumes "gila_present p \<longrightarrow> unat (ap_num_gid p) \<le> length (ap_gid p)"
  shows "wb_runs (accept_prog p) (accept_bits p)"
proof -
  have split: "[True, False, False, False] @ xs = [True] @ [False] @ [False] @ [False] @ xs" for xs by simp
  show ?thesis
    unfolding accept_prog_def accept_bits_def split
    by (intro wb_runs_seq wb_runs_if wb_runs_skip wb_runs_put put_type2_absent_runs put_energy_saving_runs put_gila_runs)
      (use assms in \<open>simp_all add: elem_id word_bits_and_7\<close>)
qed

lemma build_accept_prog:
  "16 \<le> capb \<Longrightarrow> mm_build_d_loc_update_accept out capb p =
     wbuf_open out capb \<bind> (\<lambda>w. accept_prog p w \<bind> (\<lambda>w. Some (wbuf_finish w)))"
  by (auto simp: mm_build_d_loc_update_accept_def accept_prog_def Let_def intro!: arg_cong [where f = "Option.bind _"] ext)

definition grp_ack_prog :: "MmGrpAckParams \<Rightarrow> WBuf \<Rightarrow> WBuf option" where
  "grp_ack_prog p = (\<lambda>w. wbuf_put w MmPduDl_DAttachDetachGroupIdentityAck 4 \<bind> (\<lambda>w.
     wbuf_put w (ucast (accept_reject p AND 1)) 1 \<bind> (\<lambda>w. wbuf_put w 0 1 \<bind> (\<lambda>w.
     if gid_downlink_present p \<and> ga_num_gid p > 0 then
       wbuf_put w 1 1 \<bind> (\<lambda>w. put_gid_downlink_list w (ga_num_gid p) (ga_gid p) \<bind> (\<lambda>w. wbuf_put w 0 1))
     else wbuf_put w 0 1))))"

lemma grp_ack_prog_runs:
  assumes "gid_downlink_present p \<longrightarrow> unat (ga_num_gid p) \<le> length (ga_gid p)"
  shows "wb_runs (grp_ack_prog p) (grp_ack_bits p)"
proof -
  let ?c = "gid_downlink_present p \<and> ga_num_gid p > 0"
  have c: "ga_gids p \<noteq> [] \<longleftrightarrow> ?c"
    using assms by (auto simp: ga_gids_def u8_gt_0 unat_eq_0)
  have g: "?c \<Longrightarrow> wb_runs (\<lambda>w. put_gid_downlink_list w (ga_num_gid p) (ga_gid p)) (gid_list_bits (ga_gids p))"
    using assms put_gid_downlink_list_runs by (simp add: ga_gids_def)
  have split: "[a, False] @ xs = [a] @ [False] @ xs" for a xs by simp
  show ?thesis
    unfolding grp_ack_prog_def grp_ack_bits_def split c
    by (intro wb_runs_seq wb_runs_if wb_runs_skip wb_runs_put g) (simp_all add: elem_id bit_simps)
qed

lemma build_grp_ack_prog:
  "8 \<le> capb \<Longrightarrow> mm_build_d_attach_detach_grp_id_ack out capb p =
     wbuf_open out capb \<bind> (\<lambda>w. grp_ack_prog p w \<bind> (\<lambda>w. Some (wbuf_finish w)))"
  by (auto simp: mm_build_d_attach_detach_grp_id_ack_def grp_ack_prog_def Let_def intro!: arg_cong [where f = "Option.bind _"] ext)

lemma builder_ok:
  assumes "wb_runs f xs" "(capb + 7) div 8 \<le> length out"
  shows "\<exists>out'. (wbuf_open out capb \<bind> (\<lambda>w. f w \<bind> (\<lambda>w. Some (wbuf_finish w)))) =
       Some (if length xs \<le> capb then Inr (length xs) else Inl ENOSPC, out') \<and> length out' = length out \<and>
     (length xs \<le> capb \<longrightarrow> bits_of out' = xs @ replicate (8 * ((capb + 7) div 8) - length xs) False @
        drop (8 * ((capb + 7) div 8)) (bits_of out))"
proof -
  let ?k = "(capb + 7) div 8"
  let ?w = "\<lparr>w_bits = replicate ?k 0 @ drop ?k out, w_cap_bits = capb, w_pos = 0, w_overflow = False\<rparr>"
  have k: "capb \<le> 8 * ?k" by linarith
  have w: "wb_ok ?w" using assms(2) k by (simp add: wb_ok_def)
  obtain w' where w': "f ?w = Some w'" "wb_does ?w xs w'"
    using wb_runsD [OF assms(1) w] by blast
  have "overwrite (bits_of (w_bits ?w)) 0 xs = xs @ replicate (8 * ?k - length xs) False @ drop (8 * ?k) (bits_of out)"
    if "length xs \<le> capb"
    using that k by (simp add: overwrite_def bits_of_zeros bits_of_drop)
  with w' assms(2) show ?thesis
    by (auto simp: wbuf_open_def wbuf_finish_def wb_does_def wb_room_def)
qed

section \<open>Properties\<close>

text \<open>
  C21: D-LOCATION-UPDATE-ACCEPT is built exactly as specified. For every parameter set whose group count
  lies within its array and every buffer that holds the stated capacity, the builder returns the
  length of the specified PDU, with every element's 11-bit length field equal to the number of content
  bits, and the buffer holds that PDU followed by zero bits up to the capacity and then its former
  bytes; when the PDU does not fit it returns \<open>-ENOSPC\<close>.
\<close>

theorem mm_build_accept_exact:
  assumes "16 \<le> capb" "(capb + 7) div 8 \<le> length out" "gila_present p \<longrightarrow> unat (ap_num_gid p) \<le> length (ap_gid p)"
  shows "\<exists>out'. mm_build_d_loc_update_accept out capb p =
       Some (if length (accept_bits p) \<le> capb then Inr (length (accept_bits p)) else Inl ENOSPC, out') \<and> length out' = length out \<and>
     (length (accept_bits p) \<le> capb \<longrightarrow> bits_of out' = accept_bits p @
        replicate (8 * ((capb + 7) div 8) - length (accept_bits p)) False @ drop (8 * ((capb + 7) div 8)) (bits_of out))"
  unfolding build_accept_prog [OF assms(1)] by (rule builder_ok [OF accept_prog_runs [OF assms(3)] assms(2)])

text \<open>The accept of the reference capture: one talk group, 102 bits.\<close>

definition ex_gid :: MmGroupIdentityDownlink where
  "ex_gid = \<lparr>gid_is_attach = True, gid_attach = \<lparr>att_lifetime = 1, att_class_of_usage = 4\<rparr>, gid_detachment_type = 0,
     gid_address_type = 0, gid_gssi = 0x2F4D61, gid_address_extension = 0, gid_vgssi = 0\<rparr>"

definition ex_accept :: MmAcceptParams where
  "ex_accept = \<lparr>accept_type = LocUpdate_ItsiAttach, energy_saving_info_present = True,
     ap_energy_saving_mode = EnergySaving_StayAlive, energy_saving_frame_number = 0, energy_saving_multiframe = 0,
     gila_present = True, gila_accept_reject = 0, ap_num_gid = 1, ap_gid = replicate MM_GID_MAX ex_gid\<rparr>"

theorem mm_build_accept_exact_witness:
  "\<exists>out'. mm_build_d_loc_update_accept (replicate 64 0) 512 ex_accept = Some (Inr 102, out') \<and>
     bits_of out' = accept_bits ex_accept @ replicate 410 False"
proof -
  have "length (accept_bits ex_accept) = 102" by code_simp
  moreover have "unat (ap_num_gid ex_accept) \<le> length (ap_gid ex_accept)"
    by (simp add: ex_accept_def MM_GID_MAX_def)
  ultimately show ?thesis
    using mm_build_accept_exact [of 512 "replicate 64 0" ex_accept] by auto
qed

text \<open>
  D-ATTACH-DETACH-GROUP-IDENTITY-ACK is built exactly as specified, under the same conditions and
  with the same error behaviour.
\<close>

theorem mm_build_grp_ack_exact:
  assumes "8 \<le> capb" "(capb + 7) div 8 \<le> length out" "gid_downlink_present p \<longrightarrow> unat (ga_num_gid p) \<le> length (ga_gid p)"
  shows "\<exists>out'. mm_build_d_attach_detach_grp_id_ack out capb p =
       Some (if length (grp_ack_bits p) \<le> capb then Inr (length (grp_ack_bits p)) else Inl ENOSPC, out') \<and> length out' = length out \<and>
     (length (grp_ack_bits p) \<le> capb \<longrightarrow> bits_of out' = grp_ack_bits p @
        replicate (8 * ((capb + 7) div 8) - length (grp_ack_bits p)) False @ drop (8 * ((capb + 7) div 8)) (bits_of out))"
  unfolding build_grp_ack_prog [OF assms(1)] by (rule builder_ok [OF grp_ack_prog_runs [OF assms(3)] assms(2)])

text \<open>The acknowledgement of the reference capture, whose 62 bits are listed.\<close>

definition ex_grp_ack :: MmGrpAckParams where
  "ex_grp_ack = \<lparr>accept_reject = 0, gid_downlink_present = True, ga_num_gid = 1, ga_gid = replicate MM_GID_MAX ex_gid\<rparr>"

definition ex_grp_ack_air :: string where
  "ex_grp_ack_air = ''10110011011100000100110000001001100000010111101001101011000010''"

theorem mm_build_grp_ack_exact_witness:
  "\<exists>out'. mm_build_d_attach_detach_grp_id_ack (replicate 64 0) 512 ex_grp_ack = Some (Inr 62, out') \<and>
     take 62 (bits_of out') = map (\<lambda>c. c = CHR ''1'') ex_grp_ack_air"
proof -
  have "grp_ack_bits ex_grp_ack = map (\<lambda>c. c = CHR ''1'') ex_grp_ack_air" by code_simp
  moreover have "length ex_grp_ack_air = 62" by (simp add: ex_grp_ack_air_def)
  moreover have "unat (ga_num_gid ex_grp_ack) \<le> length (ga_gid ex_grp_ack)"
    by (simp add: ex_grp_ack_def MM_GID_MAX_def)
  ultimately show ?thesis
    using mm_build_grp_ack_exact [of 512 "replicate 64 0" ex_grp_ack] by auto
qed

end
