(* ===== verification/Mm.thy ===== *)
theory Mm
  imports Mle Mm_Build
begin

text \<open>
  The MM entity (\<open>sw/mm/mm.c\<close>): it receives the decoded requests the MLE forwards, derives the
  parameters of the answer from the request and the subscriber database, builds the answer with the
  builders of \<open>mm_accept_builder.c\<close>, prefixes the protocol discriminator and posts the result to the
  LLC. The theorems connect the request that was parsed with the bits of the acknowledgement.
\<close>

section \<open>Types\<close>

record MmCfg =
  mm_reserved :: u8

record MmStats =
  demand_decoded :: nat
  demand_decode_failed :: nat
  accept_built :: nat
  grp_ack_built :: nat

record Mm =
  mm_cfg :: MmCfg
  mm_stats :: MmStats
  mm_initialised :: bool

definition zero_mm :: Mm where
  "zero_mm = \<lparr>mm_cfg = \<lparr>mm_reserved = 0\<rparr>,
     mm_stats = \<lparr>demand_decoded = 0, demand_decode_failed = 0, accept_built = 0, grp_ack_built = 0\<rparr>, mm_initialised = False\<rparr>"

definition zero_gid :: MmGroupIdentityDownlink where
  "zero_gid = \<lparr>gid_is_attach = False, gid_attach = \<lparr>att_lifetime = 0, att_class_of_usage = 0\<rparr>, gid_detachment_type = 0,
     gid_address_type = 0, gid_gssi = 0, gid_address_extension = 0, gid_vgssi = 0\<rparr>"

section \<open>Operations\<close>

definition prepend_mle_disc_mm :: "u8 list \<Rightarrow> nat \<Rightarrow> u8 list \<Rightarrow> nat \<Rightarrow> (u8 list \<times> nat) res option" where
  "prepend_mle_disc_mm mm_bits mm_len_bits out out_capb =
     (let need = 3 + mm_len_bits in
      if need > out_capb then Some (Inl ENOSPC)
      else if (out_capb + 7) div 8 > length out then None
      else do {
        out \<leftarrow> arr_set (replicate ((out_capb + 7) div 8) 0 @ drop ((out_capb + 7) div 8) out) 0 (push_bit 5 1);
        out \<leftarrow> or_bits mm_bits 0 out 3 mm_len_bits;
        Some (Inr (out, need))
      })"

text \<open>The class of usage and lifetime the caller passes in are returned unchanged when there is no valid profile.\<close>

definition lookup_profile_defaults :: "SubscriberDb option \<Rightarrow> u32 \<Rightarrow> u8 \<Rightarrow> u8 \<Rightarrow> bool \<times> u8 \<times> u8" where
  "lookup_profile_defaults db issi cls life =
     (case db of
        None \<Rightarrow> (False, cls, life)
      | Some db \<Rightarrow>
          (case profile_of_issi db (issi AND TETRA_SSI_MASK_24) of
             None \<Rightarrow> (False, cls, life)
           | Some pr \<Rightarrow> (True, gila_class pr, gila_lifetime pr)))"

definition accept_gssi :: "MmDecoded \<Rightarrow> u32 \<Rightarrow> u32 option" where
  "accept_gssi demand fallback =
     (if gild_present demand \<and> gild_num_giu (gild demand) > 0
      then do {
        g \<leftarrow> arr_get (gild_giu (gild demand)) 0;
        Some (if giu_address_type g = 0 \<or> giu_address_type g = 1 then giu_gssi g AND TETRA_SSI_MASK_24 else fallback)
      }
      else Some fallback)"

definition compose_accept_params :: "MmDecoded \<Rightarrow> u8 \<Rightarrow> u8 \<Rightarrow> u32 \<Rightarrow> MmAcceptParams option" where
  "compose_accept_params demand cls life fallback = do {
     gssi \<leftarrow> accept_gssi demand fallback;
     Some \<lparr>accept_type = LocUpdate_ItsiAttach, energy_saving_info_present = True,
       ap_energy_saving_mode = EnergySaving_StayAlive, energy_saving_frame_number = 0, energy_saving_multiframe = 0,
       gila_present = True, gila_accept_reject = 0, ap_num_gid = 1,
       ap_gid = (replicate MM_GID_MAX zero_gid)[0 := zero_gid\<lparr>gid_is_attach := True,
         gid_attach := \<lparr>att_lifetime = life, att_class_of_usage = cls\<rparr>, gid_address_type := 0, gid_gssi := gssi\<rparr>]\<rparr>
   }"

definition ack_gid :: "MmGroupIdentityUplink \<Rightarrow> MmGroupIdentityDownlink \<Rightarrow> MmGroupIdentityDownlink" where
  "ack_gid g dst =
     (let dst = dst\<lparr>gid_is_attach := giu_is_attach g\<rparr>;
          dst = (if giu_is_attach g
                 then dst\<lparr>gid_attach := \<lparr>att_lifetime = 1, att_class_of_usage = giu_class_of_usage g\<rparr>\<rparr>
                 else dst\<lparr>gid_detachment_type := giu_detachment g\<rparr>)
      in dst\<lparr>gid_address_type := giu_address_type g, gid_gssi := giu_gssi g,
           gid_address_extension := giu_address_extension g, gid_vgssi := giu_vgssi g\<rparr>)"

text \<open>The loop over the requested identities; the list holds the remaining values of the index.\<close>

fun ack_gids :: "MmGroupIdentityUplink list \<Rightarrow> nat list \<Rightarrow> MmGrpAckParams \<Rightarrow> MmGrpAckParams option" where
  "ack_gids gl [] gp = Some gp"
| "ack_gids gl (i # is) gp =
     (if unat (ga_num_gid gp) < MM_GID_MAX
      then do {
        g \<leftarrow> arr_get gl i;
        dst \<leftarrow> arr_get (ga_gid gp) (unat (ga_num_gid gp));
        gid \<leftarrow> arr_set (ga_gid gp) (unat (ga_num_gid gp)) (ack_gid g dst);
        ack_gids gl is (gp\<lparr>ga_gid := gid, ga_num_gid := ga_num_gid gp + 1\<rparr>)
      }
      else Some gp)"

definition compose_ack_params :: "MmDecoded \<Rightarrow> MmGrpAckParams option" where
  "compose_ack_params d = ack_gids (giu d) [0..<num_giu d]
     \<lparr>accept_reject = 0, gid_downlink_present = (num_giu d > 0), ga_num_gid = 0, ga_gid = replicate MM_GID_MAX zero_gid\<rparr>"

text \<open>The \<open>switch\<close>: the built body with its length or error, \<open>None\<close> inside for an unsupported type.\<close>

definition build_answer :: "Mm \<Rightarrow> SubscriberDb option \<Rightarrow> TlaSapPayload \<Rightarrow> (Mm \<times> (nat res \<times> u8 list) option) option" where
  "build_answer mm db pl =
     (let st = mm_stats mm; d = tla_decoded pl in
      case mm_pdu_type d of
        MmPduUl_ULocationUpdateDemand \<Rightarrow>
          (let (_, cls, life) = lookup_profile_defaults db (ssi (tla_addr pl)) 4 1 in do {
             ap \<leftarrow> compose_accept_params d cls life 0;
             (rc, mm_body) \<leftarrow> mm_build_d_loc_update_accept (uninit 64) (64 * 8) ap;
             Some (if isl rc then mm else mm\<lparr>mm_stats := st\<lparr>accept_built := accept_built st + 1\<rparr>\<rparr>, Some (rc, mm_body))
           })
      | MmPduUl_UAttachDetachGroupIdentity \<Rightarrow> do {
             gp \<leftarrow> compose_ack_params d;
             (rc, mm_body) \<leftarrow> mm_build_d_attach_detach_grp_id_ack (uninit 64) (64 * 8) gp;
             Some (if isl rc then mm else mm\<lparr>mm_stats := st\<lparr>grp_ack_built := grp_ack_built st + 1\<rparr>\<rparr>, Some (rc, mm_body))
           }
      | _ \<Rightarrow> Some (mm, None))"

definition answer_pdu :: "u8 list \<Rightarrow> nat \<Rightarrow> LlcPdu option" where
  "answer_pdu llc_body n = do {
     b \<leftarrow> memcpy_front (body zero_pdu) llc_body ((n + 7) div 8);
     Some (zero_pdu\<lparr>pdu_type := LlcPdu_BL_ADATA, body_len_bits := n, body := b\<rparr>)
   }"

definition answer_msg :: "TleSapMsg \<Rightarrow> SapMsg" where
  "answer_msg m = sapmsg_init SapId_TmaSap SapId_TmaSap SapId_TleSap (Some (TleSapMsg_bytes m)) sizeof_TleSapMsg"

definition post_answer :: "Env \<Rightarrow> TlaSapPayload \<Rightarrow> nat \<Rightarrow> u8 list \<Rightarrow> Env option" where
  "post_answer env pl mm_bits mm_body = do {
     r \<leftarrow> prepend_mle_disc_mm mm_body mm_bits (uninit LLC_PDU_BODY_MAX_BYTES) (LLC_PDU_BODY_MAX_BYTES * 8);
     case r of
       Inl _ \<Rightarrow> Some env
     | Inr (llc_body, llc_body_bits) \<Rightarrow>
         (if llc_body_bits > LLC_PDU_BODY_MAX_BYTES * 8 then Some env
          else do {
            pdu \<leftarrow> answer_pdu llc_body llc_body_bits;
            let out = \<lparr>tle_endpoint = tla_endpoint pl, tle_addr = tla_addr pl, tle_pdu = pdu\<rparr>;
            Some (snd (env_post env (sap_prio_default SapId_TleSap) (answer_msg out)))
          })
   }"

definition on_mm_request :: "Mm \<Rightarrow> SubscriberDb option \<Rightarrow> Env \<Rightarrow> SapMsg \<Rightarrow> (Mm \<times> Env) option" where
  "on_mm_request mm db env msg =
     (case payload msg of
        None \<Rightarrow> Some (mm, env)
      | Some bs \<Rightarrow>
          if len msg < sizeof_TlaSapPayload \<or> \<not> mm_initialised mm then Some (mm, env)
          else do {
            let pl = TlaSapPayload_of_bytes bs;
            (mm, ans) \<leftarrow> build_answer mm db pl;
            case ans of
              Some (Inr mm_bits, mm_body) \<Rightarrow> do {
                env \<leftarrow> post_answer env pl mm_bits mm_body;
                Some (mm, env)
              }
            | _ \<Rightarrow> Some (mm, env)
          })"

definition mm_init :: "Env \<Rightarrow> MmCfg option \<Rightarrow> unit res \<times> Mm \<times> Env" where
  "mm_init env cfg =
     (let mm = (case cfg of Some c \<Rightarrow> zero_mm\<lparr>mm_cfg := c\<rparr> | None \<Rightarrow> zero_mm);
          (rc, b) = msgbus_register (bus env) SapId_TmaSap SapId_TlmcSap Mm_on_mm_request;
          env = env\<lparr>bus := b\<rparr>
      in case rc of
           Inl e \<Rightarrow> (Inl e, mm, env)
         | Inr _ \<Rightarrow> (Inr (), mm\<lparr>mm_initialised := True\<rparr>, env))"

section \<open>The discriminator is prefixed\<close>

lemma prepend_ok:
  assumes "n \<le> 253" "n \<le> 8 * length mm_bits"
  shows "\<exists>out. prepend_mle_disc_mm mm_bits n (uninit 32) 256 = Some (Inr (out, 3 + n)) \<and> length out = 32 \<and>
     take (3 + n) (bits_of out) = [False, False, True] @ take n (bits_of mm_bits)"
proof -
  let ?z = "(replicate 32 0 :: u8 list)[0 := push_bit 5 1]"
  have z: "bits_of ?z = [False, False, True] @ replicate 253 False" by code_simp
  have d: "\<not> bits_of ?z ! (3 + i)" if "i < n" for i
    unfolding z using that assms(1) by (simp add: nth_append)
  have r: "0 + n \<le> 8 * length mm_bits" "3 + n \<le> 8 * length ?z" using assms by simp_all
  obtain out where out: "or_bits mm_bits 0 ?z 3 n = Some out" "length out = length ?z"
      "bits_of out = overwrite (bits_of ?z) 3 (take n (drop 0 (bits_of mm_bits)))"
    using or_bits_ok [OF r] d by blast
  have "take (3 + n) (bits_of out) = [False, False, True] @ take n (bits_of mm_bits)"
    unfolding out(3) z using r by (simp add: overwrite_def numeral_3_eq_3)
  moreover have "prepend_mle_disc_mm mm_bits n (uninit 32) 256 = Some (Inr (out, 3 + n))"
    using assms(1) out(1) by (simp add: prepend_mle_disc_mm_def uninit_def Let_def)
  ultimately show ?thesis using out(2) by simp
qed

lemma prepend_full: "253 < n \<Longrightarrow> prepend_mle_disc_mm mm_bits n out 256 = Some (Inl ENOSPC)"
  by (simp add: prepend_mle_disc_mm_def)

section \<open>The identities are echoed\<close>

text \<open>
  The specification of an acknowledged identity, field by field and apart from the copying routine: an
  attachment is granted lifetime 1 and the class of usage asked for, a detachment echoes its reason,
  and the address is the one of the request.
\<close>

definition ack_of :: "MmGroupIdentityUplink \<Rightarrow> MmGroupIdentityDownlink" where
  "ack_of g = \<lparr>gid_is_attach = giu_is_attach g,
     gid_attach = \<lparr>att_lifetime = (if giu_is_attach g then 1 else 0),
       att_class_of_usage = (if giu_is_attach g then giu_class_of_usage g else 0)\<rparr>,
     gid_detachment_type = (if giu_is_attach g then 0 else giu_detachment g),
     gid_address_type = giu_address_type g, gid_gssi = giu_gssi g,
     gid_address_extension = giu_address_extension g, gid_vgssi = giu_vgssi g\<rparr>"

lemma ack_gid_spec: "ack_gid g zero_gid = ack_of g"
  by (simp add: ack_gid_def ack_of_def zero_gid_def Let_def)

definition ack_params :: "MmGroupIdentityUplink list \<Rightarrow> MmGrpAckParams" where
  "ack_params gl = \<lparr>accept_reject = 0, gid_downlink_present = (gl \<noteq> []), ga_num_gid = of_nat (length gl),
     ga_gid = map ack_of gl @ replicate (MM_GID_MAX - length gl) zero_gid\<rparr>"

lemma ack_gids_run:
  assumes "length gl = 4" "i \<le> 4" "i \<le> n"
    and "ga_num_gid gp = of_nat i" "ga_gid gp = map ack_of (take i gl) @ replicate (4 - i) zero_gid"
  shows "ack_gids gl [i..<n] gp = Some (gp\<lparr>ga_num_gid := of_nat (min n 4),
     ga_gid := map ack_of (take (min n 4) gl) @ replicate (4 - min n 4) zero_gid\<rparr>)"
  using assms
proof (induction "n - i" arbitrary: i gp)
  case 0
  then show ?case by simp
next
  case (Suc k)
  then have up: "[i..<n] = i # [Suc i..<n]" "Suc i \<le> n" by (simp_all add: upt_conv_Cons)
  have num: "unat (ga_num_gid gp) = i" using Suc.prems(2,4) by (simp add: unat_of_nat)
  show ?case
  proof (cases "i < 4")
    case True
    let ?gp = "gp\<lparr>ga_gid := (ga_gid gp)[i := ack_gid (gl ! i) (ga_gid gp ! i)], ga_num_gid := ga_num_gid gp + 1\<rparr>"
    have z: "replicate (4 - i) zero_gid = zero_gid # replicate (4 - Suc i) zero_gid"
      using True by (metis Suc_diff_Suc replicate_Suc)
    have tk: "take (Suc i) gl = take i gl @ [gl ! i]" using True Suc.prems(1) by (simp add: take_Suc_conv_app_nth)
    have l: "length (map ack_of (take i gl)) = i" using True Suc.prems(1) by simp
    have "ga_gid gp ! i = zero_gid" unfolding Suc.prems(5) z by (simp add: nth_append l del: length_map)
    moreover have "(map ack_of (take i gl) @ zero_gid # replicate (4 - Suc i) zero_gid)[i := x] =
        map ack_of (take i gl) @ x # replicate (4 - Suc i) zero_gid" for x
      using True Suc.prems(1) by (simp add: list_update_append)
    ultimately have "ga_gid ?gp = map ack_of (take (Suc i) gl) @ replicate (4 - Suc i) zero_gid"
      unfolding Suc.prems(5) z tk by (simp add: ack_gid_spec)
    moreover have "ga_num_gid ?gp = of_nat (Suc i)" using Suc.prems(4) by (simp add: add.commute)
    ultimately have "ack_gids gl [Suc i..<n] ?gp = Some (?gp\<lparr>ga_num_gid := of_nat (min n 4),
        ga_gid := map ack_of (take (min n 4) gl) @ replicate (4 - min n 4) zero_gid\<rparr>)"
      using Suc.hyps True Suc.prems(1) up(2) by (intro Suc.hyps(1)) simp_all
    moreover have "length (ga_gid gp) = 4" using Suc.prems(1,5) True by simp
    ultimately show ?thesis
      unfolding up(1) using True num Suc.prems(1) by (simp add: MM_GID_MAX_def)
  next
    case False
    with Suc.prems have "i = 4" by simp
    then have "gp = gp\<lparr>ga_num_gid := of_nat (min n 4), ga_gid := map ack_of (take (min n 4) gl) @ replicate (4 - min n 4) zero_gid\<rparr>"
      using Suc.prems by (intro MmGrpAckParams.equality) simp_all
    then show ?thesis unfolding up(1) using num \<open>i = 4\<close> by (simp add: MM_GID_MAX_def)
  qed
qed

lemma compose_ack_ok:
  assumes "length (giu d) = 4"
  shows "compose_ack_params d = Some (ack_params (take (num_giu d) (giu d)))"
proof -
  have "take (num_giu d) (giu d) = take (min (num_giu d) 4) (giu d)" using assms by (simp add: min_def)
  moreover have "take (num_giu d) (giu d) \<noteq> [] \<longleftrightarrow> num_giu d > 0" using assms by auto
  ultimately show ?thesis
    unfolding compose_ack_params_def using assms
    by (subst ack_gids_run) (simp_all add: ack_params_def MM_GID_MAX_def min.commute)
qed

section \<open>Posting the answer\<close>

text \<open>The message that answers a request: its endpoint and address, and a body of the discriminator and the MM bits.\<close>

definition answers :: "TlaSapPayload \<Rightarrow> bool list \<Rightarrow> TleSapMsg \<Rightarrow> bool" where
  "answers pl xs t \<longleftrightarrow> tle_endpoint t = tla_endpoint pl \<and> tle_addr t = tla_addr pl \<and>
     pdu_type (tle_pdu t) = LlcPdu_BL_ADATA \<and> body_len_bits (tle_pdu t) = 3 + length xs \<and>
     take (3 + length xs) (bits_of (body (tle_pdu t))) = [False, False, True] @ xs"

lemma answer_pdu_ok:
  assumes "length b = 32" "n \<le> 256"
  shows "\<exists>pdu. answer_pdu b n = Some pdu \<and> pdu_type pdu = LlcPdu_BL_ADATA \<and> body_len_bits pdu = n \<and>
     length (body pdu) = 32 \<and> take n (bits_of (body pdu)) = take n (bits_of b)"
  using body_copy_ok [OF assms] by (auto simp: answer_pdu_def)

lemma answer_msg_facts:
  assumes "length (body (tle_pdu t)) = 32" "body_len_bits (tle_pdu t) \<le> 256"
  shows "msg_ok (answer_msg t)" "msg_good (answer_msg t)" "payload (norm_msg (answer_msg t)) = Some (TleSapMsg_bytes t)"
  using tle_msg_facts [OF assms answer_msg_def] by simp_all

lemma post_answer_ok:
  assumes "n \<le> 253" "n \<le> 8 * length mm_body" "xs = take n (bits_of mm_body)"
  shows "\<exists>t. post_answer env pl n mm_body = Some (snd (env_post env MsgPrio_Normal (answer_msg t))) \<and> answers pl xs t \<and>
     length (body (tle_pdu t)) = 32 \<and> body_len_bits (tle_pdu t) \<le> 256"
proof -
  have x: "length xs = n" using assms(2,3) by simp
  obtain out where out: "prepend_mle_disc_mm mm_body n (uninit 32) 256 = Some (Inr (out, 3 + n))" "length out = 32"
      "take (3 + n) (bits_of out) = [False, False, True] @ xs"
    using prepend_ok [OF assms(1,2)] assms(3) by blast
  have n: "3 + n \<le> 256" using assms(1) by simp
  obtain pdu where pdu: "answer_pdu out (3 + n) = Some pdu" "pdu_type pdu = LlcPdu_BL_ADATA" "body_len_bits pdu = 3 + n"
      "length (body pdu) = 32" "take (3 + n) (bits_of (body pdu)) = take (3 + n) (bits_of out)"
    using answer_pdu_ok [OF out(2) n] by blast
  let ?t = "\<lparr>tle_endpoint = tla_endpoint pl, tle_addr = tla_addr pl, tle_pdu = pdu\<rparr>"
  have "post_answer env pl n mm_body = Some (snd (env_post env MsgPrio_Normal (answer_msg ?t)))"
    using out(1) pdu(1) n by (simp add: post_answer_def LLC_PDU_BODY_MAX_BYTES_def)
  moreover have "answers pl xs ?t" using pdu out(3) x by (simp add: answers_def)
  moreover have "length (body (tle_pdu ?t)) = 32" "body_len_bits (tle_pdu ?t) \<le> 256" using pdu(3,4) n by simp_all
  ultimately show ?thesis by blast
qed

lemma post_answer_too_long: "253 < n \<Longrightarrow> post_answer env pl n mm_body = Some env"
  using prepend_full [of n mm_body "uninit 32"] by (simp add: post_answer_def LLC_PDU_BODY_MAX_BYTES_def)

text \<open>
  One answer: the outcome of building \<open>xs\<close> and posting it. It is stated for both answers at once.
\<close>

definition answered :: "Env \<Rightarrow> TlaSapPayload \<Rightarrow> bool list \<Rightarrow> Env \<Rightarrow> bool" where
  "answered env pl xs env' \<longleftrightarrow>
     (if length xs \<le> 253
      then (\<exists>m bs. env_abs env' = (env_abs env)[1 := env_abs env ! 1 @ [m]] \<and> dest m = SapId_TmaSap \<and> sap m = SapId_TleSap \<and>
         payload m = Some bs \<and> answers pl xs (TleSapMsg_of_bytes bs))
      else env' = env)"

lemma post_answer_answered:
  assumes "env_inv env" "env_room env MsgPrio_Normal" "length xs \<le> 8 * length mm_body" "take (length xs) (bits_of mm_body) = xs"
  shows "\<exists>env'. post_answer env pl (length xs) mm_body = Some env' \<and> answered env pl xs env'"
proof (cases "length xs \<le> 253")
  case True
  obtain t where t: "post_answer env pl (length xs) mm_body = Some (snd (env_post env MsgPrio_Normal (answer_msg t)))"
      "answers pl xs t" and l: "length (body (tle_pdu t)) = 32" "body_len_bits (tle_pdu t) \<le> 256"
    using post_answer_ok [OF True assms(3), of xs env pl] assms(4) by auto
  note f = answer_msg_facts [OF l]
  have "env_abs (snd (env_post env MsgPrio_Normal (answer_msg t))) = (env_abs env)[1 := env_abs env ! 1 @ [norm_msg (answer_msg t)]]"
    using assms(1,2) f by (intro env_post_room) (simp_all add: answer_msg_def sapmsg_init_def sizeof_TleSapMsg_def)
  moreover have "dest (norm_msg (answer_msg t)) = SapId_TmaSap" "sap (norm_msg (answer_msg t)) = SapId_TleSap"
    by (simp_all add: norm_msg_def answer_msg_def sapmsg_init_def)
  ultimately show ?thesis using t f(3) tle_msg_facts(4) [OF l answer_msg_def] True unfolding answered_def by fastforce
qed (simp add: answered_def post_answer_too_long)

section \<open>No request aborts the entity\<close>

lemma post_answer_posts:
  assumes "n \<le> 8 * length mm_body"
  shows "\<exists>env'. post_answer env pl n mm_body = Some env' \<and> env_posts env env'"
proof (cases "n \<le> 253")
  case True
  from post_answer_ok [OF True assms refl, of env pl] show ?thesis
    using answer_msg_facts env_post_posts by blast
qed (simp add: post_answer_too_long)

lemma build_accept_ok:
  assumes "ap_num_gid ap = 1" "length (ap_gid ap) = 4"
  shows "\<exists>b. mm_build_d_loc_update_accept (uninit 64) 512 ap =
       Some (if length (accept_bits ap) \<le> 512 then Inr (length (accept_bits ap)) else Inl ENOSPC, b) \<and> length b = 64 \<and>
     (length (accept_bits ap) \<le> 512 \<longrightarrow> take (length (accept_bits ap)) (bits_of b) = accept_bits ap)"
  using builder_ok [OF accept_prog_runs, of ap 512 "uninit 64"] assms build_accept_prog [of 512 "uninit 64" ap] by auto

lemma build_ack_ok:
  assumes "unat (ga_num_gid gp) \<le> length (ga_gid gp)"
  shows "\<exists>b. mm_build_d_attach_detach_grp_id_ack (uninit 64) 512 gp =
       Some (if length (grp_ack_bits gp) \<le> 512 then Inr (length (grp_ack_bits gp)) else Inl ENOSPC, b) \<and> length b = 64 \<and>
     (length (grp_ack_bits gp) \<le> 512 \<longrightarrow> take (length (grp_ack_bits gp)) (bits_of b) = grp_ack_bits gp)"
  using builder_ok [OF grp_ack_prog_runs, of gp 512 "uninit 64"] assms build_grp_ack_prog [of 512 "uninit 64" gp] by auto

lemma compose_accept_ok:
  assumes "length (gild_giu (gild d)) = 4"
  shows "\<exists>ap. compose_accept_params d cls life fb = Some ap \<and> ap_num_gid ap = 1 \<and> length (ap_gid ap) = 4"
  using assms by (simp add: compose_accept_params_def accept_gssi_def MM_GID_MAX_def)

lemma ack_params_ok [simp]: "length gl \<le> 4 \<Longrightarrow> unat (ga_num_gid (ack_params gl)) \<le> length (ga_gid (ack_params gl))"
  by (simp add: ack_params_def unat_of_nat MM_GID_MAX_def)

lemma build_answer_safe:
  assumes "length (gild_giu (gild (tla_decoded pl))) = 4" "length (giu (tla_decoded pl)) = 4"
  shows "\<exists>mm' ans. build_answer mm db pl = Some (mm', ans) \<and> mm_initialised mm' = mm_initialised mm \<and>
     (\<forall>n b. ans = Some (Inr n, b) \<longrightarrow> n \<le> 8 * length b)"
proof -
  let ?d = "tla_decoded pl"
  obtain r cls life where l: "lookup_profile_defaults db (ssi (tla_addr pl)) 4 1 = (r, cls, life)" by (metis prod_cases3)
  obtain ap where ap: "compose_accept_params ?d cls life 0 = Some ap" "ap_num_gid ap = 1" "length (ap_gid ap) = 4"
    using compose_accept_ok [OF assms(1)] by blast
  have gp: "compose_ack_params ?d = Some (ack_params (take (num_giu ?d) (giu ?d)))"
    using assms(2) by (rule compose_ack_ok)
  have "length (take (num_giu ?d) (giu ?d)) \<le> 4" using assms(2) by simp
  from build_ack_ok [OF ack_params_ok [OF this]] build_accept_ok [OF ap(2,3)] l ap(1) gp show ?thesis
    by (auto simp: build_answer_def Let_def split: MmPduTypeUl.split)
qed

lemma on_mm_request_safe:
  "\<exists>mm' env'. on_mm_request mm db env msg = Some (mm', env') \<and> env_posts env env' \<and> mm_initialised mm' = mm_initialised mm"
proof (cases "payload msg = None \<or> len msg < sizeof_TlaSapPayload \<or> \<not> mm_initialised mm")
  case True
  then show ?thesis by (auto simp: on_mm_request_def split: option.splits)
next
  case False
  then obtain bs where bs: "payload msg = Some bs" by auto
  let ?pl = "TlaSapPayload_of_bytes bs"
  have "length (gild_giu (gild (tla_decoded ?pl))) = 4" "length (giu (tla_decoded ?pl)) = 4"
    by (simp_all add: TlaSapPayload_of_bytes_def MmDecoded_of_bytes_def MmGild_of_bytes_def giu_array_of_bytes_def MM_GIU_MAX_def)
  from build_answer_safe [OF this, of mm db] obtain mm' ans where
    a: "build_answer mm db ?pl = Some (mm', ans)" "mm_initialised mm' = mm_initialised mm" "\<forall>n b. ans = Some (Inr n, b) \<longrightarrow> n \<le> 8 * length b"
    by blast
  have run: "on_mm_request mm db env msg = (case ans of Some (Inr n, b) \<Rightarrow> post_answer env ?pl n b \<bind> (\<lambda>env. Some (mm', env)) | _ \<Rightarrow> Some (mm', env))"
    using False bs a(1) by (auto simp: on_mm_request_def Let_def)
  show ?thesis
  proof (cases "\<exists>n b. ans = Some (Inr n, b)")
    case True
    then obtain n b where "ans = Some (Inr n, b)" by blast
    with run a post_answer_posts [of n b env ?pl] show ?thesis by auto
  next
    case False
    with run a(2) show ?thesis by (auto split: option.splits sum.splits prod.splits)
  qed
qed

section \<open>Answers\<close>

lemma gid_bits_length: "length (gid_bits g) \<le> 80"
  by (simp add: gid_bits_def)

lemma ga_gids_ack: "length gl \<le> 4 \<Longrightarrow> ga_gids (ack_params gl) = map ack_of gl"
  by (simp add: ga_gids_def ack_params_def unat_of_nat)

lemma ack_bits_length: "length gl \<le> 4 \<Longrightarrow> length (grp_ack_bits (ack_params gl)) \<le> 350"
proof -
  assume l: "length gl \<le> 4"
  have "length (concat (map gid_bits xs)) \<le> 80 * length xs" for xs :: "MmGroupIdentityDownlink list"
    by (induction xs) (use gid_bits_length in \<open>auto simp: le_diff_conv intro: add_mono\<close>)
  from this [of "map ack_of gl"] l show ?thesis
    by (simp add: grp_ack_bits_def gid_list_bits_def elem_bits_def ga_gids_ack)
qed

lemma on_mm_request_run:
  assumes "mm_initialised mm" "payload msg = Some (TlaSapPayload_bytes pl)" "len msg = sizeof_TlaSapPayload"
    and "decoded_image_ok (tla_decoded pl)" "build_answer mm db pl = Some (mm', Some (Inr (length xs), b))"
    and "env_inv env" "env_room env MsgPrio_Normal" "length xs \<le> 8 * length b" "take (length xs) (bits_of b) = xs"
  shows "\<exists>env'. on_mm_request mm db env msg = Some (mm', env') \<and> answered env pl xs env'"
  using post_answer_answered [OF assms(6-9), of pl] assms(1-3,5) TlaSapPayload_roundtrip [OF assms(4)]
  by (auto simp: on_mm_request_def Let_def)

section \<open>Properties\<close>

text \<open>
  C9: a group attachment request is acknowledged with exactly the requested identities. For a forwarded
  request with at most four identities and room on the bus, the MM posts one message to the LLC whose
  body is the MM discriminator followed by the acknowledgement PDU listing those identities in order,
  attachments with lifetime 1 and the requested class of usage, to the requesting endpoint and
  address. When that PDU and the discriminator exceed the 256-bit body, nothing is posted, although
  the acknowledgement is counted as built.
\<close>

theorem mm_answers_attach:
  assumes "mm_initialised mm" "payload msg = Some (TlaSapPayload_bytes pl)" "len msg = sizeof_TlaSapPayload"
    and "tla_decoded pl = attach_decoded rep mode gl" "length gl \<le> MM_GIU_MAX" "env_inv env" "env_room env MsgPrio_Normal"
  shows "\<exists>mm' env'. on_mm_request mm db env msg = Some (mm', env') \<and> grp_ack_built (mm_stats mm') = grp_ack_built (mm_stats mm) + 1 \<and>
     answered env pl (grp_ack_bits (ack_params gl)) env'"
proof -
  let ?d = "attach_decoded rep mode gl" and ?st = "mm_stats mm"
  have l: "length gl \<le> 4" using assms(5) by (simp add: MM_GIU_MAX_def)
  have c: "compose_ack_params ?d = Some (ack_params gl)"
    using l by (subst compose_ack_ok) (simp_all add: attach_decoded_def MM_GIU_MAX_def)
  obtain b where b: "mm_build_d_attach_detach_grp_id_ack (uninit 64) 512 (ack_params gl) = Some (Inr (length (grp_ack_bits (ack_params gl))), b)"
      "length b = 64" "take (length (grp_ack_bits (ack_params gl))) (bits_of b) = grp_ack_bits (ack_params gl)"
    using build_ack_ok [OF ack_params_ok [OF l]] ack_bits_length [OF l] by auto
  have "build_answer mm db pl = Some (mm\<lparr>mm_stats := ?st\<lparr>grp_ack_built := grp_ack_built ?st + 1\<rparr>\<rparr>, Some (Inr (length (grp_ack_bits (ack_params gl))), b))"
    using c b(1) by (simp add: build_answer_def assms(4) Let_def) (simp add: attach_decoded_def)
  from on_mm_request_run [OF assms(1-3) _ this assms(6,7) _ b(3)] attach_decoded_image [OF assms(5), of rep mode] assms(4)
    ack_bits_length [OF l] b(2) show ?thesis by fastforce
qed

definition ex_mm :: Mm where
  "ex_mm = zero_mm\<lparr>mm_initialised := True\<rparr>"

definition ex_request :: TlaSapPayload where
  "ex_request = tla_request 5 \<lparr>ssi = 0x282FF4, ssi_type = SsiType_Issi\<rparr> (attach_decoded False 1 [ex_giu])"

theorem mm_answers_attach_witness:
  "\<exists>mm' env' m bs. on_mm_request ex_mm None ex_env (tla_msg ex_request) = Some (mm', env') \<and>
     env_abs env' = (env_abs ex_env)[1 := env_abs ex_env ! 1 @ [m]] \<and> payload m = Some bs \<and>
     take 65 (bits_of (body (tle_pdu (TleSapMsg_of_bytes bs)))) =
       [False, False, True] @ map (\<lambda>c. c = CHR ''1'') ex_grp_ack_air"
proof -
  have "ack_params [ex_giu] = \<lparr>accept_reject = 0, gid_downlink_present = True, ga_num_gid = 1, ga_gid = ex_gid # replicate 3 zero_gid\<rparr>"
    by (simp add: ack_params_def ack_of_def ex_giu_def zero_giu_def ex_gid_def zero_gid_def MM_GID_MAX_def)
  then have a: "grp_ack_bits (ack_params [ex_giu]) = map (\<lambda>c. c = CHR ''1'') ex_grp_ack_air"
    by (simp only: grp_ack_bits_def) code_simp
  have n: "length (map (\<lambda>c. c = CHR ''1'') ex_grp_ack_air) = 62" by (simp add: ex_grp_ack_air_def)
  have "answered ex_env ex_request (map (\<lambda>c. c = CHR ''1'') ex_grp_ack_air) env' \<Longrightarrow> \<exists>m bs.
     env_abs env' = (env_abs ex_env)[1 := env_abs ex_env ! 1 @ [m]] \<and> payload m = Some bs \<and>
     take 65 (bits_of (body (tle_pdu (TleSapMsg_of_bytes bs)))) = [False, False, True] @ map (\<lambda>c. c = CHR ''1'') ex_grp_ack_air" for env'
    unfolding answered_def answers_def n by auto
  then show ?thesis
    using mm_answers_attach [where mm = ex_mm and msg = "tla_msg ex_request" and pl = ex_request and rep = False and mode = 1
        and gl = "[ex_giu]" and env = ex_env and db = None] ex_env_inv a
    by (force simp: ex_mm_def tla_msg_def sapmsg_init_def ex_request_def tla_request_def MM_GIU_MAX_def)
qed













text \<open>
  The acknowledgement of four extended identities is lost. When a terminal attaches four group
  identities with GSSI and address extension, which the uplink PDU and the parser allow, the
  acknowledgement has 254 bits, one more than fits behind the discriminator: the MM counts it as built
  and posts nothing, so the terminal is never answered.
\<close>

theorem mm_large_ack_lost:
  assumes "mm_initialised mm" "payload msg = Some (TlaSapPayload_bytes pl)" "len msg = sizeof_TlaSapPayload"
    and "tla_decoded pl = attach_decoded rep mode gl" "length gl = 4" "\<forall>g\<in>set gl. giu_is_attach g \<and> giu_address_type g = 1"
  shows "\<exists>mm'. on_mm_request mm db env msg = Some (mm', env) \<and> grp_ack_built (mm_stats mm') = grp_ack_built (mm_stats mm) + 1"
proof -
  let ?A = "grp_ack_bits (ack_params gl)" and ?st = "mm_stats mm"
  have l: "length gl \<le> 4" "length gl \<le> MM_GIU_MAX" using assms(5) by (simp_all add: MM_GIU_MAX_def)
  obtain a b c d where gl: "gl = [a, b, c, d]" using assms(5) by (auto simp: numeral_eq_Suc length_Suc_conv)
  have "length (gid_bits (ack_of g)) = 56" if "g \<in> set gl" for g
    using assms(6) that by (simp add: gid_bits_def ack_of_def)
  then have n: "length ?A = 254"
    by (simp add: gl grp_ack_bits_def ga_gids_def ack_params_def gid_list_bits_def elem_bits_def)
  obtain b where b: "mm_build_d_attach_detach_grp_id_ack (uninit 64) 512 (ack_params gl) = Some (Inr (length ?A), b)"
    using build_ack_ok [OF ack_params_ok [OF l(1)]] n by auto
  have c: "compose_ack_params (attach_decoded rep mode gl) = Some (ack_params gl)"
    using assms(5) by (subst compose_ack_ok) (simp_all add: attach_decoded_def MM_GIU_MAX_def)
  have "build_answer mm db pl = Some (mm\<lparr>mm_stats := ?st\<lparr>grp_ack_built := grp_ack_built ?st + 1\<rparr>\<rparr>, Some (Inr 254, b))"
    using c b n by (simp add: build_answer_def assms(4) Let_def) (simp add: attach_decoded_def)
  then show ?thesis
    using assms(1-3) TlaSapPayload_roundtrip [of pl] attach_decoded_image [OF l(2), of rep mode] assms(4)
    by (simp add: on_mm_request_def Let_def post_answer_too_long)
qed

theorem mm_large_ack_lost_witness:
  "\<exists>mm'. on_mm_request ex_mm None ex_env (tla_msg (ex_request\<lparr>tla_decoded := attach_decoded False 1
       (replicate 4 (ex_giu\<lparr>giu_address_type := 1, giu_address_extension := 7\<rparr>))\<rparr>)) = Some (mm', ex_env)"
  using mm_large_ack_lost [where mm = ex_mm and rep = False and mode = 1 and env = ex_env and db = None
      and gl = "replicate 4 (ex_giu\<lparr>giu_address_type := 1, giu_address_extension := 7\<rparr>)"
      and pl = "ex_request\<lparr>tla_decoded := attach_decoded False 1 (replicate 4 (ex_giu\<lparr>giu_address_type := 1, giu_address_extension := 7\<rparr>))\<rparr>"
      and msg = "tla_msg (ex_request\<lparr>tla_decoded := attach_decoded False 1 (replicate 4 (ex_giu\<lparr>giu_address_type := 1, giu_address_extension := 7\<rparr>))\<rparr>)"]
  by (auto simp: ex_mm_def tla_msg_def sapmsg_init_def ex_giu_def)

end
