(* ===== verification/Cmce_Pdu.thy ===== *)
theory Cmce_Pdu
  imports Llc
begin

text \<open>
  The CMCE PDU codec (\<open>sw/cmce/cmce_pdu.c\<close>, types of \<open>sw/cmce/include/tetra/cmce.h\<close>): encoders and
  decoders of the call-control PDUs in both directions and of the D-NWRK-BROADCAST body. Every run of
  \<open>bb_put_bits\<close> or \<open>bb_get_bits\<close> calls is a \<open>put_fields\<close> or \<open>get_fields\<close> over the list of values and
  widths. The enumerations whose values the wire does not restrict are their integers.
\<close>

section \<open>Types\<close>

datatype CmcePduType =
    CmcePdu_Setup | CmcePdu_CallProceeding | CmcePdu_Connect | CmcePdu_TxDemand | CmcePdu_TxGranted
  | CmcePdu_Release | CmcePdu_NwrkBroadcast | CmcePdu_Unknown

fun CmcePduType_code :: "CmcePduType \<Rightarrow> u8" where
  "CmcePduType_code CmcePdu_Setup = 7"
| "CmcePduType_code CmcePdu_CallProceeding = 1"
| "CmcePduType_code CmcePdu_Connect = 2"
| "CmcePduType_code CmcePdu_TxDemand = 10"
| "CmcePduType_code CmcePdu_TxGranted = 11"
| "CmcePduType_code CmcePdu_Release = 6"
| "CmcePduType_code CmcePdu_NwrkBroadcast = 0xFE"
| "CmcePduType_code CmcePdu_Unknown = 0xFF"

datatype CmceDirection = CmceDir_Downlink | CmceDir_Uplink

type_synonym CmceTransmissionGrant = u32
type_synonym CmceDisconnectCause = u32
type_synonym CmcePartyType = u32

definition CmceTxGrant_Granted :: CmceTransmissionGrant where
  "CmceTxGrant_Granted = 0"

definition CmceDisconnect_UserRequested :: CmceDisconnectCause where
  "CmceDisconnect_UserRequested = 0"

definition CmcePty_Sna :: CmcePartyType where
  "CmcePty_Sna = 0"
definition CmcePty_Ssi :: CmcePartyType where
  "CmcePty_Ssi = 1"
definition CmcePty_Tsi :: CmcePartyType where
  "CmcePty_Tsi = 2"

lemmas pty_defs = CmcePty_Sna_def CmcePty_Ssi_def CmcePty_Tsi_def

definition cmce_bsi_make :: "u8 \<Rightarrow> u8 \<Rightarrow> u8 \<Rightarrow> u8 \<Rightarrow> u8" where
  "cmce_bsi_make circuit_mode_type encryption_flag communication_type variant_field =
     push_bit 5 (circuit_mode_type AND 7) OR push_bit 4 (encryption_flag AND 1) OR
     push_bit 2 (communication_type AND 3) OR (variant_field AND 3)"

definition CMCE_PDU_BODY_MAX_BYTES :: nat where
  "CMCE_PDU_BODY_MAX_BYTES = 32"

record CmcePdu =
  cmce_pdu_type :: CmcePduType
  call_identifier :: u16
  call_time_out :: u8
  call_time_out_set_up_phase :: u8
  hook_method_selection :: u8
  simplex_duplex_selection :: u8
  basic_service_information :: u8
  transmission_grant :: CmceTransmissionGrant
  transmission_request_permission :: u8
  call_priority :: u8
  call_ownership :: u8
  area_selection :: u8
  request_to_transmit_send_data :: u8
  clir_control :: u8
  called_party_type_identifier :: CmcePartyType
  called_party_address_ssi :: u32
  called_party_short_number_address :: u8
  tx_demand_priority :: u8
  encryption_control :: u8
  disconnect_cause :: CmceDisconnectCause
  nwrk_cell_re_select_parameters :: u16
  nwrk_cell_load_ca :: u8
  optionals_present :: bool
  nwrk_p_tetra_network_time :: bool
  nwrk_tetra_network_time :: u64
  nwrk_p_num_ca_neighbour_cells :: bool
  nwrk_num_ca_neighbour_cells :: u8
  encoded_len_bits :: nat

text \<open>The structure after \<open>memset\<close>; the type field then holds 0, which is none of the listed types.\<close>

definition zero_cmce_pdu :: CmcePdu where
  "zero_cmce_pdu = \<lparr>cmce_pdu_type = CmcePdu_Unknown, call_identifier = 0, call_time_out = 0, call_time_out_set_up_phase = 0,
     hook_method_selection = 0, simplex_duplex_selection = 0, basic_service_information = 0, transmission_grant = 0,
     transmission_request_permission = 0, call_priority = 0, call_ownership = 0, area_selection = 0,
     request_to_transmit_send_data = 0, clir_control = 0, called_party_type_identifier = 0, called_party_address_ssi = 0,
     called_party_short_number_address = 0, tx_demand_priority = 0, encryption_control = 0, disconnect_cause = 0,
     nwrk_cell_re_select_parameters = 0, nwrk_cell_load_ca = 0, optionals_present = False, nwrk_p_tetra_network_time = False,
     nwrk_tetra_network_time = 0, nwrk_p_num_ca_neighbour_cells = False, nwrk_num_ca_neighbour_cells = 0, encoded_len_bits = 0\<rparr>"

section \<open>Encoders\<close>

definition put_pdu_type :: "BitBuffer \<Rightarrow> u8 \<Rightarrow> (unit res \<times> BitBuffer) option" where
  "put_pdu_type out v =
     (if v > 0x1F then Some (Inl EINVAL, out)
      else do {
        out \<leftarrow> bb_put_bits out (ucast v) 5;
        Some (Inr (), out)
      })"

text \<open>The common body of the encoders: the type code, then the given fields.\<close>

definition put_typed :: "CmcePduType \<Rightarrow> field list \<Rightarrow> BitBuffer \<Rightarrow> (unit res \<times> BitBuffer) option" where
  "put_typed t fs out = do {
     (rc, out) \<leftarrow> put_pdu_type out (CmcePduType_code t);
     case rc of
       Inl e \<Rightarrow> Some (Inl e, out)
     | Inr _ \<Rightarrow> do {
         out \<leftarrow> put_fields bb_put_bits fs out;
         Some (Inr (), out)
       }
   }"

definition obit :: "CmcePdu \<Rightarrow> field" where
  "obit p = ((if optionals_present p then 1 else 0), 1)"

definition encode_d_setup :: "BitBuffer \<Rightarrow> CmcePdu \<Rightarrow> (unit res \<times> BitBuffer) option" where
  "encode_d_setup out p =
     (if call_identifier p > 0x3FFF \<or> call_time_out p > 0x0F \<or> call_priority p > 0x0F \<or> transmission_grant p > 3
      then Some (Inl EINVAL, out)
      else put_typed CmcePdu_Setup
        [(ucast (call_identifier p) AND 0x3FFF, 14), (ucast (call_time_out p) AND 0x0F, 4),
         (ucast (hook_method_selection p AND 1), 1), (ucast (simplex_duplex_selection p AND 1), 1),
         (ucast (basic_service_information p), 8), (transmission_grant p AND 3, 2),
         (ucast (transmission_request_permission p AND 1), 1), (ucast (call_priority p) AND 0x0F, 4), obit p] out)"

text \<open>The \<open>switch\<close> over the kind of called party.\<close>

definition called_party_fields :: "CmcePdu \<Rightarrow> field list" where
  "called_party_fields p =
     (if called_party_type_identifier p = CmcePty_Sna then [(ucast (called_party_short_number_address p), 8)]
      else if called_party_type_identifier p = CmcePty_Ssi then [(called_party_address_ssi p AND TETRA_SSI_MASK_24, 24)]
      else if called_party_type_identifier p = CmcePty_Tsi then [(called_party_address_ssi p AND TETRA_SSI_MASK_24, 24)]
      else [])"

definition encode_u_setup :: "BitBuffer \<Rightarrow> CmcePdu \<Rightarrow> (unit res \<times> BitBuffer) option" where
  "encode_u_setup out p =
     (if area_selection p > 0x0F \<or> call_priority p > 0x0F \<or> clir_control p > 3 then Some (Inl EINVAL, out)
      else put_typed CmcePdu_Setup
        ([(ucast (area_selection p) AND 0x0F, 4), (ucast (hook_method_selection p AND 1), 1),
          (ucast (simplex_duplex_selection p AND 1), 1), (ucast (basic_service_information p), 8),
          (ucast (request_to_transmit_send_data p AND 1), 1), (ucast (call_priority p) AND 0x0F, 4),
          (ucast (clir_control p) AND 3, 2), (called_party_type_identifier p AND 3, 2)] @
         called_party_fields p @ [obit p]) out)"

definition encode_d_call_proceeding :: "BitBuffer \<Rightarrow> CmcePdu \<Rightarrow> (unit res \<times> BitBuffer) option" where
  "encode_d_call_proceeding out p =
     (if call_identifier p > 0x3FFF \<or> call_time_out_set_up_phase p > 7 then Some (Inl EINVAL, out)
      else put_typed CmcePdu_CallProceeding
        [(ucast (call_identifier p) AND 0x3FFF, 14), (ucast (call_time_out_set_up_phase p) AND 7, 3),
         (ucast (hook_method_selection p AND 1), 1), (ucast (simplex_duplex_selection p AND 1), 1), obit p] out)"

definition encode_d_connect :: "BitBuffer \<Rightarrow> CmcePdu \<Rightarrow> (unit res \<times> BitBuffer) option" where
  "encode_d_connect out p =
     (if call_identifier p > 0x3FFF \<or> call_time_out p > 0x0F \<or> transmission_grant p > 3 then Some (Inl EINVAL, out)
      else put_typed CmcePdu_Connect
        [(ucast (call_identifier p) AND 0x3FFF, 14), (ucast (call_time_out p) AND 0x0F, 4),
         (ucast (hook_method_selection p AND 1), 1), (ucast (simplex_duplex_selection p AND 1), 1),
         (transmission_grant p AND 3, 2), (ucast (transmission_request_permission p AND 1), 1),
         (ucast (call_ownership p AND 1), 1), obit p] out)"

definition encode_d_tx_granted :: "BitBuffer \<Rightarrow> CmcePdu \<Rightarrow> (unit res \<times> BitBuffer) option" where
  "encode_d_tx_granted out p =
     (if call_identifier p > 0x3FFF \<or> transmission_grant p > 3 then Some (Inl EINVAL, out)
      else put_typed CmcePdu_TxGranted
        [(ucast (call_identifier p) AND 0x3FFF, 14), (transmission_grant p AND 3, 2),
         (ucast (transmission_request_permission p AND 1), 1), (ucast (encryption_control p AND 1), 1), (0, 1), obit p] out)"

definition encode_u_tx_demand :: "BitBuffer \<Rightarrow> CmcePdu \<Rightarrow> (unit res \<times> BitBuffer) option" where
  "encode_u_tx_demand out p =
     (if call_identifier p > 0x3FFF \<or> tx_demand_priority p > 3 then Some (Inl EINVAL, out)
      else put_typed CmcePdu_TxDemand
        [(ucast (call_identifier p) AND 0x3FFF, 14), (ucast (tx_demand_priority p) AND 3, 2),
         (ucast (encryption_control p AND 1), 1), (0, 1), obit p] out)"

definition encode_release :: "BitBuffer \<Rightarrow> CmcePdu \<Rightarrow> (unit res \<times> BitBuffer) option" where
  "encode_release out p =
     (if call_identifier p > 0x3FFF \<or> disconnect_cause p > 0x1F then Some (Inl EINVAL, out)
      else put_typed CmcePdu_Release
        [(ucast (call_identifier p) AND 0x3FFF, 14), (disconnect_cause p AND 0x1F, 5), obit p] out)"

definition encode_body :: "BitBuffer \<Rightarrow> CmcePdu \<Rightarrow> CmceDirection \<Rightarrow> (unit res \<times> BitBuffer) option" where
  "encode_body out pdu dir =
     (case cmce_pdu_type pdu of
        CmcePdu_Setup \<Rightarrow> if dir = CmceDir_Downlink then encode_d_setup out pdu else encode_u_setup out pdu
      | CmcePdu_CallProceeding \<Rightarrow> if dir \<noteq> CmceDir_Downlink then Some (Inl EINVAL, out) else encode_d_call_proceeding out pdu
      | CmcePdu_Connect \<Rightarrow> if dir \<noteq> CmceDir_Downlink then Some (Inl EINVAL, out) else encode_d_connect out pdu
      | CmcePdu_TxDemand \<Rightarrow> if dir \<noteq> CmceDir_Uplink then Some (Inl EINVAL, out) else encode_u_tx_demand out pdu
      | CmcePdu_TxGranted \<Rightarrow> if dir \<noteq> CmceDir_Downlink then Some (Inl EINVAL, out) else encode_d_tx_granted out pdu
      | CmcePdu_Release \<Rightarrow> encode_release out pdu
      | CmcePdu_NwrkBroadcast \<Rightarrow> Some (Inl EINVAL, out)
      | CmcePdu_Unknown \<Rightarrow> Some (Inl EINVAL, out))"

definition cmce_pdu_encode :: "BitBuffer \<Rightarrow> CmcePdu \<Rightarrow> CmceDirection \<Rightarrow> (nat res \<times> BitBuffer) option" where
  "cmce_pdu_encode out pdu dir = do {
     let start = bb_pos_bits out;
     (rc, out) \<leftarrow> encode_body out pdu dir;
     case rc of
       Inl e \<Rightarrow> Some (Inl e, out)
     | Inr _ \<Rightarrow> Some (Inr (bb_pos_bits out - start), out)
   }"

section \<open>Decoders\<close>

definition get_pdu_type :: "BitBuffer \<Rightarrow> (u8 \<times> BitBuffer) option" where
  "get_pdu_type inb = do {
     (v, inb) \<leftarrow> bb_get_bits inb 5;
     Some (ucast v, inb)
   }"

definition decode_d_setup :: "BitBuffer \<Rightarrow> CmcePdu \<Rightarrow> nat \<Rightarrow> (unit res \<times> CmcePdu \<times> BitBuffer) option" where
  "decode_d_setup inb p in_len_bits =
     (if in_len_bits < 41 then Some (Inl EPROTO, p, inb)
      else do {
        (vs, inb) \<leftarrow> get_fields bb_get_bits [14, 4, 1, 1, 8, 2, 1, 4, 1] inb;
        Some (Inr (), p\<lparr>call_identifier := ucast (vs ! 0), call_time_out := ucast (vs ! 1),
          hook_method_selection := ucast (vs ! 2), simplex_duplex_selection := ucast (vs ! 3),
          basic_service_information := ucast (vs ! 4), transmission_grant := vs ! 5,
          transmission_request_permission := ucast (vs ! 6), call_priority := ucast (vs ! 7),
          optionals_present := (vs ! 8 \<noteq> 0)\<rparr>, inb)
      })"

definition decode_called_party :: "BitBuffer \<Rightarrow> CmcePdu \<Rightarrow> (unit res \<times> CmcePdu \<times> BitBuffer) option" where
  "decode_called_party inb p =
     (if called_party_type_identifier p = CmcePty_Sna
      then if bb_remaining inb < 8 + 1 then Some (Inl EPROTO, p, inb)
           else do {
             (v, inb) \<leftarrow> bb_get_bits inb 8;
             Some (Inr (), p\<lparr>called_party_short_number_address := ucast v\<rparr>, inb)
           }
      else if called_party_type_identifier p = CmcePty_Ssi \<or> called_party_type_identifier p = CmcePty_Tsi
      then if bb_remaining inb < 24 + 1 then Some (Inl EPROTO, p, inb)
           else do {
             (v, inb) \<leftarrow> bb_get_bits inb 24;
             Some (Inr (), p\<lparr>called_party_address_ssi := v AND TETRA_SSI_MASK_24\<rparr>, inb)
           }
      else Some (Inr (), p, inb))"

definition decode_u_setup :: "BitBuffer \<Rightarrow> CmcePdu \<Rightarrow> nat \<Rightarrow> (unit res \<times> CmcePdu \<times> BitBuffer) option" where
  "decode_u_setup inb p in_len_bits =
     (if in_len_bits < 30 then Some (Inl EPROTO, p, inb)
      else do {
        (vs, inb) \<leftarrow> get_fields bb_get_bits [4, 1, 1, 8, 1, 4, 2, 2] inb;
        (rc, p, inb) \<leftarrow> decode_called_party inb
          (p\<lparr>area_selection := ucast (vs ! 0), hook_method_selection := ucast (vs ! 1),
             simplex_duplex_selection := ucast (vs ! 2), basic_service_information := ucast (vs ! 3),
             request_to_transmit_send_data := ucast (vs ! 4), call_priority := ucast (vs ! 5),
             clir_control := ucast (vs ! 6), called_party_type_identifier := vs ! 7\<rparr>);
        case rc of
          Inl e \<Rightarrow> Some (Inl e, p, inb)
        | Inr _ \<Rightarrow> do {
            (v, inb) \<leftarrow> bb_get_bits inb 1;
            Some (Inr (), p\<lparr>optionals_present := (v \<noteq> 0)\<rparr>, inb)
          }
      })"

definition decode_d_call_proceeding :: "BitBuffer \<Rightarrow> CmcePdu \<Rightarrow> nat \<Rightarrow> (unit res \<times> CmcePdu \<times> BitBuffer) option" where
  "decode_d_call_proceeding inb p in_len_bits =
     (if in_len_bits < 25 then Some (Inl EPROTO, p, inb)
      else do {
        (vs, inb) \<leftarrow> get_fields bb_get_bits [14, 3, 1, 1, 1] inb;
        Some (Inr (), p\<lparr>call_identifier := ucast (vs ! 0), call_time_out_set_up_phase := ucast (vs ! 1),
          hook_method_selection := ucast (vs ! 2), simplex_duplex_selection := ucast (vs ! 3),
          optionals_present := (vs ! 4 \<noteq> 0)\<rparr>, inb)
      })"

definition decode_d_connect :: "BitBuffer \<Rightarrow> CmcePdu \<Rightarrow> nat \<Rightarrow> (unit res \<times> CmcePdu \<times> BitBuffer) option" where
  "decode_d_connect inb p in_len_bits =
     (if in_len_bits < 30 then Some (Inl EPROTO, p, inb)
      else do {
        (vs, inb) \<leftarrow> get_fields bb_get_bits [14, 4, 1, 1, 2, 1, 1, 1] inb;
        Some (Inr (), p\<lparr>call_identifier := ucast (vs ! 0), call_time_out := ucast (vs ! 1),
          hook_method_selection := ucast (vs ! 2), simplex_duplex_selection := ucast (vs ! 3),
          transmission_grant := vs ! 4, transmission_request_permission := ucast (vs ! 5),
          call_ownership := ucast (vs ! 6), optionals_present := (vs ! 7 \<noteq> 0)\<rparr>, inb)
      })"

definition decode_d_tx_granted :: "BitBuffer \<Rightarrow> CmcePdu \<Rightarrow> nat \<Rightarrow> (unit res \<times> CmcePdu \<times> BitBuffer) option" where
  "decode_d_tx_granted inb p in_len_bits =
     (if in_len_bits < 25 then Some (Inl EPROTO, p, inb)
      else do {
        (vs, inb) \<leftarrow> get_fields bb_get_bits [14, 2, 1, 1, 1, 1] inb;
        Some (Inr (), p\<lparr>call_identifier := ucast (vs ! 0), transmission_grant := vs ! 1,
          transmission_request_permission := ucast (vs ! 2), encryption_control := ucast (vs ! 3),
          optionals_present := (vs ! 5 \<noteq> 0)\<rparr>, inb)
      })"

definition decode_u_tx_demand :: "BitBuffer \<Rightarrow> CmcePdu \<Rightarrow> nat \<Rightarrow> (unit res \<times> CmcePdu \<times> BitBuffer) option" where
  "decode_u_tx_demand inb p in_len_bits =
     (if in_len_bits < 24 then Some (Inl EPROTO, p, inb)
      else do {
        (vs, inb) \<leftarrow> get_fields bb_get_bits [14, 2, 1, 1, 1] inb;
        Some (Inr (), p\<lparr>call_identifier := ucast (vs ! 0), tx_demand_priority := ucast (vs ! 1),
          encryption_control := ucast (vs ! 2), optionals_present := (vs ! 4 \<noteq> 0)\<rparr>, inb)
      })"

definition decode_release :: "BitBuffer \<Rightarrow> CmcePdu \<Rightarrow> nat \<Rightarrow> (unit res \<times> CmcePdu \<times> BitBuffer) option" where
  "decode_release inb p in_len_bits =
     (if in_len_bits < 25 then Some (Inl EPROTO, p, inb)
      else do {
        (vs, inb) \<leftarrow> get_fields bb_get_bits [14, 5, 1] inb;
        Some (Inr (), p\<lparr>call_identifier := ucast (vs ! 0), disconnect_cause := vs ! 1,
          optionals_present := (vs ! 2 \<noteq> 0)\<rparr>, inb)
      })"

text \<open>The \<open>switch\<close> on the type code: the decoder run on the structure with its type set.\<close>

definition decode_typed :: "u8 \<Rightarrow> BitBuffer \<Rightarrow> CmcePdu \<Rightarrow> CmceDirection \<Rightarrow> nat \<Rightarrow> (unit res \<times> CmcePdu \<times> BitBuffer) option" where
  "decode_typed raw inb out dir in_len_bits =
     (let run = (\<lambda>t dec. dec inb (out\<lparr>cmce_pdu_type := t\<rparr>) in_len_bits); refuse = Some (Inl EPROTO, out, inb) in
      if raw = CmcePduType_code CmcePdu_Setup
      then run CmcePdu_Setup (if dir = CmceDir_Downlink then decode_d_setup else decode_u_setup)
      else if raw = CmcePduType_code CmcePdu_CallProceeding
      then if dir \<noteq> CmceDir_Downlink then refuse else run CmcePdu_CallProceeding decode_d_call_proceeding
      else if raw = CmcePduType_code CmcePdu_Connect
      then if dir \<noteq> CmceDir_Downlink then refuse else run CmcePdu_Connect decode_d_connect
      else if raw = CmcePduType_code CmcePdu_TxDemand
      then if dir \<noteq> CmceDir_Uplink then refuse else run CmcePdu_TxDemand decode_u_tx_demand
      else if raw = CmcePduType_code CmcePdu_TxGranted
      then if dir \<noteq> CmceDir_Downlink then refuse else run CmcePdu_TxGranted decode_d_tx_granted
      else if raw = CmcePduType_code CmcePdu_Release
      then run CmcePdu_Release decode_release
      else Some (Inl EPROTO, out\<lparr>cmce_pdu_type := CmcePdu_Unknown\<rparr>, inb))"

definition cmce_pdu_decode :: "BitBuffer \<Rightarrow> CmcePdu \<Rightarrow> CmceDirection \<Rightarrow> nat \<Rightarrow> (unit res \<times> CmcePdu \<times> BitBuffer) option" where
  "cmce_pdu_decode inb out dir in_len_bits =
     (if in_len_bits < 5 then Some (Inl EPROTO, out, inb)
      else do {
        (raw, inb) \<leftarrow> get_pdu_type inb;
        (rc, out, inb) \<leftarrow> decode_typed raw inb zero_cmce_pdu dir in_len_bits;
        case rc of
          Inl e \<Rightarrow> Some (Inl e, out, inb)
        | Inr _ \<Rightarrow> Some (Inr (), out\<lparr>encoded_len_bits := in_len_bits\<rparr>, inb)
      })"

section \<open>D-NWRK-BROADCAST\<close>

definition cmce_pdu_encode_d_nwrk_broadcast :: "BitBuffer \<Rightarrow> CmcePdu \<Rightarrow> (nat res \<times> BitBuffer) option" where
  "cmce_pdu_encode_d_nwrk_broadcast out pdu =
     (if nwrk_cell_load_ca pdu > 3 then Some (Inl EINVAL, out)
      else if nwrk_num_ca_neighbour_cells pdu > 7 then Some (Inl EINVAL, out)
      else do {
        let start = bb_pos_bits out;
        out \<leftarrow> put_fields bb_put_bits [(ucast (nwrk_cell_re_select_parameters pdu), 16),
          (ucast (nwrk_cell_load_ca pdu) AND 3, 2), obit pdu] out;
        if \<not> optionals_present pdu then Some (Inr (bb_pos_bits out - start), out)
        else do {
          out \<leftarrow> bb_put_bits out (if nwrk_p_tetra_network_time pdu then 1 else 0) 1;
          out \<leftarrow> (if nwrk_p_tetra_network_time pdu
                  then put_fields bb_put_bits
                    [(ucast (drop_bit 24 (nwrk_tetra_network_time pdu) AND 0xFFFFFF), 24),
                     (ucast (nwrk_tetra_network_time pdu AND 0xFFFFFF), 24)] out
                  else Some out);
          out \<leftarrow> bb_put_bits out (if nwrk_p_num_ca_neighbour_cells pdu then 1 else 0) 1;
          if \<not> nwrk_p_num_ca_neighbour_cells pdu then Some (Inr (bb_pos_bits out - start), out)
          else do {
            out \<leftarrow> bb_put_bits out (ucast (nwrk_num_ca_neighbour_cells pdu) AND 7) 3;
            if nwrk_num_ca_neighbour_cells pdu > 0 then Some (Inl ENOTSUP, out)
            else Some (Inr (bb_pos_bits out - start), out)
          }
        }
      })"

definition decode_nwrk_time :: "BitBuffer \<Rightarrow> CmcePdu \<Rightarrow> nat \<Rightarrow> (unit res \<times> CmcePdu \<times> BitBuffer) option" where
  "decode_nwrk_time inb out in_len_bits =
     (if in_len_bits < 21 then Some (Inl EPROTO, out, inb)
      else do {
        (v, inb) \<leftarrow> bb_get_bits inb 1;
        let out = out\<lparr>nwrk_p_tetra_network_time := (v \<noteq> 0)\<rparr>;
        if \<not> nwrk_p_tetra_network_time out then Some (Inr (), out, inb)
        else if in_len_bits < 21 + 48 then Some (Inl EPROTO, out, inb)
        else do {
          (hi, inb) \<leftarrow> bb_get_bits inb 24;
          (lo, inb) \<leftarrow> bb_get_bits inb 24;
          Some (Inr (), out\<lparr>nwrk_tetra_network_time := push_bit 24 (ucast hi) OR ucast lo\<rparr>, inb)
        }
      })"

definition decode_nwrk_cells :: "BitBuffer \<Rightarrow> CmcePdu \<Rightarrow> (CmcePdu \<times> BitBuffer) option" where
  "decode_nwrk_cells inb out = do {
     (v, inb) \<leftarrow> bb_get_bits inb 1;
     let out = out\<lparr>nwrk_p_num_ca_neighbour_cells := (v \<noteq> 0)\<rparr>;
     if \<not> nwrk_p_num_ca_neighbour_cells out then Some (out, inb)
     else do {
       (n, inb) \<leftarrow> bb_get_bits inb 3;
       Some (out\<lparr>nwrk_num_ca_neighbour_cells := ucast n\<rparr>, inb)
     }
   }"

definition cmce_pdu_decode_d_nwrk_broadcast :: "BitBuffer \<Rightarrow> CmcePdu \<Rightarrow> nat \<Rightarrow> (nat res \<times> CmcePdu \<times> BitBuffer) option" where
  "cmce_pdu_decode_d_nwrk_broadcast inb out in_len_bits =
     (if in_len_bits < 19 then Some (Inl EPROTO, out, inb)
      else do {
        let start = bb_pos_bits inb;
        (vs, inb) \<leftarrow> get_fields bb_get_bits [16, 2, 1] inb;
        let out = out\<lparr>cmce_pdu_type := CmcePdu_NwrkBroadcast, nwrk_cell_re_select_parameters := ucast (vs ! 0),
          nwrk_cell_load_ca := ucast (vs ! 1), optionals_present := (vs ! 2 \<noteq> 0), nwrk_p_tetra_network_time := False,
          nwrk_tetra_network_time := 0, nwrk_p_num_ca_neighbour_cells := False, nwrk_num_ca_neighbour_cells := 0\<rparr>;
        (rc, out, inb) \<leftarrow> (if optionals_present out then decode_nwrk_time inb out in_len_bits else Some (Inr (), out, inb));
        case rc of
          Inl e \<Rightarrow> Some (Inl e, out, inb)
        | Inr _ \<Rightarrow> do {
            (out, inb) \<leftarrow> (if optionals_present out then decode_nwrk_cells inb out else Some (out, inb));
            let n = (bb_pos_bits inb - start) mod 65536;
            Some (Inr n, out\<lparr>encoded_len_bits := n\<rparr>, inb)
          }
      })"

section \<open>Wire format\<close>

text \<open>The PDU of each type and direction as a list of fields, mandatory part and o-bit.\<close>

definition cmce_body_fields :: "CmceDirection \<Rightarrow> CmcePdu \<Rightarrow> field list" where
  "cmce_body_fields dir p =
     (case cmce_pdu_type p of
        CmcePdu_Setup \<Rightarrow>
          if dir = CmceDir_Downlink
          then [(ucast (call_identifier p), 14), (ucast (call_time_out p), 4), (ucast (hook_method_selection p), 1),
                (ucast (simplex_duplex_selection p), 1), (ucast (basic_service_information p), 8), (transmission_grant p, 2),
                (ucast (transmission_request_permission p), 1), (ucast (call_priority p), 4), obit p]
          else [(ucast (area_selection p), 4), (ucast (hook_method_selection p), 1), (ucast (simplex_duplex_selection p), 1),
                (ucast (basic_service_information p), 8), (ucast (request_to_transmit_send_data p), 1),
                (ucast (call_priority p), 4), (ucast (clir_control p), 2), (called_party_type_identifier p, 2)] @
               (if called_party_type_identifier p = 0 then [(ucast (called_party_short_number_address p), 8)]
                else [(called_party_address_ssi p, 24)]) @ [obit p]
      | CmcePdu_CallProceeding \<Rightarrow>
          [(ucast (call_identifier p), 14), (ucast (call_time_out_set_up_phase p), 3), (ucast (hook_method_selection p), 1),
           (ucast (simplex_duplex_selection p), 1), obit p]
      | CmcePdu_Connect \<Rightarrow>
          [(ucast (call_identifier p), 14), (ucast (call_time_out p), 4), (ucast (hook_method_selection p), 1),
           (ucast (simplex_duplex_selection p), 1), (transmission_grant p, 2), (ucast (transmission_request_permission p), 1),
           (ucast (call_ownership p), 1), obit p]
      | CmcePdu_TxDemand \<Rightarrow>
          [(ucast (call_identifier p), 14), (ucast (tx_demand_priority p), 2), (ucast (encryption_control p), 1), (0, 1), obit p]
      | CmcePdu_TxGranted \<Rightarrow>
          [(ucast (call_identifier p), 14), (transmission_grant p, 2), (ucast (transmission_request_permission p), 1),
           (ucast (encryption_control p), 1), (0, 1), obit p]
      | CmcePdu_Release \<Rightarrow> [(ucast (call_identifier p), 14), (disconnect_cause p, 5), obit p]
      | _ \<Rightarrow> [])"

definition cmce_fields :: "CmceDirection \<Rightarrow> CmcePdu \<Rightarrow> field list" where
  "cmce_fields dir p = (ucast (CmcePduType_code (cmce_pdu_type p)), 5) # cmce_body_fields dir p"

definition cmce_bits :: "CmceDirection \<Rightarrow> CmcePdu \<Rightarrow> bool list" where
  "cmce_bits dir p = field_bits (cmce_fields dir p)"

text \<open>A PDU of a type that exists in the direction, with every field of that type within its width.\<close>

definition cmce_wf :: "CmceDirection \<Rightarrow> CmcePdu \<Rightarrow> bool" where
  "cmce_wf dir p \<longleftrightarrow>
     (case cmce_pdu_type p of
        CmcePdu_Setup \<Rightarrow>
          if dir = CmceDir_Downlink
          then call_identifier p \<le> 0x3FFF \<and> call_time_out p \<le> 15 \<and> hook_method_selection p \<le> 1 \<and> simplex_duplex_selection p \<le> 1 \<and>
               transmission_grant p \<le> 3 \<and> transmission_request_permission p \<le> 1 \<and> call_priority p \<le> 15
          else area_selection p \<le> 15 \<and> hook_method_selection p \<le> 1 \<and> simplex_duplex_selection p \<le> 1 \<and>
               request_to_transmit_send_data p \<le> 1 \<and> call_priority p \<le> 15 \<and> clir_control p \<le> 3 \<and>
               called_party_type_identifier p \<le> 2 \<and> called_party_address_ssi p \<le> 0xFFFFFF
      | CmcePdu_CallProceeding \<Rightarrow> dir = CmceDir_Downlink \<and> call_identifier p \<le> 0x3FFF \<and> call_time_out_set_up_phase p \<le> 7 \<and>
          hook_method_selection p \<le> 1 \<and> simplex_duplex_selection p \<le> 1
      | CmcePdu_Connect \<Rightarrow> dir = CmceDir_Downlink \<and> call_identifier p \<le> 0x3FFF \<and> call_time_out p \<le> 15 \<and> hook_method_selection p \<le> 1 \<and>
          simplex_duplex_selection p \<le> 1 \<and> transmission_grant p \<le> 3 \<and> transmission_request_permission p \<le> 1 \<and> call_ownership p \<le> 1
      | CmcePdu_TxDemand \<Rightarrow> dir = CmceDir_Uplink \<and> call_identifier p \<le> 0x3FFF \<and> tx_demand_priority p \<le> 3 \<and> encryption_control p \<le> 1
      | CmcePdu_TxGranted \<Rightarrow> dir = CmceDir_Downlink \<and> call_identifier p \<le> 0x3FFF \<and> transmission_grant p \<le> 3 \<and>
          transmission_request_permission p \<le> 1 \<and> encryption_control p \<le> 1
      | CmcePdu_Release \<Rightarrow> call_identifier p \<le> 0x3FFF \<and> disconnect_cause p \<le> 31
      | _ \<Rightarrow> False)"

subsection \<open>Fields within their width\<close>

lemma fits_of_unat:
  assumes "unat (v :: u32) < 2 ^ n" "1 \<le> n" "n \<le> 32"
  shows "fits n v"
proof -
  have "unat (take_bit n v) = unat v"
    using assms(1) by (metis take_bit_nat_eq_self unsigned_take_bit_eq)
  then have "take_bit n v = v" by (simp only: word_unat_eq_iff)
  then show ?thesis using assms by (simp add: fits_def)
qed

lemma fits_le:
  "(w :: u16) \<le> 0x3FFF \<Longrightarrow> fits 14 (ucast w)" "(a :: u8) \<le> 1 \<Longrightarrow> fits (Suc 0) (ucast a)" "a \<le> 3 \<Longrightarrow> fits 2 (ucast a)"
  "a \<le> 7 \<Longrightarrow> fits 3 (ucast a)" "a \<le> 15 \<Longrightarrow> fits 4 (ucast a)"
  "(v :: u32) \<le> 3 \<Longrightarrow> fits 2 v" "v \<le> 2 \<Longrightarrow> fits 2 v" "v \<le> 31 \<Longrightarrow> fits 5 v" "v \<le> 0xFFFFFF \<Longrightarrow> fits 24 v" "fits 16 (ucast w)"
proof -
  have b: "unat w < 2 ^ LENGTH(16)" "unat a < 2 ^ LENGTH(8)" by (rule unsigned_less)+
  then have "unat (ucast w :: u32) = unat w" "unat (ucast a :: u32) = unat a" "unat w < 65536"
    by (simp_all add: unsigned_ucast_eq take_bit_nat_eq_self_iff)
  then show "w \<le> 0x3FFF \<Longrightarrow> fits 14 (ucast w)" "a \<le> 1 \<Longrightarrow> fits (Suc 0) (ucast a)" "a \<le> 3 \<Longrightarrow> fits 2 (ucast a)"
    "a \<le> 7 \<Longrightarrow> fits 3 (ucast a)" "a \<le> 15 \<Longrightarrow> fits 4 (ucast a)" "fits 16 (ucast w)"
    by (auto intro!: fits_of_unat simp: word_le_nat_alt)
  show "v \<le> 3 \<Longrightarrow> fits 2 v" "v \<le> 2 \<Longrightarrow> fits 2 v" "v \<le> 31 \<Longrightarrow> fits 5 v" "v \<le> 0xFFFFFF \<Longrightarrow> fits 24 v"
    by (auto intro!: fits_of_unat simp: word_le_nat_alt)
qed

lemma fits_and:
  "fits 14 v \<Longrightarrow> v AND 0x3FFF = v" "fits 4 v \<Longrightarrow> v AND 15 = v" "fits 3 v \<Longrightarrow> v AND 7 = v" "fits 2 v \<Longrightarrow> v AND 3 = v"
  "fits 5 v \<Longrightarrow> v AND 31 = v" "fits 24 v \<Longrightarrow> v AND TETRA_SSI_MASK_24 = v"
proof -
  have m: "(0x3FFF :: u32) = mask 14" "(15 :: u32) = mask 4" "(7 :: u32) = mask 3" "(3 :: u32) = mask 2" "(31 :: u32) = mask 5"
    "TETRA_SSI_MASK_24 = mask 24"
    by (simp_all add: mask_eq_exp_minus_1 TETRA_SSI_MASK_24_def)
  show "fits 14 v \<Longrightarrow> v AND 0x3FFF = v" "fits 4 v \<Longrightarrow> v AND 15 = v" "fits 3 v \<Longrightarrow> v AND 7 = v" "fits 2 v \<Longrightarrow> v AND 3 = v"
    "fits 5 v \<Longrightarrow> v AND 31 = v" "fits 24 v \<Longrightarrow> v AND TETRA_SSI_MASK_24 = v"
    unfolding m by (simp_all add: fits_def flip: take_bit_eq_mask)
qed

lemma u8_and_1: "(a :: u8) \<le> 1 \<Longrightarrow> a AND 1 = a"
proof -
  assume "a \<le> 1"
  then have "unat a = unat (0 :: u8) \<or> unat a = unat (1 :: u8)" by (auto simp: word_le_nat_alt)
  then have "a = 0 \<or> a = 1" by (simp only: word_unat_eq_iff)
  then show ?thesis by auto
qed

lemma obit_fits [simp]: "fits (snd (obit p)) (fst (obit p))" "snd (obit p) = 1"
  by (auto simp: obit_def fits_def)

lemma fits_bit [simp]: "fits (Suc 0) 0" "fits (Suc 0) 1" "fits (Suc 0) (if c then 1 else 0)"
  by (simp_all add: fits_def)

lemma cmce_code_fits: "cmce_wf dir p \<Longrightarrow> fits 5 (ucast (CmcePduType_code (cmce_pdu_type p)))"
  by (cases "cmce_pdu_type p") (simp_all add: cmce_wf_def fits_le(8))

lemma cmce_fields_ok:
  assumes "cmce_wf dir p"
  shows "fields_ok (cmce_fields dir p)"
  using assms cmce_code_fits [OF assms]
  by (cases "cmce_pdu_type p"; cases dir)
    (simp_all add: cmce_fields_def cmce_body_fields_def cmce_wf_def fits_le obit_def)

section \<open>The encoder writes the wire format\<close>

lemma put_typed_fields:
  assumes "CmcePduType_code t \<le> 0x1F"
  shows "put_typed t fs out = put_fields bb_put_bits ((ucast (CmcePduType_code t), 5) # fs) out \<bind> (\<lambda>b. Some (Inr (), b))"
  using assms by (auto simp: put_typed_def put_pdu_type_def not_less split: bind_splits)

lemma party_cases: "(t :: u32) \<le> 2 \<Longrightarrow> t \<in> {0, 1, 2}"
proof -
  assume "t \<le> 2"
  then have "unat t \<in> {unat (0 :: u32), unat (1 :: u32), unat (2 :: u32)}" by (auto simp: word_le_nat_alt)
  then show ?thesis by (simp only: word_unat_eq_iff insert_iff empty_iff)
qed

lemma called_party_plain:
  "called_party_type_identifier p \<le> 2 \<Longrightarrow> called_party_address_ssi p \<le> 0xFFFFFF \<Longrightarrow> called_party_fields p =
     (if called_party_type_identifier p = 0 then [(ucast (called_party_short_number_address p), 8)] else [(called_party_address_ssi p, 24)])"
  using party_cases [of "called_party_type_identifier p"] by (auto simp: called_party_fields_def pty_defs fits_and fits_le)

lemma encode_body_fields:
  assumes "cmce_wf dir p"
  shows "encode_body out p dir = put_fields bb_put_bits (cmce_fields dir p) out \<bind> (\<lambda>b. Some (Inr (), b))"
  using assms
  by (cases "cmce_pdu_type p"; cases dir)
    (simp_all add: encode_body_def cmce_wf_def cmce_fields_def cmce_body_fields_def put_typed_fields leD fits_and fits_le u8_and_1
      encode_d_setup_def encode_u_setup_def encode_d_call_proceeding_def encode_d_connect_def encode_d_tx_granted_def
      encode_u_tx_demand_def encode_release_def called_party_plain)

lemma cmce_pdu_encode_ok:
  assumes "cmce_wf dir p" "bb_inv bb" "length (cmce_bits dir p) \<le> bb_room bb"
  shows "\<exists>bb'. cmce_pdu_encode bb p dir = Some (Inr (length (cmce_bits dir p)), bb') \<and> bb_inv bb' \<and>
     bb_out bb' = bb_out bb @ cmce_bits dir p \<and> start bb' = start bb"
proof -
  obtain bb' where b: "put_fields bb_put_bits (cmce_fields dir p) bb = Some bb'" "bb_inv bb'" "bb_out bb' = bb_out bb @ cmce_bits dir p"
    using bb_sink.put_fields_ok [OF assms(2) cmce_fields_ok [OF assms(1)]] assms(3) unfolding cmce_bits_def by blast
  have s: "start bb' = start bb" using put_fields_start [OF b(1)] .
  have "bb_pos_bits bb' - bb_pos_bits bb = length (bb_out bb') - length (bb_out bb)"
    using bb_pos_inv [OF b(2)] bb_pos_inv [OF assms(2)] s length_bb_out [OF b(2)] length_bb_out [OF assms(2)] by linarith
  then show ?thesis
    using b s encode_body_fields [OF assms(1), of bb] by (simp add: cmce_pdu_encode_def Let_def)
qed

section \<open>The decoder reads it back\<close>

text \<open>What the decoder can know of a PDU: its type and the fields of that type.\<close>

definition cmce_view :: "CmceDirection \<Rightarrow> CmcePdu \<Rightarrow> CmcePdu" where
  "cmce_view dir p =
     (let v = zero_cmce_pdu\<lparr>cmce_pdu_type := cmce_pdu_type p, optionals_present := optionals_present p\<rparr>;
          c = v\<lparr>call_identifier := call_identifier p\<rparr> in
      case cmce_pdu_type p of
        CmcePdu_Setup \<Rightarrow>
          if dir = CmceDir_Downlink
          then c\<lparr>call_time_out := call_time_out p, hook_method_selection := hook_method_selection p,
                 simplex_duplex_selection := simplex_duplex_selection p, basic_service_information := basic_service_information p,
                 transmission_grant := transmission_grant p, transmission_request_permission := transmission_request_permission p,
                 call_priority := call_priority p\<rparr>
          else v\<lparr>area_selection := area_selection p, hook_method_selection := hook_method_selection p,
                 simplex_duplex_selection := simplex_duplex_selection p, basic_service_information := basic_service_information p,
                 request_to_transmit_send_data := request_to_transmit_send_data p, call_priority := call_priority p,
                 clir_control := clir_control p, called_party_type_identifier := called_party_type_identifier p,
                 called_party_short_number_address := (if called_party_type_identifier p = 0 then called_party_short_number_address p else 0),
                 called_party_address_ssi := (if called_party_type_identifier p = 0 then 0 else called_party_address_ssi p)\<rparr>
      | CmcePdu_CallProceeding \<Rightarrow> c\<lparr>call_time_out_set_up_phase := call_time_out_set_up_phase p,
          hook_method_selection := hook_method_selection p, simplex_duplex_selection := simplex_duplex_selection p\<rparr>
      | CmcePdu_Connect \<Rightarrow> c\<lparr>call_time_out := call_time_out p, hook_method_selection := hook_method_selection p,
          simplex_duplex_selection := simplex_duplex_selection p, transmission_grant := transmission_grant p,
          transmission_request_permission := transmission_request_permission p, call_ownership := call_ownership p\<rparr>
      | CmcePdu_TxDemand \<Rightarrow> c\<lparr>tx_demand_priority := tx_demand_priority p, encryption_control := encryption_control p\<rparr>
      | CmcePdu_TxGranted \<Rightarrow> c\<lparr>transmission_grant := transmission_grant p,
          transmission_request_permission := transmission_request_permission p, encryption_control := encryption_control p\<rparr>
      | CmcePdu_Release \<Rightarrow> c\<lparr>disconnect_cause := disconnect_cause p\<rparr>
      | _ \<Rightarrow> v)"

lemma ucast_back [simp]: "ucast (ucast (w :: u16) :: u32) = w" "ucast (ucast (a :: u8) :: u32) = a"
  by (rule bit_word_eqI, auto simp: bit_simps)+

text \<open>Reading moves the cursor only.\<close>

definition bb_frame :: "BitBuffer \<Rightarrow> nat \<times> nat" where
  "bb_frame bb = (start bb, end_bits bb)"

lemma bb_get_frame: "bb_get_bits bb n = Some (v, bb') \<Longrightarrow> bb_frame bb' = bb_frame bb"
  by (auto simp: bb_get_bits_def bb_frame_def split: if_splits bind_splits)

lemma get_fields_frame: "get_fields bb_get_bits ks bb = Some (vs, bb') \<Longrightarrow> bb_frame bb' = bb_frame bb"
proof (induction ks arbitrary: bb vs)
  case (Cons n ks)
  then obtain v b1 vs' where "bb_get_bits bb n = Some (v, b1)" "get_fields bb_get_bits ks b1 = Some (vs', bb')"
    by (auto split: bind_splits)
  with Cons.IH bb_get_frame show ?case by metis
qed simp

lemma bb_consumed:
  assumes "bb_inv bb" "bb_rest bb = ys @ xs" "bb_inv bb'" "bb_rest bb' = xs" "bb_frame bb' = bb_frame bb"
  shows "bb_pos_bits bb' - bb_pos_bits bb = length ys"
  using length_bb_rest [OF assms(1)] length_bb_rest [OF assms(3)] assms
  by (simp add: bb_frame_def bb_pos_bits_def bb_remaining_def bb_inv_def) linarith

lemma get_fields_back:
  assumes "bb_inv bb" "fields_ok fs" "bb_rest bb = field_bits fs @ r" "ks = map snd fs"
  shows "\<exists>bb'. get_fields bb_get_bits ks bb = Some (map fst fs, bb') \<and> bb_inv bb' \<and> bb_rest bb' = r \<and> bb_frame bb' = bb_frame bb"
  using bb_source.get_fields_ok [OF assms(1-3)] assms(4) get_fields_frame by blast

lemma get_field_back:
  assumes "bb_inv bb" "fits n v" "bb_rest bb = word_bits n v @ r"
  shows "\<exists>bb'. bb_get_bits bb n = Some (v, bb') \<and> bb_inv bb' \<and> bb_rest bb' = r \<and> bb_frame bb' = bb_frame bb"
  using bb_source.get_field [OF assms] bb_get_frame by blast

lemma obit_back: "(fst (obit p) \<noteq> 0) = optionals_present p"
  by (simp add: obit_def)

lemma decode_u_setup_back:
  assumes "cmce_wf CmceDir_Uplink p" "cmce_pdu_type p = CmcePdu_Setup" "bb_inv bb"
    and "bb_rest bb = field_bits (cmce_body_fields CmceDir_Uplink p) @ xs" "30 \<le> n"
  shows "\<exists>bb'. decode_u_setup bb (zero_cmce_pdu\<lparr>cmce_pdu_type := CmcePdu_Setup\<rparr>) n = Some (Inr (), cmce_view CmceDir_Uplink p, bb')"
proof -
  let ?t = "called_party_type_identifier p"
  define f1 :: "field list" where "f1 = [(ucast (area_selection p), 4), (ucast (hook_method_selection p), 1), (ucast (simplex_duplex_selection p), 1),
      (ucast (basic_service_information p), 8), (ucast (request_to_transmit_send_data p), 1),
      (ucast (call_priority p), 4), (ucast (clir_control p), 2), (?t, 2)]"
  define f2 :: "field list" where "f2 = (if ?t = 0 then [(ucast (called_party_short_number_address p), 8)] else [(called_party_address_ssi p, 24)])"
  have w: "fields_ok f1" "?t \<in> {0, 1, 2}" "called_party_address_ssi p \<le> 0xFFFFFF"
    using assms(1,2) party_cases [of ?t] by (simp_all add: cmce_wf_def f1_def fits_le)
  have "bb_rest bb = field_bits f1 @ field_bits f2 @ field_bits [obit p] @ xs"
    using assms(2,4) by (simp add: cmce_body_fields_def f1_def f2_def)
  from get_fields_back [OF assms(3) w(1) this, of "[4, 1, 1, 8, 1, 4, 2, 2]"] obtain b1 where
    1: "get_fields bb_get_bits [4, 1, 1, 8, 1, 4, 2, 2] bb = Some (map fst f1, b1)" "bb_inv b1" "bb_rest b1 = field_bits f2 @ field_bits [obit p] @ xs"
    by (auto simp: f1_def)
  have rem: "length (field_bits f2) + 1 \<le> bb_remaining b1"
    using length_bb_rest [OF 1(2)] 1(3) by (simp add: obit_def)
  let ?q = "zero_cmce_pdu\<lparr>cmce_pdu_type := CmcePdu_Setup, area_selection := area_selection p, hook_method_selection := hook_method_selection p,
      simplex_duplex_selection := simplex_duplex_selection p, basic_service_information := basic_service_information p,
      request_to_transmit_send_data := request_to_transmit_send_data p, call_priority := call_priority p,
      clir_control := clir_control p, called_party_type_identifier := ?t\<rparr>"
  let ?q2 = "?q\<lparr>called_party_short_number_address := (if ?t = 0 then called_party_short_number_address p else 0),
      called_party_address_ssi := (if ?t = 0 then 0 else called_party_address_ssi p)\<rparr>"
  have "\<exists>b2. decode_called_party b1 ?q = Some (Inr (), ?q2, b2) \<and> bb_inv b2 \<and> bb_rest b2 = field_bits [obit p] @ xs"
    using w(2) 1(2,3) rem get_field_back [of b1 8 "ucast (called_party_short_number_address p)" "field_bits [obit p] @ xs"]
      get_field_back [of b1 24 "called_party_address_ssi p" "field_bits [obit p] @ xs"] fits_le(9) [OF w(3)] fits_and(6)
    by (auto simp: decode_called_party_def pty_defs f2_def zero_cmce_pdu_def)
  then obtain b2 where 2: "decode_called_party b1 ?q = Some (Inr (), ?q2, b2)" "bb_inv b2" "bb_rest b2 = field_bits [obit p] @ xs" by blast
  obtain b3 where 3: "bb_get_bits b2 1 = Some (fst (obit p), b3)"
    using get_field_back [OF 2(2), of 1 "fst (obit p)" xs] 2(3) by (auto simp: obit_def)
  show ?thesis
    using 1(1) 2(1) 3 assms(2,5) obit_back [of p] by (simp add: decode_u_setup_def f1_def cmce_view_def Let_def zero_cmce_pdu_def)
qed

text \<open>The other decoders read one run of fields.\<close>

lemmas decode_run_defs = decode_d_setup_def decode_d_call_proceeding_def decode_d_connect_def decode_d_tx_granted_def
  decode_u_tx_demand_def decode_release_def

lemma cmce_length_min:
  assumes "cmce_wf dir p"
  shows "(cmce_pdu_type p = CmcePdu_Setup \<longrightarrow> (if dir = CmceDir_Downlink then 41 else 30) \<le> length (cmce_bits dir p)) \<and>
     (cmce_pdu_type p = CmcePdu_Connect \<longrightarrow> 30 \<le> length (cmce_bits dir p)) \<and>
     (cmce_pdu_type p = CmcePdu_TxDemand \<longrightarrow> 24 \<le> length (cmce_bits dir p)) \<and>
     (cmce_pdu_type p \<in> {CmcePdu_CallProceeding, CmcePdu_TxGranted, CmcePdu_Release} \<longrightarrow> 25 \<le> length (cmce_bits dir p))"
  by (auto simp: cmce_bits_def cmce_fields_def cmce_body_fields_def obit_def length_field_bits)

lemma decode_typed_back:
  assumes "cmce_wf dir p" "bb_inv bb" "bb_rest bb = field_bits (cmce_body_fields dir p) @ xs" "length (cmce_bits dir p) \<le> n"
  shows "\<exists>bb'. decode_typed (CmcePduType_code (cmce_pdu_type p)) bb zero_cmce_pdu dir n = Some (Inr (), cmce_view dir p, bb')"
proof (cases "cmce_pdu_type p = CmcePdu_Setup \<and> dir = CmceDir_Uplink")
  case True
  with decode_u_setup_back [of p bb xs n] assms cmce_length_min [OF assms(1)] show ?thesis
    by (auto simp: decode_typed_def Let_def)
next
  case False
  have ok: "fields_ok (cmce_body_fields dir p)" using cmce_fields_ok [OF assms(1)] by (simp add: cmce_fields_def)
  obtain bb' where g: "get_fields bb_get_bits (map snd (cmce_body_fields dir p)) bb = Some (map fst (cmce_body_fields dir p), bb')"
    using get_fields_back [OF assms(2) ok assms(3) refl] by blast
  have o: "obit p = (of_bool (optionals_present p), 1)" by (simp add: obit_def)
  show ?thesis
    using g assms(1,4) False cmce_length_min [OF assms(1)]
    by (cases "cmce_pdu_type p"; cases dir)
      (simp_all add: decode_typed_def cmce_wf_def cmce_body_fields_def decode_run_defs cmce_view_def zero_cmce_pdu_def Let_def o)
qed

lemma cmce_pdu_decode_back:
  assumes "cmce_wf dir p" "bb_inv bb" "bb_rest bb = cmce_bits dir p @ xs" "length (cmce_bits dir p) \<le> n"
  shows "\<exists>bb'. cmce_pdu_decode bb out dir n = Some (Inr (), (cmce_view dir p)\<lparr>encoded_len_bits := n\<rparr>, bb')"
proof -
  have "bb_rest bb = word_bits 5 (ucast (CmcePduType_code (cmce_pdu_type p)) :: u32) @ (field_bits (cmce_body_fields dir p) @ xs)"
    using assms(3) by (simp add: cmce_bits_def cmce_fields_def)
  from get_field_back [OF assms(2) cmce_code_fits [OF assms(1)] this] obtain b1 where
    b1: "bb_get_bits bb 5 = Some (ucast (CmcePduType_code (cmce_pdu_type p)), b1)" "bb_inv b1" "bb_rest b1 = field_bits (cmce_body_fields dir p) @ xs"
    by blast
  obtain b2 where b2: "decode_typed (CmcePduType_code (cmce_pdu_type p)) b1 zero_cmce_pdu dir n = Some (Inr (), cmce_view dir p, b2)"
    using decode_typed_back [OF assms(1) b1(2,3) assms(4)] by blast
  have "5 \<le> n" using assms(4) by (simp add: cmce_bits_def cmce_fields_def)
  with b1(1) b2 show ?thesis by (simp add: cmce_pdu_decode_def get_pdu_type_def)
qed

section \<open>Decoding never aborts\<close>

lemma bb_get_total:
  assumes "bb_inv bb" "1 \<le> n" "n \<le> 32"
  shows "\<exists>v bb'. bb_get_bits bb n = Some (v, bb') \<and> bb_inv bb'"
proof (cases "n \<le> length (bb_rest bb)")
  case True
  with bb_source.get_ok [OF assms] show ?thesis by blast
next
  case False
  then have "pos bb + n > end_bits bb" using length_bb_rest [OF assms(1)] by (simp add: bb_remaining_def)
  with assms show ?thesis by (simp add: bb_get_bits_def)
qed

lemma get_fields_total:
  assumes "bb_inv bb" "\<forall>n\<in>set ks. 1 \<le> n \<and> n \<le> 32"
  shows "\<exists>vs bb'. get_fields bb_get_bits ks bb = Some (vs, bb') \<and> bb_inv bb' \<and> length vs = length ks"
  using assms
proof (induction ks arbitrary: bb)
  case (Cons n ks)
  then obtain v b1 where "bb_get_bits bb n = Some (v, b1)" "bb_inv b1" using bb_get_total [of bb n] by auto
  with Cons show ?case by fastforce
qed simp

lemma decode_called_party_total: "bb_inv bb \<Longrightarrow> \<exists>rc q b. decode_called_party bb p = Some (rc, q, b) \<and> bb_inv b"
  using bb_get_total [of bb 8] bb_get_total [of bb 24] by (auto simp: decode_called_party_def)

lemma decode_u_setup_total:
  assumes "bb_inv bb"
  shows "\<exists>rc q b. decode_u_setup bb p n = Some (rc, q, b)"
proof -
  obtain vs b1 where 1: "get_fields bb_get_bits [4, 1, 1, 8, 1, 4, 2, 2] bb = Some (vs, b1)" "bb_inv b1"
    using get_fields_total [OF assms, of "[4, 1, 1, 8, 1, 4, 2, 2]"] by auto
  let ?q = "p\<lparr>area_selection := ucast (vs ! 0), hook_method_selection := ucast (vs ! 1),
      simplex_duplex_selection := ucast (vs ! 2), basic_service_information := ucast (vs ! 3),
      request_to_transmit_send_data := ucast (vs ! 4), call_priority := ucast (vs ! 5),
      clir_control := ucast (vs ! 6), called_party_type_identifier := vs ! 7\<rparr>"
  obtain rc q b2 where 2: "decode_called_party b1 ?q = Some (rc, q, b2)" "bb_inv b2"
    using decode_called_party_total [OF 1(2), of ?q] by blast
  obtain v b3 where "bb_get_bits b2 1 = Some (v, b3)" using bb_get_total [OF 2(2), of 1] by auto
  with 1(1) 2(1) show ?thesis by (cases rc) (simp_all add: decode_u_setup_def)
qed

lemma decode_runs_total:
  assumes "bb_inv bb"
  shows "\<exists>rc q b. decode_d_setup bb p n = Some (rc, q, b)" "\<exists>rc q b. decode_d_call_proceeding bb p n = Some (rc, q, b)"
    "\<exists>rc q b. decode_d_connect bb p n = Some (rc, q, b)" "\<exists>rc q b. decode_d_tx_granted bb p n = Some (rc, q, b)"
    "\<exists>rc q b. decode_u_tx_demand bb p n = Some (rc, q, b)" "\<exists>rc q b. decode_release bb p n = Some (rc, q, b)"
proof -
  note t = get_fields_total [OF assms]
  show "\<exists>rc q b. decode_d_setup bb p n = Some (rc, q, b)"
    using t [of "[14, 4, 1, 1, 8, 2, 1, 4, 1]"] unfolding decode_d_setup_def by fastforce
  show "\<exists>rc q b. decode_d_call_proceeding bb p n = Some (rc, q, b)"
    using t [of "[14, 3, 1, 1, 1]"] unfolding decode_d_call_proceeding_def by fastforce
  show "\<exists>rc q b. decode_d_connect bb p n = Some (rc, q, b)"
    using t [of "[14, 4, 1, 1, 2, 1, 1, 1]"] unfolding decode_d_connect_def by fastforce
  show "\<exists>rc q b. decode_d_tx_granted bb p n = Some (rc, q, b)"
    using t [of "[14, 2, 1, 1, 1, 1]"] unfolding decode_d_tx_granted_def by fastforce
  show "\<exists>rc q b. decode_u_tx_demand bb p n = Some (rc, q, b)"
    using t [of "[14, 2, 1, 1, 1]"] unfolding decode_u_tx_demand_def by fastforce
  show "\<exists>rc q b. decode_release bb p n = Some (rc, q, b)"
    using t [of "[14, 5, 1]"] unfolding decode_release_def by fastforce
qed

lemma decode_typed_total: "bb_inv bb \<Longrightarrow> \<exists>rc q b. decode_typed raw bb p dir n = Some (rc, q, b)"
  unfolding decode_typed_def Let_def by (simp add: decode_runs_total decode_u_setup_total)

lemma cmce_pdu_decode_total:
  assumes "bb_inv bb"
  shows "\<exists>rc q b. cmce_pdu_decode bb out dir n = Some (rc, q, b)"
proof -
  obtain v b1 where 1: "bb_get_bits bb 5 = Some (v, b1)" "bb_inv b1" using bb_get_total [OF assms, of 5] by auto
  obtain rc q b2 where "decode_typed (ucast v) b1 zero_cmce_pdu dir n = Some (rc, q, b2)"
    using decode_typed_total [OF 1(2)] by blast
  with 1(1) show ?thesis by (cases rc) (simp_all add: cmce_pdu_decode_def get_pdu_type_def)
qed

section \<open>D-NWRK-BROADCAST\<close>

text \<open>The body: the mandatory 19 bits, then behind a set o-bit the network time and the neighbour count, each behind its own p-bit.\<close>

definition nwrk_fields :: "CmcePdu \<Rightarrow> field list" where
  "nwrk_fields p = [(ucast (nwrk_cell_re_select_parameters p), 16), (ucast (nwrk_cell_load_ca p), 2), obit p] @
     (if optionals_present p
      then (if nwrk_p_tetra_network_time p
            then [(1, 1), (ucast (drop_bit 24 (nwrk_tetra_network_time p) AND 0xFFFFFF), 24), (ucast (nwrk_tetra_network_time p AND 0xFFFFFF), 24)]
            else [(0, 1)]) @
           (if nwrk_p_num_ca_neighbour_cells p then [(1, 1), (0, 3)] else [(0, 1)])
      else [])"

definition nwrk_wf :: "CmcePdu \<Rightarrow> bool" where
  "nwrk_wf p \<longleftrightarrow> nwrk_cell_load_ca p \<le> 3 \<and> nwrk_tetra_network_time p < 2 ^ 48 \<and> nwrk_num_ca_neighbour_cells p = 0"

definition nwrk_bits :: "CmcePdu \<Rightarrow> bool list" where
  "nwrk_bits p = field_bits (nwrk_fields p)"

lemma fits_24_u64: "fits 24 (ucast (w AND 0xFFFFFF :: u64))"
proof -
  have m: "(0xFFFFFF :: u64) = mask 24" by (simp add: mask_eq_exp_minus_1)
  show ?thesis unfolding m by (auto simp: fits_def bit_simps intro!: bit_word_eqI)
qed

lemma nwrk_fields_ok: "nwrk_wf p \<Longrightarrow> fields_ok (nwrk_fields p)"
  by (simp add: nwrk_fields_def nwrk_wf_def fits_le fits_24_u64 obit_def) (simp add: fits_def)

lemma nwrk_encode_fields:
  assumes "nwrk_wf p"
  shows "cmce_pdu_encode_d_nwrk_broadcast out p =
     put_fields bb_put_bits (nwrk_fields p) out \<bind> (\<lambda>b. Some (Inr (bb_pos_bits b - bb_pos_bits out), b))"
  using assms by (simp add: cmce_pdu_encode_d_nwrk_broadcast_def nwrk_wf_def nwrk_fields_def leD fits_and fits_le Let_def put_fields_append obit_def)

lemma nwrk_encode_ok:
  assumes "nwrk_wf p" "bb_inv bb" "length (nwrk_bits p) \<le> bb_room bb"
  shows "\<exists>bb'. cmce_pdu_encode_d_nwrk_broadcast bb p = Some (Inr (length (nwrk_bits p)), bb') \<and> bb_inv bb' \<and>
     bb_out bb' = bb_out bb @ nwrk_bits p \<and> start bb' = start bb"
proof -
  obtain bb' where b: "put_fields bb_put_bits (nwrk_fields p) bb = Some bb'" "bb_inv bb'" "bb_out bb' = bb_out bb @ nwrk_bits p"
    using bb_sink.put_fields_ok [OF assms(2) nwrk_fields_ok [OF assms(1)]] assms(3) unfolding nwrk_bits_def by blast
  have s: "start bb' = start bb" using put_fields_start [OF b(1)] .
  have "bb_pos_bits bb' - bb_pos_bits bb = length (bb_out bb') - length (bb_out bb)"
    using bb_pos_inv [OF b(2)] bb_pos_inv [OF assms(2)] s length_bb_out [OF b(2)] length_bb_out [OF assms(2)] by linarith
  then show ?thesis using b s nwrk_encode_fields [OF assms(1), of bb] by simp
qed


lemma u64_halves:
  assumes "t < 2 ^ 48"
  shows "push_bit 24 (ucast (ucast (drop_bit 24 t AND 0xFFFFFF) :: u32)) OR ucast (ucast (t AND 0xFFFFFF :: u64) :: u32) = t"
proof (rule bit_word_eqI)
  fix n assume n: "n < LENGTH(64)"
  have m: "(0xFFFFFF :: u64) = mask 24" by (simp add: mask_eq_exp_minus_1)
  have "unat t < 2 ^ 48" using assms by (simp add: word_less_nat_alt)
  then have "unat (take_bit 48 t) = unat t" by (metis take_bit_nat_eq_self unsigned_take_bit_eq)
  then have "take_bit 48 t = t" by (simp only: word_unat_eq_iff)
  then have "bit t n \<Longrightarrow> n < 48" by (metis bit_take_bit_iff)
  then show "bit (push_bit 24 (ucast (ucast (drop_bit 24 t AND 0xFFFFFF) :: u32)) OR ucast (ucast (t AND 0xFFFFFF :: u64) :: u32) :: u64) n = bit t n"
    unfolding m using n by (auto simp: bit_simps)
qed

definition nwrk_view :: "CmcePdu \<Rightarrow> CmcePdu \<Rightarrow> CmcePdu" where
  "nwrk_view out p = out\<lparr>cmce_pdu_type := CmcePdu_NwrkBroadcast, nwrk_cell_re_select_parameters := nwrk_cell_re_select_parameters p,
     nwrk_cell_load_ca := nwrk_cell_load_ca p, optionals_present := optionals_present p,
     nwrk_p_tetra_network_time := (optionals_present p \<and> nwrk_p_tetra_network_time p),
     nwrk_tetra_network_time := (if optionals_present p \<and> nwrk_p_tetra_network_time p then nwrk_tetra_network_time p else 0),
     nwrk_p_num_ca_neighbour_cells := (optionals_present p \<and> nwrk_p_num_ca_neighbour_cells p), nwrk_num_ca_neighbour_cells := 0,
     encoded_len_bits := length (nwrk_bits p)\<rparr>"

lemma fits_3_0 [simp]: "fits 3 0"
  by (simp add: fits_def)

lemma nwrk_time_back:
  assumes "nwrk_wf p" "bb_inv bb" "length (nwrk_bits p) \<le> n" "optionals_present p"
    and "bb_rest bb = field_bits (drop 3 (nwrk_fields p)) @ xs"
  shows "\<exists>bb'. decode_nwrk_time bb q n = Some (Inr (), q\<lparr>nwrk_p_tetra_network_time := nwrk_p_tetra_network_time p,
       nwrk_tetra_network_time := (if nwrk_p_tetra_network_time p then nwrk_tetra_network_time p else nwrk_tetra_network_time q)\<rparr>, bb') \<and>
     bb_inv bb' \<and> bb_rest bb' = field_bits (if nwrk_p_num_ca_neighbour_cells p then [(1, 1), (0, 3)] else [(0, 1)]) @ xs \<and> bb_frame bb' = bb_frame bb"
proof -
  let ?C = "field_bits (if nwrk_p_num_ca_neighbour_cells p then [(1, 1), (0, 3)] else [(0, 1)]) @ xs"
  let ?hi = "ucast (drop_bit 24 (nwrk_tetra_network_time p) AND 0xFFFFFF) :: u32" and ?lo = "ucast (nwrk_tetra_network_time p AND 0xFFFFFF) :: u32"
  have n: "length (nwrk_bits p) = (if nwrk_p_tetra_network_time p then 68 else 20) + (if nwrk_p_num_ca_neighbour_cells p then 4 else 1)"
    using assms(4) by (simp add: nwrk_bits_def length_field_bits nwrk_fields_def obit_def)
  have n1: "21 \<le> n" "nwrk_p_tetra_network_time p \<Longrightarrow> 69 \<le> n" using n assms(3) by (auto split: if_splits)
  show ?thesis
  proof (cases "nwrk_p_tetra_network_time p")
    case True
    then have r: "bb_rest bb = word_bits 1 (1 :: u32) @ word_bits 24 ?hi @ word_bits 24 ?lo @ ?C"
      using assms(4,5) by (simp add: nwrk_fields_def)
    obtain b1 where 1: "bb_get_bits bb 1 = Some (1, b1)" "bb_inv b1" "bb_rest b1 = word_bits 24 ?hi @ word_bits 24 ?lo @ ?C" "bb_frame b1 = bb_frame bb"
      using get_field_back [OF assms(2) _ r] by auto
    obtain b2 where 2: "bb_get_bits b1 24 = Some (?hi, b2)" "bb_inv b2" "bb_rest b2 = word_bits 24 ?lo @ ?C" "bb_frame b2 = bb_frame b1"
      using get_field_back [OF 1(2) fits_24_u64 1(3)] by blast
    obtain b3 where 3: "bb_get_bits b2 24 = Some (?lo, b3)" "bb_inv b3" "bb_rest b3 = ?C" "bb_frame b3 = bb_frame b2"
      using get_field_back [OF 2(2) fits_24_u64 2(3)] by blast
    from 1(1,4) 2(1,4) 3 True n1 assms(1) u64_halves [of "nwrk_tetra_network_time p"] show ?thesis
      by (auto simp: decode_nwrk_time_def nwrk_wf_def Let_def)
  next
    case False
    then have r: "bb_rest bb = word_bits 1 (0 :: u32) @ ?C" using assms(4,5) by (simp add: nwrk_fields_def)
    obtain b1 where "bb_get_bits bb 1 = Some (0, b1)" "bb_inv b1" "bb_rest b1 = ?C" "bb_frame b1 = bb_frame bb"
      using get_field_back [OF assms(2) _ r] by auto
    with False n1 show ?thesis by (auto simp: decode_nwrk_time_def Let_def)
  qed
qed

lemma nwrk_cells_back:
  assumes "bb_inv bb" "bb_rest bb = field_bits (if c then [(1, 1), (0, 3)] else [(0, 1)]) @ xs" "nwrk_num_ca_neighbour_cells q = 0"
  shows "\<exists>bb'. decode_nwrk_cells bb q = Some (q\<lparr>nwrk_p_num_ca_neighbour_cells := c\<rparr>, bb') \<and> bb_inv bb' \<and> bb_rest bb' = xs \<and> bb_frame bb' = bb_frame bb"
proof (cases c)
  case True
  then have r: "bb_rest bb = word_bits 1 (1 :: u32) @ word_bits 3 (0 :: u32) @ xs" using assms(2) by simp
  obtain b1 where 1: "bb_get_bits bb 1 = Some (1, b1)" "bb_inv b1" "bb_rest b1 = word_bits 3 (0 :: u32) @ xs" "bb_frame b1 = bb_frame bb"
    using get_field_back [OF assms(1) _ r] by auto
  obtain b2 where "bb_get_bits b1 3 = Some (0, b2)" "bb_inv b2" "bb_rest b2 = xs" "bb_frame b2 = bb_frame b1"
    using get_field_back [OF 1(2) fits_3_0 1(3)] by blast
  with 1(1,4) True assms(3) show ?thesis by (simp add: decode_nwrk_cells_def Let_def)
next
  case False
  then have r: "bb_rest bb = word_bits 1 (0 :: u32) @ xs" using assms(2) by simp
  with get_field_back [OF assms(1) _ r] False show ?thesis by (auto simp: decode_nwrk_cells_def Let_def)
qed


lemma nwrk_decode_back:
  assumes "nwrk_wf p" "bb_inv bb" "bb_rest bb = nwrk_bits p @ xs" "length (nwrk_bits p) \<le> n"
  shows "\<exists>bb'. cmce_pdu_decode_d_nwrk_broadcast bb out n = Some (Inr (length (nwrk_bits p)), nwrk_view out p, bb') \<and> bb_rest bb' = xs"
proof -
  let ?f = "take 3 (nwrk_fields p)"
  have f: "?f = [(ucast (nwrk_cell_re_select_parameters p), 16), (ucast (nwrk_cell_load_ca p), 2), obit p]"
    by (simp add: nwrk_fields_def numeral_3_eq_3)
  have "fields_ok (?f @ drop 3 (nwrk_fields p))" using nwrk_fields_ok [OF assms(1)] by simp
  then have ok: "fields_ok ?f" by (simp only: fields_ok_append)
  have "nwrk_bits p = field_bits (?f @ drop 3 (nwrk_fields p))" by (simp add: nwrk_bits_def)
  then have r: "bb_rest bb = field_bits ?f @ field_bits (drop 3 (nwrk_fields p)) @ xs"
    unfolding assms(3) field_bits_append by simp
  obtain b1 where 1: "get_fields bb_get_bits [16, 2, 1] bb = Some (map fst ?f, b1)" "bb_inv b1" "bb_rest b1 = field_bits (drop 3 (nwrk_fields p)) @ xs" "bb_frame b1 = bb_frame bb"
    using get_fields_back [OF assms(2) ok r, of "[16, 2, 1]"] by (auto simp: f)
  have len: "length (nwrk_bits p) < 65536" "19 \<le> n"
    using assms(4) by (auto simp: nwrk_bits_def length_field_bits nwrk_fields_def obit_def)
  let ?q = "out\<lparr>cmce_pdu_type := CmcePdu_NwrkBroadcast, nwrk_cell_re_select_parameters := nwrk_cell_re_select_parameters p,
      nwrk_cell_load_ca := nwrk_cell_load_ca p, optionals_present := optionals_present p, nwrk_p_tetra_network_time := False,
      nwrk_tetra_network_time := 0, nwrk_p_num_ca_neighbour_cells := False, nwrk_num_ca_neighbour_cells := 0\<rparr>"
  have vs: "map fst ?f = [ucast (nwrk_cell_re_select_parameters p), ucast (nwrk_cell_load_ca p), fst (obit p)]" by (simp add: f)
  show ?thesis
  proof (cases "optionals_present p")
    case False
    have "bb_rest b1 = xs" using 1(3) False by (simp add: nwrk_fields_def numeral_3_eq_3)
    with 1(1,2) False len bb_consumed [OF assms(2,3) 1(2) _ 1(4)] show ?thesis
      by (simp add: cmce_pdu_decode_d_nwrk_broadcast_def vs Let_def nwrk_view_def obit_back)
  next
    case True
    define q2 where "q2 = ?q\<lparr>nwrk_p_tetra_network_time := nwrk_p_tetra_network_time p,
        nwrk_tetra_network_time := (if nwrk_p_tetra_network_time p then nwrk_tetra_network_time p else 0)\<rparr>"
    obtain b2 where 2: "decode_nwrk_time b1 ?q n = Some (Inr (), q2, b2)" "bb_inv b2"
      "bb_rest b2 = field_bits (if nwrk_p_num_ca_neighbour_cells p then [(1, 1), (0, 3)] else [(0, 1)]) @ xs" "bb_frame b2 = bb_frame b1"
      using nwrk_time_back [OF assms(1) 1(2) assms(4) True 1(3), of ?q] by (auto simp: q2_def)
    obtain b3 where 3: "decode_nwrk_cells b2 q2 = Some (q2\<lparr>nwrk_p_num_ca_neighbour_cells := nwrk_p_num_ca_neighbour_cells p\<rparr>, b3)"
      "bb_inv b3" "bb_rest b3 = xs" "bb_frame b3 = bb_frame b2"
      using nwrk_cells_back [OF 2(2,3), of q2] by (auto simp: q2_def)
    have "optionals_present q2" by (simp add: q2_def True)
    with True have "nwrk_view out p = q2\<lparr>nwrk_p_num_ca_neighbour_cells := nwrk_p_num_ca_neighbour_cells p, encoded_len_bits := length (nwrk_bits p)\<rparr>"
      by (simp add: nwrk_view_def q2_def)
    with \<open>optionals_present q2\<close>
      1(1) 2(1) 3 True len bb_consumed [OF assms(2,3) 3(2,3)] 1(4) 2(4) show ?thesis
      by (simp add: cmce_pdu_decode_d_nwrk_broadcast_def vs Let_def obit_back)
  qed
qed

section \<open>Properties\<close>

lemma start_autoexpand [simp]: "start (bb_init_autoexpand buf n) = 0"
  by (simp add: bb_init_autoexpand_def)

text \<open>What an encoder that appended \<open>xs\<close> to a fresh buffer leaves for a reader of the same bytes.\<close>

lemma encoded_readable:
  assumes "bb_inv bb'" "bb_out bb' = xs" "start bb' = 0"
  shows "take (length xs) (bits_of (buffer bb')) = xs" "bb_inv (bb_init (buffer bb') (length xs))"
    "bb_rest (bb_init (buffer bb') (length xs)) = xs @ []"
proof -
  have p: "pos bb' = length xs" using length_bb_out [OF assms(1)] assms(2) by simp
  show t: "take (length xs) (bits_of (buffer bb')) = xs" using assms(2) p by (simp add: bb_out_def)
  show "bb_inv (bb_init (buffer bb') (length xs))" using assms(1) p by (intro bb_init_inv) (simp add: bb_inv_def)
  show "bb_rest (bb_init (buffer bb') (length xs)) = xs @ []" by (simp add: bb_rest_init t)
qed

text \<open>
  C6: CMCE PDUs survive the air interface. Every PDU of a type that exists in the direction, with its
  fields within their widths, is encoded into any buffer with room to exactly the specified bits, and
  decoding those bits returns 0 and the same type, the same value of every field of that type, and
  zero in every other field.
\<close>

theorem cmce_pdu_roundtrip:
  assumes "cmce_wf dir p" "length (cmce_bits dir p) \<le> 8 * length buf"
  shows "\<exists>bb' b. cmce_pdu_encode (bb_init_autoexpand buf (8 * length buf)) p dir = Some (Inr (length (cmce_bits dir p)), bb') \<and>
     take (length (cmce_bits dir p)) (bits_of (buffer bb')) = cmce_bits dir p \<and>
     cmce_pdu_decode (bb_init (buffer bb') (length (cmce_bits dir p))) out dir (length (cmce_bits dir p)) =
       Some (Inr (), (cmce_view dir p)\<lparr>encoded_len_bits := length (cmce_bits dir p)\<rparr>, b)"
proof -
  let ?bb = "bb_init_autoexpand buf (8 * length buf)"
  have r: "length (cmce_bits dir p) \<le> bb_room ?bb" using assms(2) by simp
  obtain bb' where b: "cmce_pdu_encode ?bb p dir = Some (Inr (length (cmce_bits dir p)), bb')" "bb_inv bb'"
      "bb_out bb' = cmce_bits dir p" "start bb' = 0"
    using cmce_pdu_encode_ok [OF assms(1) _ r] by (auto simp: start_autoexpand)
  note e = encoded_readable [OF b(2-4)]
  from cmce_pdu_decode_back [OF assms(1) e(2,3) order_refl] b(1) e(1) show ?thesis by blast
qed

definition ex_u_setup :: CmcePdu where
  "ex_u_setup = zero_cmce_pdu\<lparr>cmce_pdu_type := CmcePdu_Setup, area_selection := 5, hook_method_selection := 1,
     basic_service_information := cmce_bsi_make 0 0 1 0, request_to_transmit_send_data := 1, call_priority := 9, clir_control := 2,
     called_party_type_identifier := CmcePty_Ssi, called_party_address_ssi := 0x2F4D61\<rparr>"

lemma ex_u_setup_facts: "cmce_wf CmceDir_Uplink ex_u_setup" "length (cmce_bits CmceDir_Uplink ex_u_setup) = 53"
  "(cmce_view CmceDir_Uplink ex_u_setup) = ex_u_setup"
  by (simp_all add: cmce_wf_def ex_u_setup_def zero_cmce_pdu_def pty_defs cmce_bits_def cmce_fields_def cmce_body_fields_def obit_def cmce_view_def)

theorem cmce_pdu_roundtrip_witness:
  "\<exists>bb' b. cmce_pdu_encode (bb_init_autoexpand (replicate 32 0) 256) ex_u_setup CmceDir_Uplink = Some (Inr 53, bb') \<and>
     cmce_pdu_decode (bb_init (buffer bb') 53) zero_cmce_pdu CmceDir_Uplink 53 = Some (Inr (), ex_u_setup\<lparr>encoded_len_bits := 53\<rparr>, b)"
  using cmce_pdu_roundtrip [OF ex_u_setup_facts(1), of "replicate 32 0" zero_cmce_pdu] ex_u_setup_facts(2,3) by auto

text \<open>
  The network broadcast body survives encoding. For every load value, with or without a 48-bit
  network time and with or without an empty neighbour list, the body is encoded to exactly the
  specified bits and decoded to the same values, the decoder returning the number of bits it consumed.
\<close>

theorem cmce_nwrk_roundtrip:
  assumes "nwrk_wf p" "length (nwrk_bits p) \<le> 8 * length buf"
  shows "\<exists>bb' b. cmce_pdu_encode_d_nwrk_broadcast (bb_init_autoexpand buf (8 * length buf)) p = Some (Inr (length (nwrk_bits p)), bb') \<and>
     take (length (nwrk_bits p)) (bits_of (buffer bb')) = nwrk_bits p \<and>
     cmce_pdu_decode_d_nwrk_broadcast (bb_init (buffer bb') (length (nwrk_bits p))) out (length (nwrk_bits p)) =
       Some (Inr (length (nwrk_bits p)), nwrk_view out p, b)"
proof -
  let ?bb = "bb_init_autoexpand buf (8 * length buf)"
  have r: "length (nwrk_bits p) \<le> bb_room ?bb" using assms(2) by simp
  obtain bb' where b: "cmce_pdu_encode_d_nwrk_broadcast ?bb p = Some (Inr (length (nwrk_bits p)), bb')" "bb_inv bb'"
      "bb_out bb' = nwrk_bits p" "start bb' = 0"
    using nwrk_encode_ok [OF assms(1) _ r] by (auto simp: start_autoexpand)
  note e = encoded_readable [OF b(2-4)]
  from nwrk_decode_back [OF assms(1) e(2,3) order_refl] b(1) e(1) show ?thesis by blast
qed

definition ex_nwrk :: CmcePdu where
  "ex_nwrk = zero_cmce_pdu\<lparr>cmce_pdu_type := CmcePdu_NwrkBroadcast, nwrk_cell_re_select_parameters := 0x5655, optionals_present := True,
     nwrk_p_tetra_network_time := True, nwrk_tetra_network_time := 0x123456789ABC, nwrk_p_num_ca_neighbour_cells := True\<rparr>"

theorem cmce_nwrk_roundtrip_witness:
  "\<exists>bb' b. cmce_pdu_encode_d_nwrk_broadcast (bb_init_autoexpand (replicate 32 0) 256) ex_nwrk = Some (Inr 72, bb') \<and>
     cmce_pdu_decode_d_nwrk_broadcast (bb_init (buffer bb') 72) zero_cmce_pdu 72 = Some (Inr 72, ex_nwrk\<lparr>encoded_len_bits := 72\<rparr>, b)"
proof -
  have l: "length (nwrk_bits ex_nwrk) = 72" by (simp add: nwrk_bits_def nwrk_fields_def ex_nwrk_def obit_def)
  have "nwrk_wf ex_nwrk" "nwrk_view zero_cmce_pdu ex_nwrk = ex_nwrk\<lparr>encoded_len_bits := 72\<rparr>"
    using l by (simp_all add: nwrk_wf_def nwrk_view_def ex_nwrk_def zero_cmce_pdu_def)
  with cmce_nwrk_roundtrip [of ex_nwrk "replicate 32 0" zero_cmce_pdu] l show ?thesis by auto
qed

end
