(* ===== verification/Cmce.thy ===== *)
theory Cmce
  imports Cmce_Pdu
begin

text \<open>
  The CMCE entity (\<open>sw/cmce/cmce.c\<close>), its per-call state machine (\<open>sw/cmce/cmce_fsm.c\<close>) and the periodic
  network broadcast (\<open>sw/cmce/cmce_nwrk_bcast.c\<close>). A call slot pointer is an index into the slot table,
  \<open>None\<close> the null pointer.
\<close>

section \<open>Types\<close>

datatype CmceCallState =
    CmceCall_Idle | CmceCall_SetupPending | CmceCall_Proceeding | CmceCall_Connected | CmceCall_TxGranted | CmceCall_Releasing

definition CMCE_MAX_CALLS :: nat where
  "CMCE_MAX_CALLS = 8"

record CmceCallSlot =
  cs_in_use :: bool
  cs_call_identifier :: u16
  cs_state :: CmceCallState
  cs_peer_addr :: TetraAddress
  cs_endpoint :: EndpointId
  cs_retry_count :: u8

record CmceCfg =
  nwrk_bcast_period_multiframes :: u16
  cell_re_select_parameters_seed :: u16
  cell_load_ca :: u8

definition CMCE_NWRK_BCAST_PERIOD_MF_DEFAULT :: u16 where
  "CMCE_NWRK_BCAST_PERIOD_MF_DEFAULT = 10"

definition CMCE_NWRK_DEFAULT_CRSP :: u16 where
  "CMCE_NWRK_DEFAULT_CRSP = 0x5655"

record CmceStats =
  pdus_rx :: nat
  pdus_tx :: nat
  setup_count :: nat
  connect_count :: nat
  tx_grant_count :: nat
  release_count :: nat
  nwrk_bcast_count :: nat
  unknown_pdu_type :: nat
  fsm_drops :: nat

record Cmce =
  cmce_cfg :: CmceCfg
  calls :: "CmceCallSlot list"
  cmce_stats :: CmceStats
  last_bcast_tick_mf :: u64
  cmce_initialised :: bool

definition zero_addr :: TetraAddress where
  "zero_addr = \<lparr>ssi = 0, ssi_type = SsiType_of_code 0\<rparr>"

definition zero_call :: CmceCallSlot where
  "zero_call = \<lparr>cs_in_use = False, cs_call_identifier = 0, cs_state = CmceCall_Idle, cs_peer_addr = zero_addr,
     cs_endpoint = 0, cs_retry_count = 0\<rparr>"

definition zero_cmce :: Cmce where
  "zero_cmce = \<lparr>cmce_cfg = \<lparr>nwrk_bcast_period_multiframes = 0, cell_re_select_parameters_seed = 0, cell_load_ca = 0\<rparr>,
     calls = replicate CMCE_MAX_CALLS zero_call,
     cmce_stats = \<lparr>pdus_rx = 0, pdus_tx = 0, setup_count = 0, connect_count = 0, tx_grant_count = 0, release_count = 0,
       nwrk_bcast_count = 0, unknown_pdu_type = 0, fsm_drops = 0\<rparr>,
     last_bcast_tick_mf = 0, cmce_initialised = False\<rparr>"

text \<open>The counters.\<close>

definition drop_count :: "Cmce \<Rightarrow> Cmce" where
  "drop_count c = c\<lparr>cmce_stats := (cmce_stats c)\<lparr>fsm_drops := fsm_drops (cmce_stats c) + 1\<rparr>\<rparr>"

definition setup_counted :: "Cmce \<Rightarrow> Cmce" where
  "setup_counted c = c\<lparr>cmce_stats := (cmce_stats c)\<lparr>setup_count := setup_count (cmce_stats c) + 1\<rparr>\<rparr>"

definition connect_counted :: "Cmce \<Rightarrow> Cmce" where
  "connect_counted c = c\<lparr>cmce_stats := (cmce_stats c)\<lparr>connect_count := connect_count (cmce_stats c) + 1\<rparr>\<rparr>"

definition grant_counted :: "Cmce \<Rightarrow> Cmce" where
  "grant_counted c = c\<lparr>cmce_stats := (cmce_stats c)\<lparr>tx_grant_count := tx_grant_count (cmce_stats c) + 1\<rparr>\<rparr>"

definition release_counted :: "Cmce \<Rightarrow> Cmce" where
  "release_counted c = c\<lparr>cmce_stats := (cmce_stats c)\<lparr>release_count := release_count (cmce_stats c) + 1\<rparr>\<rparr>"

section \<open>Call slots and state machine\<close>

definition cmce_call_lookup :: "Cmce \<Rightarrow> u16 \<Rightarrow> nat option" where
  "cmce_call_lookup c cid = slot_find cs_in_use cs_call_identifier cid (calls c)"

definition fresh_call :: "TetraAddress option \<Rightarrow> EndpointId \<Rightarrow> u16 \<Rightarrow> CmceCallSlot" where
  "fresh_call peer ep cid = zero_call\<lparr>cs_in_use := True, cs_call_identifier := cid, cs_state := CmceCall_SetupPending,
     cs_peer_addr := (case peer of Some a \<Rightarrow> a | None \<Rightarrow> zero_addr), cs_endpoint := ep, cs_retry_count := 0\<rparr>"

definition cmce_call_alloc :: "Cmce \<Rightarrow> u16 \<Rightarrow> TetraAddress option \<Rightarrow> EndpointId \<Rightarrow> nat option \<times> Cmce" where
  "cmce_call_alloc c cid peer ep =
     (if cmce_call_lookup c cid \<noteq> None then (None, drop_count c)
      else case slot_free cs_in_use (calls c) of
             Some k \<Rightarrow> (Some k, c\<lparr>calls := (calls c)[k := fresh_call peer ep cid]\<rparr>)
           | None \<Rightarrow> (None, c))"

definition call_update :: "nat \<Rightarrow> (CmceCallSlot \<Rightarrow> CmceCallSlot) \<Rightarrow> Cmce \<Rightarrow> Cmce" where
  "call_update k f c = c\<lparr>calls := (calls c)[k := f (calls c ! k)]\<rparr>"

definition cmce_call_release :: "Cmce \<Rightarrow> nat \<Rightarrow> Cmce" where
  "cmce_call_release c k =
     call_update k (\<lambda>s. s\<lparr>cs_in_use := False, cs_state := CmceCall_Idle, cs_call_identifier := 0, cs_retry_count := 0\<rparr>) c"

definition to_state :: "nat \<Rightarrow> CmceCallState \<Rightarrow> Cmce \<Rightarrow> Cmce" where
  "to_state k st c = call_update k (\<lambda>s. s\<lparr>cs_state := st\<rparr>) c"

text \<open>The \<open>switch\<close> on the PDU type for a slot in use.\<close>

definition fsm_switch :: "Cmce \<Rightarrow> nat \<Rightarrow> CmcePduType \<Rightarrow> CmceDirection \<Rightarrow> Cmce" where
  "fsm_switch c k t dir =
     (let st = cs_state (calls c ! k) in
      case t of
        CmcePdu_Setup \<Rightarrow>
          if dir = CmceDir_Uplink
          then to_state k CmceCall_SetupPending (setup_counted (if st \<noteq> CmceCall_SetupPending then drop_count c else c))
          else setup_counted (to_state k CmceCall_SetupPending c)
      | CmcePdu_CallProceeding \<Rightarrow>
          if st = CmceCall_SetupPending then to_state k CmceCall_Proceeding c else drop_count c
      | CmcePdu_Connect \<Rightarrow>
          if st = CmceCall_Proceeding \<or> st = CmceCall_SetupPending
          then connect_counted (to_state k CmceCall_Connected c) else drop_count c
      | CmcePdu_TxDemand \<Rightarrow>
          if st = CmceCall_Connected then grant_counted (to_state k CmceCall_TxGranted c) else drop_count c
      | CmcePdu_TxGranted \<Rightarrow>
          if st = CmceCall_Connected \<or> st = CmceCall_TxGranted
          then grant_counted (to_state k CmceCall_TxGranted c) else drop_count c
      | CmcePdu_Release \<Rightarrow>
          if st = CmceCall_Releasing then release_counted (cmce_call_release c k)
          else if st \<noteq> CmceCall_Idle then release_counted (to_state k CmceCall_Releasing c)
          else drop_count c
      | CmcePdu_NwrkBroadcast \<Rightarrow> drop_count c
      | CmcePdu_Unknown \<Rightarrow> drop_count c)"

definition cmce_fsm_apply :: "Cmce \<Rightarrow> nat option \<Rightarrow> CmcePdu \<Rightarrow> CmceDirection \<Rightarrow> CmceCallState \<times> Cmce" where
  "cmce_fsm_apply c slot pdu dir =
     (case slot of
        None \<Rightarrow> (CmceCall_Idle, drop_count c)
      | Some k \<Rightarrow>
          if \<not> cs_in_use (calls c ! k) then (CmceCall_Idle, drop_count c)
          else let c = fsm_switch c k (cmce_pdu_type pdu) dir in (cs_state (calls c ! k), c))"

section \<open>Entity\<close>

definition cmce_pdu_from_body :: "u8 list \<Rightarrow> nat \<Rightarrow> CmceDirection \<Rightarrow> CmcePdu \<Rightarrow> (unit res \<times> CmcePdu) option" where
  "cmce_pdu_from_body bdy blen dir out =
     (if blen = 0 then Some (Inl EINVAL, out)
      else let nbytes = (blen + 7) div 8 in
        if nbytes > CMCE_PDU_BODY_MAX_BYTES then Some (Inl EPROTO, out)
        else do {
          scratch \<leftarrow> memcpy_front (uninit CMCE_PDU_BODY_MAX_BYTES) bdy nbytes;
          (rc, out, _) \<leftarrow> cmce_pdu_decode (bb_init scratch blen) out dir blen;
          Some (rc, out)
        })"

definition upcall_direction :: CmceDirection where
  "upcall_direction = CmceDir_Uplink"

definition cmce_encode :: "CmcePdu \<Rightarrow> CmceDirection \<Rightarrow> (nat res \<times> u8 list) option" where
  "cmce_encode pdu dir = do {
     let enc = bb_init_autoexpand (replicate CMCE_PDU_BODY_MAX_BYTES 0) (CMCE_PDU_BODY_MAX_BYTES * 8);
     (n, enc) \<leftarrow> (if cmce_pdu_type pdu = CmcePdu_NwrkBroadcast then cmce_pdu_encode_d_nwrk_broadcast enc pdu
                  else cmce_pdu_encode enc pdu dir);
     Some (n, buffer enc)
   }"

definition cmce_msg :: "TleSapMsg \<Rightarrow> SapMsg" where
  "cmce_msg m = sapmsg_init SapId_TleSap SapId_TmaSap SapId_TleSap (Some (TleSapMsg_bytes m)) sizeof_TleSapMsg"

definition cmce_post_tma_unitdata_req ::
  "Cmce \<Rightarrow> Env \<Rightarrow> EndpointId \<Rightarrow> TetraAddress \<Rightarrow> CmcePdu \<Rightarrow> CmceDirection \<Rightarrow> (unit res \<times> Cmce \<times> Env) option" where
  "cmce_post_tma_unitdata_req c env ep addr pdu dir =
     (if \<not> cmce_initialised c then Some (Inl EINVAL, c, env)
      else do {
        (rc, cmce_bytes) \<leftarrow> cmce_encode pdu dir;
        case rc of
          Inl e \<Rightarrow> Some (Inl e, c, env)
        | Inr n \<Rightarrow>
            if n > LLC_PDU_BODY_MAX_BYTES * 8 then Some (Inl E2BIG, c, env)
            else do {
              b \<leftarrow> memcpy_front (body zero_pdu) cmce_bytes ((n + 7) div 8);
              let msg = \<lparr>tle_endpoint = ep, tle_addr = addr,
                         tle_pdu = zero_pdu\<lparr>pdu_type := LlcPdu_BL_DATA, body_len_bits := n, body := b\<rparr>\<rparr>;
              let (rc, env) = env_post env (sap_prio_default SapId_TleSap) (cmce_msg msg);
              case rc of
                Inl e \<Rightarrow> Some (Inl e, c, env)
              | Inr _ \<Rightarrow> Some (Inr (), c\<lparr>cmce_stats := (cmce_stats c)\<lparr>pdus_tx := pdus_tx (cmce_stats c) + 1\<rparr>\<rparr>, env)
            }
      })"

text \<open>The slot of an incoming PDU: found, or allocated for a U-SETUP.\<close>

definition cmce_find_slot :: "Cmce \<Rightarrow> TleSapMsg \<Rightarrow> CmcePdu \<Rightarrow> CmceDirection \<Rightarrow> nat res \<times> Cmce" where
  "cmce_find_slot c msg pdu dir =
     (case cmce_call_lookup c (call_identifier pdu) of
        Some k \<Rightarrow> (Inr k, c)
      | None \<Rightarrow>
          if cmce_pdu_type pdu = CmcePdu_Setup \<and> dir = CmceDir_Uplink
          then (case cmce_call_alloc c (call_identifier pdu) (Some (tle_addr msg)) (tle_endpoint msg) of
                  (Some k, c) \<Rightarrow> (Inr k, c)
                | (None, c) \<Rightarrow> (Inl ENOSPC, drop_count c))
          else (Inl EPROTO, drop_count c))"

definition call_proceeding_for :: "CmcePdu \<Rightarrow> CmcePdu" where
  "call_proceeding_for pdu = zero_cmce_pdu\<lparr>cmce_pdu_type := CmcePdu_CallProceeding, call_identifier := call_identifier pdu,
     call_time_out_set_up_phase := 0, hook_method_selection := 0, simplex_duplex_selection := 0, optionals_present := False\<rparr>"

definition tx_granted_for :: "CmcePdu \<Rightarrow> CmcePdu" where
  "tx_granted_for pdu = zero_cmce_pdu\<lparr>cmce_pdu_type := CmcePdu_TxGranted, call_identifier := call_identifier pdu,
     transmission_grant := CmceTxGrant_Granted, transmission_request_permission := 1,
     encryption_control := encryption_control pdu, optionals_present := False\<rparr>"

definition release_for :: "CmcePdu \<Rightarrow> CmcePdu" where
  "release_for pdu = zero_cmce_pdu\<lparr>cmce_pdu_type := CmcePdu_Release, call_identifier := call_identifier pdu,
     disconnect_cause := CmceDisconnect_UserRequested, optionals_present := False\<rparr>"

text \<open>The response to an incoming PDU; its return code is ignored.\<close>

definition cmce_respond :: "Cmce \<Rightarrow> Env \<Rightarrow> TleSapMsg \<Rightarrow> nat \<Rightarrow> CmcePdu \<Rightarrow> CmceDirection \<Rightarrow> (Cmce \<times> Env) option" where
  "cmce_respond c env msg k pdu dir =
     (if cmce_pdu_type pdu = CmcePdu_Setup \<and> dir = CmceDir_Uplink then do {
        (_, c, env) \<leftarrow> cmce_post_tma_unitdata_req c env (tle_endpoint msg) (tle_addr msg) (call_proceeding_for pdu) CmceDir_Downlink;
        Some (c, env)
      }
      else if cmce_pdu_type pdu = CmcePdu_TxDemand \<and> dir = CmceDir_Uplink then do {
        (_, c, env) \<leftarrow> cmce_post_tma_unitdata_req c env (tle_endpoint msg) (tle_addr msg) (tx_granted_for pdu) CmceDir_Downlink;
        Some (c, env)
      }
      else if cmce_pdu_type pdu = CmcePdu_Release \<and> dir = CmceDir_Uplink then do {
        (_, c, env) \<leftarrow> cmce_post_tma_unitdata_req c env (tle_endpoint msg) (tle_addr msg) (release_for pdu) CmceDir_Downlink;
        Some (snd (cmce_fsm_apply c (Some k) (release_for pdu) CmceDir_Downlink), env)
      }
      else Some (c, env))"

definition cmce_handle_tle_msg :: "Cmce \<Rightarrow> Env \<Rightarrow> TleSapMsg \<Rightarrow> (unit res \<times> Cmce \<times> Env) option" where
  "cmce_handle_tle_msg c env msg =
     (if \<not> cmce_initialised c then Some (Inl EINVAL, c, env)
      else do {
        let c = c\<lparr>cmce_stats := (cmce_stats c)\<lparr>pdus_rx := pdus_rx (cmce_stats c) + 1\<rparr>\<rparr>;
        let dir = upcall_direction;
        (rc, pdu) \<leftarrow> cmce_pdu_from_body (body (tle_pdu msg)) (body_len_bits (tle_pdu msg)) dir zero_cmce_pdu;
        case rc of
          Inl e \<Rightarrow> Some (Inl e, c\<lparr>cmce_stats := (cmce_stats c)\<lparr>unknown_pdu_type := unknown_pdu_type (cmce_stats c) + 1\<rparr>\<rparr>, env)
        | Inr _ \<Rightarrow>
            (case cmce_find_slot c msg pdu dir of
               (Inl e, c) \<Rightarrow> Some (Inl e, c, env)
             | (Inr k, c) \<Rightarrow> do {
                 (c, env) \<leftarrow> cmce_respond (snd (cmce_fsm_apply c (Some k) pdu dir)) env msg k pdu dir;
                 Some (Inr (), c, env)
               })
      })"

definition cmce_send_d_nwrk_broadcast :: "Cmce \<Rightarrow> Env \<Rightarrow> (unit res \<times> Cmce \<times> Env) option" where
  "cmce_send_d_nwrk_broadcast c env =
     (if \<not> cmce_initialised c then Some (Inl EINVAL, c, env)
      else do {
        let pdu = zero_cmce_pdu\<lparr>cmce_pdu_type := CmcePdu_NwrkBroadcast,
          nwrk_cell_re_select_parameters := cell_re_select_parameters_seed (cmce_cfg c),
          nwrk_cell_load_ca := cell_load_ca (cmce_cfg c), optionals_present := False\<rparr>;
        let bcast = \<lparr>ssi = 0x00FFFFFF, ssi_type = SsiType_Ssi\<rparr>;
        (rc, c, env) \<leftarrow> cmce_post_tma_unitdata_req c env 1 bcast pdu CmceDir_Downlink;
        case rc of
          Inl e \<Rightarrow> Some (Inl e, c, env)
        | Inr _ \<Rightarrow> Some (Inr (), c\<lparr>cmce_stats := (cmce_stats c)\<lparr>nwrk_bcast_count := nwrk_bcast_count (cmce_stats c) + 1\<rparr>\<rparr>, env)
      })"

definition looks_cmce :: "u8 \<Rightarrow> bool" where
  "looks_cmce pt \<longleftrightarrow> pt = CmcePduType_code CmcePdu_Setup \<or> pt = CmcePduType_code CmcePdu_CallProceeding \<or>
     pt = CmcePduType_code CmcePdu_Connect \<or> pt = CmcePduType_code CmcePdu_TxDemand \<or>
     pt = CmcePduType_code CmcePdu_TxGranted \<or> pt = CmcePduType_code CmcePdu_Release"

definition on_tle_upcall :: "Cmce \<Rightarrow> Env \<Rightarrow> SapMsg \<Rightarrow> (Cmce \<times> Env) option" where
  "on_tle_upcall c env msg =
     (case payload msg of
        None \<Rightarrow> Some (c, env)
      | Some pl \<Rightarrow>
          if len msg < sizeof_TleSapMsg then Some (c, env)
          else
            let inm = TleSapMsg_of_bytes pl in
            if body_len_bits (tle_pdu inm) < 5 then Some (c, env)
            else do {
              b0 \<leftarrow> arr_get (body (tle_pdu inm)) 0;
              if \<not> looks_cmce (drop_bit 3 b0 AND 0x1F) then Some (c, env)
              else do {
                (_, r) \<leftarrow> cmce_handle_tle_msg c env inm;
                Some r
              }
            })"

definition cmce_defaults :: "CmceCfg \<Rightarrow> CmceCfg" where
  "cmce_defaults cfg =
     (let cfg = (if nwrk_bcast_period_multiframes cfg = 0
                 then cfg\<lparr>nwrk_bcast_period_multiframes := CMCE_NWRK_BCAST_PERIOD_MF_DEFAULT\<rparr> else cfg)
      in if cell_re_select_parameters_seed cfg = 0
         then cfg\<lparr>cell_re_select_parameters_seed := CMCE_NWRK_DEFAULT_CRSP\<rparr> else cfg)"

definition cmce_init :: "Env \<Rightarrow> CmceCfg option \<Rightarrow> unit res \<times> Cmce \<times> Env" where
  "cmce_init env cfg =
     (let c = zero_cmce\<lparr>cmce_cfg := cmce_defaults (case cfg of Some f \<Rightarrow> f | None \<Rightarrow> cmce_cfg zero_cmce)\<rparr>;
          (rc, b) = msgbus_register (bus env) SapId_TleSap SapId_TleSap Cmce_on_tle_upcall;
          env = env\<lparr>bus := b\<rparr>
      in case rc of
           Inl e \<Rightarrow> (Inl e, c, env)
         | Inr _ \<Rightarrow> (Inr (), c\<lparr>cmce_initialised := True\<rparr>, env))"

definition cmce_nwrk_bcast_tick :: "Cmce \<Rightarrow> u64 \<Rightarrow> bool \<times> Cmce" where
  "cmce_nwrk_bcast_tick c now_mf =
     (if \<not> cmce_initialised c then (False, c)
      else
        let period = nwrk_bcast_period_multiframes (cmce_cfg c) in
        if period = 0 then (False, c)
        else if last_bcast_tick_mf c = 0
        then if now_mf \<ge> ucast period then (True, c\<lparr>last_bcast_tick_mf := now_mf\<rparr>) else (False, c)
        else if now_mf - last_bcast_tick_mf c \<ge> ucast period then (True, c\<lparr>last_bcast_tick_mf := now_mf\<rparr>)
        else (False, c))"

section \<open>Encoding never aborts\<close>

lemma fits_masked:
  "fits 14 (v AND 0x3FFF)" "fits 4 (v AND 15)" "fits 3 (v AND 7)" "fits 2 (v AND 3)" "fits 5 (v AND 31)"
  "fits 24 (v AND TETRA_SSI_MASK_24)" "fits (Suc 0) (ucast (a AND 1 :: u8))"
proof -
  have m: "(0x3FFF :: u32) = mask 14" "(15 :: u32) = mask 4" "(7 :: u32) = mask 3" "(3 :: u32) = mask 2" "(31 :: u32) = mask 5"
    "TETRA_SSI_MASK_24 = mask 24"
    by (simp_all add: mask_eq_exp_minus_1 TETRA_SSI_MASK_24_def)
  show "fits 14 (v AND 0x3FFF)" "fits 4 (v AND 15)" "fits 3 (v AND 7)" "fits 2 (v AND 3)" "fits 5 (v AND 31)"
    "fits 24 (v AND TETRA_SSI_MASK_24)"
    unfolding m by (rule fits_and_mask; simp)+
  have "a AND 1 \<le> 1" by (simp add: word_and_le1)
  then show "fits (Suc 0) (ucast (a AND 1))" by (rule fits_le)
qed

lemma put_fields_length: "put_fields bb_put_bits fs bb = Some bb' \<Longrightarrow> length (buffer bb') = length (buffer bb)"
  by (induction fs arbitrary: bb) (auto split: bind_splits dest: bb_put_bits_length)

text \<open>An encoder outcome: no abort, the buffer keeps its size, and at most \<open>n\<close> bits were written.\<close>

definition enc_ok :: "BitBuffer \<Rightarrow> nat \<Rightarrow> (unit res \<times> BitBuffer) option \<Rightarrow> bool" where
  "enc_ok bb n r \<longleftrightarrow> (\<exists>rc bb'. r = Some (rc, bb') \<and> bb_inv bb' \<and> length (buffer bb') = length (buffer bb) \<and>
     start bb' = start bb \<and> pos bb' \<le> pos bb + n)"

lemma enc_ok_refuse: "bb_inv bb \<Longrightarrow> enc_ok bb n (Some (Inl e, bb))"
  by (simp add: enc_ok_def)

lemma enc_ok_typed:
  assumes "bb_inv bb" "CmcePduType_code t \<le> 0x1F" "fields_ok fs" "length (field_bits fs) \<le> 72" "77 \<le> bb_room bb"
  shows "enc_ok bb 77 (put_typed t fs bb)"
proof -
  let ?fs = "(ucast (CmcePduType_code t), 5) # fs"
  have "fits 5 (ucast (CmcePduType_code t))" using assms(2) by (cases t) (simp_all add: fits_le(8))
  then have "fields_ok ?fs" "length (field_bits ?fs) \<le> bb_room bb" using assms(3-5) by simp_all
  from bb_sink.put_fields_ok [OF assms(1) this] obtain bb' where
    b: "put_fields bb_put_bits ?fs bb = Some bb'" "bb_inv bb'" "bb_out bb' = bb_out bb @ field_bits ?fs" by blast
  have "pos bb' \<le> pos bb + 77"
    using length_bb_out [OF b(2)] length_bb_out [OF assms(1)] b(3) assms(4) by simp
  moreover have "put_typed t fs bb = Some (Inr (), bb')" unfolding put_typed_fields [OF assms(2)] b(1) by simp
  ultimately show ?thesis
    using b(2) put_fields_start [OF b(1)] put_fields_length [OF b(1)] by (simp add: enc_ok_def)
qed

lemma encoders_total:
  assumes "bb_inv bb" "77 \<le> bb_room bb"
  shows "enc_ok bb 77 (encode_d_setup bb p)" "enc_ok bb 77 (encode_u_setup bb p)" "enc_ok bb 77 (encode_d_call_proceeding bb p)"
    "enc_ok bb 77 (encode_d_connect bb p)" "enc_ok bb 77 (encode_d_tx_granted bb p)" "enc_ok bb 77 (encode_u_tx_demand bb p)"
    "enc_ok bb 77 (encode_release bb p)"
  by (simp_all add: encode_d_setup_def encode_u_setup_def encode_d_call_proceeding_def encode_d_connect_def
      encode_d_tx_granted_def encode_u_tx_demand_def encode_release_def called_party_fields_def assms enc_ok_refuse enc_ok_typed
      fits_masked fits_le obit_def)

lemma encode_body_total: "bb_inv bb \<Longrightarrow> 77 \<le> bb_room bb \<Longrightarrow> enc_ok bb 77 (encode_body bb p dir)"
  unfolding encode_body_def by (cases "cmce_pdu_type p") (simp_all add: encoders_total enc_ok_refuse)

lemma cmce_bits_short: "length (cmce_bits dir p) \<le> 77"
  by (cases "cmce_pdu_type p") (simp_all add: cmce_bits_def cmce_fields_def cmce_body_fields_def length_field_bits obit_def)

abbreviation enc_buf :: BitBuffer where
  "enc_buf \<equiv> bb_init_autoexpand (replicate 32 0) 256"

lemma enc_buf_facts: "bb_inv enc_buf" "bb_room enc_buf = 256" "length (buffer enc_buf) = 32" "pos enc_buf = 0" "bb_out enc_buf = []"
  by simp_all (simp_all add: bb_init_autoexpand_def)

text \<open>A PDU the entity encodes: any call-control PDU, or a broadcast without optional part.\<close>

definition cmce_sendable :: "CmcePdu \<Rightarrow> bool" where
  "cmce_sendable p \<longleftrightarrow> (cmce_pdu_type p = CmcePdu_NwrkBroadcast \<longrightarrow>
     \<not> optionals_present p \<and> nwrk_num_ca_neighbour_cells p = 0 \<and> nwrk_tetra_network_time p = 0)"

lemma encoded_bytes:
  assumes "bb_inv bb'" "bb_out bb' = xs" "length (buffer bb') = 32"
  shows "take (length xs) (bits_of (buffer bb')) = xs"
proof -
  have "pos bb' = length xs" using length_bb_out [OF assms(1)] assms(2) by simp
  then show ?thesis using assms(2) by (simp add: bb_out_def)
qed

lemma cmce_encode_ok:
  assumes "cmce_wf dir p"
  shows "\<exists>b. cmce_encode p dir = Some (Inr (length (cmce_bits dir p)), b) \<and> length b = 32 \<and> take (length (cmce_bits dir p)) (bits_of b) = cmce_bits dir p"
proof -
  have t: "cmce_pdu_type p \<noteq> CmcePdu_NwrkBroadcast" using assms by (auto simp: cmce_wf_def)
  obtain bb' where b: "cmce_pdu_encode enc_buf p dir = Some (Inr (length (cmce_bits dir p)), bb')" "bb_inv bb'" "bb_out bb' = cmce_bits dir p"
    using cmce_pdu_encode_ok [OF assms, of enc_buf] enc_buf_facts cmce_bits_short [of dir p] by auto
  have "enc_ok enc_buf 77 (encode_body enc_buf p dir)" by (rule encode_body_total) (simp_all add: enc_buf_facts)
  with b(1) have "length (buffer bb') = 32"
    by (auto simp: cmce_pdu_encode_def enc_ok_def enc_buf_facts split: sum.splits)
  with b t encoded_bytes [OF b(2,3)] show ?thesis by (simp add: cmce_encode_def CMCE_PDU_BODY_MAX_BYTES_def Let_def)
qed

lemma nwrk_encode_total:
  assumes "\<not> optionals_present p" "nwrk_num_ca_neighbour_cells p = 0" "nwrk_tetra_network_time p = 0"
  shows "\<exists>rc bb'. cmce_pdu_encode_d_nwrk_broadcast enc_buf p = Some (rc, bb') \<and> length (buffer bb') = 32 \<and>
     (if nwrk_cell_load_ca p \<le> 3 then rc = Inr 19 \<and> take 19 (bits_of (buffer bb')) = nwrk_bits p else rc = Inl EINVAL)"
proof (cases "nwrk_cell_load_ca p \<le> 3")
  case True
  have w: "nwrk_wf p" using True assms by (simp add: nwrk_wf_def)
  have l: "length (nwrk_bits p) = 19" using assms(1) by (simp add: nwrk_bits_def nwrk_fields_def obit_def)
  obtain bb' where b: "cmce_pdu_encode_d_nwrk_broadcast enc_buf p = Some (Inr (length (nwrk_bits p)), bb')" "bb_inv bb'" "bb_out bb' = nwrk_bits p"
    using nwrk_encode_ok [OF w, of enc_buf] enc_buf_facts l by auto
  have "length (buffer bb') = 32"
    using b(1) nwrk_encode_fields [OF w, of enc_buf] put_fields_length by (fastforce simp: enc_buf_facts split: bind_splits)
  with b encoded_bytes [OF b(2,3)] l True show ?thesis by simp
next
  case False
  then show ?thesis by (simp add: cmce_pdu_encode_d_nwrk_broadcast_def not_le enc_buf_facts)
qed

lemma cmce_encode_total:
  assumes "cmce_sendable p"
  shows "\<exists>rc b. cmce_encode p dir = Some (rc, b) \<and> length b = 32 \<and> (\<forall>n. rc = Inr n \<longrightarrow> n \<le> 256)"
proof (cases "cmce_pdu_type p = CmcePdu_NwrkBroadcast")
  case True
  with assms nwrk_encode_total [of p] show ?thesis
    by (auto simp: cmce_encode_def CMCE_PDU_BODY_MAX_BYTES_def cmce_sendable_def Let_def split: if_splits)
next
  case False
  have "enc_ok enc_buf 77 (encode_body enc_buf p dir)" by (rule encode_body_total) (simp_all add: enc_buf_facts)
  then obtain rc bb' where e: "encode_body enc_buf p dir = Some (rc, bb')" "length (buffer bb') = 32" "pos bb' \<le> 77"
    by (auto simp: enc_ok_def enc_buf_facts)
  then have "bb_pos_bits bb' - bb_pos_bits enc_buf \<le> 77" by (simp add: bb_pos_bits_def)
  with e False show ?thesis
    by (cases rc) (simp_all add: cmce_encode_def CMCE_PDU_BODY_MAX_BYTES_def cmce_pdu_encode_def Let_def)
qed

section \<open>Sending\<close>

text \<open>Exactly one message was appended: the PDU bits as the body of a BL-DATA frame for the endpoint and address.\<close>

definition cmce_sent :: "Env \<Rightarrow> EndpointId \<Rightarrow> TetraAddress \<Rightarrow> bool list \<Rightarrow> Env \<Rightarrow> bool" where
  "cmce_sent env ep addr xs env' \<longleftrightarrow> (\<exists>m bs t. env_abs env' = (env_abs env)[1 := env_abs env ! 1 @ [m]] \<and> dest m = SapId_TmaSap \<and>
     sap m = SapId_TleSap \<and> payload m = Some bs \<and> TleSapMsg_of_bytes bs = t \<and> tle_endpoint t = ep \<and> tle_addr t = addr \<and>
     pdu_type (tle_pdu t) = LlcPdu_BL_DATA \<and> body_len_bits (tle_pdu t) = length xs \<and> take (length xs) (bits_of (body (tle_pdu t))) = xs)"

definition tx_counted :: "Cmce \<Rightarrow> Cmce" where
  "tx_counted c = c\<lparr>cmce_stats := (cmce_stats c)\<lparr>pdus_tx := pdus_tx (cmce_stats c) + 1\<rparr>\<rparr>"

lemma cmce_post_run:
  assumes "cmce_initialised c" "cmce_encode pdu dir = Some (Inr n, b)" "length b = 32" "n \<le> 256"
  shows "\<exists>t. length (body (tle_pdu t)) = 32 \<and> body_len_bits (tle_pdu t) = n \<and> tle_endpoint t = ep \<and> tle_addr t = addr \<and>
     pdu_type (tle_pdu t) = LlcPdu_BL_DATA \<and> take n (bits_of (body (tle_pdu t))) = take n (bits_of b) \<and>
     cmce_post_tma_unitdata_req c env ep addr pdu dir = (case env_post env MsgPrio_Normal (cmce_msg t) of
       (Inl e, env') \<Rightarrow> Some (Inl e, c, env') | (Inr _, env') \<Rightarrow> Some (Inr (), tx_counted c, env'))"
proof -
  obtain b' where b': "memcpy_front (body zero_pdu) b ((n + 7) div 8) = Some b'" "length b' = 32" "take n (bits_of b') = take n (bits_of b)"
    using body_copy_ok [OF assms(3,4)] by blast
  let ?t = "\<lparr>tle_endpoint = ep, tle_addr = addr, tle_pdu = zero_pdu\<lparr>pdu_type := LlcPdu_BL_DATA, body_len_bits := n, body := b'\<rparr>\<rparr>"
  have "cmce_post_tma_unitdata_req c env ep addr pdu dir = (case env_post env MsgPrio_Normal (cmce_msg ?t) of
       (Inl e, env') \<Rightarrow> Some (Inl e, c, env') | (Inr _, env') \<Rightarrow> Some (Inr (), tx_counted c, env'))"
    using assms b'(1) by (auto simp: cmce_post_tma_unitdata_req_def LLC_PDU_BODY_MAX_BYTES_def tx_counted_def Let_def split: prod.split sum.split)
  with b' show ?thesis by (intro exI [of _ ?t]) simp
qed

lemma cmce_post_sent:
  assumes "cmce_initialised c" "cmce_encode pdu dir = Some (Inr (length xs), b)" "length b = 32" "length xs \<le> 256"
    and "take (length xs) (bits_of b) = xs" "env_inv env" "env_room env MsgPrio_Normal"
  shows "\<exists>env'. cmce_post_tma_unitdata_req c env ep addr pdu dir = Some (Inr (), tx_counted c, env') \<and> cmce_sent env ep addr xs env'"
proof -
  obtain t where t: "length (body (tle_pdu t)) = 32" "body_len_bits (tle_pdu t) = length xs" "tle_endpoint t = ep" "tle_addr t = addr"
      "pdu_type (tle_pdu t) = LlcPdu_BL_DATA" "take (length xs) (bits_of (body (tle_pdu t))) = xs"
    and run: "cmce_post_tma_unitdata_req c env ep addr pdu dir = (case env_post env MsgPrio_Normal (cmce_msg t) of
       (Inl e, env') \<Rightarrow> Some (Inl e, c, env') | (Inr _, env') \<Rightarrow> Some (Inr (), tx_counted c, env'))"
    using cmce_post_run [OF assms(1-4), of ep addr env] assms(5) by auto
  have l: "body_len_bits (tle_pdu t) \<le> 256" using t(2) assms(4) by simp
  note f = tle_msg_facts [OF t(1) l cmce_msg_def]
  have r: "fst (env_post env MsgPrio_Normal (cmce_msg t)) = Inr ()"
    "env_abs (snd (env_post env MsgPrio_Normal (cmce_msg t))) = (env_abs env)[1 := env_abs env ! 1 @ [norm_msg (cmce_msg t)]]"
    using assms(6,7) f(1,2)
    by (intro env_post_room; simp add: cmce_msg_def sapmsg_init_def sizeof_TleSapMsg_def)+
  have "dest (norm_msg (cmce_msg t)) = SapId_TmaSap" "sap (norm_msg (cmce_msg t)) = SapId_TleSap"
    by (simp_all add: norm_msg_def cmce_msg_def sapmsg_init_def)
  with r f(3,4) t have "cmce_sent env ep addr xs (snd (env_post env MsgPrio_Normal (cmce_msg t)))"
    unfolding cmce_sent_def by blast
  with run r(1) show ?thesis by (auto simp: split_beta split: sum.split)
qed

section \<open>Call table\<close>

interpretation call_table: slot_table cs_in_use cs_call_identifier "fresh_call peer ep" for peer ep
  by unfold_locales (simp_all add: fresh_call_def)

definition cmce_inv :: "Cmce \<Rightarrow> bool" where
  "cmce_inv c \<longleftrightarrow> length (calls c) = CMCE_MAX_CALLS \<and> slot_inv cs_in_use cs_call_identifier (calls c)"

text \<open>A slot in use holds call 0 in its initial state.\<close>

definition call_pending :: "CmceCallSlot \<Rightarrow> bool" where
  "call_pending s \<longleftrightarrow> (cs_in_use s \<longrightarrow> cs_call_identifier s = 0 \<and> cs_state s = CmceCall_SetupPending)"

definition calls_pending :: "Cmce \<Rightarrow> bool" where
  "calls_pending c \<longleftrightarrow> (\<forall>s\<in>set (calls c). call_pending s)"

lemmas counted_defs = drop_count_def setup_counted_def connect_counted_def grant_counted_def release_counted_def tx_counted_def

lemma counted_simps [simp]:
  "calls (drop_count c) = calls c" "calls (setup_counted c) = calls c" "calls (connect_counted c) = calls c"
  "calls (grant_counted c) = calls c" "calls (release_counted c) = calls c" "calls (tx_counted c) = calls c"
  "cmce_initialised (drop_count c) = cmce_initialised c" "cmce_initialised (setup_counted c) = cmce_initialised c"
  "cmce_initialised (connect_counted c) = cmce_initialised c" "cmce_initialised (grant_counted c) = cmce_initialised c"
  "cmce_initialised (release_counted c) = cmce_initialised c" "cmce_initialised (tx_counted c) = cmce_initialised c"
  by (simp_all add: counted_defs)

lemma cmce_inv_cong: "calls c' = calls c \<Longrightarrow> cmce_inv c' = cmce_inv c" "calls c' = calls c \<Longrightarrow> calls_pending c' = calls_pending c"
  "calls c' = calls c \<Longrightarrow> cmce_call_lookup c' i = cmce_call_lookup c i"
  by (simp_all add: cmce_inv_def calls_pending_def cmce_call_lookup_def)

lemma call_update_simps [simp]:
  "calls (call_update k f c) = (calls c)[k := f (calls c ! k)]" "cmce_initialised (call_update k f c) = cmce_initialised c"
  "calls (to_state k st c) = (calls c)[k := (calls c ! k)\<lparr>cs_state := st\<rparr>]" "cmce_initialised (to_state k st c) = cmce_initialised c"
  "calls (cmce_call_release c k) = (calls c)[k := (calls c ! k)\<lparr>cs_in_use := False, cs_state := CmceCall_Idle, cs_call_identifier := 0, cs_retry_count := 0\<rparr>]"
  "cmce_initialised (cmce_call_release c k) = cmce_initialised c"
  by (simp_all add: call_update_def to_state_def cmce_call_release_def)

lemma fsm_switch_inv:
  assumes "cmce_inv c"
  shows "cmce_inv (fsm_switch c k t dir)" "cmce_initialised (fsm_switch c k t dir) = cmce_initialised c"
proof -
  have "slot_inv cs_in_use cs_call_identifier ((calls c)[k := (calls c ! k)\<lparr>cs_state := st\<rparr>])" for st
    using assms by (intro slot_inv_update) (simp_all add: cmce_inv_def)
  moreover have "slot_inv cs_in_use cs_call_identifier ((calls c)[k := (calls c ! k)\<lparr>cs_in_use := False, cs_state := CmceCall_Idle,
      cs_call_identifier := 0, cs_retry_count := 0\<rparr>])"
    using assms by (intro slot_inv_update) (simp_all add: cmce_inv_def)
  ultimately show "cmce_inv (fsm_switch c k t dir)"
    using assms by (cases t) (simp_all add: fsm_switch_def cmce_inv_def Let_def)
  show "cmce_initialised (fsm_switch c k t dir) = cmce_initialised c"
    by (cases t) (simp_all add: fsm_switch_def Let_def)
qed

lemma fsm_apply_inv:
  assumes "cmce_inv c"
  shows "cmce_inv (snd (cmce_fsm_apply c slot p dir))" "cmce_initialised (snd (cmce_fsm_apply c slot p dir)) = cmce_initialised c"
  using assms fsm_switch_inv [OF assms] cmce_inv_cong(1) [of "drop_count c" c]
  by (simp_all add: cmce_fsm_apply_def Let_def split: option.split)

lemma lookup_slot:
  assumes "cmce_inv c" "cmce_call_lookup c i = Some k"
  shows "k < CMCE_MAX_CALLS" "cs_in_use (calls c ! k)" "cs_call_identifier (calls c ! k) = i"
  using assms slot_findD [of cs_in_use cs_call_identifier i "calls c" k] by (auto simp: cmce_call_lookup_def cmce_inv_def)

lemma call_alloc_ok:
  assumes "cmce_inv c" "cmce_call_alloc c i peer ep = (Some k, c')"
  shows "cmce_inv c'" "calls c' = (calls c)[k := fresh_call peer ep i]" "k < CMCE_MAX_CALLS" "cmce_initialised c' = cmce_initialised c"
    "cmce_call_lookup c' i = Some k"
proof -
  have n: "slot_find cs_in_use cs_call_identifier i (calls c) = None" and f: "slot_free cs_in_use (calls c) = Some k"
    and c': "c' = c\<lparr>calls := (calls c)[k := fresh_call peer ep i]\<rparr>"
    using assms(2) by (auto simp: cmce_call_alloc_def cmce_call_lookup_def split: if_splits option.splits)
  have s: "slot_inv cs_in_use cs_call_identifier (calls c)" using assms(1) by (simp add: cmce_inv_def)
  show "cmce_inv c'" using call_table.alloc_inv [OF s n f] assms(1) by (simp add: c' cmce_inv_def)
  show "calls c' = (calls c)[k := fresh_call peer ep i]" "cmce_initialised c' = cmce_initialised c" by (simp_all add: c')
  show "k < CMCE_MAX_CALLS" using slot_freeD(1) [OF f] assms(1) by (simp add: cmce_inv_def)
  show "cmce_call_lookup c' i = Some k" using call_table.alloc_find [OF s n f] by (simp add: c' cmce_call_lookup_def)
qed

section \<open>What the air can send\<close>

definition same_call :: "CmcePdu \<Rightarrow> CmcePdu \<Rightarrow> bool" where
  "same_call p q \<longleftrightarrow> call_identifier q = call_identifier p \<and> cmce_pdu_type q = cmce_pdu_type p"

lemma decode_called_party_same: "decode_called_party bb p = Some (rc, q, b) \<Longrightarrow> same_call p q"
  unfolding decode_called_party_def by (auto simp: same_call_def split: if_splits bind_splits)

lemma decode_u_setup_same:
  assumes "decode_u_setup bb p n = Some (rc, q, b)"
  shows "same_call p q"
proof (cases "n < 30")
  case False
  with assms obtain vs b1 rc2 q2 b2 where d: "decode_called_party b1
          (p\<lparr>area_selection := ucast (vs ! 0), hook_method_selection := ucast (vs ! 1),
             simplex_duplex_selection := ucast (vs ! 2), basic_service_information := ucast (vs ! 3),
             request_to_transmit_send_data := ucast (vs ! 4), call_priority := ucast (vs ! 5),
             clir_control := ucast (vs ! 6), called_party_type_identifier := vs ! 7\<rparr>) = Some (rc2, q2, b2)"
    and r: "(case rc2 of Inl e \<Rightarrow> Some (Inl e, q2, b2)
        | Inr _ \<Rightarrow> Option.bind (bb_get_bits b2 1) (\<lambda>(v, i). Some (Inr (), q2\<lparr>optionals_present := (v \<noteq> 0)\<rparr>, i))) = Some (rc, q, b)"
    unfolding decode_u_setup_def by (auto simp only: if_False elim!: bind_pairE bind_tripleE)
  have "same_call p q2" using decode_called_party_same [OF d] by (simp add: same_call_def)
  moreover have "same_call q2 q" using r by (cases rc2) (auto simp: same_call_def split: bind_splits)
  ultimately show ?thesis by (simp add: same_call_def)
qed (use assms in \<open>simp add: decode_u_setup_def same_call_def\<close>)

lemma decode_uplink:
  assumes "cmce_pdu_decode bb out CmceDir_Uplink n = Some (Inr u, q, b)"
  shows "cmce_pdu_type q = CmcePdu_Setup \<and> call_identifier q = 0 \<or> cmce_pdu_type q \<in> {CmcePdu_TxDemand, CmcePdu_Release}"
proof -
  obtain raw b1 q1 b2 where d: "decode_typed raw b1 zero_cmce_pdu CmceDir_Uplink n = Some (Inr u, q1, b2)" "q = q1\<lparr>encoded_len_bits := n\<rparr>"
    using assms by (auto simp: cmce_pdu_decode_def split: if_splits bind_splits prod.splits sum.splits)
  then show ?thesis
    using decode_u_setup_same [of b1 "zero_cmce_pdu\<lparr>cmce_pdu_type := CmcePdu_Setup\<rparr>" n "Inr u" q1 b2]
    by (auto simp: same_call_def decode_typed_def Let_def decode_u_tx_demand_def decode_release_def zero_cmce_pdu_def split: if_splits bind_splits prod.splits)
qed

lemma from_body_total:
  assumes "length bdy = 32"
  shows "\<exists>rc q. cmce_pdu_from_body bdy n CmceDir_Uplink out = Some (rc, q) \<and>
     (rc = Inr () \<longrightarrow> cmce_pdu_type q = CmcePdu_Setup \<and> call_identifier q = 0 \<or> cmce_pdu_type q \<in> {CmcePdu_TxDemand, CmcePdu_Release})"
proof (cases "n = 0 \<or> (n + 7) div 8 > 32")
  case False
  then have n: "(n + 7) div 8 \<le> 32" "n \<le> 256" by auto
  obtain s where s: "memcpy_front (uninit 32) bdy ((n + 7) div 8) = Some s" "length s = 32"
    using n assms by (simp add: uninit_def)
  have i: "bb_inv (bb_init s n)" using s(2) n by simp
  obtain rc q b where r: "cmce_pdu_decode (bb_init s n) out CmceDir_Uplink n = Some (rc, q, b)"
    using cmce_pdu_decode_total [OF i] by blast
  with s(1) False decode_uplink [of "bb_init s n" out n "()" q b] show ?thesis
    by (auto simp: cmce_pdu_from_body_def CMCE_PDU_BODY_MAX_BYTES_def Let_def)
qed (auto simp: cmce_pdu_from_body_def CMCE_PDU_BODY_MAX_BYTES_def Let_def)

section \<open>No message aborts the entity\<close>

lemma cmce_post_safe:
  assumes "cmce_sendable p"
  shows "\<exists>rc c' env'. cmce_post_tma_unitdata_req c env ep addr p dir = Some (rc, c', env') \<and> calls c' = calls c \<and>
     cmce_initialised c' = cmce_initialised c \<and> env_posts env env'"
proof (cases "cmce_initialised c")
  case True
  obtain rc b where e: "cmce_encode p dir = Some (rc, b)" "length b = 32" "\<And>n. rc = Inr n \<Longrightarrow> n \<le> 256"
    using cmce_encode_total [OF assms] by blast
  show ?thesis
  proof (cases rc)
    case (Inl x)
    with e(1) True show ?thesis by (simp add: cmce_post_tma_unitdata_req_def)
  next
    case (Inr n)
    obtain t where l: "length (body (tle_pdu t)) = 32" "body_len_bits (tle_pdu t) \<le> 256" and
      run: "cmce_post_tma_unitdata_req c env ep addr p dir = (case env_post env MsgPrio_Normal (cmce_msg t) of
         (Inl e, env') \<Rightarrow> Some (Inl e, c, env') | (Inr _, env') \<Rightarrow> Some (Inr (), tx_counted c, env'))"
      using cmce_post_run [OF True e(1) [unfolded Inr] e(2) e(3) [OF Inr], of ep addr env] e(3) [OF Inr] by auto
    have "env_posts env (snd (env_post env MsgPrio_Normal (cmce_msg t)))"
      using env_post_posts tle_msg_facts(1,2) [OF l cmce_msg_def] by blast
    with run show ?thesis by (auto simp: split_beta split: sum.split)
  qed
qed (simp add: cmce_post_tma_unitdata_req_def)

lemma responses_sendable [simp]: "cmce_sendable (call_proceeding_for p)" "cmce_sendable (tx_granted_for p)" "cmce_sendable (release_for p)"
  by (simp_all add: cmce_sendable_def call_proceeding_for_def tx_granted_for_def release_for_def)

text \<open>
  A handler outcome: no abort, the bus is changed by posts only, the tables stay well formed, and slots in use
  stay pending.
\<close>

definition cmce_safe :: "Cmce \<Rightarrow> Env \<Rightarrow> (Cmce \<times> Env) option \<Rightarrow> bool" where
  "cmce_safe c env r \<longleftrightarrow> (\<exists>c' env'. r = Some (c', env') \<and> cmce_inv c' \<and> env_posts env env' \<and>
     cmce_initialised c' = cmce_initialised c \<and> (calls_pending c \<longrightarrow> calls_pending c'))"

lemma cmce_safe_same: "cmce_inv c \<Longrightarrow> calls c' = calls c \<Longrightarrow> cmce_initialised c' = cmce_initialised c \<Longrightarrow> cmce_safe c env (Some (c', env))"
  using cmce_inv_cong [of c' c] by (simp add: cmce_safe_def)

lemma post_respond_safe:
  assumes "cmce_inv c" "cmce_sendable p"
  shows "cmce_safe c env (Option.bind (cmce_post_tma_unitdata_req c env ep addr p dir) (\<lambda>(_, r). Some r))"
proof -
  obtain rc c' env' where p: "cmce_post_tma_unitdata_req c env ep addr p dir = Some (rc, c', env')" "calls c' = calls c"
      "cmce_initialised c' = cmce_initialised c" "env_posts env env'"
    using cmce_post_safe [OF assms(2)] by blast
  then show ?thesis using assms(1) cmce_inv_cong [of c' c] by (simp add: cmce_safe_def)
qed

text \<open>The state machine on the PDUs an uplink decode can deliver.\<close>

lemma pending_update:
  "calls_pending c \<Longrightarrow> call_pending s \<Longrightarrow> calls_pending (c\<lparr>calls := (calls c)[k := s]\<rparr>)"
  using set_update_subset_insert [of "calls c" k s] by (auto simp: calls_pending_def)

lemma to_state_cong: "calls c1 = calls c \<Longrightarrow> calls (to_state k st c1) = (calls c)[k := (calls c ! k)\<lparr>cs_state := st\<rparr>]"
  by simp

lemma calls_pending_set:
  assumes "calls_pending c" "calls c' = (calls c)[k := s]" "call_pending s"
  shows "calls_pending c'"
  using pending_update [OF assms(1,3), of k] cmce_inv_cong(2) [of c' "c\<lparr>calls := (calls c)[k := s]\<rparr>"] assms(2) by simp

lemma fsm_pending:
  assumes "calls_pending c" "k < length (calls c)" "cmce_pdu_type p = CmcePdu_Setup \<or> cmce_pdu_type p = CmcePdu_TxDemand"
  shows "calls_pending (snd (cmce_fsm_apply c (Some k) p CmceDir_Uplink))"
proof (cases "cs_in_use (calls c ! k)")
  case True
  have s: "cs_call_identifier (calls c ! k) = 0" "cs_state (calls c ! k) = CmceCall_SetupPending"
    using assms(1,2) True by (auto simp: calls_pending_def call_pending_def)
  let ?s = "(calls c ! k)\<lparr>cs_state := CmceCall_SetupPending\<rparr>"
  let ?c = "snd (cmce_fsm_apply c (Some k) p CmceDir_Uplink)"
  have "call_pending ?s" using s(1) by (simp add: call_pending_def)
  moreover have "calls ?c = (calls c)[k := ?s] \<or> calls ?c = calls c"
    using assms(3) True s by (auto simp: cmce_fsm_apply_def fsm_switch_def Let_def)
  ultimately show ?thesis using calls_pending_set [OF assms(1)] cmce_inv_cong(2) [of ?c c] assms(1) by blast
next
  case False
  with assms(1) show ?thesis by (simp add: cmce_fsm_apply_def cmce_inv_cong(2) [of "drop_count c" c])
qed

lemma fsm_apply_calls_cong:
  assumes "calls c1 = calls c"
  shows "calls (snd (cmce_fsm_apply c1 slot p dir)) = calls (snd (cmce_fsm_apply c slot p dir))"
  by (cases "cmce_pdu_type p") (simp_all add: cmce_fsm_apply_def fsm_switch_def Let_def assms split: option.split)

text \<open>A release indicated by the mobile runs the machine twice, which frees a pending call.\<close>

lemma release_frees:
  assumes "calls_pending c" "k < length (calls c)" "cs_in_use (calls c ! k)" "cmce_pdu_type p = CmcePdu_Release" "cmce_pdu_type p' = CmcePdu_Release"
    and "calls c1 = calls (snd (cmce_fsm_apply c (Some k) p d))"
  shows "calls_pending (snd (cmce_fsm_apply c1 (Some k) p' d'))"
proof -
  have "cs_state (calls c ! k) = CmceCall_SetupPending"
    using assms(1-3) by (auto simp: calls_pending_def call_pending_def)
  with assms(2-6) have "calls (snd (cmce_fsm_apply c1 (Some k) p' d')) = (calls c)[k := (calls c ! k)\<lparr>cs_in_use := False,
      cs_state := CmceCall_Idle, cs_call_identifier := 0, cs_retry_count := 0\<rparr>]"
    by (simp add: cmce_fsm_apply_def fsm_switch_def Let_def release_counted_def)
  from calls_pending_set [OF assms(1) this] show ?thesis by (simp add: call_pending_def)
qed


lemma cmce_respond_safe:
  assumes "cmce_inv c0" "c = snd (cmce_fsm_apply c0 (Some k) p CmceDir_Uplink)" "k < length (calls c0)" "cs_in_use (calls c0 ! k)"
    and "cmce_pdu_type p \<in> {CmcePdu_Setup, CmcePdu_TxDemand, CmcePdu_Release}"
  shows "cmce_safe c0 env (cmce_respond c env msg k p CmceDir_Uplink)"
proof (cases "cmce_pdu_type p = CmcePdu_Release")
  case True
  obtain rc c1 env' where p: "cmce_post_tma_unitdata_req c env (tle_endpoint msg) (tle_addr msg) (release_for p) CmceDir_Downlink = Some (rc, c1, env')"
      "calls c1 = calls c" "cmce_initialised c1 = cmce_initialised c" "env_posts env env'"
    using cmce_post_safe [of "release_for p" c env "tle_endpoint msg" "tle_addr msg" CmceDir_Downlink] by auto
  let ?c2 = "snd (cmce_fsm_apply c1 (Some k) (release_for p) CmceDir_Downlink)"
  have i: "cmce_inv c" "cmce_initialised c = cmce_initialised c0" using fsm_apply_inv [OF assms(1)] by (simp_all add: assms(2))
  then have "cmce_inv ?c2" "cmce_initialised ?c2 = cmce_initialised c0"
    using fsm_apply_inv [of c1] p(2,3) cmce_inv_cong(1) [of c1 c] by simp_all
  moreover have "calls_pending ?c2" if "calls_pending c0"
    using release_frees [OF that assms(3,4) True, of "release_for p" c1] p(2) assms(2) by (simp add: release_for_def)
  ultimately show ?thesis using p(1,4) True by (simp add: cmce_respond_def cmce_safe_def)
next
  case False
  have i: "cmce_inv c" "cmce_initialised c = cmce_initialised c0" using fsm_apply_inv [OF assms(1)] by (simp_all add: assms(2))
  have q: "calls_pending c0 \<longrightarrow> calls_pending c" using fsm_pending [of c0 k p] assms(2,3,5) False by auto
  have "cmce_safe c env (cmce_respond c env msg k p CmceDir_Uplink)"
    using assms(5) False by (auto simp: cmce_respond_def intro!: post_respond_safe i)
  with i(2) q show ?thesis by (auto simp: cmce_safe_def)
qed

lemma find_slot_ok:
  assumes "cmce_inv c" "cmce_find_slot c msg p CmceDir_Uplink = (rc, c')"
    and "cmce_pdu_type p = CmcePdu_Setup \<longrightarrow> call_identifier p = 0"
  shows "cmce_inv c' \<and> cmce_initialised c' = cmce_initialised c \<and> (calls_pending c \<longrightarrow> calls_pending c') \<and>
    (\<forall>k. rc = Inr k \<longrightarrow> k < length (calls c') \<and> cs_in_use (calls c' ! k))"
proof (cases "cmce_call_lookup c (call_identifier p)")
  case (Some k)
  with assms(2) lookup_slot [OF assms(1) Some] assms(1) show ?thesis by (auto simp: cmce_find_slot_def cmce_inv_def)
next
  case None
  note drop = cmce_inv_cong(1,2) [of "drop_count c" c, simplified]
  show ?thesis
  proof (cases "cmce_pdu_type p = CmcePdu_Setup")
    case False
    with None assms(1,2) drop show ?thesis by (auto simp: cmce_find_slot_def)
  next
    case True
    obtain s c1 where a: "cmce_call_alloc c (call_identifier p) (Some (tle_addr msg)) (tle_endpoint msg) = (s, c1)" by force
    show ?thesis
    proof (cases s)
      case N: None
      with a None have "c1 = c" by (auto simp: cmce_call_alloc_def split: option.splits)
      with None True a N assms(1,2) drop show ?thesis by (auto simp: cmce_find_slot_def)
    next
      case (Some k)
      note ok = call_alloc_ok [OF assms(1) a [unfolded Some]]
      have "call_pending (fresh_call (Some (tle_addr msg)) (tle_endpoint msg) 0)" by (simp add: call_pending_def fresh_call_def)
      then have "calls_pending c \<longrightarrow> calls_pending c1"
        using calls_pending_set [of c c1 k] ok(2) assms(3) True by auto
      with None True a Some assms(2) ok lookup_slot [OF ok(1,5)] show ?thesis by (auto simp: cmce_find_slot_def cmce_inv_def)
    qed
  qed
qed

lemma cmce_handle_safe:
  assumes "cmce_inv c" "length (body (tle_pdu msg)) = 32"
  shows "\<exists>rc r. cmce_handle_tle_msg c env msg = Some (rc, r) \<and> cmce_safe c env (Some r)"
proof (cases "cmce_initialised c")
  case False
  with assms(1) show ?thesis by (auto simp: cmce_handle_tle_msg_def intro: cmce_safe_same)
next
  case True
  define c1 where "c1 = c\<lparr>cmce_stats := (cmce_stats c)\<lparr>pdus_rx := pdus_rx (cmce_stats c) + 1\<rparr>\<rparr>"
  have c1: "cmce_inv c1" "calls_pending c1 = calls_pending c" "cmce_initialised c1 = cmce_initialised c"
    using assms(1) cmce_inv_cong(1,2) [of c1 c] by (simp_all add: c1_def)
  obtain rc p where f: "cmce_pdu_from_body (body (tle_pdu msg)) (body_len_bits (tle_pdu msg)) CmceDir_Uplink zero_cmce_pdu = Some (rc, p)"
    and ty: "rc = Inr () \<longrightarrow> cmce_pdu_type p = CmcePdu_Setup \<and> call_identifier p = 0 \<or> cmce_pdu_type p \<in> {CmcePdu_TxDemand, CmcePdu_Release}"
    using from_body_total [OF assms(2)] by blast
  show ?thesis
  proof (cases rc)
    case (Inl e)
    with True f assms(1) show ?thesis
      by (auto simp: cmce_handle_tle_msg_def upcall_direction_def intro!: cmce_safe_same)
  next
    case (Inr u)
    with ty have ty: "cmce_pdu_type p \<in> {CmcePdu_Setup, CmcePdu_TxDemand, CmcePdu_Release}" "cmce_pdu_type p = CmcePdu_Setup \<longrightarrow> call_identifier p = 0"
      by auto
    obtain rs c2 where s: "cmce_find_slot c1 msg p CmceDir_Uplink = (rs, c2)" by force
    note fs = find_slot_ok [OF c1(1) s ty(2)]
    have run: "cmce_handle_tle_msg c env msg = (case rs of Inl e \<Rightarrow> Some (Inl e, c2, env)
       | Inr k \<Rightarrow> Option.bind (cmce_respond (snd (cmce_fsm_apply c2 (Some k) p CmceDir_Uplink)) env msg k p CmceDir_Uplink)
           (\<lambda>(c, env). Some (Inr (), c, env)))"
      using True f Inr s by (simp add: cmce_handle_tle_msg_def upcall_direction_def c1_def split: sum.split)
    show ?thesis
    proof (cases rs)
      case (Inl e)
      with run fs c1 show ?thesis by (simp add: cmce_safe_def)
    next
      case k: (Inr k)
      with fs have kk: "cmce_inv c2" "k < length (calls c2)" "cs_in_use (calls c2 ! k)" by auto
      from cmce_respond_safe [OF kk(1) HOL.refl kk(2,3) ty(1), of env msg] obtain c3 env3
        where "cmce_respond (snd (cmce_fsm_apply c2 (Some k) p CmceDir_Uplink)) env msg k p CmceDir_Uplink = Some (c3, env3)"
          "cmce_safe c2 env (Some (c3, env3))" by (auto simp: cmce_safe_def)
      with run k fs c1 show ?thesis by (auto simp: cmce_safe_def)
    qed
  qed
qed

lemma on_tle_upcall_safe:
  assumes "cmce_inv c" "msg_ok m"
  shows "cmce_safe c env (on_tle_upcall c env m)"
proof -
  have id: "cmce_safe c env (Some (c, env))" using assms(1) by (simp add: cmce_safe_same)
  show ?thesis
  proof (cases "payload m = None \<or> len m < 60")
    case True
    with id show ?thesis by (auto simp: on_tle_upcall_def sizeof_TleSapMsg_def split: option.splits)
  next
    case False
    then obtain pl where pl: "payload m = Some pl" by auto
    with assms(2) False have l: "60 \<le> length pl" by (auto simp: msg_ok_def)
    let ?t = "TleSapMsg_of_bytes pl"
    have b: "length (body (tle_pdu ?t)) = 32" using l by (simp add: TleSapMsg_of_bytes_def LlcPdu_at_def)
    obtain rc r where h: "cmce_handle_tle_msg c env ?t = Some (rc, r)" "cmce_safe c env (Some r)"
      using cmce_handle_safe [OF assms(1) b] by blast
    with pl False b id show ?thesis
      by (simp add: on_tle_upcall_def sizeof_TleSapMsg_def Let_def arr_get_def)
  qed
qed

section \<open>Requests from the air\<close>

text \<open>A message whose body is an uplink PDU is recognised and decoded.\<close>

lemma request_decoded:
  assumes "cmce_wf CmceDir_Uplink p" "length bdy = 32" "n = length (cmce_bits CmceDir_Uplink p)" "take n (bits_of bdy) = cmce_bits CmceDir_Uplink p"
  shows "cmce_pdu_from_body bdy n CmceDir_Uplink out = Some (Inr (), (cmce_view CmceDir_Uplink p)\<lparr>encoded_len_bits := n\<rparr>)"
proof -
  have n: "n \<noteq> 0" "n \<le> 256" "(n + 7) div 8 \<le> 32"
    using cmce_bits_short [of CmceDir_Uplink p] assms(3) by (auto simp: cmce_bits_def cmce_fields_def)
  obtain s where s: "memcpy_front (uninit 32) bdy ((n + 7) div 8) = Some s" "length s = 32" "take n (bits_of s) = take n (bits_of bdy)"
    using body_copy_ok [OF assms(2) n(2)] by (auto simp: zero_pdu_def LLC_PDU_BODY_MAX_BYTES_def uninit_def)
  have i: "bb_inv (bb_init s n)" using s(2) n by simp
  have "bb_rest (bb_init s n) = cmce_bits CmceDir_Uplink p @ []" by (simp add: bb_rest_init s(3) assms(4))
  from cmce_pdu_decode_back [OF assms(1) i this, of n out] assms(3) s(1) n show ?thesis
    by (auto simp: cmce_pdu_from_body_def CMCE_PDU_BODY_MAX_BYTES_def)
qed

lemma first_byte_type:
  assumes "take n (bits_of bdy) = word_bits 5 (ucast t :: u32) @ xs" "bdy \<noteq> []" "(t :: u8) \<le> 0x1F"
  shows "drop_bit 3 (bdy ! 0) AND 0x1F = t"
proof -
  have l: "5 \<le> n" using arg_cong [OF assms(1), of length] by simp
  have b: "bit (bdy ! 0) (3 + i) = bit t i" if "i < 5" for i
  proof -
    have "take n (bits_of bdy) ! (4 - i) = bits_of bdy ! (4 - i)" using l that by simp
    also have "\<dots> = bit (bdy ! 0) (3 + i)" using that assms(2) by (subst nth_bits_of) (simp_all, cases bdy, simp_all)
    moreover have "4 - i < 5" "word_bits 5 (ucast t :: u32) ! (4 - i) = bit t i" using that by (auto simp: bit_simps)
    ultimately show ?thesis unfolding assms(1) by (simp add: nth_append)
  qed
  have h: "\<not> bit t i" if "5 \<le> i" for i
  proof -
    have "unat t < 2 ^ 5" using assms(3) by (simp add: word_le_nat_alt)
    then have "take_bit 5 t = t" by (simp only: word_unat_eq_iff unsigned_take_bit_eq) (simp add: take_bit_nat_eq_self)
    then show ?thesis using that by (metis bit_take_bit_iff not_le)
  qed
  have m: "(0x1F :: u8) = mask 5" by (simp add: mask_eq_exp_minus_1)
  show ?thesis unfolding m
  proof (rule bit_word_eqI)
    fix i
    show "bit (drop_bit 3 (bdy ! 0) AND mask 5) i = bit t i"
      using b [of i] h [of i] by (cases "i < 5") (simp_all add: bit_simps)
  qed
qed


lemma request_recognised:
  assumes "cmce_wf CmceDir_Uplink p" "length bdy = 32" "n = length (cmce_bits CmceDir_Uplink p)" "take n (bits_of bdy) = cmce_bits CmceDir_Uplink p"
  shows "looks_cmce (drop_bit 3 (bdy ! 0) AND 0x1F)" "5 \<le> n"
proof -
  let ?t = "CmcePduType_code (cmce_pdu_type p)"
  have "take n (bits_of bdy) = word_bits 5 (ucast ?t :: u32) @ field_bits (cmce_body_fields CmceDir_Uplink p)"
    unfolding assms(4) by (simp add: cmce_bits_def cmce_fields_def)
  moreover have "bdy \<noteq> []" "?t \<le> 0x1F" using assms(1,2) by (auto simp: cmce_wf_def) (cases "cmce_pdu_type p"; simp)
  ultimately have "drop_bit 3 (bdy ! 0) AND 0x1F = ?t" by (rule first_byte_type)
  then show "looks_cmce (drop_bit 3 (bdy ! 0) AND 0x1F)"
    using assms(1) by (cases "cmce_pdu_type p") (simp_all add: looks_cmce_def cmce_wf_def)
  show "5 \<le> n" by (simp add: assms(3) cmce_bits_def cmce_fields_def)
qed

text \<open>A TLE-SAP message carrying an uplink PDU.\<close>

definition air_request :: "TleSapMsg \<Rightarrow> CmcePdu \<Rightarrow> bool" where
  "air_request t p \<longleftrightarrow> cmce_wf CmceDir_Uplink p \<and> length (body (tle_pdu t)) = 32 \<and>
     body_len_bits (tle_pdu t) = length (cmce_bits CmceDir_Uplink p) \<and>
     take (length (cmce_bits CmceDir_Uplink p)) (bits_of (body (tle_pdu t))) = cmce_bits CmceDir_Uplink p"

definition rx_counted :: "Cmce \<Rightarrow> Cmce" where
  "rx_counted c = c\<lparr>cmce_stats := (cmce_stats c)\<lparr>pdus_rx := pdus_rx (cmce_stats c) + 1\<rparr>\<rparr>"

lemma rx_counted_simps [simp]:
  "calls (rx_counted c) = calls c" "cmce_initialised (rx_counted c) = cmce_initialised c" "fsm_drops (cmce_stats (rx_counted c)) = fsm_drops (cmce_stats c)"
  by (simp_all add: rx_counted_def)

lemma request_run:
  assumes "cmce_initialised c" "payload m = Some (TleSapMsg_bytes t)" "len m = sizeof_TleSapMsg" "air_request t p"
    and "q = (cmce_view CmceDir_Uplink p)\<lparr>encoded_len_bits := length (cmce_bits CmceDir_Uplink p)\<rparr>"
  shows "on_tle_upcall c env m = (case cmce_find_slot (rx_counted c) t q CmceDir_Uplink of
     (Inl e, c) \<Rightarrow> Some (c, env)
   | (Inr k, c) \<Rightarrow> cmce_respond (snd (cmce_fsm_apply c (Some k) q CmceDir_Uplink)) env t k q CmceDir_Uplink)"
proof -
  let ?n = "length (cmce_bits CmceDir_Uplink p)"
  note r = assms(4) [unfolded air_request_def]
  have w: "cmce_wf CmceDir_Uplink p" and b: "length (body (tle_pdu t)) = 32" and n: "body_len_bits (tle_pdu t) = ?n"
    and x: "take ?n (bits_of (body (tle_pdu t))) = cmce_bits CmceDir_Uplink p" using r by simp_all
  have "?n \<le> 256" using cmce_bits_short [of CmceDir_Uplink p] by simp
  then have t: "TleSapMsg_of_bytes (TleSapMsg_bytes t) = t" using b n TleSapMsg_roundtrip [OF b] by simp
  note rec = request_recognised [OF w b HOL.refl x]
  note dec = request_decoded [OF w b HOL.refl x, of zero_cmce_pdu, folded assms(5)]
  have "cmce_handle_tle_msg c env t = (case cmce_find_slot (rx_counted c) t q CmceDir_Uplink of
     (Inl e, c) \<Rightarrow> Some (Inl e, c, env)
   | (Inr k, c) \<Rightarrow> Option.bind (cmce_respond (snd (cmce_fsm_apply c (Some k) q CmceDir_Uplink)) env t k q CmceDir_Uplink)
       (\<lambda>(c, env). Some (Inr (), c, env)))"
    using assms(1) dec n by (simp add: cmce_handle_tle_msg_def upcall_direction_def rx_counted_def)
  with rec n t b assms(2,3) show ?thesis
    by (simp add: on_tle_upcall_def Let_def arr_get_def split_beta split: sum.split)
qed

section \<open>Runs of the entity\<close>

text \<open>The entity after start-up and any sequence of bus messages, multiframe ticks and broadcasts.\<close>

inductive cmce_reach :: "Cmce \<Rightarrow> bool" where
  reach_init: "cmce_init env cfg = (Inr (), c, env') \<Longrightarrow> cmce_reach c"
| reach_upcall: "cmce_reach c \<Longrightarrow> msg_ok m \<Longrightarrow> on_tle_upcall c env m = Some (c', env') \<Longrightarrow> cmce_reach c'"
| reach_tick: "cmce_reach c \<Longrightarrow> cmce_reach (snd (cmce_nwrk_bcast_tick c mf))"
| reach_bcast: "cmce_reach c \<Longrightarrow> cmce_send_d_nwrk_broadcast c env = Some (rc, c', env') \<Longrightarrow> cmce_reach c'"

lemma tick_calls: "calls (snd (cmce_nwrk_bcast_tick c mf)) = calls c" "cmce_initialised (snd (cmce_nwrk_bcast_tick c mf)) = cmce_initialised c"
  by (simp_all add: cmce_nwrk_bcast_tick_def Let_def)

definition bcast_pdu :: "Cmce \<Rightarrow> CmcePdu" where
  "bcast_pdu c = zero_cmce_pdu\<lparr>cmce_pdu_type := CmcePdu_NwrkBroadcast, nwrk_cell_re_select_parameters := cell_re_select_parameters_seed (cmce_cfg c),
     nwrk_cell_load_ca := cell_load_ca (cmce_cfg c), optionals_present := False\<rparr>"

lemma bcast_sendable: "cmce_sendable (bcast_pdu c)"
  by (simp add: cmce_sendable_def bcast_pdu_def zero_cmce_pdu_def)

definition bcast_counted :: "Cmce \<Rightarrow> Cmce" where
  "bcast_counted c = c\<lparr>cmce_stats := (cmce_stats c)\<lparr>nwrk_bcast_count := nwrk_bcast_count (cmce_stats c) + 1\<rparr>\<rparr>"

lemma bcast_run:
  "cmce_send_d_nwrk_broadcast c env = (if \<not> cmce_initialised c then Some (Inl EINVAL, c, env) else
     Option.bind (cmce_post_tma_unitdata_req c env 1 \<lparr>ssi = 0xFFFFFF, ssi_type = SsiType_Ssi\<rparr> (bcast_pdu c) CmceDir_Downlink)
       (\<lambda>(rc, c, env). case rc of Inl e \<Rightarrow> Some (Inl e, c, env) | Inr _ \<Rightarrow> Some (Inr (), bcast_counted c, env)))"
  unfolding cmce_send_d_nwrk_broadcast_def bcast_pdu_def bcast_counted_def Let_def ..

lemma bcast_safe:
  "\<exists>rc c' env'. cmce_send_d_nwrk_broadcast c env = Some (rc, c', env') \<and> calls c' = calls c \<and> cmce_initialised c' = cmce_initialised c \<and> env_posts env env'"
proof -
  obtain rc c1 env1 where "cmce_post_tma_unitdata_req c env 1 \<lparr>ssi = 0xFFFFFF, ssi_type = SsiType_Ssi\<rparr> (bcast_pdu c) CmceDir_Downlink = Some (rc, c1, env1)"
      "calls c1 = calls c" "cmce_initialised c1 = cmce_initialised c" "env_posts env env1"
    using cmce_post_safe [OF bcast_sendable] by blast
  then show ?thesis unfolding bcast_run by (auto simp: bcast_counted_def split: sum.split)
qed

lemma cmce_init_state:
  assumes "cmce_init env cfg = (rc, c, env')"
  shows "calls c = replicate CMCE_MAX_CALLS zero_call" "cmce_inv c" "calls_pending c" "rc = Inr () \<longleftrightarrow> cmce_initialised c"
proof -
  show c: "calls c = replicate CMCE_MAX_CALLS zero_call" "rc = Inr () \<longleftrightarrow> cmce_initialised c"
    using assms by (auto simp: cmce_init_def zero_cmce_def Let_def split: prod.splits sum.splits)
  then show "cmce_inv c" "calls_pending c"
    by (simp_all add: cmce_inv_def calls_pending_def call_pending_def slot_inv_def zero_call_def CMCE_MAX_CALLS_def)
qed

lemma reach_inv: "cmce_reach c \<Longrightarrow> cmce_inv c \<and> calls_pending c \<and> cmce_initialised c"
proof (induction rule: cmce_reach.induct)
  case (reach_init env cfg c env')
  from cmce_init_state [OF reach_init] show ?case by simp
next
  case (reach_upcall c m env c' env')
  with on_tle_upcall_safe [of c m env] show ?case by (auto simp: cmce_safe_def)
next
  case (reach_tick c mf)
  with tick_calls [of c mf] cmce_inv_cong(1,2) [of "snd (cmce_nwrk_bcast_tick c mf)" c] show ?case by simp
next
  case (reach_bcast c env rc c' env')
  with bcast_safe [of c env] cmce_inv_cong(1,2) [of c' c] show ?case by auto
qed

section \<open>Properties\<close>

text \<open>
  C17: the cell carries at most one call. However the entity is driven after start-up, by any messages from
  the bus, ticks and broadcasts, every call slot in use belongs to call identifier 0 and is in the
  pending state, so no two slots are in use and no call is ever connected: a U-SETUP carries no call
  identifier, none is assigned, and no uplink PDU leads a pending call further.
\<close>

theorem cmce_single_call:
  assumes "cmce_reach c" "i < CMCE_MAX_CALLS" "cs_in_use (calls c ! i)"
  shows "cs_call_identifier (calls c ! i) = 0 \<and> cs_state (calls c ! i) = CmceCall_SetupPending \<and>
    {j. j < CMCE_MAX_CALLS \<and> cs_in_use (calls c ! j)} = {i}"
proof -
  have r: "cmce_inv c" "calls_pending c" using reach_inv [OF assms(1)] by simp_all
  have p: "cs_call_identifier (calls c ! n) = 0 \<and> cs_state (calls c ! n) = CmceCall_SetupPending"
    if "n < CMCE_MAX_CALLS" "cs_in_use (calls c ! n)" for n
    using r that by (auto simp: calls_pending_def call_pending_def cmce_inv_def)
  have u: "slot_inv cs_in_use cs_call_identifier (calls c)" "length (calls c) = CMCE_MAX_CALLS" using r(1) by (simp_all add: cmce_inv_def)
  have "j = i" if "j < CMCE_MAX_CALLS" "cs_in_use (calls c ! j)" for j
    using u(1) [unfolded slot_inv_def u(2), rule_format, OF that(1) assms(2) that(2) assms(3)] p [OF that] p [OF assms(2,3)] by simp
  then have "{j. j < CMCE_MAX_CALLS \<and> cs_in_use (calls c ! j)} = {i}" using assms(2,3) by blast
  with p [OF assms(2,3)] show ?thesis by simp
qed

section \<open>What one request does\<close>

lemma view_tx_demand:
  assumes "cmce_pdu_type p = CmcePdu_TxDemand" "q = (cmce_view CmceDir_Uplink p)\<lparr>encoded_len_bits := n\<rparr>"
  shows "cmce_pdu_type q = CmcePdu_TxDemand" "call_identifier q = call_identifier p" "encryption_control q = encryption_control p"
    "tx_granted_for q = tx_granted_for p"
  using assms by (simp_all add: cmce_view_def Let_def tx_granted_for_def)

lemma view_setup:
  assumes "cmce_pdu_type p = CmcePdu_Setup" "q = (cmce_view CmceDir_Uplink p)\<lparr>encoded_len_bits := n\<rparr>"
  shows "cmce_pdu_type q = CmcePdu_Setup" "call_identifier q = 0" "call_proceeding_for q = call_proceeding_for zero_cmce_pdu"
  using assms by (simp_all add: cmce_view_def Let_def call_proceeding_for_def zero_cmce_pdu_def)

lemma responses_wf:
  "call_identifier p \<le> 0x3FFF \<Longrightarrow> encryption_control p \<le> 1 \<Longrightarrow> cmce_wf CmceDir_Downlink (tx_granted_for p)"
  "cmce_wf CmceDir_Downlink (call_proceeding_for zero_cmce_pdu)"
  by (simp_all add: cmce_wf_def tx_granted_for_def call_proceeding_for_def zero_cmce_pdu_def CmceTxGrant_Granted_def)

lemma respond_sent:
  assumes "cmce_initialised c" "cmce_wf CmceDir_Downlink p" "env_inv env" "env_room env MsgPrio_Normal"
  shows "\<exists>env'. cmce_post_tma_unitdata_req c env ep addr p CmceDir_Downlink = Some (Inr (), tx_counted c, env') \<and>
    cmce_sent env ep addr (cmce_bits CmceDir_Downlink p) env'"
proof -
  obtain b where b: "cmce_encode p CmceDir_Downlink = Some (Inr (length (cmce_bits CmceDir_Downlink p)), b)" "length b = 32"
      "take (length (cmce_bits CmceDir_Downlink p)) (bits_of b) = cmce_bits CmceDir_Downlink p"
    using cmce_encode_ok [OF assms(2)] by blast
  from cmce_post_sent [OF assms(1) b(1,2) _ b(3) assms(3,4)] cmce_bits_short [of CmceDir_Downlink p] show ?thesis by simp
qed

text \<open>
  The floor is granted whether or not the call is connected. A U-TX-DEMAND for a call in the table, with
  room on the bus, is always answered with D-TX-GRANTED for that call to the endpoint and address it
  came from; only in a connected call does the state machine move and the grant count, in any
  other state the demand is counted as dropped and the table left alone.
\<close>

theorem cmce_tx_demand_granted:
  assumes "cmce_inv c" "cmce_initialised c" "payload m = Some (TleSapMsg_bytes t)" "len m = sizeof_TleSapMsg"
    and "air_request t p" "cmce_pdu_type p = CmcePdu_TxDemand" "cmce_call_lookup c (call_identifier p) = Some k"
    and "env_inv env" "env_room env MsgPrio_Normal"
  shows "\<exists>c' env'. on_tle_upcall c env m = Some (c', env') \<and>
    cmce_sent env (tle_endpoint t) (tle_addr t) (cmce_bits CmceDir_Downlink (tx_granted_for p)) env' \<and>
    (if cs_state (calls c ! k) = CmceCall_Connected
     then calls c' = (calls c)[k := (calls c ! k)\<lparr>cs_state := CmceCall_TxGranted\<rparr>] \<and> fsm_drops (cmce_stats c') = fsm_drops (cmce_stats c) \<and>
       tx_grant_count (cmce_stats c') = tx_grant_count (cmce_stats c) + 1
     else calls c' = calls c \<and> fsm_drops (cmce_stats c') = fsm_drops (cmce_stats c) + 1 \<and>
       tx_grant_count (cmce_stats c') = tx_grant_count (cmce_stats c))"
proof -
  define q where "q = (cmce_view CmceDir_Uplink p)\<lparr>encoded_len_bits := length (cmce_bits CmceDir_Uplink p)\<rparr>"
  note v = view_tx_demand [OF assms(6) q_def]
  let ?c = "snd (cmce_fsm_apply (rx_counted c) (Some k) q CmceDir_Uplink)"
  have "cmce_find_slot (rx_counted c) t q CmceDir_Uplink = (Inr k, rx_counted c)"
    using assms(7) v(2) cmce_inv_cong(3) [of "rx_counted c" c] by (simp add: cmce_find_slot_def)
  then have run: "on_tle_upcall c env m = cmce_respond ?c env t k q CmceDir_Uplink"
    using request_run [OF assms(2-5) q_def] by simp
  have i: "cmce_initialised ?c" using fsm_apply_inv(2) [of "rx_counted c"] cmce_inv_cong(1) [of "rx_counted c" c] assms(1,2) by simp
  have "call_identifier p \<le> 0x3FFF" "encryption_control p \<le> 1" using assms(5,6) by (simp_all add: air_request_def cmce_wf_def)
  from respond_sent [OF i responses_wf(1) [OF this] assms(8,9)] obtain env' where
    s: "cmce_post_tma_unitdata_req ?c env (tle_endpoint t) (tle_addr t) (tx_granted_for p) CmceDir_Downlink = Some (Inr (), tx_counted ?c, env')"
      "cmce_sent env (tle_endpoint t) (tle_addr t) (cmce_bits CmceDir_Downlink (tx_granted_for p)) env'" by blast
  have "on_tle_upcall c env m = Some (tx_counted ?c, env')"
    using s(1) v(1,4) run by (simp add: cmce_respond_def)
  moreover have "cs_in_use (calls c ! k)" using lookup_slot(2) [OF assms(1,7)] .
  ultimately show ?thesis
    using s(2) v(1) by (simp add: cmce_fsm_apply_def fsm_switch_def Let_def counted_defs to_state_def call_update_def rx_counted_def)
qed

text \<open>The slot of a U-SETUP: the one in use, or a fresh one.\<close>

lemma setup_slot:
  assumes "cmce_inv c" "calls_pending c" "cmce_initialised c" "cmce_pdu_type q = CmcePdu_Setup" "call_identifier q = 0"
  shows "\<exists>k c1. cmce_find_slot (rx_counted c) t q CmceDir_Uplink = (Inr k, c1) \<and> cmce_inv c1 \<and> cmce_initialised c1 \<and> k < CMCE_MAX_CALLS \<and>
    cs_in_use (calls c1 ! k) \<and> cs_state (calls c1 ! k) = CmceCall_SetupPending \<and>
    (if \<exists>i<CMCE_MAX_CALLS. cs_in_use (calls c ! i) then calls c1 = calls c
     else calls c1 = (calls c)[k := fresh_call (Some (tle_addr t)) (tle_endpoint t) 0])"
proof (cases "\<exists>i<CMCE_MAX_CALLS. cs_in_use (calls c ! i)")
  case True
  have pend: "cs_call_identifier (calls c ! i) = 0 \<and> cs_state (calls c ! i) = CmceCall_SetupPending"
    if "i < CMCE_MAX_CALLS" "cs_in_use (calls c ! i)" for i
    using assms(1,2) that by (auto simp: calls_pending_def call_pending_def cmce_inv_def)
  from True obtain i where i: "i < CMCE_MAX_CALLS" "cs_in_use (calls c ! i)" by blast
  have "slot_find cs_in_use cs_call_identifier 0 (calls c) = Some i"
    using assms(1) i pend [OF i] by (intro slot_find_unique) (simp_all add: cmce_inv_def)
  then have "cmce_find_slot (rx_counted c) t q CmceDir_Uplink = (Inr i, rx_counted c)"
    using assms(5) by (simp add: cmce_find_slot_def cmce_call_lookup_def)
  with True i pend [OF i] assms(1,3) cmce_inv_cong(1) [of "rx_counted c" c] show ?thesis by simp
next
  case False
  have c0: "calls c ! 0 \<in> set (calls c)" "length (calls c) = CMCE_MAX_CALLS" "0 < CMCE_MAX_CALLS"
    using assms(1) by (simp_all add: cmce_inv_def CMCE_MAX_CALLS_def)
  have n: "cmce_call_lookup (rx_counted c) 0 = None"
    using False c0(2) by (auto simp: cmce_call_lookup_def slot_find_def find_index_None_iff in_set_conv_nth)
  have "slot_free cs_in_use (calls c) \<noteq> None"
    using False c0 by (auto simp: slot_free_def find_index_None_iff)
  then obtain k where k: "slot_free cs_in_use (calls c) = Some k" by blast
  let ?c1 = "(rx_counted c)\<lparr>calls := (calls c)[k := fresh_call (Some (tle_addr t)) (tle_endpoint t) 0]\<rparr>"
  have a: "cmce_call_alloc (rx_counted c) 0 (Some (tle_addr t)) (tle_endpoint t) = (Some k, ?c1)"
    using n k by (simp add: cmce_call_alloc_def)
  have i: "cmce_inv (rx_counted c)" using assms(1) cmce_inv_cong(1) [of "rx_counted c" c] by simp
  have "cmce_find_slot (rx_counted c) t q CmceDir_Uplink = (Inr k, ?c1)"
    using assms(4,5) n a by (simp add: cmce_find_slot_def)
  moreover have "k < CMCE_MAX_CALLS" using call_alloc_ok(3) [OF i a] .
  moreover have "cs_in_use (fresh_call (Some (tle_addr t)) (tle_endpoint t) 0)"
      "cs_state (fresh_call (Some (tle_addr t)) (tle_endpoint t) 0) = CmceCall_SetupPending" by (simp_all add: fresh_call_def)
  ultimately show ?thesis using False call_alloc_ok(1) [OF i a] assms(3) c0(2) by auto
qed

lemma setup_run:
  assumes "cmce_reach c" "payload m = Some (TleSapMsg_bytes t)" "len m = sizeof_TleSapMsg" "air_request t p" "cmce_pdu_type p = CmcePdu_Setup"
    and "env_inv env" "env_room env MsgPrio_Normal"
  shows "\<exists>c' env'. on_tle_upcall c env m = Some (c', env') \<and>
    cmce_sent env (tle_endpoint t) (tle_addr t) (cmce_bits CmceDir_Downlink (call_proceeding_for zero_cmce_pdu)) env' \<and>
    (if \<exists>i<CMCE_MAX_CALLS. cs_in_use (calls c ! i) then calls c' = calls c
     else \<exists>k<CMCE_MAX_CALLS. calls c' = (calls c)[k := fresh_call (Some (tle_addr t)) (tle_endpoint t) 0])"
proof -
  have r: "cmce_inv c" "calls_pending c" "cmce_initialised c" using reach_inv [OF assms(1)] by simp_all
  define q where "q = (cmce_view CmceDir_Uplink p)\<lparr>encoded_len_bits := length (cmce_bits CmceDir_Uplink p)\<rparr>"
  note v = view_setup [OF assms(5) q_def]
  from setup_slot [OF r v(1,2), of t] obtain k c1 where k: "cmce_find_slot (rx_counted c) t q CmceDir_Uplink = (Inr k, c1)" "cmce_inv c1" "cmce_initialised c1" "k < CMCE_MAX_CALLS"
    "cs_in_use (calls c1 ! k)" "cs_state (calls c1 ! k) = CmceCall_SetupPending"
    and tab: "if \<exists>i<CMCE_MAX_CALLS. cs_in_use (calls c ! i) then calls c1 = calls c
       else calls c1 = (calls c)[k := fresh_call (Some (tle_addr t)) (tle_endpoint t) 0]" by blast
  let ?c2 = "snd (cmce_fsm_apply c1 (Some k) q CmceDir_Uplink)"
  have "cmce_initialised ?c2" using fsm_apply_inv(2) [OF k(2)] k(3) by simp
  from respond_sent [OF this responses_wf(2) assms(6,7)] obtain env' where
    s: "cmce_post_tma_unitdata_req ?c2 env (tle_endpoint t) (tle_addr t) (call_proceeding_for zero_cmce_pdu) CmceDir_Downlink = Some (Inr (), tx_counted ?c2, env')"
      "cmce_sent env (tle_endpoint t) (tle_addr t) (cmce_bits CmceDir_Downlink (call_proceeding_for zero_cmce_pdu)) env'" by blast
  have "on_tle_upcall c env m = Some (tx_counted ?c2, env')"
    using request_run [OF r(3) assms(2-4) q_def] k(1) s(1) v(1,3) by (simp add: cmce_respond_def)
  moreover have "calls (tx_counted ?c2) = calls c1"
  proof -
    have "calls (tx_counted ?c2) = (calls c1)[k := (calls c1 ! k)\<lparr>cs_state := cs_state (calls c1 ! k)\<rparr>]"
      using v(1) k(5,6) by (simp add: cmce_fsm_apply_def fsm_switch_def Let_def)
    then show ?thesis by simp
  qed
  ultimately show ?thesis using s(2) tab k(4) by auto
qed

text \<open>The 25 bits of a D-CALL-PROCEEDING for call 0: the type code 1, then identifier, time-out, flags all zero.\<close>

definition call_proceeding_air :: "bool list" where
  "call_proceeding_air = [False, False, False, False, True] @ replicate 20 False"

lemma call_proceeding_air: "cmce_bits CmceDir_Downlink (call_proceeding_for zero_cmce_pdu) = call_proceeding_air"
  by code_simp

lemma fresh_call_fields: "fresh_call (Some a) ep i = \<lparr>cs_in_use = True, cs_call_identifier = i, cs_state = CmceCall_SetupPending,
    cs_peer_addr = a, cs_endpoint = ep, cs_retry_count = 0\<rparr>"
  by (simp add: fresh_call_def zero_call_def)

text \<open>
  C34: every U-SETUP is taken for the same call. A U-SETUP received after start-up, with room on the bus, is
  answered at the caller's endpoint and address with a D-CALL-PROCEEDING for call identifier 0, all of
  whose fields are zero. When no call is set up, a slot in state \<open>SetupPending\<close> is filled with the
  caller's address and endpoint; when one is, the table is left as it is: the second caller is told that
  the call proceeds, but the slot keeps the address and endpoint of the first. The comment in
  \<open>cmce_fsm.c\<close> says such a repeated U-SETUP is ignored.
\<close>

theorem cmce_setup_answered:
  assumes "cmce_reach c" "payload m = Some (TleSapMsg_bytes t)" "len m = sizeof_TleSapMsg" "air_request t p" "cmce_pdu_type p = CmcePdu_Setup"
    and "env_inv env" "env_room env MsgPrio_Normal"
  shows "\<exists>c' env'. on_tle_upcall c env m = Some (c', env') \<and>
    cmce_sent env (tle_endpoint t) (tle_addr t) call_proceeding_air env' \<and>
    (if \<exists>i<CMCE_MAX_CALLS. cs_in_use (calls c ! i) then calls c' = calls c
     else \<exists>k<CMCE_MAX_CALLS. calls c' = (calls c)[k := \<lparr>cs_in_use = True, cs_call_identifier = 0, cs_state = CmceCall_SetupPending,
       cs_peer_addr = tle_addr t, cs_endpoint = tle_endpoint t, cs_retry_count = 0\<rparr>])"
  using setup_run [OF assms] unfolding call_proceeding_air fresh_call_fields .

text \<open>Concrete entities and requests.\<close>

definition ex_cmce :: Cmce where
  "ex_cmce = fst (snd (cmce_init ex_env None))"

definition ex_caller :: TetraAddress where
  "ex_caller = \<lparr>ssi = 0x282FF4, ssi_type = SsiType_Issi\<rparr>"

definition ex_air :: "nat \<Rightarrow> u8 list \<Rightarrow> TleSapMsg" where
  "ex_air n bs = \<lparr>tle_endpoint = 5, tle_addr = ex_caller, tle_pdu = zero_pdu\<lparr>body_len_bits := n, body := bs @ replicate (32 - length bs) 0\<rparr>\<rparr>"

definition ex_setup_air :: TleSapMsg where
  "ex_setup_air = ex_air 53 [0x3A, 0xC0, 0x99, 0x92, 0xF4, 0xD6, 0x10]"

definition ex_tx_demand :: CmcePdu where
  "ex_tx_demand = zero_cmce_pdu\<lparr>cmce_pdu_type := CmcePdu_TxDemand, tx_demand_priority := 2\<rparr>"

definition ex_demand_air :: TleSapMsg where
  "ex_demand_air = ex_air 24 [0x50, 0x00, 0x10]"

lemma ex_cmce_reach: "cmce_reach ex_cmce"
proof -
  have "fst (cmce_init ex_env None) = Inr ()"
    by (simp add: cmce_init_def msgbus_register_def ex_env_def sap_id_is_valid_def reg_count_def MSGBUS_REG_CAP_def Let_def)
  then obtain env' where "cmce_init ex_env None = (Inr (), ex_cmce, env')"
    by (metis ex_cmce_def prod.collapse)
  then show ?thesis by (rule reach_init)
qed

lemma ex_air_facts: "air_request ex_setup_air ex_u_setup" "air_request ex_demand_air ex_tx_demand"
proof -
  have "take 53 (bits_of (body (tle_pdu ex_setup_air))) = cmce_bits CmceDir_Uplink ex_u_setup"
    "take 24 (bits_of (body (tle_pdu ex_demand_air))) = cmce_bits CmceDir_Uplink ex_tx_demand"
    by code_simp+
  moreover have "cmce_wf CmceDir_Uplink ex_tx_demand" "length (cmce_bits CmceDir_Uplink ex_tx_demand) = 24"
    by (simp_all add: cmce_wf_def ex_tx_demand_def zero_cmce_pdu_def cmce_bits_def cmce_fields_def cmce_body_fields_def obit_def)
  ultimately show "air_request ex_setup_air ex_u_setup" "air_request ex_demand_air ex_tx_demand"
    using ex_u_setup_facts(1,2) by (simp_all add: air_request_def ex_setup_air_def ex_demand_air_def ex_air_def)
qed

definition air_msg :: "TleSapMsg \<Rightarrow> SapMsg" where
  "air_msg t = sapmsg_init SapId_TmaSap SapId_TleSap SapId_TleSap (Some (TleSapMsg_bytes t)) sizeof_TleSapMsg"

lemma air_msg_facts [simp]: "payload (air_msg t) = Some (TleSapMsg_bytes t)" "len (air_msg t) = sizeof_TleSapMsg"
  by (simp_all add: air_msg_def sapmsg_init_def)

theorem cmce_single_call_witness:
  "\<exists>c' env'. on_tle_upcall ex_cmce ex_env (air_msg ex_setup_air) = Some (c', env') \<and>
     (\<exists>i<CMCE_MAX_CALLS. cs_in_use (calls c' ! i) \<and> {j. j < CMCE_MAX_CALLS \<and> cs_in_use (calls c' ! j)} = {i})"
proof -
  have n: "\<not> (\<exists>i<CMCE_MAX_CALLS. cs_in_use (calls ex_cmce ! i))" and l: "length (calls ex_cmce) = CMCE_MAX_CALLS"
    using cmce_init_state(1) [of ex_env None "fst (cmce_init ex_env None)" ex_cmce "snd (snd (cmce_init ex_env None))"]
    by (simp_all add: ex_cmce_def zero_call_def)
  have "cmce_pdu_type ex_u_setup = CmcePdu_Setup" by (simp add: ex_u_setup_def)
  from setup_run [OF ex_cmce_reach air_msg_facts ex_air_facts(1) this ex_env_inv] n obtain c' env' k where
    c: "on_tle_upcall ex_cmce ex_env (air_msg ex_setup_air) = Some (c', env')" "k < CMCE_MAX_CALLS"
      "calls c' = (calls ex_cmce)[k := fresh_call (Some (tle_addr ex_setup_air)) (tle_endpoint ex_setup_air) 0]"
    unfolding if_not_P [OF n] by auto
  have "length (body (tle_pdu ex_setup_air)) = 32" "body_len_bits (tle_pdu ex_setup_air) \<le> 256" by (simp_all add: ex_setup_air_def ex_air_def)
  then have "msg_ok (air_msg ex_setup_air)" by (rule tle_msg_facts(1)) (simp add: air_msg_def)
  from reach_upcall [OF ex_cmce_reach this c(1)] have "cmce_reach c'" .
  moreover have "cs_in_use (calls c' ! k)" using c(2,3) l by (simp add: fresh_call_def)
  ultimately show ?thesis using c(1,2) cmce_single_call [of c' k] by blast
qed

definition ex_cmce_pending :: Cmce where
  "ex_cmce_pending = ex_cmce\<lparr>calls := (replicate 8 zero_call)[0 := fresh_call (Some ex_caller) 5 0]\<rparr>"

theorem cmce_tx_demand_granted_witness:
  "\<exists>c' env'. on_tle_upcall ex_cmce_pending ex_env (air_msg ex_demand_air) = Some (c', env') \<and>
    cmce_sent ex_env 5 ex_caller (cmce_bits CmceDir_Downlink (tx_granted_for ex_tx_demand)) env' \<and>
    calls c' = calls ex_cmce_pending \<and> fsm_drops (cmce_stats c') = fsm_drops (cmce_stats ex_cmce_pending) + 1"
proof -
  have i: "cmce_inv ex_cmce_pending" "cmce_initialised ex_cmce_pending" "cmce_call_lookup ex_cmce_pending (call_identifier ex_tx_demand) = Some 0"
    using reach_inv [OF ex_cmce_reach]
    by (simp_all add: ex_cmce_pending_def ex_tx_demand_def zero_cmce_pdu_def cmce_inv_def CMCE_MAX_CALLS_def slot_inv_def cmce_call_lookup_def slot_find_def
        find_index_Some_iff fresh_call_def zero_call_def nth_list_update)
  have s: "cs_state (calls ex_cmce_pending ! 0) \<noteq> CmceCall_Connected" "tle_endpoint ex_demand_air = 5" "tle_addr ex_demand_air = ex_caller"
    by (simp_all add: ex_cmce_pending_def fresh_call_def ex_demand_air_def ex_air_def)
  from cmce_tx_demand_granted [OF i(1,2) air_msg_facts ex_air_facts(2) _ i(3) ex_env_inv] s show ?thesis
    by (auto simp: ex_tx_demand_def)
qed

theorem cmce_setup_answered_witness:
  "\<exists>c' env'. on_tle_upcall ex_cmce ex_env (air_msg ex_setup_air) = Some (c', env') \<and>
    cmce_sent ex_env 5 ex_caller call_proceeding_air env'"
proof -
  have s: "tle_endpoint ex_setup_air = 5" "tle_addr ex_setup_air = ex_caller" by (simp_all add: ex_setup_air_def ex_air_def)
  from cmce_setup_answered [OF ex_cmce_reach air_msg_facts ex_air_facts(1) _ ex_env_inv] s show ?thesis
    by (auto simp: ex_u_setup_def)
qed

section \<open>Broadcast\<close>

text \<open>The tick at each multiframe of a list, and what it fired.\<close>

fun run_ticks :: "Cmce \<Rightarrow> u64 list \<Rightarrow> bool list" where
  "run_ticks c [] = []"
| "run_ticks c (mf # mfs) = (let (fire, c) = cmce_nwrk_bcast_tick c mf in fire # run_ticks c mfs)"

text \<open>Where the last broadcast before multiframe \<open>n\<close> was.\<close>

definition ticked :: "nat \<Rightarrow> nat \<Rightarrow> Cmce \<Rightarrow> bool" where
  "ticked p n c \<longleftrightarrow> cmce_initialised c \<and> unat (nwrk_bcast_period_multiframes (cmce_cfg c)) = p \<and>
     unat (last_bcast_tick_mf c) = (n - 1) div p * p"

lemma tick_step:
  assumes "ticked p n c" "0 < p" "n < 2 ^ 64"
  shows "fst (cmce_nwrk_bcast_tick c (of_nat n)) \<longleftrightarrow> 0 < n \<and> p dvd n"
    and "ticked p (Suc n) (snd (cmce_nwrk_bcast_tick c (of_nat n)))"
proof -
  let ?P = "nwrk_bcast_period_multiframes (cmce_cfg c)" and ?L = "last_bcast_tick_mf c" and ?l = "(n - 1) div p * p"
  have i: "cmce_initialised c" "unat ?P = p" "unat ?L = ?l" using assms(1) by (simp_all add: ticked_def)
  have P: "?P \<noteq> 0" "unat (ucast ?P :: u64) = p"
    using i(2) assms(2) by (auto simp: unsigned_ucast_eq take_bit_nat_eq_self_iff intro: less_trans [OF unsigned_less])
  have N: "unat (of_nat n :: u64) = n" using assms(3) by (simp add: unat_of_nat)
  have l: "?l \<le> n" by (meson diff_le_self div_times_less_eq_dividend le_trans)
  have D: "unat (of_nat n - ?L) = n - ?l"
    using l N i(3) by (subst unat_sub) (simp_all add: word_le_nat_alt)
  have L0: "?L = 0 \<longleftrightarrow> ?l = 0" using i(3) by (metis unat_eq_zero)
  have fire: "(if ?L = 0 then (of_nat n :: u64) \<ge> ucast ?P else of_nat n - ?L \<ge> ucast ?P) \<longleftrightarrow> p \<le> n - ?l"
    using L0 D N P(2) by (simp add: word_le_nat_alt)
  have dv: "p \<le> n - ?l \<longleftrightarrow> 0 < n \<and> p dvd n"
  proof (cases n)
    case 0
    with assms(2) show ?thesis by simp
  next
    case (Suc k)
    have k: "k div p * p + k mod p = k" "k mod p < p" using assms(2) by simp_all
    have "Suc k - k div p * p = Suc (k mod p)" using k(1) by (metis Suc_diff_le add_diff_cancel_left' le_add1)
    moreover have "p dvd Suc k \<longleftrightarrow> Suc (k mod p) = p"
      using assms(2) by (auto simp: dvd_eq_mod_eq_0 mod_Suc)
    ultimately show ?thesis using Suc k(2) by auto
  qed
  have run: "cmce_nwrk_bcast_tick c (of_nat n) = (if 0 < n \<and> p dvd n then (True, c\<lparr>last_bcast_tick_mf := of_nat n\<rparr>) else (False, c))"
  proof -
    have "cmce_nwrk_bcast_tick c (of_nat n) = (if (if ?L = 0 then (of_nat n :: u64) \<ge> ucast ?P else of_nat n - ?L \<ge> ucast ?P)
        then (True, c\<lparr>last_bcast_tick_mf := of_nat n\<rparr>) else (False, c))"
      using i(1) P(1) by (simp add: cmce_nwrk_bcast_tick_def Let_def)
    then show ?thesis unfolding fire dv .
  qed
  then show "fst (cmce_nwrk_bcast_tick c (of_nat n)) \<longleftrightarrow> 0 < n \<and> p dvd n" by simp
  show "ticked p (Suc n) (snd (cmce_nwrk_bcast_tick c (of_nat n)))"
  proof (cases "0 < n \<and> p dvd n")
    case True
    then show ?thesis using run i(1,2) N by (simp add: ticked_def dvd_div_mult_self)
  next
    case False
    have "(n - 1) div p = n div p"
      using False assms(2) by (cases n) (auto simp: div_Suc dvd_eq_mod_eq_0)
    with False show ?thesis using run i by (auto simp: ticked_def)
  qed
qed

lemma run_ticks_from:
  assumes "ticked p a c" "0 < p" "a + k \<le> 2 ^ 64"
  shows "run_ticks c (map of_nat [a..<a + k]) = map (\<lambda>n. 0 < n \<and> p dvd n) [a..<a + k]"
  using assms(1,3)
proof (induction k arbitrary: a c)
  case (Suc k)
  have u: "[a..<a + Suc k] = a # [Suc a..<Suc a + k]" using upt_conv_Cons [of a "a + Suc k"] by simp
  have s: "ticked p (Suc a) (snd (cmce_nwrk_bcast_tick c (of_nat a)))" "fst (cmce_nwrk_bcast_tick c (of_nat a)) \<longleftrightarrow> 0 < a \<and> p dvd a"
    using tick_step [OF Suc.prems(1) assms(2)] Suc.prems(2) by simp_all
  from Suc.IH [OF s(1)] s(2) Suc.prems(2) show ?case unfolding u by (simp add: split_beta Let_def del: upt.simps)
qed simp

text \<open>
  C18: the broadcast timer is exact. Ticked once per multiframe from multiframe 0, an initialised entity
  fires exactly at the positive multiples of its period, without drift, for as long as the 64-bit
  multiframe counter does not overflow.
\<close>

theorem cmce_bcast_schedule:
  assumes "cmce_init env cfg = (Inr (), c, env')" "p = unat (nwrk_bcast_period_multiframes (cmce_cfg c))" "n \<le> 2 ^ 64"
  shows "0 < p \<and> run_ticks c (map of_nat [0..<n]) = map (\<lambda>i. 0 < i \<and> p dvd i) [0..<n]"
proof -
  have c: "cmce_cfg c = cmce_defaults (case cfg of Some f \<Rightarrow> f | None \<Rightarrow> cmce_cfg zero_cmce)" "last_bcast_tick_mf c = 0" "cmce_initialised c"
    using assms(1) by (auto simp: cmce_init_def zero_cmce_def Let_def split: prod.splits sum.splits)
  have "nwrk_bcast_period_multiframes (cmce_defaults f) \<noteq> 0" for f
    by (simp add: cmce_defaults_def CMCE_NWRK_BCAST_PERIOD_MF_DEFAULT_def Let_def)
  then have p: "0 < p" using c(1) assms(2) by (simp add: unat_gt_0)
  have "ticked p 0 c" using c(2,3) assms(2) by (simp add: ticked_def)
  from run_ticks_from [OF this p, of n] assms(3) p show ?thesis by simp
qed

theorem cmce_bcast_schedule_witness:
  "run_ticks ex_cmce (map of_nat [0..<32]) = map (\<lambda>i. 0 < i \<and> 10 dvd i) [0..<32]"
proof -
  have i: "cmce_init ex_env None = (Inr (), ex_cmce, snd (snd (cmce_init ex_env None)))"
    using cmce_init_state(4) [of ex_env None "fst (cmce_init ex_env None)" ex_cmce "snd (snd (cmce_init ex_env None))"] reach_inv [OF ex_cmce_reach]
    by (simp add: ex_cmce_def prod_eq_iff)
  have p: "unat (nwrk_bcast_period_multiframes (cmce_cfg ex_cmce)) = 10"
    by (simp add: ex_cmce_def cmce_init_def zero_cmce_def cmce_defaults_def CMCE_NWRK_BCAST_PERIOD_MF_DEFAULT_def Let_def split: prod.split sum.split)
  show ?thesis using cmce_bcast_schedule [OF i p [symmetric], of 32] by simp
qed

lemma bcast_encode:
  assumes "cell_load_ca (cmce_cfg c) \<le> 3"
  shows "\<exists>b. cmce_encode (bcast_pdu c) CmceDir_Downlink = Some (Inr 19, b) \<and> length b = 32 \<and> take 19 (bits_of b) = nwrk_bits (bcast_pdu c)"
    "length (nwrk_bits (bcast_pdu c)) = 19"
proof -
  have o: "\<not> optionals_present (bcast_pdu c)" "nwrk_num_ca_neighbour_cells (bcast_pdu c) = 0" "nwrk_tetra_network_time (bcast_pdu c) = 0"
    "nwrk_cell_load_ca (bcast_pdu c) = cell_load_ca (cmce_cfg c)" "cmce_pdu_type (bcast_pdu c) = CmcePdu_NwrkBroadcast"
    by (simp_all add: bcast_pdu_def zero_cmce_pdu_def)
  from nwrk_encode_total [OF o(1-3)] assms o(4,5)
  show "\<exists>b. cmce_encode (bcast_pdu c) CmceDir_Downlink = Some (Inr 19, b) \<and> length b = 32 \<and> take 19 (bits_of b) = nwrk_bits (bcast_pdu c)"
    by (auto simp: cmce_encode_def CMCE_PDU_BODY_MAX_BYTES_def Let_def)
  show "length (nwrk_bits (bcast_pdu c)) = 19" using o(1) by (simp add: nwrk_bits_def nwrk_fields_def obit_def)
qed

lemma bcast_refused: "\<not> cell_load_ca (cmce_cfg c) \<le> 3 \<Longrightarrow> \<exists>b. cmce_encode (bcast_pdu c) CmceDir_Downlink = Some (Inl EINVAL, b)"
  using nwrk_encode_total [of "bcast_pdu c"]
  by (auto simp: cmce_encode_def CMCE_PDU_BODY_MAX_BYTES_def Let_def bcast_pdu_def zero_cmce_pdu_def)

text \<open>
  The network broadcast reaches everyone. With room on the bus an initialised entity posts one frame
  for endpoint 1 and the all-ones address whose 19 bits are the reselection parameters, the load and an
  absent optional part, and counts one broadcast and one transmission; a configured load above 3 makes
  it return \<open>-EINVAL\<close> and post nothing.
\<close>

theorem cmce_broadcast_sent:
  assumes "cmce_initialised c" "env_inv env" "env_room env MsgPrio_Normal"
  shows "if cell_load_ca (cmce_cfg c) \<le> 3
    then \<exists>env'. cmce_send_d_nwrk_broadcast c env = Some (Inr (), bcast_counted (tx_counted c), env') \<and>
      cmce_sent env 1 \<lparr>ssi = 0xFFFFFF, ssi_type = SsiType_Ssi\<rparr>
        (field_bits [(ucast (cell_re_select_parameters_seed (cmce_cfg c)), 16), (ucast (cell_load_ca (cmce_cfg c)), 2), (0, 1)]) env'
    else cmce_send_d_nwrk_broadcast c env = Some (Inl EINVAL, c, env)"
proof (cases "cell_load_ca (cmce_cfg c) \<le> 3")
  case True
  obtain b where b: "cmce_encode (bcast_pdu c) CmceDir_Downlink = Some (Inr (length (nwrk_bits (bcast_pdu c))), b)" "length b = 32"
      "take (length (nwrk_bits (bcast_pdu c))) (bits_of b) = nwrk_bits (bcast_pdu c)"
    using bcast_encode [OF True] by auto
  have x: "nwrk_bits (bcast_pdu c) = field_bits [(ucast (cell_re_select_parameters_seed (cmce_cfg c)), 16), (ucast (cell_load_ca (cmce_cfg c)), 2), (0, 1)]"
    by (simp add: nwrk_bits_def nwrk_fields_def bcast_pdu_def obit_def zero_cmce_pdu_def)
  have n: "length (nwrk_bits (bcast_pdu c)) \<le> 256" using bcast_encode(2) [OF True] by simp
  from cmce_post_sent [OF assms(1) b(1,2) n b(3) assms(2,3), of 1 "\<lparr>ssi = 0xFFFFFF, ssi_type = SsiType_Ssi\<rparr>"] obtain env' where
    p: "cmce_post_tma_unitdata_req c env 1 \<lparr>ssi = 0xFFFFFF, ssi_type = SsiType_Ssi\<rparr> (bcast_pdu c) CmceDir_Downlink = Some (Inr (), tx_counted c, env')"
      "cmce_sent env 1 \<lparr>ssi = 0xFFFFFF, ssi_type = SsiType_Ssi\<rparr> (nwrk_bits (bcast_pdu c)) env'" by blast
  from p(1) assms(1) have "cmce_send_d_nwrk_broadcast c env = Some (Inr (), bcast_counted (tx_counted c), env')" by (simp add: bcast_run)
  with p(2) True show ?thesis unfolding x by auto
next
  case False
  with bcast_refused [OF this] assms(1) show ?thesis
    by (auto simp: bcast_run cmce_post_tma_unitdata_req_def)
qed

theorem cmce_broadcast_sent_witness:
  "\<exists>env'. cmce_send_d_nwrk_broadcast ex_cmce ex_env = Some (Inr (), bcast_counted (tx_counted ex_cmce), env') \<and>
    cmce_sent ex_env 1 \<lparr>ssi = 0xFFFFFF, ssi_type = SsiType_Ssi\<rparr> (field_bits [(0x5655, 16), (0, 2), (0, 1)]) env'"
proof -
  have "cell_load_ca (cmce_cfg ex_cmce) = 0" "cell_re_select_parameters_seed (cmce_cfg ex_cmce) = 0x5655" "cmce_initialised ex_cmce"
    using reach_inv [OF ex_cmce_reach]
    by (simp_all add: ex_cmce_def cmce_init_def zero_cmce_def cmce_defaults_def CMCE_NWRK_DEFAULT_CRSP_def Let_def split: prod.split sum.split)
  with cmce_broadcast_sent [of ex_cmce, OF _ ex_env_inv] show ?thesis by simp
qed

end
