(* ===== verification/Ast.thy ===== *)
theory Ast
  imports Db
begin

text \<open>
  The active-subscriber table and its snapshot (\<open>sw/persistence/src/ast_snapshot.c\<close>): written at a
  clean shutdown, reloaded at the next start only when the document carries the clean-shutdown flag.
\<close>

section \<open>Types\<close>

definition TETRA_AST_SLOT_COUNT :: nat where
  "TETRA_AST_SLOT_COUNT = 64"
definition TETRA_AST_GROUP_LIST_MAX :: nat where
  "TETRA_AST_GROUP_LIST_MAX = 8"

lemmas ast_counts = TETRA_AST_SLOT_COUNT_def TETRA_AST_GROUP_LIST_MAX_def

record AstSlot =
  as_issi :: u32
  last_seen_multiframe :: u32
  shadow_idx :: u8
  as_state :: u8
  group_count :: u8
  group_list :: "u32 list"
  as_valid :: bool

type_synonym Ast = "AstSlot list"

definition zero_slot :: AstSlot where
  "zero_slot = \<lparr>as_issi = 0, last_seen_multiframe = 0, shadow_idx = 0, as_state = 0, group_count = 0,
     group_list = replicate TETRA_AST_GROUP_LIST_MAX 0, as_valid = False\<rparr>"

definition zero_ast :: Ast where
  "zero_ast = replicate TETRA_AST_SLOT_COUNT zero_slot"

section \<open>Snapshot\<close>

definition slot_to_json :: "nat \<Rightarrow> AstSlot \<Rightarrow> Json" where
  "slot_to_json idx s = JObject
     [(''idx'', JInteger (int idx)), (''issi'', JInteger (uint (as_issi s))),
      (''last_seen_multiframe'', JInteger (uint (last_seen_multiframe s))),
      (''shadow_idx'', JInteger (uint (shadow_idx s))), (''state'', JInteger (uint (as_state s))),
      (''group_count'', JInteger (uint (group_count s))), (''valid'', JBool (as_valid s)),
      (''group_list'', JArray (map (\<lambda>g. JInteger (uint (group_list s ! g)))
          [0..<min (unat (group_count s)) TETRA_AST_GROUP_LIST_MAX]))]"

definition ast_doc :: "Ast \<Rightarrow> Json" where
  "ast_doc ast = JObject [(''version'', JInteger 1), (''clean_shutdown_flag'', JBool True),
     (''slots'', JArray (map (\<lambda>i. slot_to_json i (ast ! i)) (filter (\<lambda>i. as_valid (ast ! i)) [0..<TETRA_AST_SLOT_COUNT])))]"

definition ast_snapshot :: "(Json \<Rightarrow> string option) \<Rightarrow> SysRet list \<Rightarrow> Fs \<Rightarrow> Ast \<Rightarrow> string \<Rightarrow> unit res option \<times> Fs" where
  "ast_snapshot json_dumps calls fs ast path =
     (if length path \<ge> TETRA_DB_PATH_MAX then (Some (Inl EINVAL), fs)
      else case json_dumps (ast_doc ast) of
             None \<Rightarrow> (Some (Inl ENOMEM), fs)
           | Some t \<Rightarrow> ast_atomic_write calls fs path t)"

section \<open>Reload\<close>

fun json_integer_value :: "Json option \<Rightarrow> int option" where
  "json_integer_value (Some (JInteger i)) = Some i"
| "json_integer_value _ = None"

fun load_groups :: "AstSlot \<Rightarrow> nat \<Rightarrow> Json list \<Rightarrow> AstSlot res" where
  "load_groups s g [] = Inr s"
| "load_groups s g (jg # jgs) =
     (case json_integer_value (Some jg) of
        None \<Rightarrow> Inl EINVAL
      | Some gv \<Rightarrow>
          if gv < 0 \<or> gv > 0xFFFFFF then Inl EINVAL
          else load_groups (s\<lparr>group_list := (group_list s)[g := word_of_int gv]\<rparr>) (g + 1) jgs)"

fun json_boolean_value :: "Json option \<Rightarrow> bool option" where
  "json_boolean_value (Some (JBool b)) = Some b"
| "json_boolean_value _ = None"

text \<open>Presence and type checks of the eight members; any miss is \<open>-EINVAL\<close>.\<close>

definition ast_slot_members :: "Json \<Rightarrow> (int \<times> int \<times> int \<times> int \<times> int \<times> int \<times> Json list \<times> bool) option" where
  "ast_slot_members jo = do {
     idx \<leftarrow> json_integer_value (json_object_get jo ''idx'');
     issi \<leftarrow> json_integer_value (json_object_get jo ''issi'');
     ls \<leftarrow> json_integer_value (json_object_get jo ''last_seen_multiframe'');
     shad \<leftarrow> json_integer_value (json_object_get jo ''shadow_idx'');
     st \<leftarrow> json_integer_value (json_object_get jo ''state'');
     gc \<leftarrow> json_integer_value (json_object_get jo ''group_count'');
     gl \<leftarrow> json_array_items (json_object_get jo ''group_list'');
     v \<leftarrow> json_boolean_value (json_object_get jo ''valid'');
     Some (idx, issi, ls, shad, st, gc, gl, v)
   }"

definition ast_load_slot :: "Json \<Rightarrow> (nat \<times> AstSlot) res" where
  "ast_load_slot jo =
     (if \<not> json_is_object jo then Inl EINVAL
      else case ast_slot_members jo of
             None \<Rightarrow> Inl EINVAL
           | Some (idx, issi, ls, shad, st, gc, gl, v) \<Rightarrow>
               if idx < 0 \<or> idx \<ge> int TETRA_AST_SLOT_COUNT then Inl EINVAL
               else if gc < 0 \<or> gc > int TETRA_AST_GROUP_LIST_MAX then Inl EINVAL
               else if length gl \<noteq> nat gc then Inl EINVAL
               else res_bind (load_groups (zero_slot\<lparr>as_issi := word_of_int issi, last_seen_multiframe := word_of_int ls,
                        shadow_idx := word_of_int shad, as_state := word_of_int st AND 0x0F, group_count := word_of_int gc,
                        as_valid := v\<rparr>) 0 gl) (\<lambda>s. Inr (nat idx, s)))"

fun load_slots :: "Ast \<Rightarrow> Json list \<Rightarrow> unit res \<times> Ast" where
  "load_slots ast [] = (Inr (), ast)"
| "load_slots ast (item # items) =
     (case ast_load_slot item of
        Inl _ \<Rightarrow> (Inl EIO, zero_ast)
      | Inr (idx, s) \<Rightarrow> load_slots (ast[idx := s]) items)"

text \<open>Result: return code, table, and \<open>*out_loaded\<close>.\<close>

definition ast_reload :: "(string \<Rightarrow> Json option) \<Rightarrow> Fs \<Rightarrow> string \<Rightarrow> unit res \<times> Ast \<times> bool" where
  "ast_reload json_loads fs path =
     (case fs path of
        None \<Rightarrow> (Inr (), zero_ast, False)
      | Some content \<Rightarrow>
          (case json_loads content of
             None \<Rightarrow> (Inl EIO, zero_ast, False)
           | Some root \<Rightarrow>
               if \<not> json_is_object root then (Inl EIO, zero_ast, False)
               else if json_boolean_value (json_object_get root ''clean_shutdown_flag'') \<noteq> Some True then (Inr (), zero_ast, False)
               else if json_integer_value (json_object_get root ''version'') \<noteq> Some 1 then (Inl EIO, zero_ast, False)
               else (case json_array_items (json_object_get root ''slots'') of
                       None \<Rightarrow> (Inl EIO, zero_ast, False)
                     | Some slots \<Rightarrow>
                         (case load_slots zero_ast slots of
                            (Inl e, ast) \<Rightarrow> (Inl e, ast, False)
                          | (Inr _, ast) \<Rightarrow> (Inr (), ast, True)))))"

section \<open>The snapshot round trip\<close>

text \<open>
  A table as the daemon keeps it: fixed sizes, a 4-bit state, and at most eight groups with 24-bit
  addresses; unused list entries and unused slots are zero, as \<open>memset\<close> left them.
\<close>

definition slot_ok :: "AstSlot \<Rightarrow> bool" where
  "slot_ok s \<longleftrightarrow> length (group_list s) = TETRA_AST_GROUP_LIST_MAX \<and> unat (group_count s) \<le> TETRA_AST_GROUP_LIST_MAX \<and>
     as_state s AND 0x0F = as_state s \<and> (\<forall>g<unat (group_count s). group_list s ! g \<le> 0xFFFFFF) \<and>
     (\<forall>g<TETRA_AST_GROUP_LIST_MAX. unat (group_count s) \<le> g \<longrightarrow> group_list s ! g = 0) \<and>
     (\<not> as_valid s \<longrightarrow> s = zero_slot)"

definition ast_ok :: "Ast \<Rightarrow> bool" where
  "ast_ok ast \<longleftrightarrow> length ast = TETRA_AST_SLOT_COUNT \<and> (\<forall>s\<in>set ast. slot_ok s)"

lemma load_groups_ok:
  assumes "\<forall>w\<in>set ws. w \<le> (0xFFFFFF :: u32)" "g + length ws \<le> length (group_list s)"
  shows "load_groups s g (map (\<lambda>w. JInteger (uint w)) ws) =
     Inr (s\<lparr>group_list := overwrite (group_list s) g ws\<rparr>)"
  using assms
proof (induction ws arbitrary: s g)
  case Nil
  then show ?case by simp
next
  case (Cons w ws)
  have "(group_list s)[g := w] = overwrite (group_list s) g [w]"
    using Cons.prems(2) by (intro nth_equalityI) (auto simp: nth_overwrite nth_list_update)
  moreover have "overwrite (overwrite (group_list s) g [w]) (g + length [w]) ws = overwrite (group_list s) g ([w] @ ws)"
    using Cons.prems(2) by (intro overwrite_overwrite) simp
  moreover have "uint w \<le> 0xFFFFFF" using Cons.prems(1) by (simp add: word_le_def)
  ultimately show ?case
    using Cons.IH [of "g + 1" "s\<lparr>group_list := (group_list s)[g := w]\<rparr>"] Cons.prems by simp
qed

lemma load_dumped_slot:
  assumes "slot_ok s" "i < TETRA_AST_SLOT_COUNT"
  shows "ast_load_slot (slot_to_json i s) = Inr (i, s)"
proof -
  let ?n = "unat (group_count s)"
  let ?ws = "map ((!) (group_list s)) [0..<?n]"
  let ?z = "zero_slot\<lparr>as_issi := as_issi s, last_seen_multiframe := last_seen_multiframe s, shadow_idx := shadow_idx s,
      as_state := as_state s, group_count := group_count s, as_valid := as_valid s\<rparr>"
  have n: "?n \<le> TETRA_AST_GROUP_LIST_MAX" "length (group_list s) = TETRA_AST_GROUP_LIST_MAX"
    using assms(1) by (simp_all add: slot_ok_def)
  have "load_groups ?z 0 (map (\<lambda>w. JInteger (uint w)) ?ws) = Inr (?z\<lparr>group_list := overwrite (group_list ?z) 0 ?ws\<rparr>)"
    using assms(1) n by (intro load_groups_ok) (auto simp: slot_ok_def zero_slot_def)
  moreover have "overwrite (group_list ?z) 0 ?ws = group_list s"
    using assms(1) n by (intro nth_equalityI) (auto simp: slot_ok_def zero_slot_def nth_overwrite)
  moreover have "?z\<lparr>group_list := group_list s\<rparr> = s" by (cases s) (simp add: zero_slot_def)
  ultimately have "load_groups ?z 0 (map (\<lambda>g. JInteger (uint (group_list s ! g))) [0..<?n]) = Inr s"
    by (simp add: comp_def)
  moreover have "uint (group_count s) \<le> int TETRA_AST_GROUP_LIST_MAX"
    using n(1) by (metis of_nat_le_iff uint_nat)
  moreover have "as_state s AND 0x0F = as_state s" using assms(1) by (simp add: slot_ok_def)
  ultimately show ?thesis
    using assms(2) n(1) by (simp add: ast_load_slot_def ast_slot_members_def slot_to_json_def min_def not_less)
qed

lemma load_dumped_slots:
  assumes "\<forall>i\<in>set is. i < TETRA_AST_SLOT_COUNT \<and> slot_ok (ast ! i)" "length a = TETRA_AST_SLOT_COUNT"
  shows "\<exists>a'. load_slots a (map (\<lambda>i. slot_to_json i (ast ! i)) is) = (Inr (), a') \<and> length a' = TETRA_AST_SLOT_COUNT \<and>
     (\<forall>j<TETRA_AST_SLOT_COUNT. a' ! j = (if j \<in> set is then ast ! j else a ! j))"
  using assms
proof (induction "is" arbitrary: a)
  case (Cons i "is")
  have "ast_load_slot (slot_to_json i (ast ! i)) = Inr (i, ast ! i)"
    using Cons.prems(1) by (intro load_dumped_slot) simp_all
  moreover obtain a' where "load_slots (a[i := ast ! i]) (map (\<lambda>i. slot_to_json i (ast ! i)) is) = (Inr (), a')"
      "length a' = TETRA_AST_SLOT_COUNT" "\<forall>j<TETRA_AST_SLOT_COUNT. a' ! j = (if j \<in> set is then ast ! j else a[i := ast ! i] ! j)"
    using Cons.IH [of "a[i := ast ! i]"] Cons.prems by auto
  ultimately show ?case
    using Cons.prems(2) by (intro exI [of _ a']) (auto simp: nth_list_update)
qed simp

lemma ast_doc_loads:
  assumes "ast_ok ast" "fs path = Some t" "json_loads t = Some (ast_doc ast)"
  shows "ast_reload json_loads fs path = (Inr (), ast, True)"
proof -
  let ?is = "filter (\<lambda>i. as_valid (ast ! i)) [0..<TETRA_AST_SLOT_COUNT]"
  have ok: "\<forall>i<TETRA_AST_SLOT_COUNT. slot_ok (ast ! i)" "length ast = TETRA_AST_SLOT_COUNT"
    using assms(1) by (auto simp: ast_ok_def)
  obtain a where a: "load_slots zero_ast (map (\<lambda>i. slot_to_json i (ast ! i)) ?is) = (Inr (), a)"
      "length a = TETRA_AST_SLOT_COUNT" "\<forall>j<TETRA_AST_SLOT_COUNT. a ! j = (if j \<in> set ?is then ast ! j else zero_ast ! j)"
    using load_dumped_slots [of ?is ast zero_ast] ok by (auto simp: zero_ast_def)
  have "a = ast"
    using a(2,3) ok by (intro nth_equalityI) (auto simp: zero_ast_def slot_ok_def)
  with a(1) assms(2,3) show ?thesis
    by (simp add: ast_reload_def ast_doc_def)
qed

lemma snapshot_file:
  assumes "ast_snapshot json_dumps calls fs ast path = (Some (Inr ()), fs')" "json_dumps (ast_doc ast) = Some t"
  shows "fs' path = Some t"
proof -
  have "atomic_write_text calls fs path t = (Some (Inr ()), fs')"
    using assms by (auto simp: ast_snapshot_def ast_atomic_write_def split: if_splits)
  then show ?thesis using atomic_write_saves [of path t fs calls] by (simp add: saves_def)
qed

section \<open>Properties\<close>

text \<open>
  A clean shutdown is restored. After a snapshot that returned 0, and a text layer that parses
  what it printed, \<open>ast_reload\<close> returns 0, reports the table as loaded and yields exactly the saved
  table.
\<close>

theorem ast_snapshot_reload:
  assumes "ast_ok ast" "json_dumps (ast_doc ast) = Some t" "json_loads t = Some (ast_doc ast)"
    and "ast_snapshot json_dumps calls fs ast path = (Some (Inr ()), fs')"
  shows "ast_reload json_loads fs' path = (Inr (), ast, True)"
  using snapshot_file [OF assms(4,2)] assms(1,3) by (intro ast_doc_loads)

definition ex_ast :: Ast where
  "ex_ast = zero_ast[3 := zero_slot\<lparr>as_issi := 0x282FF4, as_state := 1, group_count := 1,
     group_list := (group_list zero_slot)[0 := 0x2F4D61], as_valid := True\<rparr>]"

lemma ex_ast_ok: "ast_ok ex_ast"
proof -
  have "slot_ok zero_slot" by (simp add: slot_ok_def zero_slot_def)
  moreover have "slot_ok (zero_slot\<lparr>as_issi := 0x282FF4, as_state := 1, group_count := 1,
      group_list := (group_list zero_slot)[0 := 0x2F4D61], as_valid := True\<rparr>)"
    by (simp add: slot_ok_def zero_slot_def ast_counts nth_list_update)
  ultimately show ?thesis
    unfolding ast_ok_def ex_ast_def by (intro conjI list_update_all) (simp_all add: zero_ast_def)
qed

theorem ast_snapshot_reload_witness:
  "\<exists>fs'. ast_snapshot (\<lambda>_. Some ''{}'') [Done 0, Done 2, Done 0, Done 0, Done 0] Map.empty ex_ast ''ast'' = (Some (Inr ()), fs') \<and>
     ast_reload (\<lambda>_. Some (ast_doc ex_ast)) fs' ''ast'' = (Inr (), ex_ast, True)"
proof -
  obtain fs' where fs': "ast_snapshot (\<lambda>_. Some ''{}'') [Done 0, Done 2, Done 0, Done 0, Done 0] Map.empty ex_ast ''ast'' = (Some (Inr ()), fs')"
    by (simp add: ast_snapshot_def ast_atomic_write_def atomic_write_text_def tmp_path_def TETRA_DB_PATH_MAX_def Let_def)
  have "ast_reload (\<lambda>_. Some (ast_doc ex_ast)) fs' ''ast'' = (Inr (), ex_ast, True)"
    by (rule ast_snapshot_reload [OF ex_ast_ok _ _ fs']) simp_all
  with fs' show ?thesis by blast
qed

text \<open>
  Nothing is restored without a valid snapshot. For every file system and every parser, the table
  is either reported as loaded, with return code 0, from an object whose clean-shutdown flag is true,
  or it is entirely empty; no partly loaded table is ever returned.
\<close>

theorem ast_reload_all_or_nothing:
  "case ast_reload json_loads fs path of (rc, ast, loaded) \<Rightarrow>
     (if loaded then rc = Inr () \<and> (\<exists>t root. fs path = Some t \<and> json_loads t = Some root \<and>
        json_object_get root ''clean_shutdown_flag'' = Some (JBool True)) else ast = zero_ast)"
proof -
  have z: "fst (load_slots a items) \<noteq> Inr () \<Longrightarrow> snd (load_slots a items) = zero_ast" for a items
    by (induction items arbitrary: a) (auto split: sum.splits)
  have b: "json_boolean_value j = Some True \<Longrightarrow> j = Some (JBool True)" for j
    by (cases j rule: json_boolean_value.cases) auto
  show ?thesis
    using b z [of zero_ast] by (auto simp: ast_reload_def split: option.splits prod.splits sum.splits) (metis fst_conv snd_conv sum.distinct(1))+
qed

end
