(* ===== verification/Dma_Io.thy ===== *)
theory Dma_Io
  imports Core_Types Env
begin

text \<open>
  The DMA glue (\<open>sw/dma_io/dma_io.c\<close>, \<open>dma_io.h\<close>) in the build the sources configure, with
  \<open>HAVE_XILINX_DMA\<close> undefined: framing of payloads on a byte stream, and reassembly of frames from
  reads of any size. The kernel pipe behind a channel is a byte queue, \<open>pipe\<close>; the results of the
  system calls (how many bytes a \<open>read\<close> or \<open>write\<close> moves, interruptions, errors) come from a list, one
  element per call, and a routine that needs more calls than the list holds is blocked. The counters
  are unbounded.
\<close>

section \<open>Types and constants\<close>

datatype DmaChan = DMA_CHAN_TMA_RX | DMA_CHAN_TMA_TX | DMA_CHAN_TMD_RX | DMA_CHAN_TMD_TX

fun DmaChan_index :: "DmaChan \<Rightarrow> nat" where
  "DmaChan_index DMA_CHAN_TMA_RX = 0"
| "DmaChan_index DMA_CHAN_TMA_TX = 1"
| "DmaChan_index DMA_CHAN_TMD_RX = 2"
| "DmaChan_index DMA_CHAN_TMD_TX = 3"

definition DMA_CHAN_COUNT :: nat where
  "DMA_CHAN_COUNT = 4"

definition dma_chan_is_rx :: "DmaChan \<Rightarrow> bool" where
  "dma_chan_is_rx ch \<longleftrightarrow> ch = DMA_CHAN_TMA_RX \<or> ch = DMA_CHAN_TMD_RX"

definition FRAME_MAGIC_TMAS :: u32 where
  "FRAME_MAGIC_TMAS = 0x544D4153"

definition FRAME_MAGIC_TMAR :: u32 where
  "FRAME_MAGIC_TMAR = 0x544D4152"

definition FRAME_MAGIC_TMDC :: u32 where
  "FRAME_MAGIC_TMDC = 0x544D4443"

definition frame_magic_is_known :: "u32 \<Rightarrow> bool" where
  "frame_magic_is_known magic \<longleftrightarrow> magic = FRAME_MAGIC_TMAS \<or> magic = FRAME_MAGIC_TMAR \<or> magic = FRAME_MAGIC_TMDC"

definition DMA_FRAME_HEADER_BYTES :: nat where
  "DMA_FRAME_HEADER_BYTES = 8"

definition DMA_FRAME_MAX_PAYLOAD :: nat where
  "DMA_FRAME_MAX_PAYLOAD = 4096"

definition DMA_REASM_CAP_BYTES :: nat where
  "DMA_REASM_CAP_BYTES = 8 + DMA_FRAME_MAX_PAYLOAD"

fun TX_MAGIC :: "DmaChan \<Rightarrow> u32" where
  "TX_MAGIC DMA_CHAN_TMA_RX = 0"
| "TX_MAGIC DMA_CHAN_TMA_TX = FRAME_MAGIC_TMAS"
| "TX_MAGIC DMA_CHAN_TMD_RX = 0"
| "TX_MAGIC DMA_CHAN_TMD_TX = FRAME_MAGIC_TMDC"

text \<open>A channel; \<open>pipe\<close> is the content of the kernel pipe between its two descriptors.\<close>

record DmaChanState =
  pipe_rd :: int
  pipe_wr :: int
  reasm :: "u8 list"
  reasm_used :: nat
  ch_opened :: bool
  frames_recv_ok :: nat
  frames_send_ok :: nat
  bytes_recv :: nat
  bytes_send :: nat
  drop_bad_magic :: nat
  drop_bad_length :: nat
  drop_short_read :: nat
  pipe :: "u8 list"

record DmaCtx =
  chans :: "DmaChanState list"
  using_mock :: bool

record DmaStats =
  st_frames_recv_ok :: nat
  st_frames_send_ok :: nat
  st_bytes_recv :: nat
  st_bytes_send :: nat
  st_drop_bad_magic :: nat
  st_drop_bad_length :: nat
  st_drop_short_read :: nat

text \<open>Results of system calls. A \<open>read\<close> of at most \<open>n\<close> bytes returns as many as the pipe holds, at most \<open>n\<close>.\<close>

datatype WriteRet = WriteDone nat | WriteIntr | WriteErr errno

datatype PollRet = PollErr errno | PollIntr | PollTimeout | PollEvents bool bool

datatype ReadRet = ReadErr errno | ReadAgain | ReadIntr | ReadUpTo nat

datatype 'a outcome = Returned 'a | Blocked | Aborted

section \<open>Headers\<close>

definition be32_load :: "u8 list \<Rightarrow> nat \<Rightarrow> u32" where
  "be32_load p off = push_bit 24 (ucast (p ! off)) OR push_bit 16 (ucast (p ! (off + 1)))
     OR push_bit 8 (ucast (p ! (off + 2))) OR ucast (p ! (off + 3))"

definition be32_store :: "u32 \<Rightarrow> u8 list" where
  "be32_store v = [ucast (drop_bit 24 v), ucast (drop_bit 16 v), ucast (drop_bit 8 v), ucast v]"

definition frame_parse_header :: "u8 list \<Rightarrow> nat \<Rightarrow> (u32 \<times> nat) res" where
  "frame_parse_header buf blen =
     (if blen < DMA_FRAME_HEADER_BYTES then Inl EBADMSG
      else
        let magic_raw = be32_load buf 0 in
        if \<not> frame_magic_is_known magic_raw then Inl EBADMSG
        else
          let payload_len = unat (be32_load buf 4) in
          if payload_len > DMA_FRAME_MAX_PAYLOAD then Inl EBADMSG
          else if payload_len > blen - DMA_FRAME_HEADER_BYTES then Inl EBADMSG
          else Inr (magic_raw, payload_len))"

section \<open>Opening and closing\<close>

definition zero_chan :: DmaChanState where
  "zero_chan = \<lparr>pipe_rd = 0, pipe_wr = 0, reasm = replicate DMA_REASM_CAP_BYTES 0, reasm_used = 0, ch_opened = False,
     frames_recv_ok = 0, frames_send_ok = 0, bytes_recv = 0, bytes_send = 0, drop_bad_magic = 0, drop_bad_length = 0,
     drop_short_read = 0, pipe = []\<rparr>"

text \<open>The outcome of \<open>pipe\<close>, and of the four \<open>fcntl\<close> calls that follow it: the first failure ends the loop.\<close>

record OpenSys =
  pipe_call :: "errno + int \<times> int"
  fcntl_calls :: "errno option list"

fun first_failure :: "errno option list \<Rightarrow> errno option" where
  "first_failure [] = None"
| "first_failure (None # rs) = first_failure rs"
| "first_failure (Some e # rs) = Some e"

definition mock_open_chan :: "OpenSys \<Rightarrow> DmaChanState \<Rightarrow> unit res \<times> DmaChanState" where
  "mock_open_chan sys s =
     (case pipe_call sys of
        Inl e \<Rightarrow> (Inl e, s)
      | Inr (rd, wr) \<Rightarrow>
          (case first_failure (fcntl_calls sys) of
             Some e \<Rightarrow> (Inl e, s)
           | None \<Rightarrow> (Inr (), s\<lparr>pipe_rd := rd, pipe_wr := wr, ch_opened := True, pipe := []\<rparr>)))"

definition mock_close_chan :: "DmaChanState \<Rightarrow> DmaChanState" where
  "mock_close_chan s =
     (if \<not> ch_opened s then s
      else s\<lparr>pipe_rd := if pipe_rd s \<ge> 0 then -1 else pipe_rd s, pipe_wr := if pipe_wr s \<ge> 0 then -1 else pipe_wr s, ch_opened := False\<rparr>)"

text \<open>The loop of \<open>dma_init\<close>: channel \<open>i\<close> is opened, or the ones before it are closed again.\<close>

fun open_chans :: "OpenSys list \<Rightarrow> nat \<Rightarrow> DmaChanState list \<Rightarrow> unit res \<times> DmaChanState list" where
  "open_chans [] i cs = (Inr (), cs)"
| "open_chans (sys # syss) i cs =
     (case mock_open_chan sys (cs ! i) of
        (Inl e, s) \<Rightarrow> (Inl e, map mock_close_chan (take i (cs[i := s])) @ drop i (cs[i := s]))
      | (Inr _, s) \<Rightarrow> open_chans syss (Suc i) (cs[i := s]))"

definition dma_init :: "OpenSys list \<Rightarrow> unit res \<times> DmaCtx" where
  "dma_init syss =
     (let cs = replicate DMA_CHAN_COUNT (zero_chan\<lparr>pipe_rd := -1, pipe_wr := -1\<rparr>);
          (rc, cs) = open_chans (take DMA_CHAN_COUNT syss) 0 cs
      in (rc, \<lparr>chans = cs, using_mock = True\<rparr>))"

definition dma_close :: "DmaCtx \<Rightarrow> DmaCtx" where
  "dma_close ctx = ctx\<lparr>chans := map mock_close_chan (chans ctx)\<rparr>"

definition chan_of :: "DmaCtx \<Rightarrow> DmaChan \<Rightarrow> DmaChanState" where
  "chan_of ctx ch = chans ctx ! DmaChan_index ch"

definition set_chan :: "DmaCtx \<Rightarrow> DmaChan \<Rightarrow> DmaChanState \<Rightarrow> DmaCtx" where
  "set_chan ctx ch s = ctx\<lparr>chans := (chans ctx)[DmaChan_index ch := s]\<rparr>"

definition dma_get_irq_fd :: "DmaCtx \<Rightarrow> DmaChan \<Rightarrow> errno + int" where
  "dma_get_irq_fd ctx ch =
     (let s = chan_of ctx ch in if \<not> ch_opened s then Inl EBADF else Inr (pipe_rd s))"

definition dma_get_stats :: "DmaCtx \<Rightarrow> DmaChan \<Rightarrow> DmaStats" where
  "dma_get_stats ctx ch =
     (let s = chan_of ctx ch in
      \<lparr>st_frames_recv_ok = frames_recv_ok s, st_frames_send_ok = frames_send_ok s, st_bytes_recv = bytes_recv s,
       st_bytes_send = bytes_send s, st_drop_bad_magic = drop_bad_magic s, st_drop_bad_length = drop_bad_length s,
       st_drop_short_read = drop_short_read s\<rparr>)"

section \<open>Sending\<close>

text \<open>The loop that writes a whole array into the pipe.\<close>

fun write_all :: "WriteRet list \<Rightarrow> DmaChanState \<Rightarrow> u8 list \<Rightarrow> (unit res \<times> DmaChanState \<times> WriteRet list) outcome" where
  "write_all [] s bs = (if bs = [] then Returned (Inr (), s, []) else Blocked)"
| "write_all (w # ws) s bs =
     (if bs = [] then Returned (Inr (), s, w # ws)
      else case w of
             WriteIntr \<Rightarrow> write_all ws s bs
           | WriteErr e \<Rightarrow> Returned (Inl e, s, ws)
           | WriteDone k \<Rightarrow>
               let n = min k (length bs) in write_all ws (s\<lparr>pipe := pipe s @ take n bs\<rparr>) (drop n bs))"

definition dma_send_frame :: "WriteRet list \<Rightarrow> DmaCtx \<Rightarrow> DmaChan \<Rightarrow> u8 list \<Rightarrow> nat \<Rightarrow> (unit res \<times> DmaCtx \<times> WriteRet list) outcome" where
  "dma_send_frame ws ctx ch buf blen =
     (if dma_chan_is_rx ch then Returned (Inl EINVAL, ctx, ws)
      else if blen > DMA_FRAME_MAX_PAYLOAD then Returned (Inl EMSGSIZE, ctx, ws)
      else
        let s = chan_of ctx ch in
        if \<not> ch_opened s then Returned (Inl EBADF, ctx, ws)
        else
          let hdr = be32_store (TX_MAGIC ch) @ be32_store (of_nat blen) in
          case write_all ws s hdr of
            Returned (Inl e, s, ws) \<Rightarrow> Returned (Inl e, set_chan ctx ch s, ws)
          | Returned (Inr _, s, ws) \<Rightarrow>
              if blen > length buf then Aborted
              else
                (case write_all ws s (take blen buf) of
                   Returned (Inl e, s, ws) \<Rightarrow> Returned (Inl e, set_chan ctx ch s, ws)
                 | Returned (Inr _, s, ws) \<Rightarrow>
                     Returned (Inr (), set_chan ctx ch (s\<lparr>frames_send_ok := frames_send_ok s + 1, bytes_send := bytes_send s + blen\<rparr>), ws)
                 | Blocked \<Rightarrow> Blocked
                 | Aborted \<Rightarrow> Aborted)
          | Blocked \<Rightarrow> Blocked
          | Aborted \<Rightarrow> Aborted)"

definition dma_mock_inject :: "WriteRet list \<Rightarrow> DmaCtx \<Rightarrow> DmaChan \<Rightarrow> u8 list \<Rightarrow> (unit res \<times> DmaCtx) outcome" where
  "dma_mock_inject ws ctx ch bs =
     (if \<not> using_mock ctx then Returned (Inl ENOSYS, ctx)
      else
        let s = chan_of ctx ch in
        if \<not> ch_opened s then Returned (Inl EBADF, ctx)
        else case write_all ws s bs of
               Returned (rc, s, _) \<Rightarrow> Returned (rc, set_chan ctx ch s)
             | Blocked \<Rightarrow> Blocked
             | Aborted \<Rightarrow> Aborted)"

section \<open>Receiving\<close>

text \<open>\<open>memmove\<close> of \<open>n\<close> bytes from offset \<open>off\<close> of an array to its front.\<close>

definition memmove_front :: "u8 list \<Rightarrow> nat \<Rightarrow> nat \<Rightarrow> u8 list" where
  "memmove_front a off n = take n (drop off a) @ drop n a"

definition reasm_drop :: "nat \<Rightarrow> DmaChanState \<Rightarrow> DmaChanState" where
  "reasm_drop k s = s\<lparr>reasm := memmove_front (reasm s) k (reasm_used s - k), reasm_used := reasm_used s - k\<rparr>"

definition reasm_read_one :: "ReadRet \<Rightarrow> DmaChanState \<Rightarrow> nat res \<times> DmaChanState" where
  "reasm_read_one r s =
     (if reasm_used s \<ge> DMA_REASM_CAP_BYTES then (Inr 0, s)
      else case r of
             ReadErr e \<Rightarrow> (Inl e, s)
           | ReadAgain \<Rightarrow> (Inr 0, s)
           | ReadIntr \<Rightarrow> (Inr 0, s)
           | ReadUpTo k \<Rightarrow>
               let n = min (min k (DMA_REASM_CAP_BYTES - reasm_used s)) (length (pipe s)) in
               (Inr n, s\<lparr>reasm := overwrite (reasm s) (reasm_used s) (take n (pipe s)),
                         reasm_used := reasm_used s + n, pipe := drop n (pipe s)\<rparr>))"

text \<open>The result is the return value, the channel, the caller's buffer and \<open>*out_len\<close>.\<close>

definition reasm_try_extract ::
  "DmaChanState \<Rightarrow> u8 list \<Rightarrow> nat \<Rightarrow> nat \<Rightarrow> (nat res \<times> DmaChanState \<times> u8 list \<times> nat) option" where
  "reasm_try_extract s out c out_len =
     (if reasm_used s < DMA_FRAME_HEADER_BYTES then Some (Inr 0, s, out, out_len)
      else
        let magic = be32_load (reasm s) 0 in
        if \<not> frame_magic_is_known magic
        then Some (Inl EBADMSG, reasm_drop 1 (s\<lparr>drop_bad_magic := drop_bad_magic s + 1\<rparr>), out, out_len)
        else
          let plen = unat (be32_load (reasm s) 4) in
          if plen > DMA_FRAME_MAX_PAYLOAD
          then Some (Inl EBADMSG, reasm_drop DMA_FRAME_HEADER_BYTES (s\<lparr>drop_bad_length := drop_bad_length s + 1\<rparr>), out, out_len)
          else
            let total = DMA_FRAME_HEADER_BYTES + plen in
            if reasm_used s < total then Some (Inr 0, s, out, out_len)
            else if c < plen then Some (Inl ENOSPC, s, out, out_len)
            else do {
              out \<leftarrow> (if plen > 0 then memcpy_front out (drop DMA_FRAME_HEADER_BYTES (reasm s)) plen else Some out);
              let s = reasm_drop total s;
              Some (Inr 1, s\<lparr>frames_recv_ok := frames_recv_ok s + 1, bytes_recv := bytes_recv s + plen\<rparr>, out, plen)
            })"

type_synonym recv_result = "nat res \<times> DmaChanState \<times> u8 list \<times> nat"

text \<open>What an attempt to extract a frame means for the caller: return, or go on.\<close>

definition extract_then :: "recv_result option \<Rightarrow> (DmaChanState \<Rightarrow> u8 list \<Rightarrow> nat \<Rightarrow> recv_result outcome) \<Rightarrow> recv_result outcome" where
  "extract_then r go =
     (case r of
        None \<Rightarrow> Aborted
      | Some (Inl e, s, buf, n) \<Rightarrow> Returned (Inl e, s, buf, n)
      | Some (Inr rc, s, buf, n) \<Rightarrow> if rc = 1 then Returned (Inr n, s, buf, n) else go s buf n)"

text \<open>The poll loop; the pairs are the results of the \<open>poll\<close> and, where there is one, the \<open>read\<close> of each round.\<close>

fun recv_loop :: "(PollRet \<times> ReadRet) list \<Rightarrow> DmaChanState \<Rightarrow> u8 list \<Rightarrow> nat \<Rightarrow> nat \<Rightarrow> int \<Rightarrow> recv_result outcome" where
  "recv_loop [] s buf c n timeout_ms = Blocked"
| "recv_loop ((p, r) # sys) s buf c n timeout_ms =
     (case p of
        PollIntr \<Rightarrow> recv_loop sys s buf c n timeout_ms
      | PollErr e \<Rightarrow> Returned (Inl e, s, buf, n)
      | PollTimeout \<Rightarrow> Returned (Inr 0, s, buf, n)
      | PollEvents pollin pollhup \<Rightarrow>
          if pollhup \<and> \<not> pollin then Returned (Inr 0, s, buf, n)
          else
            (case reasm_read_one r s of
               (Inl e, s) \<Rightarrow> Returned (Inl e, s, buf, n)
             | (Inr nr, s) \<Rightarrow>
                 if nr = 0 then (if timeout_ms = 0 then Returned (Inr 0, s, buf, n) else recv_loop sys s buf c n timeout_ms)
                 else extract_then (reasm_try_extract s buf c n)
                        (\<lambda>s buf n. if timeout_ms = 0 then Returned (Inr 0, s, buf, n) else recv_loop sys s buf c n timeout_ms)))"

definition recv_chan :: "(PollRet \<times> ReadRet) list \<Rightarrow> DmaChanState \<Rightarrow> u8 list \<Rightarrow> nat \<Rightarrow> int \<Rightarrow> recv_result outcome" where
  "recv_chan sys s buf c timeout_ms =
     (if \<not> ch_opened s then Returned (Inl EBADF, s, buf, 0)
      else extract_then (reasm_try_extract s buf c 0)
             (\<lambda>s buf n. recv_loop sys s buf c n timeout_ms))"

definition dma_recv_frame ::
  "(PollRet \<times> ReadRet) list \<Rightarrow> DmaCtx \<Rightarrow> DmaChan \<Rightarrow> u8 list \<Rightarrow> nat \<Rightarrow> int \<Rightarrow> (nat res \<times> DmaCtx \<times> u8 list \<times> nat) outcome" where
  "dma_recv_frame sys ctx ch buf c timeout_ms =
     (case recv_chan sys (chan_of ctx ch) buf c timeout_ms of
        Returned (rc, s, buf, n) \<Rightarrow> Returned (rc, set_chan ctx ch s, buf, n)
      | Blocked \<Rightarrow> Blocked
      | Aborted \<Rightarrow> Aborted)"

section \<open>Big-endian words\<close>

lemma be32_join:
  "push_bit 24 (ucast (ucast (drop_bit 24 v) :: u8)) OR push_bit 16 (ucast (ucast (drop_bit 16 v) :: u8))
     OR push_bit 8 (ucast (ucast (drop_bit 8 v) :: u8)) OR ucast (ucast v :: u8) = (v :: u32)"
  using u32_join [of v] by (simp only: ac_simps)

lemma length_be32 [simp]: "length (be32_store v) = 4"
  by (simp add: be32_store_def)

lemma be32_load_at: "off = length p \<Longrightarrow> be32_load (p @ be32_store v @ r) off = v"
  by (simp add: be32_load_def nth_append be32_store_def numeral_2_eq_2 numeral_3_eq_3 be32_join)

lemma be32_load_store: "be32_load (be32_store v @ r) 0 = v" "be32_load (be32_store w @ be32_store v @ r) 4 = v"
  using be32_load_at [of 0 "[]"] be32_load_at [of 4 "be32_store w"] by simp_all

lemma be32_load_take: "off + 4 \<le> n \<Longrightarrow> be32_load (take n xs) off = be32_load xs off"
  by (simp add: be32_load_def)

lemma be32_load_append: "off + 4 \<le> length xs \<Longrightarrow> be32_load (xs @ ys) off = be32_load xs off"
  by (simp add: be32_load_def nth_append)

section \<open>The byte stream of a channel\<close>

text \<open>A frame on the wire, the staged bytes, and all bytes on their way: the staged ones and those in the pipe.\<close>

definition frame :: "u32 \<Rightarrow> u8 list \<Rightarrow> u8 list" where
  "frame m p = be32_store m @ be32_store (of_nat (length p)) @ p"

definition staged :: "DmaChanState \<Rightarrow> u8 list" where
  "staged s = take (reasm_used s) (reasm s)"

definition stream :: "DmaChanState \<Rightarrow> u8 list" where
  "stream s = staged s @ pipe s"

definition chan_inv :: "DmaChanState \<Rightarrow> bool" where
  "chan_inv s \<longleftrightarrow> length (reasm s) = DMA_REASM_CAP_BYTES \<and> reasm_used s \<le> DMA_REASM_CAP_BYTES"

text \<open>Everything but the bytes.\<close>

definition meta :: "DmaChanState \<Rightarrow> DmaChanState" where
  "meta s = s\<lparr>reasm := [], reasm_used := 0, pipe := []\<rparr>"

lemma length_frame [simp]: "length (frame m p) = 8 + length p"
  by (simp add: frame_def)

lemma length_staged: "chan_inv s \<Longrightarrow> length (staged s) = reasm_used s"
  by (simp add: staged_def chan_inv_def)

lemma frame_header: "be32_load (frame m p @ r) 0 = m" "length p \<le> DMA_FRAME_MAX_PAYLOAD \<Longrightarrow> unat (be32_load (frame m p @ r) 4) = length p"
  by (simp_all add: frame_def be32_load_store DMA_FRAME_MAX_PAYLOAD_def unat_of_nat)

lemma reasm_drop_ok:
  assumes "chan_inv s" "k \<le> reasm_used s"
  shows "chan_inv (reasm_drop k s)" "staged (reasm_drop k s) = drop k (staged s)" "pipe (reasm_drop k s) = pipe s"
    "stream (reasm_drop k s) = drop k (stream s)" "meta (reasm_drop k s) = meta s"
proof -
  show i: "chan_inv (reasm_drop k s)" "pipe (reasm_drop k s) = pipe s" "meta (reasm_drop k s) = meta s"
    using assms by (auto simp: reasm_drop_def chan_inv_def memmove_front_def meta_def min_def)
  have l: "length (take (reasm_used s - k) (drop k (reasm s))) = reasm_used s - k"
    using assms by (auto simp: chan_inv_def)
  show d: "staged (reasm_drop k s) = drop k (staged s)"
    using l by (simp add: staged_def reasm_drop_def memmove_front_def drop_take)
  show "stream (reasm_drop k s) = drop k (stream s)"
    using d i(2) assms length_staged [OF assms(1)] by (simp add: stream_def)
qed

lemma read_one_ok:
  assumes "chan_inv s" "reasm_used s < DMA_REASM_CAP_BYTES" "n = min (min k (DMA_REASM_CAP_BYTES - reasm_used s)) (length (pipe s))"
    and "reasm_read_one (ReadUpTo k) s = (rc, s')"
  shows "rc = Inr n" "chan_inv s'" "stream s' = stream s" "reasm_used s' = reasm_used s + n" "meta s' = meta s"
proof -
  have s': "s' = s\<lparr>reasm := overwrite (reasm s) (reasm_used s) (take n (pipe s)), reasm_used := reasm_used s + n, pipe := drop n (pipe s)\<rparr>"
    and rc: "rc = Inr n"
    using assms(2-4) by (simp_all add: reasm_read_one_def Let_def)
  have l: "length (overwrite (reasm s) (reasm_used s) (take n (pipe s))) = DMA_REASM_CAP_BYTES" and n: "n \<le> length (pipe s)"
    using assms(1-3) by (auto simp: overwrite_def chan_inv_def)
  show "rc = Inr n" by (rule rc)
  show "chan_inv s'" "reasm_used s' = reasm_used s + n" "meta s' = meta s"
    using l assms(1-3) by (simp_all add: s' chan_inv_def meta_def)
  have "take (reasm_used s + n) (overwrite (reasm s) (reasm_used s) (take n (pipe s))) = take (reasm_used s) (reasm s) @ take n (pipe s)"
    using assms(1,2) n by (simp add: overwrite_def chan_inv_def)
  then show "stream s' = stream s" by (simp add: stream_def staged_def s')
qed


section \<open>Extracting\<close>

lemma extract_wait_short: "reasm_used s < 8 \<Longrightarrow> reasm_try_extract s out c n = Some (Inr 0, s, out, n)"
  by (simp add: reasm_try_extract_def DMA_FRAME_HEADER_BYTES_def)

text \<open>The header fields, read off the stream.\<close>

lemma header_of_stream:
  assumes "chan_inv s" "8 \<le> reasm_used s"
  shows "be32_load (reasm s) 0 = be32_load (stream s) 0" "be32_load (reasm s) 4 = be32_load (stream s) 4"
proof -
  have "8 \<le> length (staged s)" using assms length_staged by simp
  then have "be32_load (stream s) k = be32_load (reasm s) k" if "k + 4 \<le> 8" for k
    using that assms(2) by (simp add: stream_def be32_load_append staged_def be32_load_take)
  then show "be32_load (reasm s) 0 = be32_load (stream s) 0" "be32_load (reasm s) 4 = be32_load (stream s) 4" by simp_all
qed

lemma extract_bad_magic:
  assumes "chan_inv s" "8 \<le> reasm_used s" "\<not> frame_magic_is_known (be32_load (stream s) 0)"
  shows "\<exists>s'. reasm_try_extract s out c n = Some (Inl EBADMSG, s', out, n) \<and> chan_inv s' \<and> stream s' = tl (stream s) \<and>
    meta s' = (meta s)\<lparr>drop_bad_magic := drop_bad_magic s + 1\<rparr>"
proof -
  let ?s = "s\<lparr>drop_bad_magic := drop_bad_magic s + 1\<rparr>"
  have i: "chan_inv ?s" "stream ?s = stream s" "meta ?s = (meta s)\<lparr>drop_bad_magic := drop_bad_magic s + 1\<rparr>" "1 \<le> reasm_used ?s"
    using assms(1,2) by (simp_all add: chan_inv_def stream_def staged_def meta_def)
  note d = reasm_drop_ok [OF i(1,4)]
  have "reasm_try_extract s out c n = Some (Inl EBADMSG, reasm_drop 1 ?s, out, n)"
    using assms header_of_stream [OF assms(1,2)] by (simp add: reasm_try_extract_def DMA_FRAME_HEADER_BYTES_def Let_def)
  with d i show ?thesis by (simp add: drop_Suc)
qed

lemma extract_frame:
  assumes "chan_inv s" "stream s = frame m p @ rest" "8 + length p \<le> reasm_used s"
    and "frame_magic_is_known m" "length p \<le> DMA_FRAME_MAX_PAYLOAD" "length p \<le> c" "length p \<le> length out"
  shows "\<exists>s' out'. reasm_try_extract s out c n = Some (Inr 1, s', out', length p) \<and> chan_inv s' \<and> stream s' = rest \<and>
    take (length p) out' = p \<and> length out' = length out \<and>
    meta s' = (meta s)\<lparr>frames_recv_ok := frames_recv_ok s + 1, bytes_recv := bytes_recv s + length p\<rparr>"
proof -
  have u: "8 \<le> reasm_used s" using assms(3) by simp
  have h: "be32_load (reasm s) 0 = m" "unat (be32_load (reasm s) 4) = length p"
    using header_of_stream [OF assms(1) u] frame_header [where m = m and p = p and r = rest] assms(2,5) by simp_all
  have t: "take (8 + length p) (reasm s) = frame m p"
  proof -
    have "take (8 + length p) (stream s) = take (8 + length p) (reasm s)"
      using assms(1,3) by (simp add: stream_def staged_def chan_inv_def)
    then show ?thesis by (simp add: assms(2))
  qed
  have "drop 8 (take (8 + length p) (reasm s)) = p" unfolding t by (simp add: frame_def)
  then have pl: "take (length p) (drop 8 (reasm s)) = p" by (simp add: drop_take)
  have l: "8 + length p \<le> length (reasm s)" using assms(1,3) by (simp add: chan_inv_def)
  define out' where "out' = (if length p > 0 then p @ drop (length p) out else out)"
  have cp: "p \<noteq> [] \<Longrightarrow> memcpy_front out (drop 8 (reasm s)) (length p) = Some out'" "p = [] \<Longrightarrow> out' = out"
    using pl l assms(7) by (auto simp: memcpy_front_def out'_def)
  let ?d = "reasm_drop (8 + length p) s"
  note d = reasm_drop_ok [OF assms(1,3)]
  have "reasm_try_extract s out c n =
      Some (Inr 1, ?d\<lparr>frames_recv_ok := frames_recv_ok ?d + 1, bytes_recv := bytes_recv ?d + length p\<rparr>, out', length p)"
    using u h assms(3-6) cp by (cases "p = []") (simp_all add: reasm_try_extract_def DMA_FRAME_HEADER_BYTES_def Let_def)
  moreover have "frames_recv_ok ?d = frames_recv_ok s" "bytes_recv ?d = bytes_recv s" by (simp_all add: reasm_drop_def)
  moreover have "take (length p) out' = p" "length out' = length out" using assms(7) by (simp_all add: out'_def)
  moreover have "stream ?d = rest" using d(4) assms(2) by simp
  moreover have "meta (?d\<lparr>frames_recv_ok := a, bytes_recv := b\<rparr>) = (meta ?d)\<lparr>frames_recv_ok := a, bytes_recv := b\<rparr>"
    "chan_inv (?d\<lparr>frames_recv_ok := a, bytes_recv := b\<rparr>) = chan_inv ?d" "stream (?d\<lparr>frames_recv_ok := a, bytes_recv := b\<rparr>) = stream ?d" for a b
    by (simp_all add: chan_inv_def stream_def staged_def meta_def)
  ultimately show ?thesis using d(1,5) by simp
qed

lemma extract_wait:
  assumes "chan_inv s" "stream s = frame m p @ rest" "reasm_used s < 8 + length p"
    and "frame_magic_is_known m" "length p \<le> DMA_FRAME_MAX_PAYLOAD"
  shows "reasm_try_extract s out c n = Some (Inr 0, s, out, n)"
proof (cases "reasm_used s < 8")
  case False
  then have u: "8 \<le> reasm_used s" by simp
  from header_of_stream [OF assms(1) u] frame_header [where m = m and p = p and r = rest] assms u show ?thesis
    by (simp add: reasm_try_extract_def DMA_FRAME_HEADER_BYTES_def Let_def)
qed (rule extract_wait_short)

section \<open>Receiving from a stream\<close>

text \<open>A kernel that always has something to do: every poll reports data and every read may take a byte.\<close>

definition reads_on :: "(PollRet \<times> ReadRet) list \<Rightarrow> bool" where
  "reads_on sys \<longleftrightarrow> (\<forall>x\<in>set sys. \<exists>hup k. x = (PollEvents True hup, ReadUpTo k) \<and> 0 < k)"

text \<open>The loop reads on until the staged bytes decide: with fewer than \<open>need\<close> bytes it waits, with \<open>need\<close> it returns.\<close>

lemma recv_loop_until:
  assumes wait: "\<And>s'. chan_inv s' \<Longrightarrow> stream s' = X \<Longrightarrow> reasm_used s' < need \<Longrightarrow> reasm_try_extract s' buf c n = Some (Inr 0, s', buf, n)"
    and stop: "\<And>s'. chan_inv s' \<Longrightarrow> stream s' = X \<Longrightarrow> meta s' = M \<Longrightarrow> need \<le> reasm_used s' \<Longrightarrow>
      \<exists>r. (\<forall>go. extract_then (reasm_try_extract s' buf c n) go = Returned r) \<and> Q r"
    and "need \<le> DMA_REASM_CAP_BYTES" "need \<le> length X" "timeout_ms \<noteq> 0"
    and "reads_on sys" "need \<le> length sys + reasm_used s" "reasm_used s < need" "chan_inv s" "stream s = X" "meta s = M"
  shows "\<exists>r. recv_loop sys s buf c n timeout_ms = Returned r \<and> Q r"
  using assms(6-11)
proof (induction sys arbitrary: s)
  case (Cons x sys)
  obtain hup k where x: "x = (PollEvents True hup, ReadUpTo k)" "0 < k" and sys: "reads_on sys"
    using Cons.prems(1) by (auto simp: reads_on_def)
  define m where "m = min (min k (DMA_REASM_CAP_BYTES - reasm_used s)) (length (pipe s))"
  have p: "reasm_used s < length (stream s)" using Cons.prems(3,5) assms(4) by simp
  then have "pipe s \<noteq> []" using length_staged [OF Cons.prems(4)] by (auto simp: stream_def)
  then have m: "0 < m" using x(2) Cons.prems(3) assms(3) by (simp add: m_def)
  obtain rc s1 where r: "reasm_read_one (ReadUpTo k) s = (rc, s1)" by force
  have "reasm_used s < DMA_REASM_CAP_BYTES" using Cons.prems(3) assms(3) by simp
  note ok = read_one_ok [OF Cons.prems(4) this m_def r]
  show ?case
  proof (cases "need \<le> reasm_used s1")
    case True
    obtain r' where "\<forall>go. extract_then (reasm_try_extract s1 buf c n) go = Returned r'" "Q r'"
      using stop [OF ok(2) _ _ True] ok(3,5) Cons.prems(5,6) by auto
    with x r ok(1) m show ?thesis by simp
  next
    case False
    have "need \<le> length sys + reasm_used s1" using Cons.prems(2) ok(4) m by simp
    from Cons.IH [OF sys this _ ok(2)] ok(3,5) Cons.prems(5,6) False
    obtain r' where "recv_loop sys s1 buf c n timeout_ms = Returned r'" "Q r'" by auto
    moreover have "reasm_try_extract s1 buf c n = Some (Inr 0, s1, buf, n)" using wait [OF ok(2)] ok(3) Cons.prems(5) False by simp
    ultimately show ?thesis using x r ok(1) m assms(5) by (simp add: extract_then_def)
  qed
qed simp

lemma recv_chan_until:
  assumes wait: "\<And>s'. chan_inv s' \<Longrightarrow> stream s' = stream s \<Longrightarrow> reasm_used s' < need \<Longrightarrow> reasm_try_extract s' buf c 0 = Some (Inr 0, s', buf, 0)"
    and stop: "\<And>s'. chan_inv s' \<Longrightarrow> stream s' = stream s \<Longrightarrow> meta s' = meta s \<Longrightarrow> need \<le> reasm_used s' \<Longrightarrow>
      \<exists>r. (\<forall>go. extract_then (reasm_try_extract s' buf c 0) go = Returned r) \<and> Q r"
    and "need \<le> DMA_REASM_CAP_BYTES" "need \<le> length (stream s)" "timeout_ms \<noteq> 0"
    and "reads_on sys" "need \<le> length sys" "chan_inv s" "ch_opened s"
  shows "\<exists>r. recv_chan sys s buf c timeout_ms = Returned r \<and> Q r"
proof (cases "need \<le> reasm_used s")
  case True
  from stop [OF assms(8) refl refl True] obtain r where "\<forall>go. extract_then (reasm_try_extract s buf c 0) go = Returned r" "Q r" by blast
  with assms(9) show ?thesis by (simp add: recv_chan_def)
next
  case False
  have "\<exists>r. recv_loop sys s buf c 0 timeout_ms = Returned r \<and> Q r"
    by (rule recv_loop_until [where X = "stream s" and M = "meta s" and need = need, OF wait stop]) (use assms False in auto)
  moreover have "reasm_try_extract s buf c 0 = Some (Inr 0, s, buf, 0)" using wait [OF assms(8) refl] False by simp
  ultimately show ?thesis using assms(9) by (simp add: recv_chan_def extract_then_def)
qed

text \<open>A frame at the front of the stream is received whole, however the reads cut it.\<close>

lemma recv_chan_frame:
  assumes "chan_inv s" "ch_opened s" "stream s = frame m p @ rest" "frame_magic_is_known m" "length p \<le> DMA_FRAME_MAX_PAYLOAD"
    and "length p \<le> c" "length p \<le> length buf" "timeout_ms \<noteq> 0" "reads_on sys" "DMA_REASM_CAP_BYTES \<le> length sys"
  shows "\<exists>s' buf'. recv_chan sys s buf c timeout_ms = Returned (Inr (length p), s', buf', length p) \<and> chan_inv s' \<and> ch_opened s' \<and>
    stream s' = rest \<and> take (length p) buf' = p \<and> length buf' = length buf"
proof -
  let ?Q = "\<lambda>r. \<exists>s' buf'. r = (Inr (length p), s', buf', length p) \<and> chan_inv s' \<and> ch_opened s' \<and> stream s' = rest \<and>
    take (length p) buf' = p \<and> length buf' = length buf"
  have l: "8 + length p \<le> DMA_REASM_CAP_BYTES" using assms(5) by (simp add: DMA_REASM_CAP_BYTES_def)
  have "\<exists>r. recv_chan sys s buf c timeout_ms = Returned r \<and> ?Q r"
  proof (rule recv_chan_until [where need = "8 + length p"])
    fix s' assume s': "chan_inv s'" "stream s' = stream s"
    show "reasm_try_extract s' buf c 0 = Some (Inr 0, s', buf, 0)" if "reasm_used s' < 8 + length p"
      using extract_wait [OF s'(1) _ that assms(4,5)] s'(2) assms(3) by simp
    show "\<exists>r. (\<forall>go. extract_then (reasm_try_extract s' buf c 0) go = Returned r) \<and> ?Q r" if mm: "meta s' = meta s" and u: "8 + length p \<le> reasm_used s'"
    proof -
      obtain s2 out where x: "reasm_try_extract s' buf c 0 = Some (Inr 1, s2, out, length p)" "chan_inv s2" "stream s2 = rest"
          "take (length p) out = p" "length out = length buf" and
        m: "meta s2 = (meta s')\<lparr>frames_recv_ok := frames_recv_ok s' + 1, bytes_recv := bytes_recv s' + length p\<rparr>"
        using extract_frame [OF s'(1) _ u assms(4-7)] s'(2) assms(3) by metis
      have "ch_opened s2 = ch_opened s'" using arg_cong [OF m, of ch_opened] by (simp add: meta_def)
      moreover have "ch_opened s' = ch_opened s" using arg_cong [OF mm, of ch_opened] by (simp add: meta_def)
      ultimately show ?thesis using x assms(2) by (auto simp: extract_then_def)
    qed
  qed (use assms l in simp_all)
  then show ?thesis by blast
qed

text \<open>Eight bytes that do not begin with a known magic cost one byte and \<open>-EBADMSG\<close>.\<close>

lemma recv_chan_bad:
  assumes "chan_inv s" "ch_opened s" "8 \<le> length (stream s)" "\<not> frame_magic_is_known (be32_load (stream s) 0)"
    and "timeout_ms \<noteq> 0" "reads_on sys" "DMA_REASM_CAP_BYTES \<le> length sys"
  shows "\<exists>s'. recv_chan sys s buf c timeout_ms = Returned (Inl EBADMSG, s', buf, 0) \<and> chan_inv s' \<and> ch_opened s' \<and>
    stream s' = tl (stream s) \<and> drop_bad_magic s' = drop_bad_magic s + 1"
proof -
  let ?Q = "\<lambda>r. \<exists>s'. r = (Inl EBADMSG, s', buf, 0) \<and> chan_inv s' \<and> ch_opened s' \<and> stream s' = tl (stream s) \<and>
    drop_bad_magic s' = drop_bad_magic s + 1"
  have l: "8 \<le> DMA_REASM_CAP_BYTES" by (simp add: DMA_REASM_CAP_BYTES_def)
  have "\<exists>r. recv_chan sys s buf c timeout_ms = Returned r \<and> ?Q r"
  proof (rule recv_chan_until [where need = 8])
    fix s' assume s': "chan_inv s'" "stream s' = stream s"
    show "reasm_try_extract s' buf c 0 = Some (Inr 0, s', buf, 0)" if "reasm_used s' < 8"
      using extract_wait_short [OF that] .
    show "\<exists>r. (\<forall>go. extract_then (reasm_try_extract s' buf c 0) go = Returned r) \<and> ?Q r" if mm: "meta s' = meta s" and u: "8 \<le> reasm_used s'"
    proof -
      obtain s2 where x: "reasm_try_extract s' buf c 0 = Some (Inl EBADMSG, s2, buf, 0)" "chan_inv s2" "stream s2 = tl (stream s)" and
        m: "meta s2 = (meta s')\<lparr>drop_bad_magic := drop_bad_magic s' + 1\<rparr>"
        using extract_bad_magic [OF s'(1) u] s'(2) assms(4) by metis
      have "ch_opened s2 = ch_opened s'" "drop_bad_magic s2 = drop_bad_magic s' + 1"
        using arg_cong [OF m, of ch_opened] arg_cong [OF m, of drop_bad_magic] by (simp_all add: meta_def)
      moreover have "ch_opened s' = ch_opened s" "drop_bad_magic s' = drop_bad_magic s"
        using arg_cong [OF mm, of ch_opened] arg_cong [OF mm, of drop_bad_magic] by (simp_all add: meta_def)
      ultimately show ?thesis using x assms(2) by (auto simp: extract_then_def)
    qed
  qed (use assms l in simp_all)
  then show ?thesis by blast
qed

section \<open>Sending into the stream\<close>

definition writes_on :: "WriteRet list \<Rightarrow> bool" where
  "writes_on ws \<longleftrightarrow> (\<forall>w\<in>set ws. \<exists>k. w = WriteDone k \<and> 0 < k)"

lemma write_all_ok:
  "writes_on ws \<Longrightarrow> length bs \<le> length ws \<Longrightarrow> \<exists>ws'. write_all ws s bs = Returned (Inr (), s\<lparr>pipe := pipe s @ bs\<rparr>, ws') \<and>
     writes_on ws' \<and> length ws \<le> length ws' + length bs"
proof (induction ws arbitrary: s bs)
  case (Cons w ws)
  show ?case
  proof (cases "bs = []")
    case False
    obtain k where w: "w = WriteDone k" "0 < k" and ws: "writes_on ws" using Cons.prems(1) by (auto simp: writes_on_def)
    define n where "n = min k (length bs)"
    have n: "0 < n" "n \<le> length bs" using w(2) False by (simp_all add: n_def)
    have "length (drop n bs) \<le> length ws" using Cons.prems(2) n by simp
    from Cons.IH [OF ws this, of "s\<lparr>pipe := pipe s @ take n bs\<rparr>"] n False w Cons.prems(2) show ?thesis
      by (auto simp: Let_def simp flip: n_def)
  qed (use Cons.prems in simp)
qed simp

definition dma_ok :: "DmaCtx \<Rightarrow> DmaChan \<Rightarrow> bool" where
  "dma_ok ctx ch \<longleftrightarrow> length (chans ctx) = DMA_CHAN_COUNT \<and> chan_inv (chan_of ctx ch) \<and> ch_opened (chan_of ctx ch)"

abbreviation dma_stream :: "DmaCtx \<Rightarrow> DmaChan \<Rightarrow> u8 list" where
  "dma_stream ctx ch \<equiv> stream (chan_of ctx ch)"

lemma chan_set [simp]: "length (chans ctx) = DMA_CHAN_COUNT \<Longrightarrow> chan_of (set_chan ctx ch s) ch = s"
  by (cases ch) (simp_all add: chan_of_def set_chan_def DMA_CHAN_COUNT_def)

lemma set_chan_length [simp]: "length (chans (set_chan ctx ch s)) = length (chans ctx)"
  by (simp add: set_chan_def)

lemma tx_magic_known: "\<not> dma_chan_is_rx ch \<Longrightarrow> frame_magic_is_known (TX_MAGIC ch)"
  by (cases ch) (simp_all add: dma_chan_is_rx_def frame_magic_is_known_def)

lemma send_frame_ok:
  assumes "dma_ok ctx ch" "\<not> dma_chan_is_rx ch" "length p \<le> DMA_FRAME_MAX_PAYLOAD" "writes_on ws" "8 + length p \<le> length ws"
  shows "\<exists>ctx' ws'. dma_send_frame ws ctx ch p (length p) = Returned (Inr (), ctx', ws') \<and> dma_ok ctx' ch \<and>
    dma_stream ctx' ch = dma_stream ctx ch @ frame (TX_MAGIC ch) p"
proof -
  let ?s = "chan_of ctx ch" and ?h = "be32_store (TX_MAGIC ch) @ be32_store (of_nat (length p))"
  obtain ws1 where 1: "write_all ws ?s ?h = Returned (Inr (), ?s\<lparr>pipe := pipe ?s @ ?h\<rparr>, ws1)" "writes_on ws1" "length ws \<le> length ws1 + 8"
    using write_all_ok [OF assms(4), of ?h ?s] assms(5) by auto
  obtain ws2 where 2: "write_all ws1 (?s\<lparr>pipe := pipe ?s @ ?h\<rparr>) p = Returned (Inr (), ?s\<lparr>pipe := pipe ?s @ frame (TX_MAGIC ch) p\<rparr>, ws2)"
    using write_all_ok [OF 1(2), of p "?s\<lparr>pipe := pipe ?s @ ?h\<rparr>"] 1(3) assms(5) by (auto simp: frame_def)
  let ?s' = "?s\<lparr>pipe := pipe ?s @ frame (TX_MAGIC ch) p, frames_send_ok := frames_send_ok ?s + 1, bytes_send := bytes_send ?s + length p\<rparr>"
  have "dma_send_frame ws ctx ch p (length p) = Returned (Inr (), set_chan ctx ch ?s', ws2)"
    using assms(1-3) 1(1) 2 by (simp add: dma_send_frame_def dma_ok_def Let_def)
  moreover have "chan_inv ?s'" "stream ?s' = stream ?s @ frame (TX_MAGIC ch) p" "ch_opened ?s'"
    using assms(1) by (simp_all add: dma_ok_def chan_inv_def stream_def staged_def)
  ultimately show ?thesis using assms(1) by (simp add: dma_ok_def)
qed

lemma recv_frame_ok:
  assumes "dma_ok ctx ch" "dma_stream ctx ch = frame m p @ rest" "frame_magic_is_known m" "length p \<le> DMA_FRAME_MAX_PAYLOAD"
    and "length p \<le> length buf" "reads_on sys" "DMA_REASM_CAP_BYTES \<le> length sys"
  shows "\<exists>ctx' buf'. dma_recv_frame sys ctx ch buf (length buf) (-1) = Returned (Inr (length p), ctx', buf', length p) \<and> dma_ok ctx' ch \<and>
    dma_stream ctx' ch = rest \<and> take (length p) buf' = p \<and> length buf' = length buf"
proof -
  have "chan_inv (chan_of ctx ch)" "ch_opened (chan_of ctx ch)" using assms(1) by (simp_all add: dma_ok_def)
  from recv_chan_frame [OF this assms(2-4) assms(5,5) _ assms(6,7), of "-1"] assms(1) show ?thesis
    by (auto simp: dma_recv_frame_def dma_ok_def)
qed

section \<open>Sessions\<close>

text \<open>Sending a list of payloads, receiving \<open>n\<close> of them, and \<open>n\<close> calls that each report a bad frame.\<close>

primrec send_all :: "WriteRet list \<Rightarrow> DmaChan \<Rightarrow> u8 list list \<Rightarrow> DmaCtx \<Rightarrow> DmaCtx option" where
  "send_all ws ch [] ctx = Some ctx"
| "send_all ws ch (p # ps) ctx =
     (case dma_send_frame ws ctx ch p (length p) of Returned (Inr _, ctx, _) \<Rightarrow> send_all ws ch ps ctx | _ \<Rightarrow> None)"

primrec recv_all :: "(PollRet \<times> ReadRet) list \<Rightarrow> DmaChan \<Rightarrow> nat \<Rightarrow> u8 list \<Rightarrow> DmaCtx \<Rightarrow> u8 list list option" where
  "recv_all sys ch 0 buf ctx = Some []"
| "recv_all sys ch (Suc n) buf ctx =
     (case dma_recv_frame sys ctx ch buf (length buf) (-1) of
        Returned (Inr _, ctx, buf, k) \<Rightarrow> map_option (\<lambda>ps. take k buf # ps) (recv_all sys ch n buf ctx)
      | _ \<Rightarrow> None)"

primrec recv_bad :: "(PollRet \<times> ReadRet) list \<Rightarrow> DmaChan \<Rightarrow> nat \<Rightarrow> u8 list \<Rightarrow> DmaCtx \<Rightarrow> DmaCtx option" where
  "recv_bad sys ch 0 buf ctx = Some ctx"
| "recv_bad sys ch (Suc n) buf ctx =
     (case dma_recv_frame sys ctx ch buf (length buf) (-1) of
        Returned (Inl EBADMSG, ctx, buf, _) \<Rightarrow> recv_bad sys ch n buf ctx
      | _ \<Rightarrow> None)"

lemma send_all_ok:
  assumes "\<not> dma_chan_is_rx ch" "writes_on ws" "DMA_REASM_CAP_BYTES \<le> length ws" "\<forall>p\<in>set ps. length p \<le> DMA_FRAME_MAX_PAYLOAD" "dma_ok ctx ch"
  shows "\<exists>ctx'. send_all ws ch ps ctx = Some ctx' \<and> dma_ok ctx' ch \<and> dma_stream ctx' ch = dma_stream ctx ch @ concat (map (frame (TX_MAGIC ch)) ps)"
  using assms(4,5)
proof (induction ps arbitrary: ctx)
  case (Cons p ps)
  have p: "length p \<le> DMA_FRAME_MAX_PAYLOAD" "8 + length p \<le> length ws" using Cons.prems(1) assms(3) by (simp_all add: DMA_REASM_CAP_BYTES_def)
  obtain c1 ws1 where 1: "dma_send_frame ws ctx ch p (length p) = Returned (Inr (), c1, ws1)" "dma_ok c1 ch"
      "dma_stream c1 ch = dma_stream ctx ch @ frame (TX_MAGIC ch) p"
    using send_frame_ok [OF Cons.prems(2) assms(1) p(1) assms(2) p(2)] by blast
  from Cons.IH [OF _ 1(2)] Cons.prems(1) 1(1,3) show ?case by auto
qed simp

lemma recv_all_ok:
  assumes "reads_on sys" "DMA_REASM_CAP_BYTES \<le> length sys" "frame_magic_is_known m" "\<forall>p\<in>set ps. length p \<le> DMA_FRAME_MAX_PAYLOAD"
    and "length buf = DMA_FRAME_MAX_PAYLOAD" "dma_ok ctx ch" "dma_stream ctx ch = concat (map (frame m) ps) @ rest"
  shows "recv_all sys ch (length ps) buf ctx = Some ps"
  using assms(4-7)
proof (induction ps arbitrary: ctx buf)
  case (Cons p ps)
  have s: "dma_stream ctx ch = frame m p @ (concat (map (frame m) ps) @ rest)" and p: "length p \<le> DMA_FRAME_MAX_PAYLOAD" "length p \<le> length buf"
    using Cons.prems by simp_all
  obtain c1 b1 where 1: "dma_recv_frame sys ctx ch buf (length buf) (-1) = Returned (Inr (length p), c1, b1, length p)" "dma_ok c1 ch"
      "dma_stream c1 ch = concat (map (frame m) ps) @ rest" "take (length p) b1 = p" "length b1 = length buf"
    using recv_frame_ok [OF Cons.prems(3) s assms(3) p assms(1,2)] by blast
  from Cons.IH [OF _ _ 1(2,3)] 1(1,4,5) Cons.prems(1,2) show ?case by simp
qed simp

lemma recv_bad_ok:
  assumes "reads_on sys" "DMA_REASM_CAP_BYTES \<le> length sys" "dma_ok ctx ch" "dma_stream ctx ch = g @ frame m p @ rest"
    and "\<forall>i<length g. \<not> frame_magic_is_known (be32_load (drop i g @ frame m p @ rest) 0)"
  shows "\<exists>ctx'. recv_bad sys ch (length g) buf ctx = Some ctx' \<and> dma_ok ctx' ch \<and> dma_stream ctx' ch = frame m p @ rest \<and>
    drop_bad_magic (chan_of ctx' ch) = drop_bad_magic (chan_of ctx ch) + length g"
  using assms(3-5)
proof (induction g arbitrary: ctx)
  case (Cons x g)
  have i: "chan_inv (chan_of ctx ch)" "ch_opened (chan_of ctx ch)" "length (chans ctx) = DMA_CHAN_COUNT" using Cons.prems(1) by (simp_all add: dma_ok_def)
  have l: "8 \<le> length (dma_stream ctx ch)" unfolding Cons.prems(2) by simp
  have b: "\<not> frame_magic_is_known (be32_load (dma_stream ctx ch) 0)" using Cons.prems(2) Cons.prems(3) [rule_format, of 0] by simp
  obtain s' where s': "recv_chan sys (chan_of ctx ch) buf (length buf) (-1) = Returned (Inl EBADMSG, s', buf, 0)" "chan_inv s'" "ch_opened s'"
      "stream s' = tl (dma_stream ctx ch)" "drop_bad_magic s' = drop_bad_magic (chan_of ctx ch) + 1"
    using recv_chan_bad [OF i(1,2) l b _ assms(1,2), of "-1"] by auto
  let ?c = "set_chan ctx ch s'"
  have 1: "dma_recv_frame sys ctx ch buf (length buf) (-1) = Returned (Inl EBADMSG, ?c, buf, 0)" using s'(1) by (simp add: dma_recv_frame_def)
  have 2: "dma_ok ?c ch" "dma_stream ?c ch = g @ frame m p @ rest" using s'(2-4) i(3) Cons.prems(2) by (simp_all add: dma_ok_def)
  have "\<forall>i<length g. \<not> frame_magic_is_known (be32_load (drop i g @ frame m p @ rest) 0)"
    using Cons.prems(3) by (auto dest: spec [of _ "Suc _"])
  from Cons.IH [OF 2 this] 1 s'(5) i(3) show ?case by auto
qed simp

section \<open>Receiving never aborts\<close>

lemma extract_total:
  assumes "chan_inv s" "c \<le> length buf"
  shows "\<exists>rc s' buf' n'. reasm_try_extract s buf c n = Some (rc, s', buf', n') \<and> chan_inv s' \<and> length buf' = length buf"
proof -
  let ?t = "DMA_FRAME_HEADER_BYTES + unat (be32_load (reasm s) 4)"
  have d: "chan_inv (reasm_drop k s)" if "k \<le> reasm_used s" for k using reasm_drop_ok(1) [OF assms(1) that] .
  have i: "chan_inv (s\<lparr>drop_bad_magic := a\<rparr>)" "chan_inv (s\<lparr>drop_bad_length := a\<rparr>)" for a using assms(1) by (simp_all add: chan_inv_def)
  have e: "chan_inv (reasm_drop k (s\<lparr>drop_bad_magic := a\<rparr>))" "chan_inv (reasm_drop k (s\<lparr>drop_bad_length := a\<rparr>))" if "k \<le> reasm_used s" for k a
    using reasm_drop_ok(1) [OF i(1), of k a] reasm_drop_ok(1) [OF i(2), of k a] that by simp_all
  consider "reasm_used s < 8" | "8 \<le> reasm_used s" "\<not> frame_magic_is_known (be32_load (reasm s) 0)"
    | "8 \<le> reasm_used s" "frame_magic_is_known (be32_load (reasm s) 0)" "unat (be32_load (reasm s) 4) > DMA_FRAME_MAX_PAYLOAD"
    | "8 \<le> reasm_used s" "frame_magic_is_known (be32_load (reasm s) 0)" "unat (be32_load (reasm s) 4) \<le> DMA_FRAME_MAX_PAYLOAD" "reasm_used s < ?t \<or> c < unat (be32_load (reasm s) 4)"
    | "8 \<le> reasm_used s" "frame_magic_is_known (be32_load (reasm s) 0)" "unat (be32_load (reasm s) 4) \<le> DMA_FRAME_MAX_PAYLOAD" "?t \<le> reasm_used s" "unat (be32_load (reasm s) 4) \<le> c"
    by linarith
  then show ?thesis
  proof cases
    case 5
    have "unat (be32_load (reasm s) 4) \<le> length (drop DMA_FRAME_HEADER_BYTES (reasm s))" "unat (be32_load (reasm s) 4) \<le> length buf"
      using 5(4,5) assms by (auto simp: chan_inv_def)
    then obtain out where o: "(if 0 < unat (be32_load (reasm s) 4) then memcpy_front buf (drop DMA_FRAME_HEADER_BYTES (reasm s)) (unat (be32_load (reasm s) 4)) else Some buf) = Some out"
        "length out = length buf" by (cases "0 < unat (be32_load (reasm s) 4)") auto
    have "chan_inv ((reasm_drop ?t s)\<lparr>frames_recv_ok := a, bytes_recv := b\<rparr>)" for a b
      using d [OF 5(4)] by (simp add: chan_inv_def)
    with o 5 show ?thesis by (auto simp: reasm_try_extract_def DMA_FRAME_HEADER_BYTES_def Let_def simp del: split_paired_Ex)
  qed (use assms e in \<open>auto simp: reasm_try_extract_def DMA_FRAME_HEADER_BYTES_def Let_def simp del: split_paired_Ex\<close>)
qed

text \<open>What a receive call leaves: a well-formed channel, unless it is still blocked.\<close>

definition recv_safe :: "u8 list \<Rightarrow> recv_result outcome \<Rightarrow> bool" where
  "recv_safe buf r \<longleftrightarrow> r = Blocked \<or> (\<exists>rc s' buf' n. r = Returned (rc, s', buf', n) \<and> chan_inv s' \<and> length buf' = length buf)"

lemma extract_then_safe:
  assumes "chan_inv s" "c \<le> length buf" "\<And>s' buf' n'. chan_inv s' \<Longrightarrow> length buf' = length buf \<Longrightarrow> recv_safe buf (go s' buf' n')"
  shows "recv_safe buf (extract_then (reasm_try_extract s buf c n) go)"
proof -
  obtain rc s' buf' n' where "reasm_try_extract s buf c n = Some (rc, s', buf', n')" "chan_inv s'" "length buf' = length buf"
    using extract_total [OF assms(1,2)] by blast
  with assms(3) show ?thesis by (auto simp: extract_then_def recv_safe_def split: sum.split)
qed

lemma read_one_inv: "chan_inv s \<Longrightarrow> reasm_read_one r s = (rc, s') \<Longrightarrow> chan_inv s'"
  using read_one_ok(2) [OF _ _ refl] by (cases r) (fastforce simp: reasm_read_one_def split: if_splits)+

lemma recv_loop_safe: "chan_inv s \<Longrightarrow> c \<le> length buf \<Longrightarrow> recv_safe buf (recv_loop sys s buf c n timeout_ms)"
proof (induction sys arbitrary: s buf n)
  case (Cons x sys)
  obtain p r where x: "x = (p, r)" by force
  obtain rc s1 where r: "reasm_read_one r s = (rc, s1)" by force
  have i: "chan_inv s1" using read_one_inv [OF Cons.prems(1) r] .
  have same: "recv_safe buf (Returned (q, s', buf, k))" if "chan_inv s'" for q s' k using that by (simp add: recv_safe_def)
  have go: "recv_safe buf (if timeout_ms = 0 then Returned (Inr 0, s', buf', n') else recv_loop sys s' buf' c n' timeout_ms)"
    if "chan_inv s'" "length buf' = length buf" for s' buf' n'
    using Cons.IH [OF that(1), of buf' n'] Cons.prems(2) that by (auto simp: recv_safe_def)
  show ?case
    using Cons.IH [OF Cons.prems] Cons.prems same x r go [OF i refl] extract_then_safe [OF i Cons.prems(2), where n = n, OF go]
    by (cases p; cases rc) (simp_all add: same i split: if_split)
qed (simp add: recv_safe_def)

lemma recv_loop_poll_once:
  "chan_inv s \<Longrightarrow> c \<le> length buf \<Longrightarrow> \<exists>x\<in>set sys. fst x \<noteq> PollIntr \<Longrightarrow> recv_loop sys s buf c n 0 \<noteq> Blocked"
proof (induction sys)
  case (Cons x sys)
  obtain p r where x: "x = (p, r)" by force
  obtain rc s1 where r: "reasm_read_one r s = (rc, s1)" by force
  have i: "chan_inv s1" using read_one_inv [OF Cons.prems(1) r] .
  obtain rc' s' buf' n' where e: "reasm_try_extract s1 buf c n = Some (rc', s', buf', n')" using extract_total [OF i Cons.prems(2)] by blast
  show ?case
    using Cons x r e by (cases p; cases rc) (auto simp: extract_then_def split: sum.split)
qed simp

lemma recv_frame_total:
  assumes "length (chans ctx) = DMA_CHAN_COUNT" "chan_inv (chan_of ctx ch)" "c \<le> length buf"
  shows "dma_recv_frame sys ctx ch buf c timeout_ms \<noteq> Aborted \<and>
    (\<forall>rc ctx' buf' n. dma_recv_frame sys ctx ch buf c timeout_ms = Returned (rc, ctx', buf', n) \<longrightarrow> chan_inv (chan_of ctx' ch) \<and> length buf' = length buf) \<and>
    (timeout_ms = 0 \<and> (\<exists>x\<in>set sys. fst x \<noteq> PollIntr) \<longrightarrow> dma_recv_frame sys ctx ch buf c timeout_ms \<noteq> Blocked)"
proof -
  let ?s = "chan_of ctx ch" and ?r = "recv_chan sys (chan_of ctx ch) buf c timeout_ms"
  have go: "recv_safe buf (recv_loop sys s' buf' c n' timeout_ms)" if "chan_inv s'" "length buf' = length buf" for s' buf' n'
    using recv_loop_safe [OF that(1), of c buf' sys n' timeout_ms] that(2) assms(3) by (simp add: recv_safe_def)
  have "recv_safe buf (Returned (Inl EBADF, ?s, buf, 0))" using assms(2) by (simp add: recv_safe_def)
  with extract_then_safe [OF assms(2,3), where n = 0, OF go] have "recv_safe buf ?r" by (simp add: recv_chan_def)
  moreover have "?r \<noteq> Blocked" if "timeout_ms = 0" "\<exists>x\<in>set sys. fst x \<noteq> PollIntr"
  proof -
    obtain rc s' buf' n' where e: "reasm_try_extract ?s buf c 0 = Some (rc, s', buf', n')" "chan_inv s'" "length buf' = length buf"
      using extract_total [OF assms(2,3)] by blast
    have "c \<le> length buf'" using assms(3) e(3) by simp
    from recv_loop_poll_once [OF e(2) this that(2)] that(1) e(1) show ?thesis
      by (auto simp: recv_chan_def extract_then_def split: sum.split)
  qed
  ultimately show ?thesis using assms(1) by (auto simp: dma_recv_frame_def recv_safe_def split: outcome.splits)
qed

section \<open>Properties\<close>

text \<open>
  C7: frames survive the DMA channel. Payloads of at most 4096 bytes sent one after another on a transmit
  channel, each \<open>write\<close> moving any positive number of bytes, are received one per call in the same
  order, each \<open>read\<close> returning any positive number of bytes and cutting frames and headers anywhere;
  every call returns.
\<close>

theorem dma_frames_roundtrip:
  assumes "dma_ok ctx ch" "dma_stream ctx ch = []" "\<not> dma_chan_is_rx ch" "\<forall>p\<in>set ps. length p \<le> DMA_FRAME_MAX_PAYLOAD"
    and "writes_on ws" "DMA_REASM_CAP_BYTES \<le> length ws" "reads_on sys" "DMA_REASM_CAP_BYTES \<le> length sys" "length buf = DMA_FRAME_MAX_PAYLOAD"
  shows "\<exists>ctx'. send_all ws ch ps ctx = Some ctx' \<and> recv_all sys ch (length ps) buf ctx' = Some ps"
proof -
  obtain ctx' where s: "send_all ws ch ps ctx = Some ctx'" "dma_ok ctx' ch" "dma_stream ctx' ch = concat (map (frame (TX_MAGIC ch)) ps) @ []"
    using send_all_ok [OF assms(3,5,6,4,1)] assms(2) by auto
  from recv_all_ok [OF assms(7,8) tx_magic_known [OF assms(3)] assms(4,9) s(2,3)] s(1) show ?thesis by blast
qed

definition ex_dma :: DmaCtx where
  "ex_dma = snd (dma_init (map (\<lambda>i. \<lparr>pipe_call = Inr (3 + 2 * i, 4 + 2 * i), fcntl_calls = [None, None, None, None]\<rparr>) [0, 1, 2, 3]))"

definition ex_reads :: "(PollRet \<times> ReadRet) list" where
  "ex_reads = replicate DMA_REASM_CAP_BYTES (PollEvents True False, ReadUpTo 5)"

lemma ex_reads_facts: "reads_on ex_reads" "DMA_REASM_CAP_BYTES \<le> length ex_reads"
  by (auto simp: reads_on_def ex_reads_def)

lemma ex_dma_facts: "dma_ok ex_dma ch" "dma_stream ex_dma ch = []"
  by (cases ch; simp add: ex_dma_def dma_init_def DMA_CHAN_COUNT_def mock_open_chan_def zero_chan_def dma_ok_def chan_of_def chan_inv_def
      stream_def staged_def numeral_eq_Suc)+

theorem dma_frames_roundtrip_witness:
  "\<exists>ctx'. send_all (replicate DMA_REASM_CAP_BYTES (WriteDone 3)) DMA_CHAN_TMA_TX [[1, 2, 3, 4], [], [0x54, 0x4D, 0x41, 0x53]] ex_dma = Some ctx' \<and>
     recv_all ex_reads DMA_CHAN_TMA_TX 3 (replicate DMA_FRAME_MAX_PAYLOAD 0) ctx' = Some [[1, 2, 3, 4], [], [0x54, 0x4D, 0x41, 0x53]]"
proof -
  let ?ps = "[[1, 2, 3, 4], [], [0x54, 0x4D, 0x41, 0x53 :: u8]]"
  have "\<forall>p\<in>set ?ps. length p \<le> DMA_FRAME_MAX_PAYLOAD" by (simp add: DMA_FRAME_MAX_PAYLOAD_def)
  moreover have "writes_on (replicate DMA_REASM_CAP_BYTES (WriteDone 3))" by (simp add: writes_on_def)
  moreover have "\<not> dma_chan_is_rx DMA_CHAN_TMA_TX" by (simp add: dma_chan_is_rx_def)
  ultimately have "\<exists>ctx'. send_all (replicate DMA_REASM_CAP_BYTES (WriteDone 3)) DMA_CHAN_TMA_TX ?ps ex_dma = Some ctx' \<and>
      recv_all ex_reads DMA_CHAN_TMA_TX (length ?ps) (replicate DMA_FRAME_MAX_PAYLOAD 0) ctx' = Some ?ps"
    by (intro dma_frames_roundtrip ex_dma_facts ex_reads_facts) simp_all
  moreover have "length ?ps = 3" by simp
  ultimately show ?thesis by (simp only:)
qed

text \<open>
  The receiver finds the next frame behind garbage. When the stream is garbage, no suffix of which starts
  with a known magic, followed by a frame, exactly one call per garbage byte returns \<open>-EBADMSG\<close>, each
  counted, and the next call returns the frame.
\<close>

theorem dma_resync:
  assumes "dma_ok ctx ch" "dma_stream ctx ch = g @ frame m p @ rest" "frame_magic_is_known m" "length p \<le> DMA_FRAME_MAX_PAYLOAD"
    and "\<forall>i<length g. \<not> frame_magic_is_known (be32_load (drop i g @ frame m p @ rest) 0)"
    and "reads_on sys" "DMA_REASM_CAP_BYTES \<le> length sys" "length buf = DMA_FRAME_MAX_PAYLOAD"
  shows "\<exists>ctx'. recv_bad sys ch (length g) buf ctx = Some ctx' \<and> recv_all sys ch 1 buf ctx' = Some [p] \<and>
    drop_bad_magic (chan_of ctx' ch) = drop_bad_magic (chan_of ctx ch) + length g"
proof -
  obtain ctx' where b: "recv_bad sys ch (length g) buf ctx = Some ctx'" "dma_ok ctx' ch" "dma_stream ctx' ch = concat (map (frame m) [p]) @ rest"
      "drop_bad_magic (chan_of ctx' ch) = drop_bad_magic (chan_of ctx ch) + length g"
    using recv_bad_ok [OF assms(6,7,1,2,5)] by auto
  have "\<forall>p\<in>set [p]. length p \<le> DMA_FRAME_MAX_PAYLOAD" using assms(4) by simp
  from recv_all_ok [OF assms(6,7,3) this assms(8) b(2,3)] b(1,4) show ?thesis by simp
qed

theorem dma_resync_witness:
  "\<exists>ctx'. recv_bad ex_reads DMA_CHAN_TMA_RX 2 (replicate DMA_FRAME_MAX_PAYLOAD 0)
       (set_chan ex_dma DMA_CHAN_TMA_RX ((chan_of ex_dma DMA_CHAN_TMA_RX)\<lparr>pipe := [0x54, 0x00] @ frame FRAME_MAGIC_TMAS [7, 8]\<rparr>)) = Some ctx' \<and>
     recv_all ex_reads DMA_CHAN_TMA_RX 1 (replicate DMA_FRAME_MAX_PAYLOAD 0) ctx' = Some [[7, 8]]"
proof -
  let ?s = "(chan_of ex_dma DMA_CHAN_TMA_RX)\<lparr>pipe := [0x54, 0x00] @ frame FRAME_MAGIC_TMAS [7, 8]\<rparr>"
  have "dma_ok (set_chan ex_dma DMA_CHAN_TMA_RX ?s) DMA_CHAN_TMA_RX"
    "dma_stream (set_chan ex_dma DMA_CHAN_TMA_RX ?s) DMA_CHAN_TMA_RX = [0x54, 0x00] @ frame FRAME_MAGIC_TMAS [7, 8] @ []"
    using ex_dma_facts [of DMA_CHAN_TMA_RX] by (simp_all add: dma_ok_def chan_inv_def stream_def staged_def)
  moreover have "\<forall>i<length [0x54, 0x00 :: u8]. \<not> frame_magic_is_known (be32_load (drop i [0x54, 0x00] @ frame FRAME_MAGIC_TMAS [7, 8] @ []) 0)"
    by (simp add: less_Suc_eq frame_def be32_store_def be32_load_def frame_magic_is_known_def FRAME_MAGIC_TMAS_def FRAME_MAGIC_TMAR_def
        FRAME_MAGIC_TMDC_def)
  moreover have "frame_magic_is_known FRAME_MAGIC_TMAS" "length [7, 8 :: u8] \<le> DMA_FRAME_MAX_PAYLOAD"
    "length (replicate DMA_FRAME_MAX_PAYLOAD (0 :: u8)) = DMA_FRAME_MAX_PAYLOAD" "length [0x54, 0x00 :: u8] = 2"
    by (simp_all add: frame_magic_is_known_def DMA_FRAME_MAX_PAYLOAD_def)
  ultimately show ?thesis
    using dma_resync [where g = "[0x54, 0x00]" and rest = "[]" and p = "[7, 8]", OF _ _ _ _ _ ex_reads_facts] by metis
qed

text \<open>
  Receiving terminates and stays in bounds. For any bytes in the pipe and any results of the system
  calls, a receive call never accesses memory outside its arrays and leaves a well-formed channel; with
  timeout 0 it returns as soon as one poll is not interrupted.
\<close>

theorem dma_recv_total:
  assumes "length (chans ctx) = DMA_CHAN_COUNT" "chan_inv (chan_of ctx ch)" "c \<le> length buf"
  shows "dma_recv_frame sys ctx ch buf c timeout_ms \<noteq> Aborted \<and>
    (\<forall>rc ctx' buf' n. dma_recv_frame sys ctx ch buf c timeout_ms = Returned (rc, ctx', buf', n) \<longrightarrow> chan_inv (chan_of ctx' ch) \<and> length buf' = length buf) \<and>
    (timeout_ms = 0 \<and> (\<exists>x\<in>set sys. fst x \<noteq> PollIntr) \<longrightarrow> dma_recv_frame sys ctx ch buf c timeout_ms \<noteq> Blocked)"
  using assms by (rule recv_frame_total)

theorem dma_recv_total_witness:
  "dma_recv_frame [(PollIntr, ReadIntr), (PollEvents True True, ReadAgain)] ex_dma DMA_CHAN_TMA_RX [0] 1 0 \<noteq> Blocked"
  using dma_recv_total [of ex_dma DMA_CHAN_TMA_RX 1 "[0]" "[(PollIntr, ReadIntr), (PollEvents True True, ReadAgain)]" 0] ex_dma_facts(1) [of DMA_CHAN_TMA_RX]
  by (auto simp: dma_ok_def)

end
