(* ===== verification/Daemon_State.thy ===== *)
theory Daemon_State
  imports Llc Mle Mm Cmce Ast Dma_Io
begin

text \<open>
  The state of the daemon (\<open>struct DaemonState\<close> of \<open>sw/main_loop.c\<close> and \<open>sw/tetra_d.c\<close>): the entities,
  the database, the session table, the DMA channels, the bus and the loop's own flags, with the shutdown
  request that the web socket and the loop share. \<open>aborted\<close> is set by a handler that aborts, after which
  nothing runs.
\<close>

section \<open>State\<close>

record DaemonState =
  d_llc :: Llc
  d_mle :: Mle
  d_mm :: Mm
  d_cmce :: Cmce
  d_db :: SubscriberDb
  d_env :: Env
  d_ast :: Ast
  d_ast_path :: string
  ast_loaded_at_start :: bool
  d_dma :: DmaCtx
  mf_now :: u64
  shutdown_requested :: bool
  clean_shutdown_flag :: bool
  aborted :: bool

text \<open>Result: return code, \<open>*out_ast_snapshotted\<close> (the daemon always has a table and a path), state.\<close>

definition daemon_request_shutdown :: "DaemonState \<Rightarrow> unit res \<times> bool \<times> DaemonState" where
  "daemon_request_shutdown st = (Inr (), True, st\<lparr>shutdown_requested := True, clean_shutdown_flag := True\<rparr>)"

end
