(* ===== verification/Socket_Server.thy ===== *)
theory Socket_Server
  imports Daemon_State
begin

text \<open>
  The web socket of the daemon (\<open>sw/socket_server.c\<close>, \<open>sw/include/tetra/daemon_ops.h\<close>): the length-prefixed
  JSON envelopes, the table of operations and the service of one client. A client is the bytes it sends
  and the results of the \<open>read\<close> and \<open>write\<close> calls on its connection; parsing and printing JSON text are
  parameters. Memory allocation is taken to succeed.
\<close>

section \<open>Operations and error codes\<close>

datatype DaemonErrCode =
    DaemonErr_None | DaemonErr_Einval | DaemonErr_Enoent | DaemonErr_Eexist | DaemonErr_Erofs | DaemonErr_Eperm
  | DaemonErr_Ebusy | DaemonErr_Enospc | DaemonErr_Erange | DaemonErr_Eref | DaemonErr_Esched | DaemonErr_Efpga
  | DaemonErr_Eio | DaemonErr_E2big | DaemonErr_Einternal

primrec daemon_err_name :: "DaemonErrCode \<Rightarrow> string" where
  "daemon_err_name DaemonErr_None = ''OK''"
| "daemon_err_name DaemonErr_Einval = ''EINVAL''"
| "daemon_err_name DaemonErr_Enoent = ''ENOENT''"
| "daemon_err_name DaemonErr_Eexist = ''EEXIST''"
| "daemon_err_name DaemonErr_Erofs = ''EROFS''"
| "daemon_err_name DaemonErr_Eperm = ''EPERM''"
| "daemon_err_name DaemonErr_Ebusy = ''EBUSY''"
| "daemon_err_name DaemonErr_Enospc = ''ENOSPC''"
| "daemon_err_name DaemonErr_Erange = ''ERANGE''"
| "daemon_err_name DaemonErr_Eref = ''EREF''"
| "daemon_err_name DaemonErr_Esched = ''ESCHED''"
| "daemon_err_name DaemonErr_Efpga = ''EFPGA''"
| "daemon_err_name DaemonErr_Eio = ''EIO''"
| "daemon_err_name DaemonErr_E2big = ''E2BIG''"
| "daemon_err_name DaemonErr_Einternal = ''EINTERNAL''"

text \<open>A C return value of this file: an \<open>errno\<close> or a code of the catalogue.\<close>

datatype SockErr = SysErr errno | OpErr DaemonErrCode

text \<open>What the bodies of the operation handlers do; all but one are stubs with a fixed answer.\<close>

datatype OpBody = Op_empty | Op_array | Op_fields "(string \<times> Json) list" | Op_daemon_stop

definition status_ops :: "(string \<times> OpBody) list" where
  "status_ops =
    [(''status.summary'', Op_fields [(''cell_synced'', JBool False), (''uptime_s'', JInteger 0), (''fpga_bitstream_id'', JString ''''), (''sw_version'', JString ''tetra_d/0'')]),
     (''status.layers'', Op_empty), (''status.phy_stats'', Op_empty), (''status.dma_stats'', Op_empty),
     (''status.txq'', Op_empty), (''status.msgbus'', Op_empty), (''status.calls'', Op_array),
     (''status.groups'', Op_array), (''status.fpga_regs'', Op_empty), (''status.aach_current'', Op_empty)]"

definition db_ops :: "(string \<times> OpBody) list" where
  "db_ops =
    [(''profile.list'', Op_array), (''profile.get'', Op_empty), (''profile.put'', Op_empty),
     (''profile.delete'', Op_empty), (''profile.reset'', Op_empty),
     (''entity.list'', Op_fields [(''total'', JInteger 0), (''items'', JArray [])]), (''entity.get'', Op_empty),
     (''entity.lookup'', Op_empty), (''entity.put'', Op_empty), (''entity.delete'', Op_empty),
     (''entity.clear_all'', Op_empty), (''session.list'', Op_array), (''session.get'', Op_empty),
     (''session.stats'', Op_fields [(''capacity'', JInteger 64), (''used'', JInteger 0), (''free'', JInteger 64)]),
     (''db.export'', Op_empty), (''db.import'', Op_empty), (''db.reset'', Op_empty), (''policy.get'', Op_empty),
     (''policy.put'', Op_empty)]"

definition debug_ops :: "(string \<times> OpBody) list" where
  "debug_ops =
    [(''debug.pdu_recent'', Op_array), (''debug.pdu_stream'', Op_empty), (''debug.aach_recent'', Op_array),
     (''debug.aach_stream'', Op_empty), (''debug.slot_schedule'', Op_array), (''debug.irq_counters'', Op_empty),
     (''debug.msgbus_stream'', Op_empty), (''debug.log_tail'', Op_array), (''debug.reg_read'', Op_empty),
     (''debug.reg_write'', Op_empty), (''debug.tmasap_recent'', Op_array), (''debug.tmdsap_stats'', Op_empty)]"

definition config_ops :: "(string \<times> OpBody) list" where
  "config_ops =
    [(''config.cell.get'', Op_empty), (''config.cell.put'', Op_empty), (''config.rf.get'', Op_empty),
     (''config.rf.put'', Op_empty), (''config.cipher.get'', Op_empty), (''config.cipher.put'', Op_empty),
     (''config.training.get'', Op_empty), (''config.training.put'', Op_empty), (''config.slot_table.get'', Op_empty),
     (''config.slot_table.put'', Op_empty), (''config.ad9361.get'', Op_empty), (''config.ad9361.put'', Op_empty),
     (''config.msgbus.get'', Op_empty), (''config.msgbus.put'', Op_empty), (''config.schema'', Op_empty),
     (''apply.status'', Op_fields [(''has_pending'', JBool False), (''pending_groups'', JArray [])]),
     (''apply.apply'', Op_empty), (''apply.discard'', Op_empty)]"

definition tools_ops :: "(string \<times> OpBody) list" where
  "tools_ops =
    [(''tools.pdu_send_form'', Op_empty),
     (''tools.pdu_send'', Op_fields [(''would_send'', JBool False), (''tma_frame_hex'', JString '''')]),
     (''tools.reset_counters'', Op_fields [(''cleared'', JArray [])]),
     (''tools.reset_ast'', Op_fields [(''flushed_slots'', JInteger 0)]), (''tools.reg_write'', Op_empty),
     (''tools.bitstream_list'', Op_array), (''tools.bitstream_switch'', Op_fields [(''job_id'', JString ''0'')]),
     (''tools.capture_start'', Op_fields [(''job_id'', JString ''0'')]), (''tools.capture_stop'', Op_empty),
     (''tools.capture_list'', Op_array), (''tools.capture_download'', Op_empty), (''tools.decoder_upload'', Op_empty),
     (''tools.decoder_list'', Op_array), (''tools.decoder_run'', Op_fields [(''job_id'', JString ''0'')]),
     (''tools.decoder_result'', Op_empty)]"

definition jobs_ops :: "(string \<times> OpBody) list" where
  "jobs_ops =
    [(''jobs.list'', Op_array), (''jobs.get'', Op_empty), (''jobs.cancel'', Op_empty)]"

definition daemon_ops :: "(string \<times> OpBody) list" where
  "daemon_ops =
    [(''daemon.stop'', Op_daemon_stop), (''daemon.restart'', Op_fields [(''job_id'', JString ''0'')])]"

definition s_op_table :: "(string \<times> OpBody) list" where
  "s_op_table = status_ops @ db_ops @ debug_ops @ config_ops @ tools_ops @ jobs_ops @ daemon_ops"

text \<open>An operation identifier is its index in the table; \<open>None\<close> stands for \<open>DaemonOp_Unknown\<close> and \<open>NULL\<close>.\<close>

definition daemon_op_lookup :: "string \<Rightarrow> nat option" where
  "daemon_op_lookup name = find_index (\<lambda>e. fst e = name) s_op_table"

definition daemon_op_table_find :: "string \<Rightarrow> (string \<times> OpBody) option" where
  "daemon_op_table_find name = map_option ((!) s_op_table) (daemon_op_lookup name)"

definition daemon_op_name :: "int \<Rightarrow> string option" where
  "daemon_op_name op = (if op < 0 \<or> op \<ge> int (length s_op_table) then None else Some (fst (s_op_table ! nat op)))"

text \<open>Calling the handler of a row: its error code or \<open>*result\<close>, and the state.\<close>

definition run_op :: "OpBody \<Rightarrow> DaemonState \<Rightarrow> (DaemonErrCode + Json) \<times> DaemonState" where
  "run_op op st =
     (case op of
        Op_empty \<Rightarrow> (Inr (JObject []), st)
      | Op_array \<Rightarrow> (Inr (JArray []), st)
      | Op_fields fs \<Rightarrow> (Inr (JObject fs), st)
      | Op_daemon_stop \<Rightarrow>
          let (rc, snapped, st) = daemon_request_shutdown st in
          if rc \<noteq> Inr () then (Inl DaemonErr_Einternal, st)
          else (Inr (JObject [(''ok'', JBool True), (''ast_snapshotted'', JBool snapped)]), st))"

section \<open>Envelopes\<close>

definition opt_field :: "string \<Rightarrow> Json option \<Rightarrow> (string \<times> Json) list" where
  "opt_field k v = (case v of None \<Rightarrow> [] | Some j \<Rightarrow> [(k, j)])"

definition daemon_envelope_ok :: "string option \<Rightarrow> Json option \<Rightarrow> Json" where
  "daemon_envelope_ok req_id data =
     JObject ([(''ok'', JBool True)] @ opt_field ''req_id'' (map_option JString req_id) @
       [(''data'', case data of Some d \<Rightarrow> d | None \<Rightarrow> JObject [])])"

definition daemon_envelope_err ::
  "string option \<Rightarrow> DaemonErrCode \<Rightarrow> string option \<Rightarrow> string option \<Rightarrow> Json option \<Rightarrow> Json" where
  "daemon_envelope_err req_id code message field detail =
     JObject ([(''ok'', JBool False)] @ opt_field ''req_id'' (map_option JString req_id) @
       [(''error'', JObject ([(''code'', JString (daemon_err_name code))] @ opt_field ''message'' (map_option JString message) @
          opt_field ''field'' (map_option JString field) @ opt_field ''detail'' detail))])"

fun json_string_value :: "Json option \<Rightarrow> string option" where
  "json_string_value (Some (JString s)) = Some s"
| "json_string_value _ = None"

text \<open>The members of a request: operation, arguments, request identifier, client.\<close>

type_synonym OpRequest = "string \<times> Json option \<times> string option \<times> string option"

definition daemon_envelope_parse :: "Json \<Rightarrow> DaemonErrCode + OpRequest" where
  "daemon_envelope_parse root =
     (if \<not> json_is_object root then Inl DaemonErr_Einval
      else case json_string_value (json_object_get root ''op'') of
             None \<Rightarrow> Inl DaemonErr_Einval
           | Some op \<Rightarrow>
               Inr (op, (case json_object_get root ''args'' of
                           Some a \<Rightarrow> if json_is_object a then Some a else None
                         | None \<Rightarrow> None),
                    json_string_value (json_object_get root ''req_id''),
                    json_string_value (json_object_get root ''client'')))"

definition DAEMON_OPS_MAX_FRAME_BYTES :: nat where
  "DAEMON_OPS_MAX_FRAME_BYTES = 1 * 1024 * 1024"

definition DAEMON_OPS_LEN_PREFIX_BYTES :: nat where
  "DAEMON_OPS_LEN_PREFIX_BYTES = 4"

definition put_be32 :: "u32 \<Rightarrow> u8 list" where
  "put_be32 v = [ucast (drop_bit 24 v AND 0xFF), ucast (drop_bit 16 v AND 0xFF), ucast (drop_bit 8 v AND 0xFF), ucast (v AND 0xFF)]"

definition get_be32 :: "u8 list \<Rightarrow> u32" where
  "get_be32 b = push_bit 24 (ucast (b ! 0)) OR push_bit 16 (ucast (b ! 1)) OR push_bit 8 (ucast (b ! 2)) OR ucast (b ! 3)"

text \<open>Characters and bytes.\<close>

definition bytes_of_text :: "string \<Rightarrow> u8 list" where
  "bytes_of_text s = map of_char s"

definition text_of_bytes :: "u8 list \<Rightarrow> string" where
  "text_of_bytes bs = map (\<lambda>b. char_of (unat b)) bs"

definition daemon_envelope_marshal :: "(Json \<Rightarrow> string option) \<Rightarrow> Json \<Rightarrow> u8 list res" where
  "daemon_envelope_marshal json_dumps env =
     (case json_dumps env of
        None \<Rightarrow> Inl ENOMEM
      | Some text \<Rightarrow>
          if length text > DAEMON_OPS_MAX_FRAME_BYTES then Inl E2BIG
          else Inr (put_be32 (of_nat (length text)) @ bytes_of_text text))"

definition daemon_envelope_unmarshal :: "(string \<Rightarrow> Json option) \<Rightarrow> u8 list \<Rightarrow> nat \<Rightarrow> DaemonErrCode + Json" where
  "daemon_envelope_unmarshal json_loads buf blen =
     (if blen < DAEMON_OPS_LEN_PREFIX_BYTES then Inl DaemonErr_Einval
      else
        let body_len = unat (get_be32 buf) in
        if body_len > DAEMON_OPS_MAX_FRAME_BYTES then Inl DaemonErr_E2big
        else if body_len + DAEMON_OPS_LEN_PREFIX_BYTES > blen then Inl DaemonErr_Einval
        else case json_loads (text_of_bytes (take body_len (drop DAEMON_OPS_LEN_PREFIX_BYTES buf))) of
               None \<Rightarrow> Inl DaemonErr_Einval
             | Some root \<Rightarrow> if json_is_object root then Inr root else Inl DaemonErr_Einval)"

section \<open>One client\<close>

text \<open>
  Results of \<open>read\<close> and \<open>write\<close> on the blocking connection: up to so many bytes, interrupted, an error. A
  \<open>read\<close> that finds no byte left is the end of the stream. A \<open>write\<close> to a connection the client has closed
  raises \<open>SIGPIPE\<close>, which the daemon neither blocks nor ignores: the process ends (\<open>Aborted\<close>).
\<close>

datatype SockRead = SkRead nat | SkReadIntr | SkReadErr errno

datatype SockWrite = SkWrote nat | SkWriteIntr | SkWriteErr errno | SkPipe

text \<open>\<open>buf\<close> is what was read so far; the bytes not taken and the calls not made are returned.\<close>

fun read_full :: "SockRead list \<Rightarrow> u8 list \<Rightarrow> u8 list \<Rightarrow> nat \<Rightarrow> (u8 list res \<times> u8 list \<times> SockRead list) outcome" where
  "read_full [] inp buf want = (if length buf < want then Blocked else Returned (Inr buf, inp, []))"
| "read_full (r # rs) inp buf want =
     (if length buf < want
      then case r of
             SkReadIntr \<Rightarrow> read_full rs inp buf want
           | SkReadErr e \<Rightarrow> Returned (Inl e, inp, rs)
           | SkRead k \<Rightarrow>
               let n = min (min k (want - length buf)) (length inp) in
               if n = 0 then Returned (Inl ECONNRESET, inp, rs)
               else read_full rs (drop n inp) (buf @ take n inp) want
      else Returned (Inr buf, inp, r # rs))"

text \<open>\<open>sent\<close> is what the client has been sent so far.\<close>

fun write_full :: "SockWrite list \<Rightarrow> u8 list \<Rightarrow> u8 list \<Rightarrow> (unit res \<times> u8 list) outcome" where
  "write_full [] bs sent = (if bs = [] then Returned (Inr (), sent) else Blocked)"
| "write_full (w # ws) bs sent =
     (if bs = [] then Returned (Inr (), sent)
      else case w of
             SkWriteIntr \<Rightarrow> write_full ws bs sent
           | SkWriteErr e \<Rightarrow> Returned (Inl e, sent)
           | SkPipe \<Rightarrow> Aborted
           | SkWrote k \<Rightarrow> let n = min k (length bs) in write_full ws (drop n bs) (sent @ take n bs))"

definition send_envelope :: "(Json \<Rightarrow> string option) \<Rightarrow> SockWrite list \<Rightarrow> Json \<Rightarrow> (unit res \<times> u8 list) outcome" where
  "send_envelope json_dumps ws env =
     (case daemon_envelope_marshal json_dumps env of
        Inl e \<Rightarrow> Returned (Inl e, [])
      | Inr bs \<Rightarrow> write_full ws bs [])"

text \<open>An answer, and the return value of the service: that of sending it, or a given one.\<close>

type_synonym client_result = "((SockErr + unit) \<times> u8 list \<times> DaemonState) outcome"

definition answer :: "(Json \<Rightarrow> string option) \<Rightarrow> SockWrite list \<Rightarrow> Json \<Rightarrow> SockErr option \<Rightarrow> DaemonState \<Rightarrow> client_result" where
  "answer json_dumps ws env rc st =
     (case send_envelope json_dumps ws env of
        Returned (r, sent) \<Rightarrow>
          Returned (case rc of Some e \<Rightarrow> Inl e | None \<Rightarrow> (case r of Inl e \<Rightarrow> Inl (SysErr e) | Inr _ \<Rightarrow> Inr ()), sent, st)
      | Blocked \<Rightarrow> Blocked
      | Aborted \<Rightarrow> Aborted)"

text \<open>A parsed request: the row is looked up and its handler called. No row names required arguments.\<close>

definition serve_request :: "(Json \<Rightarrow> string option) \<Rightarrow> SockWrite list \<Rightarrow> Json \<Rightarrow> DaemonState \<Rightarrow> client_result" where
  "serve_request json_dumps ws root st =
     (case daemon_envelope_parse root of
        Inl _ \<Rightarrow> answer json_dumps ws (daemon_envelope_err None DaemonErr_Einval (Some ''missing or invalid op'') (Some ''op'') None) None st
      | Inr (op_name, _, req_id, _) \<Rightarrow>
          (case daemon_op_table_find op_name of
             None \<Rightarrow> answer json_dumps ws (daemon_envelope_err req_id DaemonErr_Einval (Some ''unknown op'') (Some ''op'') None) None st
           | Some (_, op) \<Rightarrow>
               (case run_op op st of
                  (Inr data, st) \<Rightarrow> answer json_dumps ws (daemon_envelope_ok req_id (Some data)) None st
                | (Inl ec, st) \<Rightarrow> answer json_dumps ws (daemon_envelope_err req_id ec None None None) None st)))"

definition socket_server_handle_client ::
  "(string \<Rightarrow> Json option) \<Rightarrow> (Json \<Rightarrow> string option) \<Rightarrow> SockRead list \<Rightarrow> SockWrite list \<Rightarrow> u8 list \<Rightarrow> DaemonState \<Rightarrow> client_result" where
  "socket_server_handle_client json_loads json_dumps rs ws inp st =
     (case read_full rs inp [] DAEMON_OPS_LEN_PREFIX_BYTES of
        Blocked \<Rightarrow> Blocked
      | Aborted \<Rightarrow> Aborted
      | Returned (Inl e, _, _) \<Rightarrow> Returned (Inl (SysErr e), [], st)
      | Returned (Inr lenbuf, inp, rs) \<Rightarrow>
          let body_len = unat (get_be32 lenbuf) in
          if body_len = 0 \<or> body_len > DAEMON_OPS_MAX_FRAME_BYTES
          then answer json_dumps ws (daemon_envelope_err None DaemonErr_E2big (Some ''frame length out of range'') (Some ''len'') None)
                 (Some (OpErr DaemonErr_E2big)) st
          else
            (case read_full rs inp [] body_len of
               Blocked \<Rightarrow> Blocked
             | Aborted \<Rightarrow> Aborted
             | Returned (Inl e, _, _) \<Rightarrow> Returned (Inl (SysErr e), [], st)
             | Returned (Inr text, _, _) \<Rightarrow>
                 (case json_loads (text_of_bytes text) of
                    Some root \<Rightarrow>
                      if json_is_object root then serve_request json_dumps ws root st
                      else answer json_dumps ws (daemon_envelope_err None DaemonErr_Einval (Some ''envelope is not a JSON object'') (Some ''body'') None) None st
                  | None \<Rightarrow>
                      answer json_dumps ws (daemon_envelope_err None DaemonErr_Einval (Some ''envelope is not a JSON object'') (Some ''body'') None) None st)))"

section \<open>Listening\<close>

text \<open>The results of \<open>accept4\<close>: a client, an interruption, or an error (\<open>EAGAIN\<close> when none is waiting).\<close>

record Client =
  cl_reads :: "SockRead list"
  cl_writes :: "SockWrite list"
  cl_bytes :: "u8 list"

datatype AcceptRet = Accepted Client | AcceptIntr | AcceptErr errno

fun ml_listener_accept :: "(string \<Rightarrow> Json option) \<Rightarrow> (Json \<Rightarrow> string option) \<Rightarrow> AcceptRet list \<Rightarrow> DaemonState \<Rightarrow> DaemonState outcome" where
  "ml_listener_accept json_loads json_dumps [] st = Blocked"
| "ml_listener_accept json_loads json_dumps (a # accs) st =
     (case a of
        AcceptErr _ \<Rightarrow> Returned st
      | AcceptIntr \<Rightarrow> ml_listener_accept json_loads json_dumps accs st
      | Accepted c \<Rightarrow>
          (case socket_server_handle_client json_loads json_dumps (cl_reads c) (cl_writes c) (cl_bytes c) st of
             Returned (_, _, st) \<Rightarrow> ml_listener_accept json_loads json_dumps accs st
           | Blocked \<Rightarrow> Blocked
           | Aborted \<Rightarrow> Aborted))"

section \<open>The table\<close>

lemmas op_tables = status_ops_def db_ops_def debug_ops_def config_ops_def tools_ops_def jobs_ops_def daemon_ops_def

lemma op_names_distinct: "distinct (map fst s_op_table)"
  by code_simp

lemma op_table_find:
  assumes "(op, hdl) \<in> set s_op_table"
  shows "daemon_op_table_find op = Some (op, hdl)"
proof -
  obtain i where i: "i < length s_op_table" "s_op_table ! i = (op, hdl)" using assms by (meson in_set_conv_nth)
  have "fst (s_op_table ! j) \<noteq> op" if "j < i" for j
    using that i nth_eq_iff_index_eq [OF op_names_distinct, of j i] by simp
  then have "daemon_op_lookup op = Some i" using i by (simp add: daemon_op_lookup_def find_index_Some_iff)
  with i show ?thesis by (simp add: daemon_op_table_find_def)
qed

lemma op_table_find_None: "op \<notin> fst ` set s_op_table \<Longrightarrow> daemon_op_table_find op = None"
  by (auto simp: daemon_op_table_find_def daemon_op_lookup_def find_index_None_iff)

lemma only_stop: "(op, hdl) \<in> set s_op_table \<Longrightarrow> hdl = Op_daemon_stop \<longleftrightarrow> op = ''daemon.stop''"
  by (auto simp: s_op_table_def op_tables)

lemma run_op_state:
  assumes "(op, hdl) \<in> set s_op_table" "run_op hdl st = (r, st')"
  shows "st' = (if op = ''daemon.stop'' then st\<lparr>shutdown_requested := True, clean_shutdown_flag := True\<rparr> else st) \<and> (\<exists>data. r = Inr data)"
  using only_stop [OF assms(1)] assms(2) by (cases hdl) (auto simp: run_op_def daemon_request_shutdown_def)

section \<open>Frames\<close>

lemma be32_eqs: "put_be32 v = be32_store v" "get_be32 bs = be32_load bs 0"
proof -
  have "(ucast (w AND 0xFF) :: u8) = ucast w" for w :: u32
    unfolding u32_masks(1) by (rule bit_word_eqI) (auto simp: bit_simps)
  then show "put_be32 v = be32_store v" by (simp add: put_be32_def be32_store_def)
qed (simp add: get_be32_def be32_load_def numeral_2_eq_2)

lemma text_roundtrip [simp]: "text_of_bytes (bytes_of_text s) = s"
proof -
  have "unat (of_char c :: u8) = of_char c" for c :: char
  proof -
    have "unat (of_nat (of_char c) :: u8) = of_char c" using nat_of_char_less_256 [of c] by (simp add: unat_of_nat)
    then show ?thesis by (simp only: of_nat_of_char)
  qed
  then show ?thesis by (simp add: text_of_bytes_def bytes_of_text_def comp_def)
qed

lemma length_bytes_of_text [simp]: "length (bytes_of_text s) = length s"
  by (simp add: bytes_of_text_def)

definition op_frame :: "string \<Rightarrow> u8 list" where
  "op_frame t = put_be32 (of_nat (length t)) @ bytes_of_text t"

lemma length_op_frame [simp]: "length (op_frame t) = 4 + length t"
  by (simp add: op_frame_def be32_eqs)

lemma op_frame_parts:
  assumes "length t \<le> DAEMON_OPS_MAX_FRAME_BYTES"
  shows "unat (get_be32 (op_frame t @ r)) = length t" "unat (get_be32 (take 4 (op_frame t))) = length t"
    "drop 4 (op_frame t) = bytes_of_text t"
proof -
  have "length t < 4294967296" using assms by (simp add: DAEMON_OPS_MAX_FRAME_BYTES_def)
  then show *: "unat (get_be32 (op_frame t @ r)) = length t" "drop 4 (op_frame t) = bytes_of_text t" for r
    by (simp_all add: op_frame_def be32_eqs be32_load_store(1) unat_of_nat)
  show "unat (get_be32 (take 4 (op_frame t))) = length t"
    using be32_load_take [of 0 4 "op_frame t"] *(1) [of "[]"] by (simp only: be32_eqs append_Nil2)
qed

section \<open>Reading and writing everything\<close>

definition reads_well :: "SockRead list \<Rightarrow> bool" where
  "reads_well rs \<longleftrightarrow> (\<forall>r\<in>set rs. \<exists>k>0. r = SkRead k)"

definition writes_well :: "SockWrite list \<Rightarrow> bool" where
  "writes_well ws \<longleftrightarrow> (\<forall>w\<in>set ws. \<exists>k>0. w = SkWrote k)"

lemma read_full_all:
  assumes "reads_well rs" "want - length buf \<le> length rs" "want - length buf \<le> length inp" "length buf \<le> want"
  shows "\<exists>rs'. read_full rs inp buf want = Returned (Inr (buf @ take (want - length buf) inp), drop (want - length buf) inp, rs') \<and>
    reads_well rs' \<and> length rs \<le> length rs' + (want - length buf)"
  using assms
proof (induction rs arbitrary: inp buf)
  case (Cons r rs)
  show ?case
  proof (cases "length buf < want")
    case True
    obtain k where k: "0 < k" "r = SkRead k" using Cons.prems(1) by (auto simp: reads_well_def)
    define n where "n = min (min k (want - length buf)) (length inp)"
    have n: "0 < n" "n \<le> want - length buf" "n \<le> length inp" using k True Cons.prems(3) by (auto simp: n_def)
    have "reads_well rs" using Cons.prems(1) by (simp add: reads_well_def)
    have "want - length (buf @ take n inp) \<le> length rs" "want - length (buf @ take n inp) \<le> length (drop n inp)"
      "length (buf @ take n inp) \<le> want"
      using Cons.prems(2-4) n True by simp_all
    from Cons.IH [OF \<open>reads_well rs\<close> this] n
    obtain rs' where r: "read_full rs (drop n inp) (buf @ take n inp) want =
        Returned (Inr ((buf @ take n inp) @ take (want - (length buf + n)) (drop n inp)), drop (want - (length buf + n)) (drop n inp), rs')"
        "reads_well rs'" "length rs \<le> length rs' + (want - (length buf + n))"
      by (auto simp del: append_assoc drop_drop)
    have "take n inp @ take (want - (length buf + n)) (drop n inp) = take (want - length buf) inp"
      using n by (metis diff_diff_left le_add_diff_inverse take_add)
    moreover have "want - (length buf + n) + n = want - length buf" using n by simp
    ultimately show ?thesis using r n True k by (simp add: n_def [symmetric] Let_def)
  next
    case False
    with Cons.prems show ?thesis by simp
  qed
qed simp

lemma write_full_all: "writes_well ws \<Longrightarrow> length bs \<le> length ws \<Longrightarrow> write_full ws bs sent = Returned (Inr (), sent @ bs)"
proof (induction ws arbitrary: bs sent)
  case (Cons w ws)
  obtain k where k: "0 < k" "w = SkWrote k" using Cons.prems(1) by (auto simp: writes_well_def)
  have "writes_well ws" using Cons.prems(1) by (simp add: writes_well_def)
  moreover have "bs \<noteq> [] \<Longrightarrow> length bs - min k (length bs) \<le> length ws" using Cons.prems(2) k by (cases bs) auto
  ultimately show ?case using Cons.IH [of "drop (min k (length bs)) bs" "sent @ take (min k (length bs)) bs"] k
    by (simp add: Let_def)
qed simp

section \<open>Serving a client\<close>

lemma answer_sent:
  assumes "json_dumps env = Some r" "length r \<le> DAEMON_OPS_MAX_FRAME_BYTES" "4 + length r \<le> length ws" "writes_well ws"
  shows "answer json_dumps ws env None st = Returned (Inr (), op_frame r, st)"
  using assms write_full_all [of ws "op_frame r" "[]"] length_op_frame [of r]
  by (simp add: answer_def send_envelope_def daemon_envelope_marshal_def op_frame_def)

text \<open>A whole frame is read, however the calls split it, and its text handed to the parser.\<close>

lemma client_reads_frame:
  assumes "reads_well rs" "4 + length t \<le> length rs" "0 < length t" "length t \<le> DAEMON_OPS_MAX_FRAME_BYTES"
  shows "socket_server_handle_client json_loads json_dumps rs ws (op_frame t @ rest) st =
    (case json_loads t of
       Some root \<Rightarrow>
         if json_is_object root then serve_request json_dumps ws root st
         else answer json_dumps ws (daemon_envelope_err None DaemonErr_Einval (Some ''envelope is not a JSON object'') (Some ''body'') None) None st
     | None \<Rightarrow> answer json_dumps ws (daemon_envelope_err None DaemonErr_Einval (Some ''envelope is not a JSON object'') (Some ''body'') None) None st)"
proof -
  let ?in = "op_frame t @ rest"
  obtain rs1 where r1: "read_full rs ?in [] 4 = Returned (Inr (take 4 ?in), drop 4 ?in, rs1)" "reads_well rs1" "length rs \<le> length rs1 + 4"
    using read_full_all [OF assms(1), of 4 "[]" ?in] assms(2) by auto
  have len: "length t \<le> length rs1" "length t \<le> length (drop 4 ?in)" using r1(3) assms(2) by simp_all
  obtain rs2 where r2: "read_full rs1 (drop 4 ?in) [] (length t) = Returned (Inr (take (length t) (drop 4 ?in)), drop (length t) (drop 4 ?in), rs2)"
    using read_full_all [OF r1(2), of "length t" "[]" "drop 4 ?in"] len by auto
  show ?thesis
    unfolding socket_server_handle_client_def DAEMON_OPS_LEN_PREFIX_BYTES_def r1(1)
    using assms(3,4) r2 by (simp add: op_frame_parts [OF assms(4)] Let_def)
qed

section \<open>What a client can do to the daemon\<close>

text \<open>
  Nothing but request a shutdown, or end the daemon by closing the connection before it has its answer;
  \<open>clients_wait\<close> says that none does that.
\<close>

abbreviation stopped :: "DaemonState \<Rightarrow> DaemonState" where
  "stopped st \<equiv> st\<lparr>shutdown_requested := True, clean_shutdown_flag := True\<rparr>"

definition client_result_ok :: "bool \<Rightarrow> DaemonState \<Rightarrow> client_result \<Rightarrow> bool" where
  "client_result_ok waits st r \<longleftrightarrow> (waits \<longrightarrow> r \<noteq> Aborted) \<and>
     (\<forall>rc sent st'. r = Returned (rc, sent, st') \<longrightarrow> st' = st \<or> st' = stopped st)"

lemma read_full_safe: "read_full rs inp buf want \<noteq> Aborted"
  by (induction rs inp buf want rule: read_full.induct) (auto simp: Let_def split: SockRead.split)

lemma write_full_safe: "SkPipe \<notin> set ws \<Longrightarrow> write_full ws bs sent \<noteq> Aborted"
  by (induction ws bs sent rule: write_full.induct) (auto simp: Let_def split: SockWrite.split)

lemma answer_safe:
  assumes "st' = st \<or> st' = stopped st"
  shows "client_result_ok (SkPipe \<notin> set ws) st (answer json_dumps ws env rc st')"
  using assms write_full_safe [of ws]
  by (auto simp: client_result_ok_def answer_def send_envelope_def split: outcome.splits sum.splits)

lemma run_op_cases: "snd (run_op hdl st) = st \<or> snd (run_op hdl st) = stopped st"
  by (cases hdl) (simp_all add: run_op_def daemon_request_shutdown_def)

lemma serve_safe: "client_result_ok (SkPipe \<notin> set ws) st (serve_request json_dumps ws root st)"
  using answer_safe run_op_cases
  by (auto simp: serve_request_def split: sum.split prod.split option.split dest: sym) (metis snd_conv)+

lemma client_safe:
  "client_result_ok (SkPipe \<notin> set ws) st (socket_server_handle_client json_loads json_dumps rs ws inp st)"
proof -
  let ?ok = "client_result_ok (SkPipe \<notin> set ws) st"
  have k: "?ok (Returned (rc, sent, st))" "?ok Blocked" for rc sent by (simp_all add: client_result_ok_def)
  have a: "?ok (answer json_dumps ws env rc st)" for env rc using answer_safe by simp
  show ?thesis
    using read_full_safe k a serve_safe
    by (auto simp: socket_server_handle_client_def Let_def split: outcome.split sum.split prod.split option.split)
qed

definition clients_wait :: "AcceptRet list \<Rightarrow> bool" where
  "clients_wait accs = list_all (\<lambda>a. case a of Accepted c \<Rightarrow> SkPipe \<notin> set (cl_writes c) | _ \<Rightarrow> True) accs"

lemma accept_safe:
  "(clients_wait accs \<longrightarrow> ml_listener_accept json_loads json_dumps accs st \<noteq> Aborted) \<and>
    (\<forall>st'. ml_listener_accept json_loads json_dumps accs st = Returned st' \<longrightarrow> st' = st \<or> st' = stopped st)"
proof (induction accs arbitrary: st)
  case (Cons a accs)
  show ?case
  proof (cases a)
    case (Accepted c)
    let ?r = "socket_server_handle_client json_loads json_dumps (cl_reads c) (cl_writes c) (cl_bytes c) st"
    have "client_result_ok (SkPipe \<notin> set (cl_writes c)) st ?r" using client_safe .
    moreover have "stopped (stopped st) = stopped st" by simp
    ultimately show ?thesis
      using Cons.IH [of st] Cons.IH [of "stopped st"]
      by (cases ?r) (auto simp: Accepted clients_wait_def client_result_ok_def split: prod.split)
  qed (use Cons in \<open>auto simp: clients_wait_def\<close>)
qed simp

text \<open>An answer to a client that has closed its connection ends the daemon.\<close>

lemma answer_pipe:
  "json_dumps env = Some r \<Longrightarrow> length r \<le> DAEMON_OPS_MAX_FRAME_BYTES \<Longrightarrow> answer json_dumps (SkPipe # ws) env rc st = Aborted"
  by (simp add: answer_def send_envelope_def daemon_envelope_marshal_def put_be32_def)

text \<open>
  The specification of the success envelope, member by member: the identifier of the request when it has
  one that is a string.
\<close>

definition success_envelope :: "Json \<Rightarrow> Json \<Rightarrow> Json" where
  "success_envelope root data = JObject ((''ok'', JBool True) #
     (case json_object_get root ''req_id'' of Some (JString rid) \<Rightarrow> [(''req_id'', JString rid)] | _ \<Rightarrow> []) @ [(''data'', data)])"

lemma serve_success:
  assumes "json_object_get root ''op'' = Some (JString op)" "(op, hdl) \<in> set s_op_table" "run_op hdl st = (Inr data, st')"
  shows "json_is_object root" "serve_request json_dumps ws root st = answer json_dumps ws (success_envelope root data) None st'"
proof -
  show o: "json_is_object root" using assms(1) by (cases root) simp_all
  show "serve_request json_dumps ws root st = answer json_dumps ws (success_envelope root data) None st'"
    using assms o op_table_find [OF assms(2)]
    by (simp add: serve_request_def daemon_envelope_parse_def daemon_envelope_ok_def success_envelope_def opt_field_def
        split: option.split Json.split)
qed

lemma client_pipe:
  assumes "reads_well rs" "4 + length t \<le> length rs" "0 < length t" "length t \<le> DAEMON_OPS_MAX_FRAME_BYTES"
    and "json_loads t = Some root" "json_object_get root ''op'' = Some (JString op)" "(op, hdl) \<in> set s_op_table" "run_op hdl st = (Inr data, st')"
    and "json_dumps (success_envelope root data) = Some r" "length r \<le> DAEMON_OPS_MAX_FRAME_BYTES"
  shows "socket_server_handle_client json_loads json_dumps rs (SkPipe # ws) (op_frame t @ rest) st = Aborted"
  unfolding client_reads_frame [OF assms(1-4)]
  by (simp add: assms(5) serve_success [OF assms(6-8)] answer_pipe [where json_dumps = json_dumps, OF assms(9,10)])

section \<open>Properties\<close>

text \<open>A client that asks the daemon to stop, reading and writing three bytes at a time.\<close>

definition ex_request :: Json where
  "ex_request = JObject [(''op'', JString ''daemon.stop''), (''req_id'', JString ''7'')]"

lemma ex_client_facts:
  "reads_well (replicate 10 (SkRead 3))" "writes_well (replicate 10 (SkWrote 3))"
  "(''daemon.stop'', Op_daemon_stop) \<in> set s_op_table" "daemon_envelope_parse ex_request = Inr (''daemon.stop'', None, Some ''7'', None)"
  "length ''{}'' \<le> DAEMON_OPS_MAX_FRAME_BYTES"
  by (simp_all add: reads_well_def writes_well_def s_op_table_def op_tables daemon_envelope_parse_def ex_request_def DAEMON_OPS_MAX_FRAME_BYTES_def)

text \<open>
  A framed envelope reads back: for every envelope the text layer prints within the frame limit and
  parses to itself, the bytes \<open>daemon_envelope_marshal\<close> produces, with anything behind them, are
  unmarshalled to the envelope; and the operation and identifier put into a request are the ones parsed
  out of it.
\<close>

theorem socket_envelope_roundtrip:
  assumes "json_dumps env = Some t" "json_loads t = Some env" "json_is_object env" "length t \<le> DAEMON_OPS_MAX_FRAME_BYTES"
  shows "\<exists>bs. daemon_envelope_marshal json_dumps env = Inr bs \<and>
    daemon_envelope_unmarshal json_loads (bs @ rest) (length (bs @ rest)) = Inr env \<and>
    (env = JObject [(''op'', JString op), (''req_id'', JString req_id)] \<longrightarrow> daemon_envelope_parse env = Inr (op, None, Some req_id, None))"
proof -
  have "daemon_envelope_marshal json_dumps env = Inr (op_frame t)"
    using assms(1,4) by (simp add: daemon_envelope_marshal_def op_frame_def)
  moreover have "daemon_envelope_unmarshal json_loads (op_frame t @ rest) (length (op_frame t @ rest)) = Inr env"
    using assms(2-4) op_frame_parts [OF assms(4)] by (simp add: daemon_envelope_unmarshal_def DAEMON_OPS_LEN_PREFIX_BYTES_def Let_def)
  ultimately show ?thesis by (auto simp: daemon_envelope_parse_def)
qed

theorem socket_envelope_roundtrip_witness:
  "\<exists>bs. daemon_envelope_marshal (\<lambda>_. Some ''{}'') ex_request = Inr bs \<and>
    daemon_envelope_unmarshal (\<lambda>_. Some ex_request) (bs @ [1, 2]) (length (bs @ [1, 2])) = Inr ex_request"
proof -
  have "json_is_object ex_request" by (simp add: ex_request_def)
  from socket_envelope_roundtrip [of "\<lambda>_. Some ''{}''" ex_request "''{}''" "\<lambda>_. Some ex_request", OF HOL.refl HOL.refl this ex_client_facts(5)]
  show ?thesis by blast
qed

text \<open>
  C26: a request is answered. However \<open>read\<close> and \<open>write\<close> split the bytes, a client that sends one frame
  whose object names an operation of the table receives exactly the frame of an object with \<open>ok\<close> true,
  the \<open>req_id\<close> of the request when that is a string, and the handler's data; the service returns 0,
  \<open>daemon.stop\<close> requests a clean shutdown, and no other operation changes the state of the daemon.
\<close>

theorem socket_request_answered:
  assumes "reads_well rs" "4 + length t \<le> length rs" "0 < length t" "length t \<le> DAEMON_OPS_MAX_FRAME_BYTES"
    and "json_loads t = Some root" "json_object_get root ''op'' = Some (JString op)" "(op, hdl) \<in> set s_op_table"
    and "run_op hdl st = (Inr data, st')"
    and "json_dumps (JObject ((''ok'', JBool True) #
      (case json_object_get root ''req_id'' of Some (JString rid) \<Rightarrow> [(''req_id'', JString rid)] | _ \<Rightarrow> []) @ [(''data'', data)])) = Some r"
    and "length r \<le> DAEMON_OPS_MAX_FRAME_BYTES" "4 + length r \<le> length ws" "writes_well ws"
  shows "socket_server_handle_client json_loads json_dumps rs ws (op_frame t @ rest) st = Returned (Inr (), op_frame r, st') \<and>
    st' = (if op = ''daemon.stop'' then st\<lparr>shutdown_requested := True, clean_shutdown_flag := True\<rparr> else st)"
proof -
  have "serve_request json_dumps ws root st = Returned (Inr (), op_frame r, st')"
    unfolding serve_success(2) [OF assms(6-8)] success_envelope_def by (rule answer_sent [where json_dumps = json_dumps, OF assms(9-12)])
  then show ?thesis
    using run_op_state [OF assms(7,8)] client_reads_frame [OF assms(1-4)] assms(5) serve_success(1) [OF assms(6-8)] by simp
qed

text \<open>A printer that knows one envelope only: the answer to the request above.\<close>

definition ex_stop_data :: Json where
  "ex_stop_data = JObject [(''ok'', JBool True), (''ast_snapshotted'', JBool True)]"

definition ex_printer :: "Json \<Rightarrow> string option" where
  "ex_printer env = (if env = JObject [(''ok'', JBool True), (''req_id'', JString ''7''), (''data'', ex_stop_data)] then Some ''{}'' else None)"

lemma ex_stop_facts:
  "json_object_get ex_request ''op'' = Some (JString ''daemon.stop'')"
  "run_op Op_daemon_stop st = (Inr ex_stop_data, st\<lparr>shutdown_requested := True, clean_shutdown_flag := True\<rparr>)"
  "ex_printer (success_envelope ex_request ex_stop_data) = Some ''{}''"
  by (simp_all add: ex_request_def run_op_def daemon_request_shutdown_def ex_stop_data_def ex_printer_def success_envelope_def)

theorem socket_request_answered_witness:
  "\<forall>st. socket_server_handle_client (\<lambda>_. Some ex_request) ex_printer (replicate 10 (SkRead 3)) (replicate 10 (SkWrote 3)) (op_frame ''{}'') st =
     Returned (Inr (), op_frame ''{}'', st\<lparr>shutdown_requested := True, clean_shutdown_flag := True\<rparr>)"
proof
  fix st
  have l: "4 + length ''{}'' \<le> length (replicate 10 (SkRead 3))" "4 + length ''{}'' \<le> length (replicate 10 (SkWrote 3))" "0 < length ''{}''"
    by simp_all
  from socket_request_answered [where json_loads = "\<lambda>_. Some ex_request" and json_dumps = ex_printer and r = "''{}''" and rest = "[]",
      OF ex_client_facts(1) l(1,3) ex_client_facts(5) HOL.refl ex_stop_facts(1) ex_client_facts(3) ex_stop_facts(2)
        ex_stop_facts(3) [unfolded success_envelope_def] ex_client_facts(5) l(2) ex_client_facts(2)]
  show "socket_server_handle_client (\<lambda>_. Some ex_request) ex_printer (replicate 10 (SkRead 3)) (replicate 10 (SkWrote 3)) (op_frame ''{}'') st =
     Returned (Inr (), op_frame ''{}'', st\<lparr>shutdown_requested := True, clean_shutdown_flag := True\<rparr>)" by simp
qed

text \<open>The specification of a refusal: which message and field, and whether the identifier is echoed.\<close>

definition refuse :: "(string \<times> Json) list \<Rightarrow> string \<Rightarrow> string \<Rightarrow> Json" where
  "refuse rid message field = JObject ((''ok'', JBool False) # rid @
     [(''error'', JObject [(''code'', JString ''EINVAL''), (''message'', JString message), (''field'', JString field)])])"

definition refusal :: "Json option \<Rightarrow> Json" where
  "refusal parsed =
     (case parsed of
        Some (JObject ms) \<Rightarrow>
          (case map_of ms ''op'' of
             Some (JString _) \<Rightarrow>
               refuse (case map_of ms ''req_id'' of Some (JString rid) \<Rightarrow> [(''req_id'', JString rid)] | _ \<Rightarrow> []) ''unknown op'' ''op''
           | _ \<Rightarrow> refuse [] ''missing or invalid op'' ''op'')
      | _ \<Rightarrow> refuse [] ''envelope is not a JSON object'' ''body'')"

lemma daemon_envelope_err_spec:
  "daemon_envelope_err rid DaemonErr_Einval (Some message) (Some field) None =
    refuse (case rid of Some r \<Rightarrow> [(''req_id'', JString r)] | None \<Rightarrow> []) message field"
  by (simp add: daemon_envelope_err_def refuse_def opt_field_def split: option.split)

lemma serve_refused:
  assumes "\<not> (\<exists>op. map_of ms ''op'' = Some (JString op) \<and> op \<in> fst ` set s_op_table)"
  shows "serve_request json_dumps ws (JObject ms) st = answer json_dumps ws (refusal (Some (JObject ms))) None st"
proof (cases "\<exists>op. map_of ms ''op'' = Some (JString op)")
  case True
  then obtain op where op: "map_of ms ''op'' = Some (JString op)" ..
  with assms have "daemon_op_table_find op = None" by (intro op_table_find_None) blast
  with op show ?thesis
    by (simp add: serve_request_def daemon_envelope_parse_def refusal_def daemon_envelope_err_spec split: option.split Json.split)
next
  case False
  then have "json_string_value (map_of ms ''op'') = None"
    by (cases "map_of ms ''op''" rule: json_string_value.cases) auto
  with False show ?thesis
    by (auto simp: serve_request_def daemon_envelope_parse_def refusal_def daemon_envelope_err_spec split: option.split Json.split)
qed

text \<open>
  C29: a bad request is refused. However the bytes are split, a complete frame that is not a JSON object, or
  has no operation that is a string, or names one that is not in the table, is answered with exactly
  one frame: an object with \<open>ok\<close> false and an error of code \<open>EINVAL\<close> that says which of the three it was and in
  which field, and in the last case with the \<open>req_id\<close> of the request when that is a string. The service
  returns 0 and the daemon is unchanged.
\<close>

theorem socket_bad_request_refused:
  assumes "reads_well rs" "4 + length t \<le> length rs" "0 < length t" "length t \<le> DAEMON_OPS_MAX_FRAME_BYTES"
    and "\<not> (\<exists>root op. json_loads t = Some root \<and> json_object_get root ''op'' = Some (JString op) \<and> op \<in> fst ` set s_op_table)"
    and "json_dumps (refusal (json_loads t)) = Some r" "length r \<le> DAEMON_OPS_MAX_FRAME_BYTES" "4 + length r \<le> length ws" "writes_well ws"
  shows "socket_server_handle_client json_loads json_dumps rs ws (op_frame t @ rest) st = Returned (Inr (), op_frame r, st)"
proof -
  note a = answer_sent [where json_dumps = json_dumps, OF assms(6-9), of st]
  have "socket_server_handle_client json_loads json_dumps rs ws (op_frame t @ rest) st = answer json_dumps ws (refusal (json_loads t)) None st"
  proof (cases "\<exists>ms. json_loads t = Some (JObject ms)")
    case True
    then obtain ms where ms: "json_loads t = Some (JObject ms)" ..
    with assms(5) have "\<not> (\<exists>op. map_of ms ''op'' = Some (JString op) \<and> op \<in> fst ` set s_op_table)" by auto
    from serve_refused [OF this] ms show ?thesis unfolding client_reads_frame [OF assms(1-4)] by simp
  next
    case False
    then have "json_loads t = None \<or> (\<exists>root. json_loads t = Some root \<and> \<not> json_is_object root)"
      by (cases "json_loads t") (auto elim: json_is_object.elims)
    moreover have "refusal (json_loads t) = refuse [] ''envelope is not a JSON object'' ''body''"
      using False by (auto simp: refusal_def split: option.split Json.split)
    ultimately show ?thesis unfolding client_reads_frame [OF assms(1-4)] by (auto simp: daemon_envelope_err_spec)
  qed
  with a show ?thesis by simp
qed

text \<open>An unknown operation, and a printer that knows the refusal only.\<close>

definition ex_unknown :: Json where
  "ex_unknown = JObject [(''op'', JString ''reboot''), (''req_id'', JString ''8'')]"

definition ex_refusal_printer :: "Json \<Rightarrow> string option" where
  "ex_refusal_printer env = (if env = JObject [(''ok'', JBool False), (''req_id'', JString ''8''),
     (''error'', JObject [(''code'', JString ''EINVAL''), (''message'', JString ''unknown op''), (''field'', JString ''op'')])] then Some ''{}'' else None)"

theorem socket_bad_request_refused_witness:
  "\<forall>st. socket_server_handle_client (\<lambda>_. Some ex_unknown) ex_refusal_printer (replicate 10 (SkRead 3)) (replicate 10 (SkWrote 3)) (op_frame ''hello'' @ []) st =
      Returned (Inr (), op_frame ''{}'', st)"
proof
  fix st
  have p: "ex_refusal_printer (refusal (Some ex_unknown)) = Some ''{}''"
    by (simp add: ex_refusal_printer_def refusal_def refuse_def ex_unknown_def)
  have n: "''reboot'' \<notin> fst ` set s_op_table" by code_simp
  have l: "4 + length ''hello'' \<le> length (replicate 10 (SkRead 3))" "0 < length ''hello''" "length ''hello'' \<le> DAEMON_OPS_MAX_FRAME_BYTES"
    "4 + length ''{}'' \<le> length (replicate 10 (SkWrote 3))"
    by (simp_all add: DAEMON_OPS_MAX_FRAME_BYTES_def)
  from socket_bad_request_refused [where json_loads = "\<lambda>_. Some ex_unknown" and json_dumps = ex_refusal_printer and rest = "[]",
      OF ex_client_facts(1) l(1-3) _ p ex_client_facts(5) l(4) ex_client_facts(2)] n
  show "socket_server_handle_client (\<lambda>_. Some ex_unknown) ex_refusal_printer (replicate 10 (SkRead 3)) (replicate 10 (SkWrote 3)) (op_frame ''hello'' @ []) st =
      Returned (Inr (), op_frame ''{}'', st)" by (auto simp: ex_unknown_def)
qed

end
