(* ===== verification/Daemon.thy ===== *)
theory Daemon
  imports Socket_Server
begin

text \<open>
  The daemon: start-up and wiring (\<open>main\<close> of \<open>sw/tetra_d.c\<close>) and the event loop
  (\<open>sw/main_loop.c\<close>). One record holds the entities, the database, the session snapshot, the DMA
  channels, the bus and the loop's own state. A handler that aborts (a failed assertion, an access
  outside an array) sets \<open>aborted\<close>, after which nothing runs.
\<close>

section \<open>Calling handlers\<close>

text \<open>The function registered as \<open>h\<close>, called by the bus on its entity.\<close>

definition run_handler :: "Handler \<Rightarrow> SapMsg \<Rightarrow> DaemonState \<Rightarrow> DaemonState option" where
  "run_handler h msg st =
     (case h of
        Llc_on_tma_unitdata_ind \<Rightarrow> do {
          (llc, env) \<leftarrow> on_tma_unitdata_ind (d_llc st) (d_env st) msg;
          Some (st\<lparr>d_llc := llc, d_env := env\<rparr>)
        }
      | Llc_on_tle_msg_from_mle \<Rightarrow> do {
          (llc, env) \<leftarrow> on_tle_msg_from_mle (d_llc st) (d_env st) msg;
          Some (st\<lparr>d_llc := llc, d_env := env\<rparr>)
        }
      | Mle_on_tle_msg \<Rightarrow> do {
          (mle, db, env) \<leftarrow> on_tle_msg (d_mle st) (Some (d_db st)) (d_env st) msg;
          Some (st\<lparr>d_mle := mle, d_db := (case db of Some d \<Rightarrow> d | None \<Rightarrow> d_db st), d_env := env\<rparr>)
        }
      | Mle_on_tla_msg \<Rightarrow> Some (st\<lparr>d_mle := on_tla_msg (d_mle st) msg\<rparr>)
      | Mm_on_mm_request \<Rightarrow> do {
          (mm, env) \<leftarrow> on_mm_request (d_mm st) (Some (d_db st)) (d_env st) msg;
          Some (st\<lparr>d_mm := mm, d_env := env\<rparr>)
        }
      | Cmce_on_tle_upcall \<Rightarrow> do {
          (cmce, env) \<leftarrow> on_tle_upcall (d_cmce st) (d_env st) msg;
          Some (st\<lparr>d_cmce := cmce, d_env := env\<rparr>)
        })"

definition or_abort :: "DaemonState \<Rightarrow> DaemonState option \<Rightarrow> DaemonState" where
  "or_abort st r = (case r of Some st' \<Rightarrow> st' | None \<Rightarrow> st\<lparr>aborted := True\<rparr>)"

definition daemon_call :: "Handler \<Rightarrow> SapMsg \<Rightarrow> DaemonState \<Rightarrow> DaemonState" where
  "daemon_call h msg st = (if aborted st then st else or_abort st (run_handler h msg st))"

definition get_bus :: "DaemonState \<Rightarrow> Handler MsgBus" where
  "get_bus st = bus (d_env st)"

definition put_bus :: "Handler MsgBus \<Rightarrow> DaemonState \<Rightarrow> DaemonState" where
  "put_bus b st = st\<lparr>d_env := (d_env st)\<lparr>bus := b\<rparr>\<rparr>"

section \<open>Start-up\<close>

definition BUS_QUEUE_CAP_PER_PRIO :: nat where
  "BUS_QUEUE_CAP_PER_PRIO = 32"

definition BUS_MAX_PAYLOAD_BYTES :: nat where
  "BUS_MAX_PAYLOAD_BYTES = 256"

definition BUS_TOTAL_QUEUES :: nat where
  "BUS_TOTAL_QUEUES = 3 * BUS_QUEUE_CAP_PER_PRIO"

definition bus_cfg :: MsgBusCfg where
  "bus_cfg = \<lparr>queue_cap_per_prio = BUS_QUEUE_CAP_PER_PRIO, max_payload_bytes = BUS_MAX_PAYLOAD_BYTES,
     entry_storage = Some (replicate BUS_TOTAL_QUEUES zero_entry), entry_storage_bytes = BUS_TOTAL_QUEUES * sizeof_MsgBusEntry,
     payload_storage = Some (replicate (BUS_TOTAL_QUEUES * BUS_MAX_PAYLOAD_BYTES) 0),
     payload_storage_bytes = BUS_TOTAL_QUEUES * BUS_MAX_PAYLOAD_BYTES\<rparr>"

text \<open>The zeroed static bus and database.\<close>

definition zero_bus :: "Handler MsgBus" where
  "zero_bus = \<lparr>queues = replicate 3 \<lparr>entries = [], payloads = [], cap = 0, max_payload = 0, head = 0, tail = 0, qcount = 0, drops = 0\<rparr>,
     regs = [], initialised = False\<rparr>"

definition llc_cfg_of_main :: LlcCfg where
  "llc_cfg_of_main = \<lparr>max_retx = LLC_DEFAULT_MAX_RETX\<rparr>"

definition mle_cfg_of_main :: MleCfg where
  "mle_cfg_of_main = \<lparr>accept_unknown = True, default_profile_id = 0, fallback_gssi = 0x2F4D61\<rparr>"

definition cmce_cfg_of_main :: CmceCfg where
  "cmce_cfg_of_main = \<lparr>nwrk_bcast_period_multiframes = CMCE_NWRK_BCAST_PERIOD_MF_DEFAULT,
     cell_re_select_parameters_seed = CMCE_NWRK_DEFAULT_CRSP, cell_load_ca = 0\<rparr>"

text \<open>The entities, initialised in dependency order; the exit code of the first that fails.\<close>

definition init_entities :: "Env \<Rightarrow> nat + Llc \<times> Mle \<times> Mm \<times> Cmce \<times> Env" where
  "init_entities env =
     (let (rc, llc, env) = llc_init env (Some llc_cfg_of_main) in
      case rc of Inl _ \<Rightarrow> Inl 3 | Inr _ \<Rightarrow>
      let (rc, mle, env) = mle_init env (Some mle_cfg_of_main) in
      case rc of Inl _ \<Rightarrow> Inl 4 | Inr _ \<Rightarrow>
      let (rc, mm, env) = mm_init env (Some \<lparr>mm_reserved = 0\<rparr>) in
      case rc of Inl _ \<Rightarrow> Inl 5 | Inr _ \<Rightarrow>
      let (rc, cmce, env) = cmce_init env (Some cmce_cfg_of_main) in
      case rc of Inl _ \<Rightarrow> Inl 6 | Inr _ \<Rightarrow> Inr (llc, mle, mm, cmce, env))"

text \<open>
  \<open>main\<close> up to the event loop. The JSON parser, the outcome of removing a stale temporary file and the
  results of opening the DMA pipes are given; a database or DMA that cannot be opened is reported and
  start-up goes on.
\<close>

definition tetra_d_start ::
  "(string \<Rightarrow> Json option) \<Rightarrow> bool \<Rightarrow> OpenSys list \<Rightarrow> string \<Rightarrow> string \<Rightarrow> Fs \<Rightarrow> (nat + DaemonState) \<times> Fs" where
  "tetra_d_start json_loads unlink_ok dma_sys db_file ast_file fs =
     (let (rc, b) = msgbus_init zero_bus (Some bus_cfg) in
      case rc of Inl _ \<Rightarrow> (Inl 2, fs) | Inr _ \<Rightarrow>
      let (_, db, fs) = db_open json_loads unlink_ok fs db_file zero_db;
          (rc, ast, loaded) = ast_reload json_loads fs ast_file;
          ast = (if rc \<noteq> Inr () then zero_ast else if \<not> loaded then zero_ast else ast);
          (_, dma) = dma_init dma_sys
      in case init_entities \<lparr>bus = b, req_ctr = 0\<rparr> of
           Inl code \<Rightarrow> (Inl code, fs)
         | Inr (llc, mle, mm, cmce, env) \<Rightarrow>
             (Inr \<lparr>d_llc = llc, d_mle = mle, d_mm = mm, d_cmce = cmce, d_db = db, d_env = env, d_ast = ast, d_ast_path = ast_file,
                ast_loaded_at_start = loaded, d_dma = dma, mf_now = 0, shutdown_requested = False, clean_shutdown_flag = False,
                aborted = False\<rparr>, fs))"

section \<open>Event loop\<close>

definition ML_RX_BUF_BYTES :: nat where
  "ML_RX_BUF_BYTES = 4096"

definition tma_ind_of :: "u8 list \<Rightarrow> TmaUnitdataInd" where
  "tma_ind_of frm =
     (let n = (if length frm > TMA_SDU_MAX_BYTES then TMA_SDU_MAX_BYTES else length frm) in
      \<lparr>tma_endpoint = 1, tma_addr = \<lparr>ssi = 0, ssi_type = SsiType_Issi\<rparr>, req_handle = 0, sdu_len_bits = to_u16 (n * 8),
       sdu_bits = take n frm @ replicate (TMA_SDU_MAX_BYTES - n) 0\<rparr>)"

definition ml_dispatch_tma_rx :: "u8 list \<Rightarrow> DaemonState \<Rightarrow> DaemonState" where
  "ml_dispatch_tma_rx frm st =
     (if aborted st then st
      else or_abort st (do {
        (_, llc, env) \<leftarrow> llc_handle_tma_unitdata_ind (d_llc st) (d_env st) (tma_ind_of frm);
        Some (st\<lparr>d_llc := llc, d_env := env\<rparr>)
      }))"

text \<open>The draining loop; one list of system-call results per call of \<open>dma_recv_frame\<close>.\<close>

fun ml_drain_dma_chan :: "(PollRet \<times> ReadRet) list list \<Rightarrow> DmaChan \<Rightarrow> u8 list \<Rightarrow> DaemonState \<Rightarrow> DaemonState outcome" where
  "ml_drain_dma_chan [] ch buf st = Blocked"
| "ml_drain_dma_chan (sys # syss) ch buf st =
     (case dma_recv_frame sys (d_dma st) ch buf ML_RX_BUF_BYTES 0 of
        Blocked \<Rightarrow> Blocked
      | Aborted \<Rightarrow> Aborted
      | Returned (rc, ctx, buf, got) \<Rightarrow>
          let st = st\<lparr>d_dma := ctx\<rparr> in
          case rc of
            Inl _ \<Rightarrow> Returned st
          | Inr n \<Rightarrow>
              if n = 0 \<and> got = 0 then Returned st
              else ml_drain_dma_chan syss ch buf (if ch = DMA_CHAN_TMA_RX then ml_dispatch_tma_rx (take got buf) st else st))"

fun drain_bus :: "nat \<Rightarrow> DaemonState \<Rightarrow> DaemonState" where
  "drain_bus 0 st = st"
| "drain_bus (Suc n) st =
     (case msgbus_dispatch_one get_bus put_bus daemon_call st of
        (Inl _, st) \<Rightarrow> st
      | (Inr rc, st) \<Rightarrow> if rc = 0 then st else drain_bus n st)"

text \<open>The timer tick; \<open>None\<close> is a short read of the timer descriptor.\<close>

definition ml_timer_tick :: "u64 option \<Rightarrow> DaemonState \<Rightarrow> DaemonState" where
  "ml_timer_tick rd st =
     (case rd of
        None \<Rightarrow> st
      | Some expirations \<Rightarrow>
          let st = st\<lparr>mf_now := mf_now st + expirations\<rparr>;
              (fire, cmce) = cmce_nwrk_bcast_tick (d_cmce st) (mf_now st);
              st = st\<lparr>d_cmce := cmce\<rparr>;
              st = (if fire
                    then or_abort st (do {
                      (_, cmce, env) \<leftarrow> cmce_send_d_nwrk_broadcast (d_cmce st) (d_env st);
                      Some (st\<lparr>d_cmce := cmce, d_env := env\<rparr>)
                    })
                    else st)
          in drain_bus 64 st)"

definition ml_signal_event :: "bool \<Rightarrow> DaemonState \<Rightarrow> DaemonState" where
  "ml_signal_event full_read st =
     (if \<not> full_read then st else st\<lparr>shutdown_requested := True, clean_shutdown_flag := True\<rparr>)"

text \<open>
  What \<open>epoll_wait\<close> can report. Between two events the peer may write bytes into a DMA pipe (\<open>EvPeer\<close>).
\<close>

datatype DaemonEvent =
    EvSignal bool
  | EvTimer "u64 option"
  | EvAccept "AcceptRet list"
  | EvDma DmaChan "(PollRet \<times> ReadRet) list list"
  | EvPeer "WriteRet list" DmaChan "u8 list"

definition daemon_event :: "(string \<Rightarrow> Json option) \<Rightarrow> (Json \<Rightarrow> string option) \<Rightarrow> DaemonEvent \<Rightarrow> DaemonState \<Rightarrow> DaemonState outcome" where
  "daemon_event json_loads json_dumps ev st =
     (case ev of
        EvSignal full_read \<Rightarrow> Returned (ml_signal_event full_read st)
      | EvTimer rd \<Rightarrow> Returned (ml_timer_tick rd st)
      | EvAccept accs \<Rightarrow> ml_listener_accept json_loads json_dumps accs st
      | EvDma ch syss \<Rightarrow> ml_drain_dma_chan syss ch (uninit ML_RX_BUF_BYTES) st
      | EvPeer ws ch bs \<Rightarrow>
          (case dma_mock_inject ws (d_dma st) ch bs of
             Returned (_, dma) \<Rightarrow> Returned (st\<lparr>d_dma := dma\<rparr>)
           | Blocked \<Rightarrow> Blocked
           | Aborted \<Rightarrow> Aborted))"

text \<open>The loop returns once a shutdown is requested; with no event left it waits.\<close>

fun main_loop_run :: "(string \<Rightarrow> Json option) \<Rightarrow> (Json \<Rightarrow> string option) \<Rightarrow> DaemonEvent list \<Rightarrow> DaemonState \<Rightarrow> DaemonState outcome" where
  "main_loop_run json_loads json_dumps [] st = (if shutdown_requested st then Returned st else Blocked)"
| "main_loop_run json_loads json_dumps (ev # evs) st =
     (if shutdown_requested st then Returned st
      else case daemon_event json_loads json_dumps ev st of
             Returned st \<Rightarrow> main_loop_run json_loads json_dumps evs st
           | Blocked \<Rightarrow> Blocked
           | Aborted \<Rightarrow> Aborted)"

text \<open>The end of \<open>main\<close>: on a clean shutdown the sessions and the database are saved, failures only reported.\<close>

definition tetra_d_finish :: "(Json \<Rightarrow> string option) \<Rightarrow> SysRet list \<Rightarrow> SysRet list \<Rightarrow> DaemonState \<Rightarrow> Fs \<Rightarrow> Fs" where
  "tetra_d_finish json_dumps ast_calls db_calls st fs =
     (if clean_shutdown_flag st
      then let fs = snd (ast_snapshot json_dumps ast_calls fs (d_ast st) (d_ast_path st))
           in snd (db_atomic_save json_dumps db_calls fs (d_db st))
      else fs)"

section \<open>The bus host\<close>

text \<open>Where each handler is registered.\<close>

definition wired :: "Handler \<Rightarrow> SapId \<Rightarrow> SapId \<Rightarrow> bool" where
  "wired h d p \<longleftrightarrow> (d, p) = (case h of
     Llc_on_tma_unitdata_ind \<Rightarrow> (SapId_TmaSap, SapId_TmaSap)
   | Llc_on_tle_msg_from_mle \<Rightarrow> (SapId_TmaSap, SapId_TleSap)
   | Mle_on_tle_msg \<Rightarrow> (SapId_TmaSap, SapId_TleSap)
   | Mle_on_tla_msg \<Rightarrow> (SapId_TmaSap, SapId_TnmmSap)
   | Mm_on_mm_request \<Rightarrow> (SapId_TmaSap, SapId_TlmcSap)
   | Cmce_on_tle_upcall \<Rightarrow> (SapId_TleSap, SapId_TleSap))"

definition daemon_ok :: "DaemonState \<Rightarrow> bool" where
  "daemon_ok st \<longleftrightarrow> \<not> aborted st \<and> llc_inv (d_llc st) \<and> mle_inv (d_mle st) \<and> cmce_inv (d_cmce st) \<and> calls_pending (d_cmce st) \<and> db_inv (d_db st) \<and>
     length (chans (d_dma st)) = DMA_CHAN_COUNT \<and> (\<forall>ch. chan_inv (chan_of (d_dma st) ch))"

lemma run_handler_ok:
  assumes "daemon_ok st" "msg_ok m" "msg_good m" "wired h (dest m) (sap m)"
  shows "\<exists>st'. run_handler h m st = Some st' \<and> daemon_ok st' \<and> env_posts (d_env st) (d_env st')"
proof -
  have i: "\<not> aborted st" "llc_inv (d_llc st)" "mle_inv (d_mle st)" "cmce_inv (d_cmce st)" "calls_pending (d_cmce st)" "db_inv (d_db st)"
    and db: "db_opt_inv (Some (d_db st))"
    and dma: "length (chans (d_dma st)) = DMA_CHAN_COUNT" "\<forall>ch. chan_inv (chan_of (d_dma st) ch)"
    using assms(1) by (simp_all add: daemon_ok_def db_opt_inv_def)
  show ?thesis
  proof (cases h)
    case Llc_on_tma_unitdata_ind
    with on_tma_unitdata_ind_safe [OF i(2) assms(2), of "d_env st"] i dma show ?thesis
      by (auto simp: llc_safe_def run_handler_def daemon_ok_def)
  next
    case Llc_on_tle_msg_from_mle
    with on_tle_msg_from_mle_safe [OF i(2) assms(2), of "d_env st"] i dma show ?thesis
      by (auto simp: llc_safe_def run_handler_def daemon_ok_def)
  next
    case Mle_on_tle_msg
    with assms(4) have "sap m = SapId_TleSap" by (simp add: wired_def)
    with on_tle_msg_safe [OF i(3) db assms(2,3), of "d_env st"] i dma Mle_on_tle_msg show ?thesis
      by (auto simp: mle_safe_def run_handler_def daemon_ok_def db_opt_inv_def split: option.split)
  next
    case Mle_on_tla_msg
    with on_tla_msg_inv(1) [OF i(3), of m] i dma show ?thesis by (simp add: run_handler_def daemon_ok_def)
  next
    case Mm_on_mm_request
    with on_mm_request_safe [of "d_mm st" "Some (d_db st)" "d_env st" m] i dma show ?thesis
      by (auto simp: run_handler_def daemon_ok_def)
  next
    case Cmce_on_tle_upcall
    with on_tle_upcall_safe [OF i(4) assms(2), of "d_env st"] i dma show ?thesis
      by (auto simp: cmce_safe_def run_handler_def daemon_ok_def)
  qed
qed

interpretation daemon_bus: bus_host get_bus put_bus daemon_call daemon_ok msg_good wired
proof (unfold_locales, goal_cases)
  case (1 b s)
  show ?case by (simp add: get_bus_def put_bus_def)
next
  case (2 s b)
  then show ?case by (simp add: daemon_ok_def put_bus_def)
next
  case (3 s m h)
  with run_handler_ok [OF 3] show ?case
    by (auto simp: daemon_call_def daemon_ok_def or_abort_def env_posts_def get_bus_def)
next
  case (4 s m h)
  with run_handler_ok [OF 4] show ?case by (auto simp: daemon_call_def or_abort_def daemon_ok_def)
next
  case (5 m)
  then show ?case by (simp add: msg_good_norm)
qed

section \<open>Start-up\<close>

text \<open>The registrations after start-up, in order.\<close>

definition daemon_regs :: "Handler MsgBusReg list" where
  "daemon_regs = map (\<lambda>(d, p, h). \<lparr>r_dest = d, r_sap = p, cb = h, active = True\<rparr>)
     [(SapId_TmaSap, SapId_TmaSap, Llc_on_tma_unitdata_ind), (SapId_TmaSap, SapId_TleSap, Llc_on_tle_msg_from_mle),
      (SapId_TmaSap, SapId_TleSap, Mle_on_tle_msg), (SapId_TmaSap, SapId_TnmmSap, Mle_on_tla_msg),
      (SapId_TmaSap, SapId_TlmcSap, Mm_on_mm_request), (SapId_TleSap, SapId_TleSap, Cmce_on_tle_upcall)]"

text \<open>The whole state between events.\<close>

definition daemon_inv :: "DaemonState \<Rightarrow> bool" where
  "daemon_inv st \<longleftrightarrow> daemon_ok st \<and> bus_inv (get_bus st) \<and> bus_good msg_good (get_bus st) \<and> regs (get_bus st) = daemon_regs"

lemma wired_regs: "regs b = daemon_regs \<Longrightarrow> bus_wired wired b"
  by (simp add: bus_wired_def daemon_regs_def wired_def)

lemma start_queue_facts: "queue_inv (init_queue bus_cfg)" "max_payload (init_queue bus_cfg) = 256" "queue_abs (init_queue bus_cfg) = []"
  by (simp_all add: queue_inv_def init_queue_def bus_cfg_def BUS_QUEUE_CAP_PER_PRIO_def BUS_MAX_PAYLOAD_BYTES_def queue_abs_def)

definition start_bus :: "Handler MsgBus" where
  "start_bus = \<lparr>queues = replicate 3 (init_queue bus_cfg), regs = [], initialised = True\<rparr>"

lemma bus_init_ok: "msgbus_init zero_bus (Some bus_cfg) = (Inr (), start_bus)"
  by (simp add: msgbus_init_def bus_cfg_def start_bus_def BUS_QUEUE_CAP_PER_PRIO_def BUS_MAX_PAYLOAD_BYTES_def BUS_TOTAL_QUEUES_def Let_def)

lemma register_ok:
  "sap_id_is_valid d \<Longrightarrow> sap_id_is_valid p \<Longrightarrow> length (regs b) < MSGBUS_REG_CAP \<Longrightarrow> initialised b \<Longrightarrow>
   msgbus_register b d p h = (Inr (), b\<lparr>regs := regs b @ [\<lparr>r_dest = d, r_sap = p, cb = h, active = True\<rparr>]\<rparr>)"
  by (simp add: msgbus_register_def reg_count_def)

lemma valid_saps: "sap_id_is_valid SapId_TmaSap" "sap_id_is_valid SapId_TleSap" "sap_id_is_valid SapId_TnmmSap" "sap_id_is_valid SapId_TlmcSap"
  by (simp_all add: sap_id_is_valid_def)

lemma init_entities_ok:
  "\<exists>llc mle mm cmce. init_entities \<lparr>bus = start_bus, req_ctr = 0\<rparr> =
     Inr (llc, mle, mm, cmce, \<lparr>bus = start_bus\<lparr>regs := daemon_regs\<rparr>, req_ctr = 0\<rparr>) \<and>
   llc_inv llc \<and> llc_initialised llc \<and> mle_inv mle \<and> mle_initialised mle \<and> mm_initialised mm \<and>
   cmce_inv cmce \<and> calls_pending cmce \<and> cmce_initialised cmce"
proof -
  note r = register_ok valid_saps start_bus_def MSGBUS_REG_CAP_def
  obtain llc where l: "llc_init \<lparr>bus = start_bus, req_ctr = 0\<rparr> (Some llc_cfg_of_main) =
      (Inr (), llc, \<lparr>bus = start_bus\<lparr>regs := take 2 daemon_regs\<rparr>, req_ctr = 0\<rparr>)" "llc_initialised llc" "endpoints llc = endpoints zero_llc"
    by (simp add: llc_init_def r daemon_regs_def Let_def llc_cfg_of_main_def LLC_DEFAULT_MAX_RETX_def)
  obtain mle where e: "mle_init \<lparr>bus = start_bus\<lparr>regs := take 2 daemon_regs\<rparr>, req_ctr = 0\<rparr> (Some mle_cfg_of_main) =
      (Inr (), mle, \<lparr>bus = start_bus\<lparr>regs := take 4 daemon_regs\<rparr>, req_ctr = 0\<rparr>)" "mle_initialised mle" "sessions mle = sessions zero_mle"
    by (simp add: mle_init_def r daemon_regs_def Let_def)
  obtain mm where m: "mm_init \<lparr>bus = start_bus\<lparr>regs := take 4 daemon_regs\<rparr>, req_ctr = 0\<rparr> (Some \<lparr>mm_reserved = 0\<rparr>) =
      (Inr (), mm, \<lparr>bus = start_bus\<lparr>regs := take 5 daemon_regs\<rparr>, req_ctr = 0\<rparr>)" "mm_initialised mm"
    by (simp add: mm_init_def r daemon_regs_def Let_def)
  obtain cmce where c: "cmce_init \<lparr>bus = start_bus\<lparr>regs := take 5 daemon_regs\<rparr>, req_ctr = 0\<rparr> (Some cmce_cfg_of_main) =
      (Inr (), cmce, \<lparr>bus = start_bus\<lparr>regs := daemon_regs\<rparr>, req_ctr = 0\<rparr>)"
    by (simp add: cmce_init_def r daemon_regs_def Let_def)
  have "llc_inv llc" using l(3) by (simp add: llc_inv_def zero_llc_def slot_inv_def zero_endpoint_def ep_ok_def)
  moreover have "mle_inv mle" using e(3) by (simp add: mle_inv_def zero_mle_def zero_session_def session_ok_def slot_inv_def)
  ultimately show ?thesis
    using l(1,2) e(1,2) m c cmce_init_state(2-4) [OF c] by (simp add: init_entities_def)
qed

lemma dma_init_ok:
  assumes "dma_init syss = (rc, ctx)"
  shows "length (chans ctx) = DMA_CHAN_COUNT" "chan_inv (chan_of ctx ch)"
proof -
  have z: "chan_inv (zero_chan\<lparr>pipe_rd := a, pipe_wr := b\<rparr>)" for a b by (simp add: chan_inv_def zero_chan_def)
  have c: "chan_inv (mock_close_chan s) = chan_inv s" for s by (simp add: mock_close_chan_def chan_inv_def)
  have p: "chan_inv s' = chan_inv s" if "mock_open_chan y s = (r, s')" for y s r s'
    using that by (auto simp: mock_open_chan_def chan_inv_def split: sum.splits prod.splits option.splits)
  have "length (snd (open_chans ys i cs)) = length cs \<and> (\<forall>s\<in>set (snd (open_chans ys i cs)). chan_inv s)"
    if "\<forall>s\<in>set cs. chan_inv s" "i + length ys \<le> length cs" for ys i cs
    using that
  proof (induction ys arbitrary: i cs)
    case (Cons y ys)
    obtain r s where o: "mock_open_chan y (cs ! i) = (r, s)" by force
    have "chan_inv s" using p [OF o] Cons.prems by auto
    with Cons.prems(1) have a: "\<forall>t\<in>set (cs[i := s]). chan_inv t" using set_update_subset_insert [of cs i s] by auto
    show ?case
    proof (cases r)
      case (Inl e)
      have "set (take i (cs[i := s])) \<subseteq> set (cs[i := s])" "set (drop i (cs[i := s])) \<subseteq> set (cs[i := s])"
        by (rule set_take_subset set_drop_subset)+
      with a c o Inl Cons.prems(2) show ?thesis by auto
    next
      case (Inr u)
      with Cons.IH [OF a, of "Suc i"] o Cons.prems(2) show ?thesis by simp
    qed
  qed simp
  from this [of "replicate DMA_CHAN_COUNT (zero_chan\<lparr>pipe_rd := -1, pipe_wr := -1\<rparr>)" 0 "take DMA_CHAN_COUNT syss"] z
  have "length (chans ctx) = DMA_CHAN_COUNT \<and> (\<forall>s\<in>set (chans ctx). chan_inv s)"
    using assms by (auto simp: dma_init_def split_beta Let_def)
  moreover have "DmaChan_index ch < DMA_CHAN_COUNT" by (cases ch) (simp_all add: DMA_CHAN_COUNT_def)
  ultimately show "length (chans ctx) = DMA_CHAN_COUNT" "chan_inv (chan_of ctx ch)" by (simp_all add: chan_of_def)
qed

lemma start_shape:
  assumes "tetra_d_start json_loads u dma_sys db_file ast_file fs = (Inr st, fs')"
  shows "daemon_inv st" "mm_initialised (d_mm st)" "mle_initialised (d_mle st)" "llc_initialised (d_llc st)" "cmce_initialised (d_cmce st)"
    "fs' = snd (snd (db_open json_loads u fs db_file zero_db))" "\<not> shutdown_requested st" "d_ast_path st = ast_file"
    "ast_reload json_loads fs' ast_file = (rc, a, ld) \<Longrightarrow> ast_loaded_at_start st = ld \<and> (ld \<longrightarrow> rc = Inr () \<longrightarrow> d_ast st = a)"
proof -
  obtain llc mle mm cmce where e: "init_entities \<lparr>bus = start_bus, req_ctr = 0\<rparr> =
       Inr (llc, mle, mm, cmce, \<lparr>bus = start_bus\<lparr>regs := daemon_regs\<rparr>, req_ctr = 0\<rparr>)"
    and ok: "llc_inv llc" "llc_initialised llc" "mle_inv mle" "mle_initialised mle" "mm_initialised mm"
      "cmce_inv cmce" "calls_pending cmce" "cmce_initialised cmce"
    using init_entities_ok by blast
  obtain r1 db f1 where o: "db_open json_loads u fs db_file zero_db = (r1, db, f1)" by (metis prod.collapse)
  obtain r2 a2 l2 where a: "ast_reload json_loads f1 ast_file = (r2, a2, l2)" by (metis prod.collapse)
  obtain r3 dma where d: "dma_init dma_sys = (r3, dma)" by force
  have db: "db_inv db" using db_open_inv [OF zero_db_inv(2), of json_loads u fs db_file] o by simp
  have st: "st = \<lparr>d_llc = llc, d_mle = mle, d_mm = mm, d_cmce = cmce, d_db = db, d_env = \<lparr>bus = start_bus\<lparr>regs := daemon_regs\<rparr>, req_ctr = 0\<rparr>,
      d_ast = (if r2 \<noteq> Inr () then zero_ast else if \<not> l2 then zero_ast else a2), d_ast_path = ast_file, ast_loaded_at_start = l2, d_dma = dma, mf_now = 0,
      shutdown_requested = False, clean_shutdown_flag = False, aborted = False\<rparr>" "fs' = f1"
    using assms e o a d by (simp_all add: tetra_d_start_def bus_init_ok)
  have "bus_inv (start_bus\<lparr>regs := daemon_regs\<rparr>)"
    using start_queue_facts by (simp add: bus_inv_def start_bus_def reg_count_def daemon_regs_def MSGBUS_REG_CAP_def)
  moreover have "bus_good msg_good (start_bus\<lparr>regs := daemon_regs\<rparr>)"
    using start_queue_facts(3) by (simp add: bus_good_def start_bus_def)
  ultimately show "daemon_inv st"
    using ok db dma_init_ok [OF d] by (simp add: st daemon_inv_def daemon_ok_def get_bus_def)
  show "mm_initialised (d_mm st)" "mle_initialised (d_mle st)" "llc_initialised (d_llc st)" "cmce_initialised (d_cmce st)"
    "fs' = snd (snd (db_open json_loads u fs db_file zero_db))" "\<not> shutdown_requested st" "d_ast_path st = ast_file"
    using ok o by (simp_all add: st)
  show "ast_loaded_at_start st = ld \<and> (ld \<longrightarrow> rc = Inr () \<longrightarrow> d_ast st = a)" if "ast_reload json_loads fs' ast_file = (rc, a, ld)"
    using that a st by auto
qed

section \<open>Events\<close>

lemma dispatch_keeps:
  assumes "daemon_inv st"
  shows "daemon_inv (snd (msgbus_dispatch_one get_bus put_bus daemon_call st))"
  using daemon_bus.dispatch_inv [of st] assms wired_regs [of "get_bus st"] by (simp add: daemon_inv_def)

lemma drain_bus_keeps: "daemon_inv st \<Longrightarrow> daemon_inv (drain_bus n st)"
proof (induction n arbitrary: st)
  case (Suc n)
  obtain rc s where "msgbus_dispatch_one get_bus put_bus daemon_call st = (rc, s)" by force
  with dispatch_keeps [OF Suc.prems] Suc.IH show ?case by (auto split: sum.split)
qed simp

text \<open>A step that changes the bus by good posts only, and keeps the rest well formed, keeps the invariant.\<close>

lemma posts_keep:
  assumes "daemon_inv st" "daemon_ok st'" "env_posts (d_env st) (d_env st')"
  shows "daemon_inv st'"
proof -
  have p: "posts_to msg_good (get_bus st) (get_bus st')" using assms(3) by (simp add: env_posts_def get_bus_def)
  have i: "bus_inv (get_bus st)" "bus_good msg_good (get_bus st)" "regs (get_bus st) = daemon_regs" using assms(1) by (simp_all add: daemon_inv_def)
  from posts_to_grows [OF p i(1)] posts_to_good [OF p msg_good_norm i(1,2)] i(3) assms(2) show ?thesis
    by (simp add: daemon_inv_def bus_grows_def)
qed

lemma rx_keeps:
  assumes "daemon_inv st"
  shows "daemon_inv (ml_dispatch_tma_rx frm st)" "d_dma (ml_dispatch_tma_rx frm st) = d_dma st"
proof -
  have ok: "daemon_ok st" using assms by (simp add: daemon_inv_def)
  then have l: "llc_inv (d_llc st)" "\<not> aborted st" by (simp_all add: daemon_ok_def)
  have b: "length (sdu_bits (tma_ind_of frm)) = 64" by (simp add: tma_ind_of_def TMA_SDU_MAX_BYTES_def Let_def)
  obtain rc llc env where h: "llc_handle_tma_unitdata_ind (d_llc st) (d_env st) (tma_ind_of frm) = Some (rc, llc, env)"
      "llc_inv llc" "env_posts (d_env st) env"
    using llc_handle_ind_safe [OF l(1) b, of "d_env st"] by blast
  have r: "ml_dispatch_tma_rx frm st = st\<lparr>d_llc := llc, d_env := env\<rparr>"
    using h(1) l(2) by (simp add: ml_dispatch_tma_rx_def or_abort_def)
  have "daemon_ok (st\<lparr>d_llc := llc, d_env := env\<rparr>)" using ok h(2) by (simp add: daemon_ok_def)
  with posts_keep [OF assms this] h(3) show "daemon_inv (ml_dispatch_tma_rx frm st)" by (simp add: r)
  show "d_dma (ml_dispatch_tma_rx frm st) = d_dma st" by (simp add: r)
qed

section \<open>Draining a channel\<close>

text \<open>What one attempt to extract does to the stream: nothing, an error that never adds bytes, or a frame taken off.\<close>

lemma extract_stream:
  assumes "reasm_try_extract s buf c n = Some (rc, s', buf', n')" "chan_inv s"
  shows "rc = Inr 0 \<and> s' = s \<and> n' = n \<or> rc = Inr 1 \<and> length (stream s') < length (stream s) \<or> (\<exists>e. rc = Inl e)"
proof -
  let ?t = "DMA_FRAME_HEADER_BYTES + unat (be32_load (reasm s) 4)"
  have "length (stream (reasm_drop ?t s)) < length (stream s)" if "?t \<le> reasm_used s"
    using reasm_drop_ok(4) [OF assms(2) that] that length_staged [OF assms(2)] by (simp add: stream_def DMA_FRAME_HEADER_BYTES_def)
  then show ?thesis
    using assms(1) by (auto simp: reasm_try_extract_def Let_def stream_def staged_def DMA_FRAME_HEADER_BYTES_def split: if_splits bind_splits)
qed

lemma read_one_stream:
  assumes "chan_inv s" "reasm_read_one r s = (Inr m, s')"
  shows "stream s' = stream s \<and> chan_inv s'"
proof (cases "reasm_used s < DMA_REASM_CAP_BYTES \<and> (\<exists>k. r = ReadUpTo k)")
  case True
  then obtain k where "reasm_used s < DMA_REASM_CAP_BYTES" "reasm_read_one (ReadUpTo k) s = (Inr m, s')" using assms(2) by blast
  from read_one_ok(2,3) [OF assms(1) this(1) HOL.refl this(2)] show ?thesis by simp
next
  case False
  with assms show ?thesis by (cases r) (auto simp: reasm_read_one_def split: if_splits)
qed

lemma recv_loop_shrinks:
  "recv_loop sys s buf c 0 0 = Returned (Inr m, s', buf', n) \<Longrightarrow> chan_inv s \<Longrightarrow> \<not> (m = 0 \<and> n = 0) \<Longrightarrow> length (stream s') < length (stream s)"
proof (induction sys)
  case (Cons x sys)
  obtain p r where x: "x = (p, r)" by force
  show ?case
  proof (cases p)
    case (PollEvents pin hup)
    obtain rc s1 where r: "reasm_read_one r s = (rc, s1)" by force
    then obtain k where k: "rc = Inr k" "k \<noteq> 0" and e: "extract_then (reasm_try_extract s1 buf c 0) (\<lambda>s buf n. Returned (Inr 0, s, buf, n)) = Returned (Inr m, s', buf', n)"
      using Cons.prems x PollEvents by (auto split: if_splits sum.splits)
    have s1: "stream s1 = stream s" "chan_inv s1" using read_one_stream [OF Cons.prems(2) r [unfolded k(1)]] by simp_all
    obtain rc2 s2 b2 n2 where t: "reasm_try_extract s1 buf c 0 = Some (rc2, s2, b2, n2)"
      using e by (auto simp: extract_then_def split: option.splits)
    from extract_stream [OF t s1(2)] e t s1(1) Cons.prems(3) show ?thesis by (auto simp: extract_then_def)
  qed (use Cons x in auto)
qed simp

lemma recv_frame_shrinks:
  assumes "dma_recv_frame sys ctx ch buf c 0 = Returned (Inr m, ctx', buf', n)" "chan_inv (chan_of ctx ch)" "length (chans ctx) = DMA_CHAN_COUNT"
    "\<not> (m = 0 \<and> n = 0)"
  shows "length (dma_stream ctx' ch) < length (dma_stream ctx ch)"
proof -
  obtain s' where r: "recv_chan sys (chan_of ctx ch) buf c 0 = Returned (Inr m, s', buf', n)" "ctx' = set_chan ctx ch s'"
    using assms(1) by (auto simp: dma_recv_frame_def split: outcome.splits prod.splits)
  obtain rc2 s2 b2 n2 where t: "reasm_try_extract (chan_of ctx ch) buf c 0 = Some (rc2, s2, b2, n2)"
    using r(1) by (cases "reasm_try_extract (chan_of ctx ch) buf c 0") (auto simp: recv_chan_def extract_then_def split: if_splits)
  have "length (stream s') < length (stream (chan_of ctx ch))"
    using extract_stream [OF t assms(2)] r(1) t assms(4) recv_loop_shrinks [of sys "chan_of ctx ch" b2 c m s' buf' n] assms(2)
    by (auto simp: recv_chan_def extract_then_def split: if_splits)
  then show ?thesis using r(2) assms(3) by simp
qed

lemma chan_of_set: "length (chans ctx) = DMA_CHAN_COUNT \<Longrightarrow> chan_of (set_chan ctx ch s) ch' = (if ch' = ch then s else chan_of ctx ch')"
  by (cases ch; cases ch') (simp_all add: chan_of_def set_chan_def DMA_CHAN_COUNT_def)

lemma recv_frame_keeps:
  assumes "daemon_inv st" "dma_recv_frame sys (d_dma st) ch buf ML_RX_BUF_BYTES 0 = Returned (rc, ctx, buf', n)" "length buf = ML_RX_BUF_BYTES"
  shows "daemon_inv (st\<lparr>d_dma := ctx\<rparr>)" "length buf' = ML_RX_BUF_BYTES"
proof -
  have d: "length (chans (d_dma st)) = DMA_CHAN_COUNT" "\<And>ch. chan_inv (chan_of (d_dma st) ch)"
    using assms(1) by (simp_all add: daemon_inv_def daemon_ok_def)
  have "ML_RX_BUF_BYTES \<le> length buf" using assms(3) by simp
  from recv_frame_total [OF d(1,2) this, of sys ch 0] assms(2)
  have r: "chan_inv (chan_of ctx ch)" and b: "length buf' = ML_RX_BUF_BYTES" using assms(3) by auto
  obtain s where s: "ctx = set_chan (d_dma st) ch s" using assms(2) by (auto simp: dma_recv_frame_def split: outcome.splits prod.splits)
  have "chan_inv (chan_of ctx ch')" "length (chans ctx) = DMA_CHAN_COUNT" for ch'
    using r d by (auto simp: s chan_of_set)
  then show "daemon_inv (st\<lparr>d_dma := ctx\<rparr>)" "length buf' = ML_RX_BUF_BYTES"
    using assms(1) b by (simp_all add: daemon_inv_def daemon_ok_def get_bus_def)
qed

lemma drain_keeps:
  "daemon_inv st \<Longrightarrow> length buf = ML_RX_BUF_BYTES \<Longrightarrow> ml_drain_dma_chan syss ch buf st \<noteq> Aborted \<and>
    (\<forall>st'. ml_drain_dma_chan syss ch buf st = Returned st' \<longrightarrow> daemon_inv st')"
proof (induction syss arbitrary: st buf)
  case (Cons sys syss)
  have d: "length (chans (d_dma st)) = DMA_CHAN_COUNT" "\<And>ch. chan_inv (chan_of (d_dma st) ch)"
    using Cons.prems(1) by (simp_all add: daemon_inv_def daemon_ok_def)
  have "ML_RX_BUF_BYTES \<le> length buf" using Cons.prems(2) by simp
  from recv_frame_total [OF d(1,2) this, of sys ch 0] have na: "dma_recv_frame sys (d_dma st) ch buf ML_RX_BUF_BYTES 0 \<noteq> Aborted" by simp
  show ?case
  proof (cases "dma_recv_frame sys (d_dma st) ch buf ML_RX_BUF_BYTES 0")
    case (Returned x)
    obtain rc ctx buf' n where x: "x = (rc, ctx, buf', n)" by (metis prod.collapse)
    note k = recv_frame_keeps [OF Cons.prems(1) Returned [unfolded x] Cons.prems(2)]
    have "daemon_inv (if ch = DMA_CHAN_TMA_RX then ml_dispatch_tma_rx (take n buf') (st\<lparr>d_dma := ctx\<rparr>) else st\<lparr>d_dma := ctx\<rparr>)"
      using k(1) rx_keeps(1) by simp
    from Cons.IH [OF this k(2)] k(1) Returned x show ?thesis by (auto simp: Let_def split: sum.split)
  qed (use na in auto)
qed simp

lemma drain_returns:
  "daemon_inv st \<Longrightarrow> length buf = ML_RX_BUF_BYTES \<Longrightarrow> \<forall>sys\<in>set syss. \<exists>x\<in>set sys. fst x \<noteq> PollIntr \<Longrightarrow>
   length (dma_stream (d_dma st) ch) < length syss \<Longrightarrow> \<exists>st'. ml_drain_dma_chan syss ch buf st = Returned st'"
proof (induction syss arbitrary: st buf)
  case (Cons sys syss)
  have d: "length (chans (d_dma st)) = DMA_CHAN_COUNT" "\<And>ch. chan_inv (chan_of (d_dma st) ch)"
    using Cons.prems(1) by (simp_all add: daemon_inv_def daemon_ok_def)
  have "ML_RX_BUF_BYTES \<le> length buf" using Cons.prems(2) by simp
  from recv_frame_total [OF d(1,2) this, of sys ch 0] Cons.prems(3)
  obtain rc ctx buf' n where x: "dma_recv_frame sys (d_dma st) ch buf ML_RX_BUF_BYTES 0 = Returned (rc, ctx, buf', n)"
    by (cases "dma_recv_frame sys (d_dma st) ch buf ML_RX_BUF_BYTES 0") auto
  note k = recv_frame_keeps [OF Cons.prems(1) x Cons.prems(2)]
  let ?st = "if ch = DMA_CHAN_TMA_RX then ml_dispatch_tma_rx (take n buf') (st\<lparr>d_dma := ctx\<rparr>) else st\<lparr>d_dma := ctx\<rparr>"
  have i: "daemon_inv ?st" "d_dma ?st = ctx" using k(1) rx_keeps by simp_all
  show ?case
  proof (cases "\<exists>m. rc = Inr m \<and> \<not> (m = 0 \<and> n = 0)")
    case True
    then obtain m where m: "rc = Inr m" "\<not> (m = 0 \<and> n = 0)" by blast
    have "length (dma_stream ctx ch) < length (dma_stream (d_dma st) ch)" using recv_frame_shrinks [OF x [unfolded m(1)] d(2,1) m(2)] .
    then have "length (dma_stream (d_dma ?st) ch) < length syss" using Cons.prems(4) i(2) by simp
    from Cons.IH [OF i(1) k(2) _ this] Cons.prems(3) x m show ?thesis by (auto simp: Let_def)
  next
    case False
    with x show ?thesis by (cases rc) (auto simp: Let_def)
  qed
qed simp

section \<open>Runs of the daemon\<close>

lemma tick_keeps:
  assumes "daemon_inv st"
  shows "daemon_inv (ml_timer_tick rd st)"
proof (cases rd)
  case (Some n)
  define c where "c = snd (cmce_nwrk_bcast_tick (d_cmce st) (mf_now st + n))"
  define st1 where "st1 = st\<lparr>mf_now := mf_now st + n, d_cmce := c\<rparr>"
  have c: "cmce_inv c = cmce_inv (d_cmce st)" "calls_pending c = calls_pending (d_cmce st)"
    unfolding c_def using tick_calls(1) by (rule cmce_inv_cong)+
  have i: "daemon_inv st1" using assms c by (simp add: st1_def daemon_inv_def daemon_ok_def get_bus_def)
  obtain rc c2 env2 where b: "cmce_send_d_nwrk_broadcast (d_cmce st1) (d_env st1) = Some (rc, c2, env2)" "calls c2 = calls (d_cmce st1)"
      "env_posts (d_env st1) env2"
    using bcast_safe [of "d_cmce st1" "d_env st1"] by blast
  let ?st2 = "st1\<lparr>d_cmce := c2, d_env := env2\<rparr>"
  have "daemon_ok ?st2" using i cmce_inv_cong(1,2) [OF b(2)] by (simp add: daemon_inv_def daemon_ok_def)
  from posts_keep [OF i this] b(3) have i2: "daemon_inv ?st2" by simp
  have "ml_timer_tick rd st = drain_bus 64 (if fst (cmce_nwrk_bcast_tick (d_cmce st) (mf_now st + n)) then ?st2 else st1)"
    using b(1) by (simp add: Some ml_timer_tick_def st1_def c_def or_abort_def split_beta Let_def)
  with drain_bus_keeps [OF i] drain_bus_keeps [OF i2] show ?thesis by (simp split: if_split)
qed (use assms in \<open>simp add: ml_timer_tick_def\<close>)

lemma write_all_inv: "write_all ws s bs \<noteq> Aborted \<and> (\<forall>rc s' ws'. write_all ws s bs = Returned (rc, s', ws') \<longrightarrow> chan_inv s' = chan_inv s)"
proof (induction ws s bs rule: write_all.induct)
  case (2 w ws s bs)
  have "chan_inv (s\<lparr>pipe := x\<rparr>) = chan_inv s" for x by (simp add: chan_inv_def)
  with 2 show ?case by (cases w) (simp_all add: Let_def)
qed simp

lemma inject_keeps:
  assumes "daemon_inv st" "dma_mock_inject ws (d_dma st) ch bs = Returned (rc, dma)"
  shows "daemon_inv (st\<lparr>d_dma := dma\<rparr>)"
proof -
  have d: "length (chans (d_dma st)) = DMA_CHAN_COUNT" "\<And>ch. chan_inv (chan_of (d_dma st) ch)"
    using assms(1) by (simp_all add: daemon_inv_def daemon_ok_def)
  have "length (chans dma) = DMA_CHAN_COUNT \<and> (\<forall>c. chan_inv (chan_of dma c))"
    using assms(2) d chan_of_set [OF d(1)] write_all_inv [of ws "chan_of (d_dma st) ch" bs]
    by (auto simp: dma_mock_inject_def Let_def split: if_splits outcome.splits)
  with assms(1) show ?thesis by (simp add: daemon_inv_def daemon_ok_def get_bus_def)
qed

lemma inject_returns: "dma_mock_inject ws dma ch bs \<noteq> Aborted"
  using write_all_inv [of ws "chan_of dma ch" bs] by (auto simp: dma_mock_inject_def Let_def split: outcome.splits)

text \<open>No client closes its connection before it has its answer.\<close>

definition event_polite :: "DaemonEvent \<Rightarrow> bool" where
  "event_polite ev = (case ev of EvAccept accs \<Rightarrow> clients_wait accs | _ \<Rightarrow> True)"

lemma event_keeps:
  assumes "daemon_inv st"
  shows "(event_polite ev \<longrightarrow> daemon_event jl jd ev st \<noteq> Aborted) \<and> (\<forall>st'. daemon_event jl jd ev st = Returned st' \<longrightarrow> daemon_inv st')"
proof -
  have f: "daemon_inv (st\<lparr>shutdown_requested := True, clean_shutdown_flag := True\<rparr>)"
    using assms by (simp add: daemon_inv_def daemon_ok_def get_bus_def)
  have "length (uninit ML_RX_BUF_BYTES) = ML_RX_BUF_BYTES" by simp
  note d = drain_keeps [OF assms this]
  show ?thesis
  proof (cases ev)
    case (EvPeer ws ch bs)
    from inject_returns [of ws "d_dma st" ch bs] inject_keeps [OF assms, of ws ch bs] show ?thesis
      by (auto simp: EvPeer daemon_event_def split: outcome.split)
  next
    case (EvAccept accs)
    from accept_safe [of accs jl jd st] f assms show ?thesis by (auto simp: EvAccept daemon_event_def event_polite_def)
  qed (use d f tick_keeps [OF assms] assms in \<open>simp_all add: daemon_event_def ml_signal_event_def\<close>)
qed

text \<open>The states the daemon can be in between two events.\<close>

inductive daemon_reach :: "(string \<Rightarrow> Json option) \<Rightarrow> (Json \<Rightarrow> string option) \<Rightarrow> DaemonState \<Rightarrow> bool"
  for jl jd where
  reach_start: "tetra_d_start jl u dma_sys db_file ast_file fs = (Inr st, fs') \<Longrightarrow> daemon_reach jl jd st"
| reach_event: "daemon_reach jl jd st \<Longrightarrow> \<not> shutdown_requested st \<Longrightarrow> daemon_event jl jd ev st = Returned st' \<Longrightarrow> daemon_reach jl jd st'"

lemma reach_daemon_inv: "daemon_reach jl jd st \<Longrightarrow> daemon_inv st"
proof (induction rule: daemon_reach.induct)
  case (reach_start u dma_sys db_file ast_file fs st fs')
  then show ?case by (rule start_shape(1))
next
  case (reach_event st ev st')
  with event_keeps [of st ev jl jd] show ?case by blast
qed

lemma start_total: "\<exists>st fs'. tetra_d_start json_loads u dma_sys db_file ast_file fs = (Inr st, fs')"
proof -
  obtain llc mle mm cmce where e: "init_entities \<lparr>bus = start_bus, req_ctr = 0\<rparr> =
      Inr (llc, mle, mm, cmce, \<lparr>bus = start_bus\<lparr>regs := daemon_regs\<rparr>, req_ctr = 0\<rparr>)"
    using init_entities_ok by blast
  have "\<exists>st. fst (tetra_d_start json_loads u dma_sys db_file ast_file fs) = Inr st"
    unfolding tetra_d_start_def bus_init_ok Let_def split_beta fst_conv snd_conv sum.case e by simp
  then obtain st where "fst (tetra_d_start json_loads u dma_sys db_file ast_file fs) = Inr st" by blast
  then have "tetra_d_start json_loads u dma_sys db_file ast_file fs = (Inr st, snd (tetra_d_start json_loads u dma_sys db_file ast_file fs))"
    by (simp only: prod_eq_iff fst_conv snd_conv)
  then show ?thesis by blast
qed

section \<open>Routing\<close>

text \<open>The handlers a message is delivered to.\<close>

definition handlers_for :: "DaemonState \<Rightarrow> SapMsg \<Rightarrow> Handler list" where
  "handlers_for st m = map cb (filter (\<lambda>r. active r \<and> r_dest r = dest m \<and> r_sap r = sap m) (regs (get_bus st)))"

lemma deliver_handlers:
  "daemon_bus.deliver m (regs (get_bus st)) s = fold (\<lambda>h. daemon_call h m) (handlers_for st m) s"
  by (simp add: daemon_bus.deliver_def handlers_for_def fold_map o_def)

lemma handlers_of_wiring:
  assumes "regs (get_bus st) = daemon_regs"
  shows "handlers_for st m =
    (if sap m = SapId_TmaSap \<and> dest m = SapId_TmaSap then [Llc_on_tma_unitdata_ind]
     else if sap m = SapId_TleSap \<and> dest m = SapId_TmaSap then [Llc_on_tle_msg_from_mle, Mle_on_tle_msg]
     else if sap m = SapId_TnmmSap \<and> dest m = SapId_TmaSap then [Mle_on_tla_msg]
     else if sap m = SapId_TlmcSap \<and> dest m = SapId_TmaSap then [Mm_on_mm_request]
     else if sap m = SapId_TleSap \<and> dest m = SapId_TleSap then [Cmce_on_tle_upcall] else [])"
  by (cases "sap m"; cases "dest m") (simp_all add: handlers_for_def assms daemon_regs_def)

text \<open>What start-up takes from the database, the snapshot and the DMA pipes; the bus is empty.\<close>

lemma start_parts:
  assumes "tetra_d_start json_loads u dma_sys db_file ast_file fs = (Inr st, fs')"
    and "db_open json_loads u fs db_file zero_db = (rc, db, fs1)" "ast_reload json_loads fs1 ast_file = (rc', ast, ld)"
  shows "fs' = fs1" "d_db st = db" "d_ast st = (if rc' = Inr () \<and> ld then ast else zero_ast)" "ast_loaded_at_start st = ld"
    "d_dma st = snd (dma_init dma_sys)" "d_env st = \<lparr>bus = start_bus\<lparr>regs := daemon_regs\<rparr>, req_ctr = 0\<rparr>"
proof -
  obtain llc mle mm cmce where e: "init_entities \<lparr>bus = start_bus, req_ctr = 0\<rparr> =
      Inr (llc, mle, mm, cmce, \<lparr>bus = start_bus\<lparr>regs := daemon_regs\<rparr>, req_ctr = 0\<rparr>)"
    using init_entities_ok by blast
  have "st = \<lparr>d_llc = llc, d_mle = mle, d_mm = mm, d_cmce = cmce, d_db = db, d_env = \<lparr>bus = start_bus\<lparr>regs := daemon_regs\<rparr>, req_ctr = 0\<rparr>,
      d_ast = (if rc' \<noteq> Inr () then zero_ast else if \<not> ld then zero_ast else ast), d_ast_path = ast_file,
      ast_loaded_at_start = ld, d_dma = snd (dma_init dma_sys), mf_now = 0, shutdown_requested = False, clean_shutdown_flag = False,
      aborted = False\<rparr> \<and> fs' = fs1"
    using assms(1) unfolding tetra_d_start_def bus_init_ok Let_def assms(2,3) split_beta fst_conv snd_conv sum.case e
    by simp
  then show "fs' = fs1" "d_db st = db" "d_ast st = (if rc' = Inr () \<and> ld then ast else zero_ast)" "ast_loaded_at_start st = ld"
    "d_dma st = snd (dma_init dma_sys)" "d_env st = \<lparr>bus = start_bus\<lparr>regs := daemon_regs\<rparr>, req_ctr = 0\<rparr>" by simp_all
qed

lemma start_parts_ex:
  obtains st where "tetra_d_start json_loads u dma_sys db_file ast_file fs = (Inr st, snd (snd (db_open json_loads u fs db_file zero_db)))"
proof -
  obtain rc db fs1 where d: "db_open json_loads u fs db_file zero_db = (rc, db, fs1)" by (metis surj_pair)
  obtain rc' ast ld where a: "ast_reload json_loads fs1 ast_file = (rc', ast, ld)" by (metis surj_pair)
  obtain st fs' where s: "tetra_d_start json_loads u dma_sys db_file ast_file fs = (Inr st, fs')" using start_total by blast
  with start_parts(1) [OF s d a] d that show thesis by simp
qed

text \<open>An accepted post to an empty bus, and the dispatch that takes it off again.\<close>

lemma post_then_dispatch:
  assumes "daemon_inv st" "msgbus_pending (get_bus st) = 0" "msg_ok m" "msg_good m"
    and "env_post (d_env st) prio m = (Inr (), env)"
  defines "s \<equiv> st\<lparr>d_env := env\<rparr>"
  shows "daemon_inv s" and "msgbus_dispatch_one get_bus put_bus daemon_call s =
    (Inr 1, put_bus (get_bus (snd (msgbus_dispatch_one get_bus put_bus daemon_call s)))
      (fold (\<lambda>h. daemon_call h (norm_msg m)) (handlers_for st (norm_msg m)) s))"
proof -
  let ?b = "get_bus st" and ?p = "MsgPriority_code prio"
  have i: "bus_inv ?b" "regs ?b = daemon_regs" "daemon_ok st" using assms(1) by (simp_all add: daemon_inv_def)
  have b: "msgbus_post ?b prio m = (Inr (), bus env)"
    using assms(5) by (auto simp: env_post_def get_bus_def split_beta Let_def prod_eq_iff)
  have v: "initialised ?b" "prio_is_valid prio" "sap_id_is_valid (dest m)" "sap_id_is_valid (sap m)"
    using b msgbus_post_reject [of ?b prio m] by (auto dest: sym)
  then have p: "?p < 3" using prio_code_less by simp
  have e: "\<forall>q\<in>set (queues ?b). qcount q = 0" using assms(2) v(1) by (simp add: msgbus_pending_def)
  have l: "length (queues ?b) = 3" using i(1) by (simp add: bus_inv_def)
  have q: "queue_inv (queues ?b ! ?p)" "qcount (queues ?b ! ?p) = 0" using bus_inv_queue [OF i(1) p] e p l by simp_all
  have "len m \<le> max_payload (queues ?b ! ?p)"
    using b queue_push_too_big [of "queues ?b ! ?p" m] unfolding msgbus_post_push [OF v]
    by (cases "max_payload (queues ?b ! ?p) < len m") simp_all
  then have acc: "post_acc ?b prio m" using v assms(3) by (simp add: post_acc_def push_acc_def)
  have room: "qcount (queues ?b ! ?p) < cap (queues ?b ! ?p)" using q by (simp add: queue_inv_def)
  have abs: "bus_abs (bus env) = (bus_abs ?b)[?p := bus_abs ?b ! ?p @ [norm_msg m]]"
    using msgbus_post_ok(3) [OF i(1) acc HOL.refl room] b by simp
  have em: "bus_abs ?b ! j = []" if "j < 3" for j
    using that l e bus_abs_nth [OF i(1) that] by (simp add: queue_abs_def)
  have s: "get_bus s = bus env" by (simp add: s_def get_bus_def)
  have "daemon_ok s" using i(3) by (simp add: s_def daemon_ok_def)
  from posts_keep [OF assms(1) this] env_post_posts [OF assms(3,4), of "d_env st" prio] assms(5)
  show inv: "daemon_inv s" by (simp add: s_def)
  have r: "bus_inv (get_bus s)" "bus_good msg_good (get_bus s)" "daemon_ok s" "regs (get_bus s) = daemon_regs"
    using inv by (simp_all add: daemon_inv_def)
  have la: "length (bus_abs ?b) = 3" using l by (simp add: bus_abs_def)
  have at: "bus_abs (get_bus s) ! j = (if j = ?p then [norm_msg m] else [])" if "j < 3" for j
    using that p la em by (simp add: s abs nth_list_update)
  have "next_nonempty_queue (get_bus s) = Some ?p"
  proof (cases "next_nonempty_queue (get_bus s)")
    case None
    then have "qcount (queues (get_bus s) ! ?p) = 0"
      using r(1) p by (simp add: next_nonempty_queue_def find_index_None_iff bus_inv_def)
    then have "bus_abs (get_bus s) ! ?p = []" using bus_abs_nth [OF r(1) p] by (simp add: queue_abs_def)
    with at [OF p] show ?thesis by simp
  next
    case (Some j)
    note n = daemon_bus.next_nonempty_Some [OF r(1) Some]
    have "bus_abs (get_bus s) ! j \<noteq> []"
      using n(2) bus_abs_nth [OF r(1) n(1)] by (simp flip: length_greater_0_conv)
    with at [OF n(1)] Some show ?thesis by (simp split: if_splits)
  qed
  note d = daemon_bus.dispatch_one [OF r(1-3) wired_regs [OF r(4)] this HOL.refl HOL.refl HOL.refl]
  have h: "hd (bus_abs (get_bus s) ! ?p) = norm_msg m" using at [OF p] by simp
  have "handlers_for s = handlers_for st" using r(4) i(2) by (auto simp: handlers_for_def fun_eq_iff)
  then have "daemon_bus.deliver (norm_msg m) (regs (get_bus s)) s = fold (\<lambda>h. daemon_call h (norm_msg m)) (handlers_for st (norm_msg m)) s"
    by (simp add: deliver_handlers)
  with d(1,6) show "msgbus_dispatch_one get_bus put_bus daemon_call s =
    (Inr 1, put_bus (get_bus (snd (msgbus_dispatch_one get_bus put_bus daemon_call s)))
      (fold (\<lambda>h. daemon_call h (norm_msg m)) (handlers_for st (norm_msg m)) s))"
    unfolding h by (metis prod.collapse)
qed

lemma recv_once:
  assumes "chan_inv s" "ch_opened s" "staged s = []" "pipe s \<noteq> []" "length (pipe s) \<le> k" "length (pipe s) \<le> DMA_REASM_CAP_BYTES"
  obtains s1 where "chan_inv s1" "stream s1 = pipe s" "reasm_used s1 = length (pipe s)" "pipe s1 = []" "meta s1 = meta s"
    "recv_chan ((PollEvents True False, ReadUpTo k) # sys) s buf c 0 =
       extract_then (reasm_try_extract s1 buf c 0) (\<lambda>s buf n. Returned (Inr 0, s, buf, n))"
proof -
  have z: "reasm_used s = 0" using assms(3) length_staged [OF assms(1)] by simp
  obtain rc s1 where r: "reasm_read_one (ReadUpTo k) s = (rc, s1)" by force
  have l: "reasm_used s < DMA_REASM_CAP_BYTES" by (simp add: z DMA_REASM_CAP_BYTES_def)
  note o = read_one_ok [OF assms(1) l HOL.refl r]
  have n: "min (min k (DMA_REASM_CAP_BYTES - reasm_used s)) (length (pipe s)) = length (pipe s)" using assms(5,6) z by simp
  have s1: "rc = Inr (length (pipe s))" "reasm_used s1 = length (pipe s)" "stream s1 = pipe s"
    using o n assms(3) z by (simp_all add: stream_def)
  have "length (staged s1) = length (pipe s)" using length_staged [OF o(2)] s1(2) by simp
  then have "pipe s1 = []" using s1(3) by (metis append_eq_append_conv append_Nil2 stream_def)
  moreover have "reasm_try_extract s buf c 0 = Some (Inr 0, s, buf, 0)" using extract_wait_short [of s] z by simp
  then have "recv_chan ((PollEvents True False, ReadUpTo k) # sys) s buf c 0 =
       extract_then (reasm_try_extract s1 buf c 0) (\<lambda>s buf n. Returned (Inr 0, s, buf, n))"
    using assms(2,4) r s1(1) by (simp add: recv_chan_def extract_then_def)
  ultimately show thesis using that o(2,5) s1 by blast
qed

text \<open>What a peer writes into an empty, open channel in one go.\<close>

lemma peer_writes:
  assumes "daemon_reach jl jd st" "ch_opened (chan_of (d_dma st) ch)" "dma_stream (d_dma st) ch = []" "using_mock (d_dma st)" "bs \<noteq> []"
  defines "st1 \<equiv> st\<lparr>d_dma := set_chan (d_dma st) ch ((chan_of (d_dma st) ch)\<lparr>pipe := bs\<rparr>)\<rparr>"
  shows "daemon_event jl jd (EvPeer [WriteDone (length bs)] ch bs) st = Returned st1" "daemon_inv st1"
    "staged (chan_of (d_dma st1) ch) = []" "pipe (chan_of (d_dma st1) ch) = bs" "ch_opened (chan_of (d_dma st1) ch)"
proof -
  have i: "daemon_inv st" using assms(1) by (rule reach_daemon_inv)
  then have d: "length (chans (d_dma st)) = DMA_CHAN_COUNT" by (simp add: daemon_inv_def daemon_ok_def)
  have e: "staged (chan_of (d_dma st) ch) = []" "pipe (chan_of (d_dma st) ch) = []"
    using assms(3) by (simp_all add: stream_def)
  show ev: "daemon_event jl jd (EvPeer [WriteDone (length bs)] ch bs) st = Returned st1"
    using assms(2,4,5) e by (simp add: daemon_event_def dma_mock_inject_def st1_def Let_def)
  from event_keeps [OF i, of "EvPeer [WriteDone (length bs)] ch bs"] ev show "daemon_inv st1" by simp
  show "staged (chan_of (d_dma st1) ch) = []" "pipe (chan_of (d_dma st1) ch) = bs" "ch_opened (chan_of (d_dma st1) ch)"
    using chan_of_set [OF d] e assms(2) by (simp_all add: st1_def staged_def)
qed

lemma extract_pipe: "reasm_try_extract s out c n = Some (rc, s', out', n') \<Longrightarrow> pipe s' = pipe s"
  by (auto simp: reasm_try_extract_def reasm_drop_def Let_def split: if_splits bind_splits)

lemma drained_poll:
  assumes "chan_inv (chan_of dma ch)" "ch_opened (chan_of dma ch)" "dma_stream dma ch = []" "length (chans dma) = DMA_CHAN_COUNT"
  shows "dma_recv_frame [(PollTimeout, r)] dma ch buf c 0 = Returned (Inr 0, set_chan dma ch (chan_of dma ch), buf, 0)"
proof -
  have "reasm_used (chan_of dma ch) = 0" using assms(1,3) length_staged by (fastforce simp: stream_def)
  then have "reasm_try_extract (chan_of dma ch) buf c 0 = Some (Inr 0, chan_of dma ch, buf, 0)" using extract_wait_short by simp
  then show ?thesis using assms(2) by (simp add: dma_recv_frame_def recv_chan_def extract_then_def)
qed

text \<open>A started daemon with its four pipes open.\<close>

lemma ex_started:
  obtains st where "daemon_reach jl jd st" "d_dma st = ex_dma"
proof -
  let ?o = "map (\<lambda>i. \<lparr>pipe_call = Inr (3 + 2 * i, 4 + 2 * i), fcntl_calls = [None, None, None, None]\<rparr>) [0, 1, 2, 3]"
  obtain st fs where s: "tetra_d_start jl True ?o ''db'' ''ast'' Map.empty = (Inr st, fs)" using start_total by blast
  obtain rc db f1 where o1: "db_open jl True Map.empty ''db'' zero_db = (rc, db, f1)" using prod_cases3 .
  obtain ra ast ld where a: "ast_reload jl f1 ''ast'' = (ra, ast, ld)" using prod_cases3 .
  have "d_dma st = ex_dma" unfolding ex_dma_def by (rule start_parts(5) [OF s o1 a])
  with that reach_start [OF s] show thesis by blast
qed

lemma ex_dma_mock: "using_mock ex_dma" "ch_opened (chan_of ex_dma ch)"
  using ex_dma_facts(1) [of ch] by (simp_all add: dma_ok_def) (simp add: ex_dma_def dma_init_def split_beta Let_def)

section \<open>Properties\<close>

text \<open>
  C4: the daemon never aborts. Whatever the files hold, however opening the DMA goes, and whatever
  signals, timer ticks, web requests and DMA bytes arrive, start-up succeeds and no event, with all the
  handlers it triggers over the bus, fails an assertion or accesses memory outside an array, as long as
  web clients wait for their answers.
\<close>

theorem daemon_never_aborts:
  "(\<exists>st fs'. tetra_d_start jl u dma_sys db_file ast_file fs = (Inr st, fs') \<and> daemon_reach jl jd st) \<and>
   (\<forall>st ev. daemon_reach jl jd st \<longrightarrow> \<not> aborted st \<and> (event_polite ev \<longrightarrow> daemon_event jl jd ev st \<noteq> Aborted))"
proof (intro conjI allI impI)
  show "\<exists>st fs'. tetra_d_start jl u dma_sys db_file ast_file fs = (Inr st, fs') \<and> daemon_reach jl jd st"
  proof -
    obtain st fs' where s: "tetra_d_start jl u dma_sys db_file ast_file fs = (Inr st, fs')" using start_total by blast
    then have "daemon_reach jl jd st" by (rule reach_start)
    with s show ?thesis by blast
  qed
next
  fix st ev
  assume "daemon_reach jl jd st"
  then have i: "daemon_inv st" by (rule reach_daemon_inv)
  then show "\<not> aborted st" unfolding daemon_inv_def daemon_ok_def by blast
  show "daemon_event jl jd ev st \<noteq> Aborted" if "event_polite ev" using event_keeps [OF i] that by blast
qed

theorem daemon_never_aborts_witness:
  "\<exists>st fs'. tetra_d_start (\<lambda>_. None) True [] ''db'' ''ast'' Map.empty = (Inr st, fs') \<and> \<not> aborted st \<and>
     daemon_event (\<lambda>_. None) (\<lambda>_. None) (EvTimer (Some 10)) st \<noteq> Aborted"
proof -
  have "event_polite (EvTimer (Some 10))" by (simp add: event_polite_def)
  with daemon_never_aborts [of "\<lambda>_. None" True "[]" "''db''" "''ast''" Map.empty "\<lambda>_. None"] show ?thesis by blast
qed

text \<open>
  A frame in the idle channel is handed on, whichever of the known magics it carries: the channel is what
  is dispatched on. The indication is written out here, apart from the copying routine.
\<close>

definition indication_of :: "u8 list \<Rightarrow> TmaUnitdataInd" where
  "indication_of p = \<lparr>tma_endpoint = 1, tma_addr = \<lparr>ssi = 0, ssi_type = SsiType_Issi\<rparr>, req_handle = 0,
     sdu_len_bits = 8 * min 64 (length p), sdu_bits = take 64 p @ replicate (64 - length p) 0\<rparr>"

lemma tma_ind_of_spec: "tma_ind_of p = indication_of p"
  by (auto simp: tma_ind_of_def indication_of_def TMA_SDU_MAX_BYTES_def Let_def min_def)

lemma rx_delivers:
  assumes "daemon_reach jl jd st" "ch_opened (chan_of (d_dma st) DMA_CHAN_TMA_RX)" "dma_stream (d_dma st) DMA_CHAN_TMA_RX = []"
    and "using_mock (d_dma st)" "frame_magic_is_known m" "p \<noteq> []" "length p \<le> DMA_FRAME_MAX_PAYLOAD" "8 + length p \<le> k"
  shows "\<exists>st1 st2 rc. daemon_event jl jd (EvPeer [WriteDone (8 + length p)] DMA_CHAN_TMA_RX (frame m p)) st = Returned st1 \<and>
    daemon_event jl jd (EvDma DMA_CHAN_TMA_RX [[(PollEvents True False, ReadUpTo k)], [(PollTimeout, ReadAgain)]]) st1 = Returned st2 \<and>
    llc_handle_tma_unitdata_ind (d_llc st) (d_env st) (indication_of p) = Some (rc, d_llc st2, d_env st2) \<and>
    dma_stream (d_dma st2) DMA_CHAN_TMA_RX = []"
proof -
  let ?ch = DMA_CHAN_TMA_RX and ?buf = "uninit ML_RX_BUF_BYTES"
  define st1 where "st1 = st\<lparr>d_dma := set_chan (d_dma st) ?ch ((chan_of (d_dma st) ?ch)\<lparr>pipe := frame m p\<rparr>)\<rparr>"
  have "frame m p \<noteq> []" using length_frame [of m p] by (metis add_is_0 list.size(3) numeral_eq_Suc nat.simps(3))
  note w = peer_writes [OF assms(1-4) this, folded st1_def]
  have d: "length (chans (d_dma st1)) = DMA_CHAN_COUNT" "chan_inv (chan_of (d_dma st1) ?ch)" "\<not> aborted st1"
    using w(2) by (simp_all add: daemon_inv_def daemon_ok_def)
  have l: "length (pipe (chan_of (d_dma st1) ?ch)) \<le> k" "length (pipe (chan_of (d_dma st1) ?ch)) \<le> DMA_REASM_CAP_BYTES"
    "pipe (chan_of (d_dma st1) ?ch) \<noteq> []"
    using assms(7,8) \<open>frame m p \<noteq> []\<close> by (simp_all add: w(4) DMA_REASM_CAP_BYTES_def)
  obtain s1 where s1: "chan_inv s1" "stream s1 = frame m p" "reasm_used s1 = 8 + length p" "pipe s1 = []" "meta s1 = meta (chan_of (d_dma st1) ?ch)"
      "recv_chan [(PollEvents True False, ReadUpTo k)] (chan_of (d_dma st1) ?ch) ?buf ML_RX_BUF_BYTES 0 =
       extract_then (reasm_try_extract s1 ?buf ML_RX_BUF_BYTES 0) (\<lambda>s buf n. Returned (Inr 0, s, buf, n))"
  proof (rule recv_once [OF d(2) w(5,3) l(3,1,2)])
    fix s1
    assume "chan_inv s1" "stream s1 = pipe (chan_of (d_dma st1) ?ch)" "reasm_used s1 = length (pipe (chan_of (d_dma st1) ?ch))"
      "pipe s1 = []" "meta s1 = meta (chan_of (d_dma st1) ?ch)"
      "recv_chan [(PollEvents True False, ReadUpTo k)] (chan_of (d_dma st1) ?ch) ?buf ML_RX_BUF_BYTES 0 =
       extract_then (reasm_try_extract s1 ?buf ML_RX_BUF_BYTES 0) (\<lambda>s buf n. Returned (Inr 0, s, buf, n))"
    with that [of s1] show thesis by (simp add: w(4))
  qed
  obtain s2 buf2 where s2: "reasm_try_extract s1 ?buf ML_RX_BUF_BYTES 0 = Some (Inr 1, s2, buf2, length p)" "chan_inv s2" "stream s2 = []"
      "take (length p) buf2 = p" "meta s2 = (meta s1)\<lparr>frames_recv_ok := frames_recv_ok s1 + 1, bytes_recv := bytes_recv s1 + length p\<rparr>"
  proof -
    have "stream s1 = frame m p @ []" "8 + length p \<le> reasm_used s1" "length p \<le> ML_RX_BUF_BYTES" "length p \<le> length ?buf"
      using s1(2,3) assms(7) by (simp_all add: ML_RX_BUF_BYTES_def DMA_FRAME_MAX_PAYLOAD_def)
    from extract_frame [OF s1(1) this(1,2) assms(5,7) this(3,4), of 0] that show thesis by blast
  qed
  have o2: "ch_opened s2" using arg_cong [OF s2(5), of ch_opened] arg_cong [OF s1(5), of ch_opened] w(5) by (simp add: meta_def)
  let ?dma2 = "set_chan (d_dma st1) ?ch s2"
  have r: "dma_recv_frame [(PollEvents True False, ReadUpTo k)] (d_dma st1) ?ch ?buf ML_RX_BUF_BYTES 0 = Returned (Inr (length p), ?dma2, buf2, length p)"
    using s1(6) s2(1) by (simp add: dma_recv_frame_def extract_then_def)
  let ?sta = "ml_dispatch_tma_rx p (st1\<lparr>d_dma := ?dma2\<rparr>)"
  have b: "length ?buf = ML_RX_BUF_BYTES" by simp
  note k = recv_frame_keeps [OF w(2) r b]
  have c2: "chan_of ?dma2 ?ch = s2" using chan_of_set [OF d(1)] by simp
  obtain rc llc env where h: "llc_handle_tma_unitdata_ind (d_llc st) (d_env st) (tma_ind_of p) = Some (rc, llc, env)"
    using llc_handle_ind_safe [of "d_llc st" "tma_ind_of p" "d_env st"] reach_daemon_inv [OF assms(1)]
    by (auto simp: daemon_inv_def daemon_ok_def tma_ind_of_def TMA_SDU_MAX_BYTES_def Let_def)
  have sta: "?sta = st1\<lparr>d_dma := ?dma2, d_llc := llc, d_env := env\<rparr>"
    using h d(3) by (simp add: ml_dispatch_tma_rx_def or_abort_def st1_def)
  have dp: "dma_recv_frame [(PollTimeout, ReadAgain)] ?dma2 ?ch buf2 ML_RX_BUF_BYTES 0 = Returned (Inr 0, set_chan ?dma2 ?ch s2, buf2, 0)"
    using drained_poll [of ?dma2 ?ch] s2(2,3) o2 c2 d(1) by simp
  have "daemon_event jl jd (EvDma ?ch [[(PollEvents True False, ReadUpTo k)], [(PollTimeout, ReadAgain)]]) st1 =
      Returned (?sta\<lparr>d_dma := set_chan ?dma2 ?ch s2\<rparr>)"
    using r dp s2(4) assms(6) by (simp add: daemon_event_def sta)
  moreover have "chan_of (set_chan ?dma2 ?ch s2) ?ch = s2" using chan_of_set [of ?dma2 ?ch s2 ?ch] d(1) by simp
  ultimately show ?thesis using w(1) h s2(3) by (simp add: sta tma_ind_of_spec)
qed


text \<open>
  A \<open>TMAR\<close> report on the channel is handled as if it were signalling, where the comment of \<open>main_loop.c\<close> has
  it counted only.
\<close>

lemma tmar_taken_for_signalling:
  assumes "daemon_reach jl jd st" "ch_opened (chan_of (d_dma st) DMA_CHAN_TMA_RX)" "dma_stream (d_dma st) DMA_CHAN_TMA_RX = []"
    and "using_mock (d_dma st)" "p \<noteq> []" "length p \<le> DMA_FRAME_MAX_PAYLOAD" "8 + length p \<le> k"
  shows "\<exists>st1 st2 rc. daemon_event jl jd (EvPeer [WriteDone (8 + length p)] DMA_CHAN_TMA_RX (frame FRAME_MAGIC_TMAR p)) st = Returned st1 \<and>
    daemon_event jl jd (EvDma DMA_CHAN_TMA_RX [[(PollEvents True False, ReadUpTo k)], [(PollTimeout, ReadAgain)]]) st1 = Returned st2 \<and>
    llc_handle_tma_unitdata_ind (d_llc st) (d_env st) (indication_of p) = Some (rc, d_llc st2, d_env st2)"
  using rx_delivers [OF assms(1-4) _ assms(5-7), of FRAME_MAGIC_TMAR] by (auto simp: frame_magic_is_known_def)


text \<open>
  C8: uplink data never reaches the MLE. In every reachable state with an idle bus, a message the LLC
  posts \<open>to the MLE\<close> is handed to the CMCE alone: its dispatch changes the CMCE and what that posts,
  and nothing of the MLE, the MM, the LLC or the database. The LLC posts to \<open>(TleSap, TleSap)\<close>, while
  the MLE is registered on \<open>(TmaSap, TleSap)\<close>.
\<close>

theorem daemon_uplink_bypasses_mle:
  assumes "daemon_reach jl jd st" "msgbus_pending (get_bus st) = 0" "length (body (tle_pdu m)) = 32" "body_len_bits (tle_pdu m) \<le> 256"
    and "llc_post_to_mle (d_env st) m = (Inr (), env)"
  shows "\<exists>st' cmce env2. msgbus_dispatch_one get_bus put_bus daemon_call (st\<lparr>d_env := env\<rparr>) = (Inr 1, st') \<and>
    on_tle_upcall (d_cmce st) env (norm_msg (tle_up_msg m)) = Some (cmce, env2) \<and>
    st' = st\<lparr>d_cmce := cmce, d_env := d_env st'\<rparr>"
proof -
  let ?m = "norm_msg (tle_up_msg m)"
  have i: "daemon_inv st" using assms(1) by (rule reach_daemon_inv)
  have ok: "msg_ok (tle_up_msg m)" "msg_good (tle_up_msg m)"
    using tle_up_msg_ok [OF assms(3)] tle_up_msg_good [OF assms(3,4)] by simp_all
  have post: "env_post (d_env st) (sap_prio_default SapId_TleSap) (tle_up_msg m) = (Inr (), env)"
    using assms(5) by (simp add: llc_post_to_mle_def)
  have a: "\<not> aborted st" and c: "cmce_inv (d_cmce st)" using i by (simp_all add: daemon_inv_def daemon_ok_def)
  have "sap ?m = SapId_TleSap" "dest ?m = SapId_TleSap" by (simp_all add: norm_msg_def tle_up_msg_def sapmsg_init_def)
  then have h: "handlers_for st ?m = [Cmce_on_tle_upcall]"
    using handlers_of_wiring [of st ?m] i by (simp add: daemon_inv_def)
  obtain cmce env2 where u: "on_tle_upcall (d_cmce st) env ?m = Some (cmce, env2)"
    using on_tle_upcall_safe [OF c norm_msg_ok [OF ok(1)], of env] by (auto simp: cmce_safe_def)
  then have "fold (\<lambda>h. daemon_call h ?m) [Cmce_on_tle_upcall] (st\<lparr>d_env := env\<rparr>) = st\<lparr>d_cmce := cmce, d_env := env2\<rparr>"
    using a by (simp add: daemon_call_def run_handler_def or_abort_def)
  with post_then_dispatch(2) [OF i assms(2) ok post] u show ?thesis
    unfolding h by (auto simp: put_bus_def)
qed

theorem daemon_uplink_bypasses_mle_witness:
  "\<exists>st env st'. daemon_reach (\<lambda>_. None) (\<lambda>_. None) st \<and> llc_post_to_mle (d_env st) \<lparr>tle_endpoint = 1, tle_addr = \<lparr>ssi = 7, ssi_type = SsiType_Issi\<rparr>, tle_pdu = zero_pdu\<rparr> = (Inr (), env) \<and>
     msgbus_dispatch_one get_bus put_bus daemon_call (st\<lparr>d_env := env\<rparr>) = (Inr 1, st') \<and> d_mle st' = d_mle st"
proof -
  let ?m = "\<lparr>tle_endpoint = 1, tle_addr = \<lparr>ssi = 7, ssi_type = SsiType_Issi\<rparr>, tle_pdu = zero_pdu\<rparr>"
  let ?st = "tetra_d_start (\<lambda>_. None) True [] ''db'' ''ast'' Map.empty"
  obtain st fs' where s: "?st = (Inr st, fs')" using start_total by blast
  have e: "d_env st = \<lparr>bus = start_bus\<lparr>regs := daemon_regs\<rparr>, req_ctr = 0\<rparr>"
    using start_parts(6) [OF s] by (metis surj_pair)
  have r: "daemon_reach (\<lambda>_. None) (\<lambda>_. None) st" using s by (rule reach_start)
  then have "daemon_inv st" by (rule reach_daemon_inv)
  then have ei: "env_inv (d_env st)" using start_queue_facts(2) by (simp add: daemon_inv_def get_bus_def env_inv_def e start_bus_def)
  have room: "env_room (d_env st) (sap_prio_default SapId_TleSap)"
    using e by (simp add: env_room_def prio_is_valid_def start_bus_def init_queue_def bus_cfg_def BUS_QUEUE_CAP_PER_PRIO_def)
  have p: "msgbus_pending (get_bus st) = 0"
    by (simp add: get_bus_def e msgbus_pending_def start_bus_def init_queue_def)
  have b: "length (body (tle_pdu ?m)) = 32" "body_len_bits (tle_pdu ?m) \<le> 256" by (simp_all add: zero_pdu_def)
  obtain env where post: "llc_post_to_mle (d_env st) ?m = (Inr (), env)"
    using env_post_room(1) [OF ei room tle_up_msg_ok [OF b(1)] tle_up_msg_good [OF b]]
    by (auto simp: llc_post_to_mle_def tle_up_msg_def sapmsg_init_def sizeof_TleSapMsg_def sap_id_is_valid_def prod_eq_iff)
  from daemon_uplink_bypasses_mle [OF r p b post] obtain st' cmce env2 where
    d: "msgbus_dispatch_one get_bus put_bus daemon_call (st\<lparr>d_env := env\<rparr>) = (Inr 1, st')" and st': "st' = st\<lparr>d_cmce := cmce, d_env := d_env st'\<rparr>" by blast
  have "d_mle st' = d_mle st" by (subst st') simp
  with r post d show ?thesis by blast
qed

text \<open>
  C11: a database and a session table survive a clean restart. Take a daemon whose database is storable
  (\<open>db_storable\<close>: it is open and well formed, no profile but the first has a call duration of 128 or more,
  and the reserved words of the entities fit their 34 bits) and whose session table is well formed, with
  the two files under different paths. When the two saves of its clean shutdown succeed and the text layer parses what it
  printed, the final step of \<open>main\<close> leaves exactly their files, and the next start opens the same
  database and reports and holds the same session table.
\<close>

theorem daemon_clean_restart:
  assumes "clean_shutdown_flag st" "ast_ok (d_ast st)" "db_storable (d_db st)" "length (db_path (d_db st)) < TETRA_DB_PATH_MAX"
    and "json_dumps (ast_doc (d_ast st)) = Some ta" "json_loads ta = Some (ast_doc (d_ast st))"
    and "json_dumps (db_doc (d_db st)) = Some td" "json_loads td = Some (db_doc (d_db st))"
    and "ast_snapshot json_dumps ast_calls fs (d_ast st) (d_ast_path st) = (Some (Inr ()), fsa)"
    and "db_atomic_save json_dumps db_calls fsa (d_db st) = (Some (Inr ()), fsd)"
    and "d_ast_path st \<notin> {db_path (d_db st), tmp_path (db_path (d_db st))}"
  shows "tetra_d_finish json_dumps ast_calls db_calls st fs = fsd \<and>
    (\<exists>st2. tetra_d_start json_loads u dma_sys (db_path (d_db st)) (d_ast_path st) fsd = (Inr st2, fsd) \<and>
       d_db st2 = d_db st \<and> d_ast st2 = d_ast st \<and> ast_loaded_at_start st2)"
proof -
  have "fsa (d_ast_path st) = Some ta"
    using snapshot_file [OF assms(9,5)] .
  then have f: "fsd (d_ast_path st) = Some ta"
    using assms(10,11,7) atomic_write_saves [of "db_path (d_db st)" td fsa db_calls]
    by (auto simp: db_atomic_save_def db_dump_json_def saves_def split: if_splits)
  note a = ast_doc_loads [where fs = fsd and json_loads = json_loads, OF assms(2) f assms(6)]
  note d = saved_db_opens [where json_dumps = json_dumps and json_loads = json_loads and t = td and fs = fsa and db = "d_db st", OF assms(3,4,7,8,10), of u zero_db]
  have "snd (snd (db_open json_loads u fsd (db_path (d_db st)) zero_db)) = fsd" by (simp add: d)
  with start_parts_ex [of json_loads u dma_sys "db_path (d_db st)" "d_ast_path st" fsd]
  have "\<exists>st2. tetra_d_start json_loads u dma_sys (db_path (d_db st)) (d_ast_path st) fsd = (Inr st2, fsd)" by metis
  then obtain st2 where s: "tetra_d_start json_loads u dma_sys (db_path (d_db st)) (d_ast_path st) fsd = (Inr st2, fsd)" by blast
  have "tetra_d_finish json_dumps ast_calls db_calls st fs = fsd" using assms(1,9,10) by (simp add: tetra_d_finish_def)
  moreover have "d_db st2 = d_db st \<and> d_ast st2 = d_ast st \<and> ast_loaded_at_start st2" using start_parts(2-4) [OF s d a] by simp
  ultimately show ?thesis using s by blast
qed

theorem daemon_clean_restart_witness:
  "\<exists>jd jl calls1 st fs2 st2. daemon_reach jl jd st \<and> clean_shutdown_flag st \<and> d_ast st = ex_ast \<and>
     tetra_d_finish jd calls1 calls1 st [''ast'' \<mapsto> ''a''] = fs2 \<and>
     tetra_d_start jl True [] ''db'' ''ast'' fs2 = (Inr st2, fs2) \<and> d_db st2 = d_db st \<and> d_ast st2 = ex_ast"
proof -
  define jd where "jd = (\<lambda>j. Some (if json_object_get j ''clean_shutdown_flag'' = None then ''d'' else ''a''))"
  define jl where "jl = (\<lambda>t. Some (if t = ''a'' then ast_doc ex_ast else db_doc ex_db))"
  let ?c = "[Done 0, Done 1, Done 0, Done 0, Done 0]" and ?fs = "[''ast'' \<mapsto> ''a'']"
  have op: "db_open jl True ?fs ''db'' zero_db = (Inr (), ex_db, ?fs)"
    by (simp add: db_open_def cleanup_stale_tmp_def tmp_path_def TETRA_DB_PATH_MAX_def Let_def ex_db_def)
  have a: "ast_reload jl ?fs ''ast'' = (Inr (), ex_ast, True)"
    by (rule ast_doc_loads [OF ex_ast_ok, of _ _ "''a''"]) (simp_all add: jl_def)
  obtain st0 where s: "tetra_d_start jl True [] ''db'' ''ast'' ?fs = (Inr st0, ?fs)"
    using start_parts_ex [of jl True "[]" "''db''" "''ast''" ?fs] op by (metis snd_conv)
  note p = start_parts [OF s op a]
  define st where "st = ml_signal_event True st0"
  have "daemon_event jl jd (EvSignal True) st0 = Returned st" by (simp add: daemon_event_def st_def)
  then have r: "daemon_reach jl jd st" using reach_event [OF reach_start [OF s]] start_shape(7) [OF s] by blast
  have st: "clean_shutdown_flag st" "d_ast st = ex_ast" "d_db st = ex_db" "d_ast_path st = ''ast''"
    using p start_shape(8) [OF s] by (simp_all add: st_def ml_signal_event_def)
  have j: "jd (ast_doc ex_ast) = Some ''a''" "jl ''a'' = Some (ast_doc ex_ast)" "jd (db_doc ex_db) = Some ''d''" "jl ''d'' = Some (db_doc ex_db)"
    by (simp_all add: jd_def jl_def ast_doc_def db_doc_def)
  obtain fs1 where f1: "ast_snapshot jd ?c ?fs ex_ast ''ast'' = (Some (Inr ()), fs1)"
    using j(1) by (simp add: ast_snapshot_def ast_atomic_write_def atomic_write_text_def tmp_path_def TETRA_DB_PATH_MAX_def Let_def)
  obtain fs2 where f2: "db_atomic_save jd ?c fs1 ex_db = (Some (Inr ()), fs2)"
    using j(3) ex_db_facts(1,2) by (simp add: db_storable_def db_atomic_save_def db_dump_json_def atomic_write_text_def tmp_path_def TETRA_DB_PATH_MAX_def Let_def)
  have "d_ast_path st \<notin> {db_path (d_db st), tmp_path (db_path (d_db st))}" by (simp add: st ex_db_facts(2) tmp_path_def)
  from daemon_clean_restart [where json_dumps = jd and json_loads = jl and ta = "''a''" and td = "''d''" and ast_calls = ?c and db_calls = ?c
      and fs = ?fs and fsa = fs1 and fsd = fs2 and u = True and dma_sys = "[]", OF st(1), unfolded st ex_db_facts(2),
      OF ex_ast_ok ex_db_facts(1,5) j f1 f2 this [unfolded st ex_db_facts(2)]]
  obtain st2 where "tetra_d_finish jd ?c ?c st ?fs = fs2" "tetra_d_start jl True [] ''db'' ''ast'' fs2 = (Inr st2, fs2)"
      "d_db st2 = d_db st" "d_ast st2 = ex_ast" using st(3) by auto
  with r st(1,2) show ?thesis by (intro exI conjI) assumption+
qed

text \<open>
  C30: draining ends. In every reachable state, a wake-up with at least one more round of calls than bytes
  are waiting, each round with a poll that is not interrupted, returns: every frame taken shortens the
  stream, and the loop stops at the first call that takes none.
\<close>

theorem daemon_drain_returns:
  assumes "daemon_reach jl jd st" "\<forall>sys\<in>set syss. \<exists>x\<in>set sys. fst x \<noteq> PollIntr" "length (dma_stream (d_dma st) ch) < length syss"
  shows "\<exists>st'. daemon_event jl jd (EvDma ch syss) st = Returned st' \<and> daemon_inv st'"
proof -
  have i: "daemon_inv st" using assms(1) by (rule reach_daemon_inv)
  obtain st' where "daemon_event jl jd (EvDma ch syss) st = Returned st'"
    using drain_returns [OF i _ assms(2,3), of "uninit ML_RX_BUF_BYTES"] by (auto simp: daemon_event_def)
  with event_keeps [OF i, of "EvDma ch syss"] show ?thesis by simp
qed

theorem daemon_drain_returns_witness:
  "\<exists>st st'. daemon_reach (\<lambda>_. None) (\<lambda>_. None) st \<and> daemon_event (\<lambda>_. None) (\<lambda>_. None) (EvDma DMA_CHAN_TMD_RX [[(PollIntr, ReadAgain), (PollTimeout, ReadAgain)]]) st = Returned st'"
proof -
  obtain st where st: "daemon_reach (\<lambda>_. None) (\<lambda>_. None) st" "d_dma st = ex_dma" by (rule ex_started)
  have "length (dma_stream (d_dma st) DMA_CHAN_TMD_RX) < length [[(PollIntr, ReadAgain), (PollTimeout, ReadAgain)]]"
    using ex_dma_facts(2) by (simp add: st(2))
  from daemon_drain_returns [OF st(1) _ this] st(1) show ?thesis by auto
qed

text \<open>
  C38: one stray byte strands the frame behind it. When a peer writes a byte that starts no known magic
  and then a whole frame of any length the channel can hold, the wake-up reads everything, drops the one
  byte and stops: the complete frame stays staged, no byte is left in the pipe to wake the loop again,
  and no entity has seen anything.
\<close>

theorem daemon_garbage_strands_frame:
  assumes "daemon_reach jl jd st" "ch_opened (chan_of (d_dma st) ch)" "dma_stream (d_dma st) ch = []" "using_mock (d_dma st)"
    and "\<not> frame_magic_is_known (be32_load (g # frame m p) 0)" "length p < DMA_FRAME_MAX_PAYLOAD" "9 + length p \<le> k"
  shows "\<exists>st1 st2. daemon_event jl jd (EvPeer [WriteDone (9 + length p)] ch (g # frame m p)) st = Returned st1 \<and>
    daemon_event jl jd (EvDma ch ([(PollEvents True False, ReadUpTo k)] # syss)) st1 = Returned st2 \<and>
    staged (chan_of (d_dma st2) ch) = frame m p \<and> pipe (chan_of (d_dma st2) ch) = [] \<and>
    st2 = st\<lparr>d_dma := d_dma st2\<rparr>"
proof -
  let ?buf = "uninit ML_RX_BUF_BYTES"
  define st1 where "st1 = st\<lparr>d_dma := set_chan (d_dma st) ch ((chan_of (d_dma st) ch)\<lparr>pipe := g # frame m p\<rparr>)\<rparr>"
  have "g # frame m p \<noteq> []" by simp
  note w = peer_writes [OF assms(1-4) this, folded st1_def]
  have d: "length (chans (d_dma st1)) = DMA_CHAN_COUNT" "chan_inv (chan_of (d_dma st1) ch)"
    using w(2) by (simp_all add: daemon_inv_def daemon_ok_def)
  have l: "length (pipe (chan_of (d_dma st1) ch)) \<le> k" "length (pipe (chan_of (d_dma st1) ch)) \<le> DMA_REASM_CAP_BYTES"
    "pipe (chan_of (d_dma st1) ch) \<noteq> []"
    using assms(6,7) by (simp_all add: w(4) DMA_REASM_CAP_BYTES_def)
  obtain s1 where s1: "chan_inv s1" "stream s1 = g # frame m p" "reasm_used s1 = 9 + length p" "pipe s1 = []"
      "recv_chan [(PollEvents True False, ReadUpTo k)] (chan_of (d_dma st1) ch) ?buf ML_RX_BUF_BYTES 0 =
       extract_then (reasm_try_extract s1 ?buf ML_RX_BUF_BYTES 0) (\<lambda>s buf n. Returned (Inr 0, s, buf, n))"
  proof (rule recv_once [OF d(2) w(5,3) l(3,1,2)])
    fix s1
    assume "chan_inv s1" "stream s1 = pipe (chan_of (d_dma st1) ch)" "reasm_used s1 = length (pipe (chan_of (d_dma st1) ch))" "pipe s1 = []"
      "recv_chan [(PollEvents True False, ReadUpTo k)] (chan_of (d_dma st1) ch) ?buf ML_RX_BUF_BYTES 0 =
       extract_then (reasm_try_extract s1 ?buf ML_RX_BUF_BYTES 0) (\<lambda>s buf n. Returned (Inr 0, s, buf, n))"
    with that [of s1] show thesis by (simp add: w(4))
  qed
  have "8 \<le> reasm_used s1" "\<not> frame_magic_is_known (be32_load (stream s1) 0)" using s1(2,3) assms(5) by simp_all
  from extract_bad_magic [OF s1(1) this] obtain s2 where
    s2: "reasm_try_extract s1 ?buf ML_RX_BUF_BYTES 0 = Some (Inl EBADMSG, s2, ?buf, 0)" "stream s2 = tl (stream s1)" by blast
  have p2: "pipe s2 = []" using extract_pipe [OF s2(1)] s1(4) by simp
  have g2: "staged s2 = frame m p" using s2(2) p2 s1(2) by (simp add: stream_def)
  have "dma_recv_frame [(PollEvents True False, ReadUpTo k)] (d_dma st1) ch ?buf ML_RX_BUF_BYTES 0 =
      Returned (Inl EBADMSG, set_chan (d_dma st1) ch s2, ?buf, 0)"
    using s1(5) s2(1) by (simp add: dma_recv_frame_def extract_then_def)
  then have e: "daemon_event jl jd (EvDma ch ([(PollEvents True False, ReadUpTo k)] # syss)) st1 = Returned (st1\<lparr>d_dma := set_chan (d_dma st1) ch s2\<rparr>)"
    by (simp add: daemon_event_def)
  have "chan_of (set_chan (d_dma st1) ch s2) ch = s2" using chan_of_set [OF d(1)] by simp
  with w(1) e g2 p2 show ?thesis by (auto simp: st1_def)
qed

theorem daemon_garbage_strands_frame_witness:
  "\<exists>st st1 st2. daemon_reach (\<lambda>_. None) (\<lambda>_. None) st \<and>
    daemon_event (\<lambda>_. None) (\<lambda>_. None) (EvPeer [WriteDone (9 + length [0x21, 0x42 :: u8])] DMA_CHAN_TMA_RX (0 # frame FRAME_MAGIC_TMAS [0x21, 0x42])) st = Returned st1 \<and>
    daemon_event (\<lambda>_. None) (\<lambda>_. None) (EvDma DMA_CHAN_TMA_RX ([(PollEvents True False, ReadUpTo 100)] # [[(PollTimeout, ReadAgain)]])) st1 = Returned st2 \<and>
    staged (chan_of (d_dma st2) DMA_CHAN_TMA_RX) = frame FRAME_MAGIC_TMAS [0x21, 0x42] \<and> d_llc st2 = d_llc st"
proof -
  obtain st where st: "daemon_reach (\<lambda>_. None) (\<lambda>_. None) st" "d_dma st = ex_dma" by (rule ex_started)
  have h: "ch_opened (chan_of (d_dma st) DMA_CHAN_TMA_RX)" "dma_stream (d_dma st) DMA_CHAN_TMA_RX = []" "using_mock (d_dma st)"
    using ex_dma_mock ex_dma_facts(2) by (simp_all add: st(2))
  have m: "\<not> frame_magic_is_known (be32_load (0 # frame FRAME_MAGIC_TMAS [0x21, 0x42]) 0)" by code_simp
  have l: "length [0x21, 0x42 :: u8] < DMA_FRAME_MAX_PAYLOAD" "9 + length [0x21, 0x42 :: u8] \<le> 100"
    by (simp_all add: DMA_FRAME_MAX_PAYLOAD_def)
  obtain st1 st2 where r: "daemon_event (\<lambda>_. None) (\<lambda>_. None) (EvPeer [WriteDone (9 + length [0x21, 0x42 :: u8])] DMA_CHAN_TMA_RX (0 # frame FRAME_MAGIC_TMAS [0x21, 0x42])) st = Returned st1"
    "daemon_event (\<lambda>_. None) (\<lambda>_. None) (EvDma DMA_CHAN_TMA_RX ([(PollEvents True False, ReadUpTo 100)] # [[(PollTimeout, ReadAgain)]])) st1 = Returned st2"
    "staged (chan_of (d_dma st2) DMA_CHAN_TMA_RX) = frame FRAME_MAGIC_TMAS [0x21, 0x42]" "st2 = st\<lparr>d_dma := d_dma st2\<rparr>"
    using daemon_garbage_strands_frame [OF st(1) h m l, of "[[(PollTimeout, ReadAgain)]]"] by blast
  have "d_llc st2 = d_llc st" by (subst r(4)) simp
  with st(1) r(1-3) show ?thesis by blast
qed

text \<open>
  C39: after a crash the old session table is loaded again. Start-up leaves the snapshot file as it is
  and no event writes it, so a daemon that dies without a clean shutdown finds, at its next start, the
  same table and reports it as loaded as if the last run had ended cleanly.
\<close>

theorem daemon_crash_reloads_snapshot:
  assumes "ast_file \<noteq> tmp_path db_file"
    and "tetra_d_start json_loads u dma_sys db_file ast_file fs = (Inr st, fs1)"
    and "tetra_d_start json_loads u' dma_sys' db_file ast_file fs1 = (Inr st', fs2)"
  shows "ast_loaded_at_start st' = ast_loaded_at_start st \<and> d_ast st' = d_ast st"
proof -
  have c: "snd (snd (db_open json_loads v f db_file zero_db)) ast_file = f ast_file" for v f
    using assms(1) by (simp add: db_open_def cleanup_stale_tmp_def Let_def split: option.split prod.split sum.split)
  have r: "ast_reload json_loads f ast_file = ast_reload json_loads g ast_file" if "f ast_file = g ast_file" for f g
    using that by (simp add: ast_reload_def)
  obtain rc db f1 where o1: "db_open json_loads u fs db_file zero_db = (rc, db, f1)" using prod_cases3 .
  obtain rc' db' f2 where o2: "db_open json_loads u' fs1 db_file zero_db = (rc', db', f2)" using prod_cases3 .
  obtain ra ast ld where a: "ast_reload json_loads f1 ast_file = (ra, ast, ld)" using prod_cases3 .
  note p = start_parts [OF assms(2) o1 a]
  have "f2 ast_file = f1 ast_file" using c [of u' fs1] o2 p(1) by simp
  then have a2: "ast_reload json_loads f2 ast_file = (ra, ast, ld)" using r [of f2 f1] a by simp
  from p(3,4) start_parts(3,4) [OF assms(3) o2 a2] show ?thesis by simp
qed

theorem daemon_crash_reloads_snapshot_witness:
  "\<exists>st st' fs1 fs2. tetra_d_start (\<lambda>_. Some (ast_doc ex_ast)) True [] ''db'' ''ast'' [''ast'' \<mapsto> ''{}''] = (Inr st, fs1) \<and>
     tetra_d_start (\<lambda>_. Some (ast_doc ex_ast)) True [] ''db'' ''ast'' fs1 = (Inr st', fs2) \<and> ast_loaded_at_start st' \<and> d_ast st' = ex_ast"
proof -
  obtain st fs1 where s: "tetra_d_start (\<lambda>_. Some (ast_doc ex_ast)) True [] ''db'' ''ast'' [''ast'' \<mapsto> ''{}''] = (Inr st, fs1)"
    using start_total by blast
  obtain st' fs2 where t: "tetra_d_start (\<lambda>_. Some (ast_doc ex_ast)) True [] ''db'' ''ast'' fs1 = (Inr st', fs2)"
    using start_total by blast
  have "''ast'' \<noteq> tmp_path ''db''" by (simp add: tmp_path_def)
  note same = daemon_crash_reloads_snapshot [OF this s t]
  have op: "db_open (\<lambda>_. Some (ast_doc ex_ast)) True [''ast'' \<mapsto> ''{}''] ''db'' zero_db =
      (Inr (), db_init_empty (zero_db\<lparr>db_path := ''db''\<rparr>), [''ast'' \<mapsto> ''{}''])"
    by (simp add: db_open_def cleanup_stale_tmp_def tmp_path_def TETRA_DB_PATH_MAX_def Let_def)
  have f: "[''ast'' \<mapsto> ''{}''] ''ast'' = Some ''{}''" by simp
  note a = ast_doc_loads [where json_loads = "\<lambda>_. Some (ast_doc ex_ast)" and fs = "[''ast'' \<mapsto> ''{}'']" and path = "''ast''" and t = "''{}''",
      OF ex_ast_ok f HOL.refl]
  from same start_parts(3,4) [OF s op a] s t show ?thesis by auto
qed

text \<open>
  C40: a web client that has gone ends the daemon. In every reachable state, a client that sends one frame
  with an operation of the table and has closed its connection when the answer, which the text layer
  prints within the frame limit, is written ends the process, not the service of that client: the write
  raises \<open>SIGPIPE\<close>, which \<open>main\<close> neither blocks nor ignores.
\<close>

theorem daemon_closing_client_ends:
  assumes "daemon_reach jl jd st"
    and "reads_well rs" "4 + length t \<le> length rs" "0 < length t" "length t \<le> DAEMON_OPS_MAX_FRAME_BYTES"
    and "jl t = Some root" "json_object_get root ''op'' = Some (JString op)" "(op, hdl) \<in> set s_op_table" "run_op hdl st = (Inr data, st')"
    and "jd (success_envelope root data) = Some r" "length r \<le> DAEMON_OPS_MAX_FRAME_BYTES"
  shows "daemon_event jl jd (EvAccept (Accepted \<lparr>cl_reads = rs, cl_writes = SkPipe # ws, cl_bytes = op_frame t\<rparr> # accs)) st = Aborted"
  using client_pipe [where json_loads = jl and json_dumps = jd and rest = "[]", OF assms(2-11), of ws] by (simp add: daemon_event_def)

theorem daemon_closing_client_ends_witness:
  "\<exists>st. daemon_reach (\<lambda>_. Some ex_request) ex_printer st \<and>
     daemon_event (\<lambda>_. Some ex_request) ex_printer
       (EvAccept (Accepted \<lparr>cl_reads = replicate 10 (SkRead 3), cl_writes = [SkPipe], cl_bytes = op_frame ''hello''\<rparr> # [])) st = Aborted"
proof -
  obtain st where r: "daemon_reach (\<lambda>_. Some ex_request) ex_printer st" "d_dma st = ex_dma" by (rule ex_started)
  have "4 + length ''hello'' \<le> length (replicate 10 (SkRead 3))" "0 < length ''hello''" "length ''hello'' \<le> DAEMON_OPS_MAX_FRAME_BYTES"
    by (simp_all add: DAEMON_OPS_MAX_FRAME_BYTES_def)
  from daemon_closing_client_ends [where jl = "\<lambda>_. Some ex_request" and jd = ex_printer, OF r(1) ex_client_facts(1) this HOL.refl ex_stop_facts(1) ex_client_facts(3) ex_stop_facts(2)
      ex_stop_facts(3) ex_client_facts(5), of "[]" "[]"] r(1)
  show ?thesis by blast
qed

end
