(* ===== verification/Loop_Setup.thy ===== *)
theory Loop_Setup
  imports Daemon
begin

text \<open>
  The descriptors of the event loop (\<open>main_loop_init\<close>, \<open>main_loop_teardown\<close> and \<open>main_loop_run\<close> of
  \<open>sw/main_loop.c\<close>, the listening socket of \<open>sw/socket_server.c\<close>) and the frame of \<open>main\<close>
  (\<open>sw/tetra_d.c\<close>): flags, paths, exit codes. The kernel is a record of the open descriptors, the
  entries of the epoll sets, the armed timers and the socket files; whether a call fails is given.
\<close>

section \<open>The kernel\<close>

record Kern =
  open_fds :: "int list"
  interest :: "(int \<times> int \<times> u32) list"
  timers :: "(int \<times> int \<times> int) list"
  sock_files :: "string list"
  sig_blocked :: bool

text \<open>A call that opens a descriptor returns the lowest that is free.\<close>

definition fd_new :: "Kern \<Rightarrow> int" where
  "fd_new K = hd (filter (\<lambda>n. n \<notin> set (open_fds K)) (map int [0..<Suc (length (open_fds K))]))"

definition k_open :: "errno option \<Rightarrow> Kern \<Rightarrow> int res \<times> Kern" where
  "k_open err K = (case err of Some e \<Rightarrow> (Inl e, K) | None \<Rightarrow> (Inr (fd_new K), K\<lparr>open_fds := fd_new K # open_fds K\<rparr>))"

text \<open>Closing a descriptor takes it out of every epoll set, and ends the set it stands for.\<close>

definition k_close :: "int \<Rightarrow> Kern \<Rightarrow> Kern" where
  "k_close fd K = K\<lparr>open_fds := filter (\<lambda>n. n \<noteq> fd) (open_fds K),
     interest := filter (\<lambda>(ep, n, _). ep \<noteq> fd \<and> n \<noteq> fd) (interest K),
     timers := filter (\<lambda>(n, _). n \<noteq> fd) (timers K)\<rparr>"

definition k_unlink :: "string \<Rightarrow> Kern \<Rightarrow> Kern" where
  "k_unlink path K = K\<lparr>sock_files := filter (\<lambda>p. p \<noteq> path) (sock_files K)\<rparr>"

section \<open>Event tags\<close>

definition ML_KIND_LISTENER :: u32 where "ML_KIND_LISTENER = 0"
definition ML_KIND_SIGNAL :: u32 where "ML_KIND_SIGNAL = 1"
definition ML_KIND_TIMER :: u32 where "ML_KIND_TIMER = 2"
definition ML_KIND_DMA :: u32 where "ML_KIND_DMA = 3"

definition ml_tag :: "u32 \<Rightarrow> u32 \<Rightarrow> u32" where
  "ml_tag kind aux = push_bit 24 (kind AND 0xFF) OR (aux AND 0x00FFFFFF)"

definition ml_tag_kind :: "u32 \<Rightarrow> u32" where
  "ml_tag_kind tag = drop_bit 24 tag AND 0xFF"

definition ml_tag_aux :: "u32 \<Rightarrow> u32" where
  "ml_tag_aux tag = tag AND 0x00FFFFFF"

text \<open>The handler an event with a tag goes to: a DMA channel is an index.\<close>

datatype LoopSource = SrcSignal | SrcTimer | SrcListener | SrcDma u32 | SrcNone

definition ml_source :: "u32 \<Rightarrow> LoopSource" where
  "ml_source tag =
     (let kind = ml_tag_kind tag in
      if kind = ML_KIND_SIGNAL then SrcSignal
      else if kind = ML_KIND_TIMER then SrcTimer
      else if kind = ML_KIND_LISTENER then SrcListener
      else if kind = ML_KIND_DMA then SrcDma (ml_tag_aux tag)
      else SrcNone)"

definition ml_epoll_add :: "errno option \<Rightarrow> int \<Rightarrow> int \<Rightarrow> u32 \<Rightarrow> Kern \<Rightarrow> unit res \<times> Kern" where
  "ml_epoll_add err ep fd tag K = (case err of Some e \<Rightarrow> (Inl e, K) | None \<Rightarrow> (Inr (), K\<lparr>interest := (ep, fd, tag) # interest K\<rparr>))"

definition ml_epoll_del :: "int \<Rightarrow> int \<Rightarrow> Kern \<Rightarrow> Kern" where
  "ml_epoll_del ep fd K = K\<lparr>interest := filter (\<lambda>(e, n, _). \<not> (e = ep \<and> n = fd)) (interest K)\<rparr>"

section \<open>Opening\<close>

text \<open>Which calls fail, and with what; \<open>None\<close> is success.\<close>

record LoopCalls =
  c_epoll :: "errno option"
  c_sigmask :: "errno option"
  c_signalfd :: "errno option"
  c_add_signal :: "errno option"
  c_timerfd :: "errno option"
  c_settime :: "errno option"
  c_add_timer :: "errno option"
  c_socket :: "errno option"
  c_bind :: "errno option"
  c_listen :: "errno option"
  c_add_listener :: "errno option"
  c_add_dma :: "DmaChan \<Rightarrow> errno option"

definition ml_signalfd_setup :: "LoopCalls \<Rightarrow> Kern \<Rightarrow> int res \<times> Kern" where
  "ml_signalfd_setup c K =
     (case c_sigmask c of
        Some e \<Rightarrow> (Inl e, K)
      | None \<Rightarrow> k_open (c_signalfd c) (K\<lparr>sig_blocked := True\<rparr>))"

definition ML_MULTIFRAME_NS :: int where
  "ML_MULTIFRAME_NS = 1020000000"

definition ml_timerfd_setup :: "LoopCalls \<Rightarrow> int \<Rightarrow> Kern \<Rightarrow> int res \<times> Kern" where
  "ml_timerfd_setup c period_ns K =
     (case k_open (c_timerfd c) K of
        (Inl e, K) \<Rightarrow> (Inl e, K)
      | (Inr fd, K) \<Rightarrow>
          (case c_settime c of
             Some e \<Rightarrow> (Inl e, k_close fd K)
           | None \<Rightarrow> (Inr fd, K\<lparr>timers := (fd, period_ns div 1000000000, period_ns mod 1000000000) # timers K\<rparr>)))"

definition DAEMON_OPS_SOCKET_PATH :: string where
  "DAEMON_OPS_SOCKET_PATH = ''/var/run/tetra_d.sock''"

definition SUN_PATH_MAX :: nat where
  "SUN_PATH_MAX = 108"

text \<open>The path is removed before anything else can fail; the mode of the socket file is not modelled.\<close>

definition socket_server_listen :: "LoopCalls \<Rightarrow> string \<Rightarrow> Kern \<Rightarrow> int res \<times> Kern" where
  "socket_server_listen c path K =
     (case k_open (c_socket c) K of
        (Inl e, K) \<Rightarrow> (Inl e, K)
      | (Inr fd, K) \<Rightarrow>
          let K = k_unlink path K in
          if length path \<ge> SUN_PATH_MAX then (Inl ENAMETOOLONG, k_close fd K)
          else (case c_bind c of
                  Some e \<Rightarrow> (Inl e, k_close fd K)
                | None \<Rightarrow>
                    let K = K\<lparr>sock_files := path # sock_files K\<rparr> in
                    case c_listen c of
                      Some e \<Rightarrow> (Inl e, k_close fd K)
                    | None \<Rightarrow> (Inr fd, K)))"

definition socket_server_close_listener :: "int \<Rightarrow> string \<Rightarrow> Kern \<Rightarrow> Kern" where
  "socket_server_close_listener fd path K = (let K = (if fd \<ge> 0 then k_close fd K else K) in k_unlink path K)"

text \<open>The descriptors in \<open>struct DaemonState\<close>.\<close>

record LoopFds =
  epoll_fd :: int
  listener_fd :: int
  signal_fd :: int
  timer_fd :: int
  dma_irq_fd :: "int list"

definition no_fds :: LoopFds where
  "no_fds = \<lparr>epoll_fd = -1, listener_fd = -1, signal_fd = -1, timer_fd = -1, dma_irq_fd = replicate DMA_CHAN_COUNT (-1)\<rparr>"

type_synonym loop_result = "unit res \<times> LoopFds \<times> Kern"

definition and_then :: "loop_result \<Rightarrow> (LoopFds \<Rightarrow> Kern \<Rightarrow> loop_result) \<Rightarrow> loop_result" where
  "and_then r f = (case r of (Inl e, s, K) \<Rightarrow> (Inl e, s, K) | (Inr _, s, K) \<Rightarrow> f s K)"

text \<open>A step opens a descriptor, stores it, and adds it to the epoll set.\<close>

definition init_fd :: "int res \<times> Kern \<Rightarrow> (int \<Rightarrow> LoopFds \<Rightarrow> LoopFds) \<Rightarrow> errno option \<Rightarrow> u32 \<Rightarrow> LoopFds \<Rightarrow> loop_result" where
  "init_fd r store err tag s =
     (case r of
        (Inl e, K) \<Rightarrow> (Inl e, s, K)
      | (Inr fd, K) \<Rightarrow> let (rc, K) = ml_epoll_add err (epoll_fd s) fd tag K in (rc, store fd s, K))"

fun init_dma_fds :: "LoopCalls \<Rightarrow> DmaCtx \<Rightarrow> DmaChan list \<Rightarrow> LoopFds \<Rightarrow> Kern \<Rightarrow> loop_result" where
  "init_dma_fds c dma [] s K = (Inr (), s, K)"
| "init_dma_fds c dma (ch # chs) s K =
     (case dma_get_irq_fd dma ch of
        Inl _ \<Rightarrow> init_dma_fds c dma chs s K
      | Inr fd \<Rightarrow>
          if fd < 0 then init_dma_fds c dma chs s K
          else and_then (init_fd (Inr fd, K) (\<lambda>fd s. s\<lparr>dma_irq_fd := (dma_irq_fd s)[DmaChan_index ch := fd]\<rparr>) (c_add_dma c ch)
                           (ml_tag ML_KIND_DMA (of_nat (DmaChan_index ch))) s)
                 (init_dma_fds c dma chs))"

definition all_chans :: "DmaChan list" where
  "all_chans = [DMA_CHAN_TMA_RX, DMA_CHAN_TMA_TX, DMA_CHAN_TMD_RX, DMA_CHAN_TMD_TX]"

text \<open>The listener is always opened here: the descriptor the caller may have stored is overwritten first.\<close>

definition main_loop_init :: "LoopCalls \<Rightarrow> DmaCtx \<Rightarrow> Kern \<Rightarrow> loop_result" where
  "main_loop_init c dma K =
     (case k_open (c_epoll c) K of
        (Inl e, K) \<Rightarrow> (Inl e, no_fds, K)
      | (Inr fd, K) \<Rightarrow>
          and_then (init_fd (ml_signalfd_setup c K) (\<lambda>fd s. s\<lparr>signal_fd := fd\<rparr>) (c_add_signal c) (ml_tag ML_KIND_SIGNAL 0) (no_fds\<lparr>epoll_fd := fd\<rparr>)) (\<lambda>s K.
          and_then (init_fd (ml_timerfd_setup c ML_MULTIFRAME_NS K) (\<lambda>fd s. s\<lparr>timer_fd := fd\<rparr>) (c_add_timer c) (ml_tag ML_KIND_TIMER 0) s) (\<lambda>s K.
          and_then (init_fd (socket_server_listen c DAEMON_OPS_SOCKET_PATH K) (\<lambda>fd s. s\<lparr>listener_fd := fd\<rparr>) (c_add_listener c) (ml_tag ML_KIND_LISTENER 0) s) (\<lambda>s K.
          init_dma_fds c dma all_chans s K))))"

section \<open>Closing\<close>

definition del_if_open :: "int \<Rightarrow> int \<Rightarrow> Kern \<Rightarrow> Kern" where
  "del_if_open ep fd K = (if fd \<ge> 0 then ml_epoll_del ep fd K else K)"

definition main_loop_teardown :: "LoopFds \<Rightarrow> Kern \<Rightarrow> LoopFds \<times> Kern" where
  "main_loop_teardown s K =
     (let ep = epoll_fd s;
          (s, K) = (if ep \<ge> 0
            then let K = fold (del_if_open ep) (dma_irq_fd s) K;
                     s = s\<lparr>dma_irq_fd := map (\<lambda>fd. if fd \<ge> 0 then -1 else fd) (dma_irq_fd s)\<rparr>;
                     K = del_if_open ep (timer_fd s) (del_if_open ep (signal_fd s) (del_if_open ep (listener_fd s) K))
                 in (s\<lparr>epoll_fd := -1\<rparr>, k_close ep K)
            else (s, K));
          (s, K) = (if signal_fd s \<ge> 0 then (s\<lparr>signal_fd := -1\<rparr>, k_close (signal_fd s) K) else (s, K));
          (s, K) = (if timer_fd s \<ge> 0 then (s\<lparr>timer_fd := -1\<rparr>, k_close (timer_fd s) K) else (s, K))
      in if listener_fd s \<ge> 0
         then (s\<lparr>listener_fd := -1\<rparr>, socket_server_close_listener (listener_fd s) DAEMON_OPS_SOCKET_PATH K)
         else (s, K))"

section \<open>Waiting\<close>

text \<open>What \<open>epoll_wait\<close> returns; of a batch no event is taken after a shutdown request.\<close>

datatype WaitRet = WaitErr errno | WaitIntr | WaitEvents "DaemonEvent list"

fun run_batch :: "(string \<Rightarrow> Json option) \<Rightarrow> (Json \<Rightarrow> string option) \<Rightarrow> DaemonEvent list \<Rightarrow> DaemonState \<Rightarrow> DaemonState outcome" where
  "run_batch json_loads json_dumps [] st = Returned st"
| "run_batch json_loads json_dumps (ev # evs) st =
     (if shutdown_requested st then Returned st
      else case daemon_event json_loads json_dumps ev st of
             Returned st \<Rightarrow> run_batch json_loads json_dumps evs st
           | Blocked \<Rightarrow> Blocked
           | Aborted \<Rightarrow> Aborted)"

fun main_loop_waits :: "(string \<Rightarrow> Json option) \<Rightarrow> (Json \<Rightarrow> string option) \<Rightarrow> WaitRet list \<Rightarrow> DaemonState \<Rightarrow> (unit res \<times> DaemonState) outcome" where
  "main_loop_waits json_loads json_dumps [] st = (if shutdown_requested st then Returned (Inr (), st) else Blocked)"
| "main_loop_waits json_loads json_dumps (w # ws) st =
     (if shutdown_requested st then Returned (Inr (), st)
      else case w of
             WaitErr e \<Rightarrow> Returned (Inl e, st)
           | WaitIntr \<Rightarrow> main_loop_waits json_loads json_dumps ws st
           | WaitEvents evs \<Rightarrow>
               (case run_batch json_loads json_dumps evs st of
                  Returned st \<Rightarrow> main_loop_waits json_loads json_dumps ws st
                | Blocked \<Rightarrow> Blocked
                | Aborted \<Rightarrow> Aborted))"

text \<open>For tests: the contents of a frame, without the channel.\<close>

definition main_loop_inject_tma_rx :: "DaemonState \<Rightarrow> u8 list \<Rightarrow> DaemonState" where
  "main_loop_inject_tma_rx st frm = ml_dispatch_tma_rx frm st"

section \<open>The program\<close>

datatype CliAction = CliHelp | CliListOps | CliVersion

fun cli_action :: "string list \<Rightarrow> CliAction option" where
  "cli_action [] = None"
| "cli_action (a # as) =
     (if a = ''--help'' then Some CliHelp
      else if a = ''--list-ops'' then Some CliListOps
      else if a = ''--version'' then Some CliVersion
      else cli_action as)"

definition env_or :: "string option \<Rightarrow> string \<Rightarrow> string" where
  "env_or v dfl = (case v of Some s \<Rightarrow> if s \<noteq> [] then s else dfl | None \<Rightarrow> dfl)"

definition DEFAULT_DB_PATH :: string where
  "DEFAULT_DB_PATH = ''/var/lib/tetra/db.json''"

definition DEFAULT_AST_PATH :: string where
  "DEFAULT_AST_PATH = ''/var/lib/tetra/ast.json''"

text \<open>
  What is given to a run of \<open>main\<close>: arguments, environment, the JSON library, the outcomes of the
  system calls of start-up, loop and saving.
\<close>

record MainGiven =
  argv :: "string list"
  db_path_env :: "string option"
  ast_path_env :: "string option"
  g_loads :: "string \<Rightarrow> Json option"
  g_dumps :: "Json \<Rightarrow> string option"
  unlink_tmp_ok :: bool
  dma_open_sys :: "OpenSys list"
  loop_calls :: LoopCalls
  waits :: "WaitRet list"
  ast_calls :: "SysRet list"
  db_calls :: "SysRet list"

text \<open>
  The exit code, the files and the kernel at the end; the descriptors of the DMA pipes are those of
  \<open>dma_init\<close> and closed by \<open>dma_close\<close>, which is outside the kernel record.
\<close>

definition tetra_d_main :: "MainGiven \<Rightarrow> Fs \<Rightarrow> Kern \<Rightarrow> (nat \<times> Fs \<times> Kern) outcome" where
  "tetra_d_main g fs K =
     (if cli_action (argv g) \<noteq> None then Returned (0, fs, K)
      else
        (case tetra_d_start (g_loads g) (unlink_tmp_ok g) (dma_open_sys g) (env_or (db_path_env g) DEFAULT_DB_PATH)
                (env_or (ast_path_env g) DEFAULT_AST_PATH) fs of
           (Inl code, fs) \<Rightarrow> Returned (code, fs, K)
         | (Inr st, fs) \<Rightarrow>
             (case main_loop_init (loop_calls g) (d_dma st) K of
                (Inl _, s, K) \<Rightarrow> Returned (7, fs, snd (main_loop_teardown s K))
              | (Inr _, s, K) \<Rightarrow>
                  (case main_loop_waits (g_loads g) (g_dumps g) (waits g) st of
                     Blocked \<Rightarrow> Blocked
                   | Aborted \<Rightarrow> Aborted
                   | Returned (rc, st) \<Rightarrow>
                       Returned (if rc = Inr () then 0 else 1, tetra_d_finish (g_dumps g) (ast_calls g) (db_calls g) st fs,
                         snd (main_loop_teardown s K))))))"

section \<open>Descriptors\<close>

lemma fd_new_fresh: "fd_new K \<notin> set (open_fds K)" "0 \<le> fd_new K"
proof -
  let ?xs = "filter (\<lambda>n. n \<notin> set (open_fds K)) (map int [0..<Suc (length (open_fds K))])"
  have "?xs \<noteq> []"
  proof
    assume "?xs = []"
    then have "\<forall>n\<in>set (map int [0..<Suc (length (open_fds K))]). n \<in> set (open_fds K)" unfolding filter_empty_conv by blast
    then have "int ` {0..<Suc (length (open_fds K))} \<subseteq> set (open_fds K)" by (auto simp del: upt_Suc)
    then have "card (int ` {0..<Suc (length (open_fds K))}) \<le> card (set (open_fds K))" by (rule card_mono [OF finite_set])
    also have "\<dots> \<le> length (open_fds K)" by (rule card_length)
    finally show False by (simp add: card_image)
  qed
  then have "fd_new K \<in> set ?xs" unfolding fd_new_def by (rule hd_in_set)
  then show "fd_new K \<notin> set (open_fds K)" "0 \<le> fd_new K" by (auto simp del: upt_Suc)
qed

text \<open>A call that may open a descriptor: a fresh one, or none.\<close>

definition opens :: "int res \<times> Kern \<Rightarrow> Kern \<Rightarrow> bool" where
  "opens r K \<longleftrightarrow> (case r of
     (Inl _, K') \<Rightarrow> set (open_fds K') = set (open_fds K)
   | (Inr fd, K') \<Rightarrow> 0 \<le> fd \<and> fd \<notin> set (open_fds K) \<and> set (open_fds K') = insert fd (set (open_fds K)))"

lemma opens_calls:
  "opens (k_open err K) K" "opens (ml_signalfd_setup c K) K" "opens (ml_timerfd_setup c p K) K" "opens (socket_server_listen c path K) K"
  using fd_new_fresh [of K] fd_new_fresh [of "K\<lparr>sig_blocked := True\<rparr>"]
  by (auto simp: opens_def k_open_def ml_signalfd_setup_def ml_timerfd_setup_def socket_server_listen_def k_close_def k_unlink_def Let_def
      split: option.split)

definition own :: "LoopFds \<Rightarrow> int set" where
  "own s = set (filter (\<lambda>fd. 0 \<le> fd) [epoll_fd s, signal_fd s, timer_fd s, listener_fd s])"

definition holds :: "Kern \<Rightarrow> LoopFds \<Rightarrow> Kern \<Rightarrow> bool" where
  "holds K0 s K \<longleftrightarrow> set (open_fds K) = set (open_fds K0) \<union> own s \<and> own s \<inter> set (open_fds K0) = {}"

lemma init_fd_holds:
  assumes "init_fd r store err tag s = (rc, s', K')" "holds K0 s K" "opens r K"
    and "\<And>fd. 0 \<le> fd \<Longrightarrow> own (store fd s) = insert fd (own s)"
  shows "holds K0 s' K' \<and> (rc = Inr () \<longrightarrow> (\<exists>fd. s' = store fd s))"
proof -
  obtain x K1 where r: "r = (x, K1)" by force
  show ?thesis
  proof (cases x)
    case (Inl e)
    with assms(1-3) r show ?thesis by (auto simp only: init_fd_def holds_def opens_def prod.case sum.case prod.inject)
  next
    case (Inr fd)
    have "s' = store fd s \<and> open_fds K' = open_fds K1"
      using assms(1) r Inr by (cases err) (auto simp: init_fd_def ml_epoll_add_def)
    moreover have o: "0 \<le> fd" "fd \<notin> set (open_fds K)" "set (open_fds K1) = insert fd (set (open_fds K))"
      using assms(3) r Inr by (simp_all add: opens_def)
    moreover have "own (store fd s) = insert fd (own s)" by (rule assms(4) [OF o(1)])
    ultimately show ?thesis using assms(2) by (auto simp only: holds_def Un_insert_right Int_insert_left_if0 Un_iff)
  qed
qed

lemma and_thenE:
  assumes "and_then r f = (rc, s', K')"
  obtains (fail) e where "r = (Inl e, s', K')" "rc = Inl e" | (ok) s K where "r = (Inr (), s, K)" "f s K = (rc, s', K')"
proof -
  obtain x s1 K1 where r: "r = (x, s1, K1)" using prod_cases3 .
  show thesis
  proof (cases x)
    case (Inl e)
    with r assms have "(Inl e, s1, K1) = (rc, s', K')" by (simp only: and_then_def prod.case sum.case)
    with r Inl show ?thesis by (intro fail [of e]) simp_all
  next
    case (Inr u)
    with r assms have "f s1 K1 = (rc, s', K')" by (simp only: and_then_def prod.case sum.case)
    with r Inr show ?thesis by (intro ok [of s1 K1]) simp_all
  qed
qed

lemma own_dma: "own (s\<lparr>dma_irq_fd := x\<rparr>) = own s"
  by (simp add: own_def)

lemma own_start: "own no_fds = {}" "0 \<le> fd \<Longrightarrow> own (no_fds\<lparr>epoll_fd := fd\<rparr>) = {fd}"
  by (simp_all add: own_def no_fds_def)

lemma init_dma_holds:
  "init_dma_fds c dma chs s K = (rc, s', K') \<Longrightarrow> holds K0 s K \<Longrightarrow> holds K0 s' K'"
proof (induction chs arbitrary: s K)
  case (Cons ch chs)
  show ?case
  proof (cases "dma_get_irq_fd dma ch")
    case (Inr fd)
    show ?thesis
    proof (cases "fd < 0")
      case False
      let ?r = "init_fd (Inr fd, K) (\<lambda>fd s. s\<lparr>dma_irq_fd := (dma_irq_fd s)[DmaChan_index ch := fd]\<rparr>) (c_add_dma c ch) (ml_tag ML_KIND_DMA (of_nat (DmaChan_index ch))) s"
      have h: "holds K0 s1 K1" if "?r = (rc1, s1, K1)" for rc1 s1 K1
      proof -
        have "open_fds K1 = open_fds K \<and> own s1 = own s"
          using that by (cases "c_add_dma c ch") (auto simp: init_fd_def ml_epoll_add_def own_dma)
        with Cons.prems(2) show ?thesis by (simp only: holds_def)
      qed
      from Cons.prems(1) Inr False have "and_then ?r (init_dma_fds c dma chs) = (rc, s', K')" by simp
      then show ?thesis
      proof (cases rule: and_thenE)
        case (fail e)
        from h [OF fail(1)] show ?thesis .
      next
        case (ok s1 K1)
        from Cons.IH [OF ok(2) h [OF ok(1)]] show ?thesis .
      qed
    qed (use Cons Inr in simp)
  qed (use Cons in simp)
qed simp

text \<open>One step of the set-up, and the rest of it.\<close>

lemma init_step_holds:
  assumes "and_then (init_fd r store err tag s) f = (rc, s', K')" "holds K0 s K" "opens r K"
    and "\<And>fd. 0 \<le> fd \<Longrightarrow> own (store fd s) = insert fd (own s)"
    and "\<And>fd K1. holds K0 (store fd s) K1 \<Longrightarrow> f (store fd s) K1 = (rc, s', K') \<Longrightarrow> holds K0 s' K'"
  shows "holds K0 s' K'"
  using assms(1)
proof (cases rule: and_thenE)
  case (fail e)
  from init_fd_holds [OF fail(1) assms(2-4)] show ?thesis by simp
next
  case (ok s1 K1)
  from init_fd_holds [OF ok(1) assms(2-4)] obtain fd where "holds K0 (store fd s) K1" "s1 = store fd s" by auto
  with ok(2) show ?thesis by (auto intro: assms(5))
qed

lemma main_loop_init_holds:
  assumes "main_loop_init c dma K = (rc, s, K')"
  shows "holds K s K'"
proof (cases "k_open (c_epoll c) K")
  case (Pair r K1)
  show ?thesis
  proof (cases r)
    case (Inl e)
    with assms Pair opens_calls(1) [of "c_epoll c" K] show ?thesis
      by (simp add: main_loop_init_def holds_def own_start opens_def)
  next
    case (Inr fd)
    have h0: "holds K (no_fds\<lparr>epoll_fd := fd\<rparr>) K1"
      using Pair Inr opens_calls(1) [of "c_epoll c" K] by (simp add: holds_def own_start opens_def)
    from assms Pair Inr have "and_then (init_fd (ml_signalfd_setup c K1) (\<lambda>fd s. s\<lparr>signal_fd := fd\<rparr>) (c_add_signal c) (ml_tag ML_KIND_SIGNAL 0) (no_fds\<lparr>epoll_fd := fd\<rparr>)) (\<lambda>s K.
      and_then (init_fd (ml_timerfd_setup c ML_MULTIFRAME_NS K) (\<lambda>fd s. s\<lparr>timer_fd := fd\<rparr>) (c_add_timer c) (ml_tag ML_KIND_TIMER 0) s) (\<lambda>s K.
      and_then (init_fd (socket_server_listen c DAEMON_OPS_SOCKET_PATH K) (\<lambda>fd s. s\<lparr>listener_fd := fd\<rparr>) (c_add_listener c) (ml_tag ML_KIND_LISTENER 0) s)
        (init_dma_fds c dma all_chans))) = (rc, s, K')"
      by (simp add: main_loop_init_def)
    then show ?thesis
    proof (rule init_step_holds [OF _ h0 opens_calls(2)], goal_cases)
      case (2 f1 K2)
      from 2(2) show ?case
      proof (rule init_step_holds [OF _ 2(1) opens_calls(3)], goal_cases)
        case (2 f2 K3)
        from 2(2) show ?case
          by (rule init_step_holds [OF _ 2(1) opens_calls(4)]) (auto simp: own_def no_fds_def intro: init_dma_holds)
      qed (auto simp: own_def no_fds_def)
    qed (auto simp: own_def no_fds_def)
  qed
qed

lemma fold_del_open: "open_fds (fold (del_if_open ep) fds K) = open_fds K"
  by (induction fds arbitrary: K) (simp_all add: del_if_open_def ml_epoll_del_def)

lemma teardown_open:
  assumes "main_loop_teardown s K = (s', K')"
  shows "set (open_fds K') = set (open_fds K) - own s" "own s' = {}" "0 \<le> listener_fd s \<Longrightarrow> DAEMON_OPS_SOCKET_PATH \<notin> set (sock_files K')"
proof -
  have d: "open_fds (del_if_open ep fd K) = open_fds K" for ep fd K by (simp add: del_if_open_def ml_epoll_del_def)
  from assms show "set (open_fds K') = set (open_fds K) - own s"
    by (auto simp: main_loop_teardown_def Let_def own_def k_close_def socket_server_close_listener_def k_unlink_def d fold_del_open split: if_splits)
  from assms show "own s' = {}"
    by (auto simp: main_loop_teardown_def Let_def own_def split: if_splits)
  from assms show "0 \<le> listener_fd s \<Longrightarrow> DAEMON_OPS_SOCKET_PATH \<notin> set (sock_files K')"
    by (auto simp: main_loop_teardown_def Let_def socket_server_close_listener_def k_unlink_def split: if_splits)
qed

section \<open>What is watched\<close>

lemma init_fd_ok:
  assumes "init_fd r store err tag s = (Inr (), s', K')"
  obtains fd K1 where "r = (Inr fd, K1)" "s' = store fd s" "K' = K1\<lparr>interest := (epoll_fd s, fd, tag) # interest K1\<rparr>"
proof -
  obtain x K1 where r: "r = (x, K1)" by force
  show thesis
  proof (cases x)
    case (Inl e)
    with assms r show ?thesis by (simp add: init_fd_def)
  next
    case (Inr fd)
    with assms r show ?thesis by (intro that [of fd K1]) (auto simp: init_fd_def ml_epoll_add_def split: option.splits)
  qed
qed

lemma open_ok:
  "ml_signalfd_setup c K = (Inr fd, K1) \<Longrightarrow> interest K1 = interest K"
  "ml_timerfd_setup c p K = (Inr fd, K1) \<Longrightarrow> interest K1 = interest K \<and> timers K1 = (fd, p div 1000000000, p mod 1000000000) # timers K"
  "socket_server_listen c path K = (Inr fd, K1) \<Longrightarrow> interest K1 = interest K \<and> timers K1 = timers K \<and> path \<in> set (sock_files K1)"
  by (auto simp: ml_signalfd_setup_def ml_timerfd_setup_def socket_server_listen_def k_open_def k_unlink_def Let_def split: option.splits if_splits)

text \<open>The descriptors of the DMA channels with their tags.\<close>

definition dma_watched :: "DmaCtx \<Rightarrow> DmaChan set \<Rightarrow> (int \<times> u32) set" where
  "dma_watched dma chs = {(fd, ml_tag ML_KIND_DMA (of_nat (DmaChan_index ch))) | fd ch. ch \<in> chs \<and> dma_get_irq_fd dma ch = Inr fd \<and> 0 \<le> fd}"

lemma dma_watched_insert:
  "dma_watched dma (insert ch chs) =
     (case dma_get_irq_fd dma ch of
        Inl _ \<Rightarrow> {}
      | Inr fd \<Rightarrow> if fd < 0 then {} else {(fd, ml_tag ML_KIND_DMA (of_nat (DmaChan_index ch)))}) \<union> dma_watched dma chs"
  by (auto simp: dma_watched_def split: sum.split)

definition watched :: "int \<Rightarrow> Kern \<Rightarrow> (int \<times> u32) set" where
  "watched ep K = {(fd, tag). (ep, fd, tag) \<in> set (interest K)}"

lemma watched_add: "watched ep (K\<lparr>interest := (ep, fd, tag) # interest K\<rparr>) = insert (fd, tag) (watched ep K)"
  by (auto simp: watched_def)

lemma init_dma_ok:
  "init_dma_fds c dma chs s K = (Inr (), s', K') \<Longrightarrow>
    watched (epoll_fd s) K' = watched (epoll_fd s) K \<union> dma_watched dma (set chs) \<and> timers K' = timers K \<and> sock_files K' = sock_files K \<and>
    (\<exists>x. s' = s\<lparr>dma_irq_fd := x\<rparr>)"
proof (induction chs arbitrary: s K)
  case Nil
  then have "s' = s\<lparr>dma_irq_fd := dma_irq_fd s\<rparr>" "K' = K" by simp_all
  then show ?case by (auto simp: dma_watched_def intro: exI [of _ "dma_irq_fd s"])
next
  case (Cons ch chs)
  show ?case
  proof (cases "dma_get_irq_fd dma ch")
    case (Inl e)
    with Cons show ?thesis by (simp add: dma_watched_insert)
  next
    case (Inr fd)
    show ?thesis
    proof (cases "fd < 0")
      case True
      with Inr Cons show ?thesis by (simp add: dma_watched_insert)
    next
      case False
      let ?store = "\<lambda>fd s. s\<lparr>dma_irq_fd := (dma_irq_fd s)[DmaChan_index ch := fd]\<rparr>"
      let ?r = "init_fd (Inr fd, K) ?store (c_add_dma c ch) (ml_tag ML_KIND_DMA (of_nat (DmaChan_index ch))) s"
      from Cons.prems Inr False have "and_then ?r (init_dma_fds c dma chs) = (Inr (), s', K')" by simp
      then show ?thesis
      proof (cases rule: and_thenE)
        case (ok s1 K1)
        have k: "s1 = ?store fd s" "K1 = K\<lparr>interest := (epoll_fd s, fd, ml_tag ML_KIND_DMA (of_nat (DmaChan_index ch))) # interest K\<rparr>"
          by (rule init_fd_ok [OF ok(1)], simp)+
        from Cons.IH [OF ok(2)] k Inr False show ?thesis by (auto simp: watched_add dma_watched_insert)
      qed simp
    qed
  qed
qed

lemma all_chans_set: "set all_chans = UNIV"
  by (auto simp: all_chans_def intro: DmaChan.exhaust)

lemma tag_sources:
  "ml_source (ml_tag ML_KIND_SIGNAL 0) = SrcSignal \<and> ml_source (ml_tag ML_KIND_TIMER 0) = SrcTimer \<and>
   ml_source (ml_tag ML_KIND_LISTENER 0) = SrcListener"
  by code_simp

lemma tag_source_dma: "ml_source (ml_tag ML_KIND_DMA (of_nat (DmaChan_index ch))) = SrcDma (of_nat (DmaChan_index ch))"
proof -
  have *: "list_all (\<lambda>n. ml_source (ml_tag ML_KIND_DMA (of_nat n)) = SrcDma (of_nat n)) [0, 1, 2, 3]" by code_simp
  have "DmaChan_index ch \<in> set [0, 1, 2, 3]" by (cases ch) simp_all
  with * show ?thesis unfolding list_all_iff by blast
qed

section \<open>Batches of events\<close>

definition batch_events :: "WaitRet \<Rightarrow> DaemonEvent list" where
  "batch_events w = (case w of WaitEvents evs \<Rightarrow> evs | _ \<Rightarrow> [])"

lemma main_loop_run_stopped: "shutdown_requested st \<Longrightarrow> main_loop_run jl jd evs st = Returned st"
  by (cases evs) simp_all

lemma main_loop_run_append:
  "main_loop_run jl jd (evs @ rest) st =
     (case run_batch jl jd evs st of
        Returned st \<Rightarrow> main_loop_run jl jd rest st
      | Blocked \<Rightarrow> Blocked
      | Aborted \<Rightarrow> Aborted)"
proof (induction evs arbitrary: st)
  case (Cons ev evs)
  show ?case
  proof (cases "shutdown_requested st")
    case True
    then show ?thesis by (simp add: main_loop_run_stopped)
  next
    case False
    with Cons show ?thesis by (simp split: outcome.split)
  qed
qed simp

lemma loop_batches_sequential:
  assumes "\<forall>e. WaitErr e \<notin> set ws"
  shows "main_loop_waits jl jd ws st =
    (case main_loop_run jl jd (concat (map batch_events ws)) st of
       Returned st' \<Rightarrow> Returned (Inr (), st')
     | Blocked \<Rightarrow> Blocked
     | Aborted \<Rightarrow> Aborted)"
  using assms
proof (induction ws arbitrary: st)
  case (Cons w ws)
  show ?case
  proof (cases "shutdown_requested st")
    case True
    then show ?thesis by (simp add: main_loop_run_stopped)
  next
    case False
    from Cons.prems have "\<forall>e. WaitErr e \<notin> set ws" by simp
    note IH = Cons.IH [OF this]
    show ?thesis
    proof (cases w)
      case (WaitEvents evs)
      with False IH show ?thesis
        by (cases "run_batch jl jd evs st") (simp_all add: batch_events_def main_loop_run_append)
    next
      case (WaitErr e)
      then have "WaitErr e \<in> set (w # ws)" by simp
      with Cons.prems show ?thesis by blast
    qed (use False IH in \<open>simp add: batch_events_def\<close>)
  qed
qed simp

definition ok_calls :: LoopCalls where
  "ok_calls = \<lparr>c_epoll = None, c_sigmask = None, c_signalfd = None, c_add_signal = None, c_timerfd = None, c_settime = None,
     c_add_timer = None, c_socket = None, c_bind = None, c_listen = None, c_add_listener = None, c_add_dma = \<lambda>_. None\<rparr>"

text \<open>Standard input, output and error open.\<close>

definition ex_kern :: Kern where
  "ex_kern = \<lparr>open_fds = [0, 1, 2], interest = [], timers = [], sock_files = [], sig_blocked = False\<rparr>"

lemma init_dma_succeeds: "\<exists>s' K'. init_dma_fds ok_calls dma chs s K = (Inr (), s', K')"
  by (induction chs arbitrary: s K) (auto simp: and_then_def init_fd_def ml_epoll_add_def ok_calls_def split: sum.split)

lemma init_succeeds: "\<exists>s K'. main_loop_init ok_calls dma K = (Inr (), s, K')"
proof -
  have "length DAEMON_OPS_SOCKET_PATH < SUN_PATH_MAX" by (simp add: DAEMON_OPS_SOCKET_PATH_def SUN_PATH_MAX_def)
  then show ?thesis
    using init_dma_succeeds [unfolded ok_calls_def]
    by (simp add: main_loop_init_def ok_calls_def k_open_def and_then_def init_fd_def ml_epoll_add_def ml_signalfd_setup_def ml_timerfd_setup_def
        socket_server_listen_def k_unlink_def Let_def)
qed

definition ex_given :: MainGiven where
  "ex_given = \<lparr>argv = [], db_path_env = None, ast_path_env = Some '''', g_loads = \<lambda>_. None, g_dumps = \<lambda>_. None, unlink_tmp_ok = True,
     dma_open_sys = [], loop_calls = ok_calls, waits = [WaitIntr, WaitEvents [EvSignal True]], ast_calls = [], db_calls = []\<rparr>"

section \<open>Properties\<close>

text \<open>
  C31: whatever fails, the loop gives back what it took. After \<open>main_loop_init\<close>, with any of its system calls
  failing at any point, \<open>main_loop_teardown\<close> leaves exactly the descriptors open that were open before,
  none in the state, and no socket file where the listener had been stored.
\<close>

theorem loop_init_teardown_restores:
  "case main_loop_init c dma K of (rc, s, K1) \<Rightarrow>
     (case main_loop_teardown s K1 of (s', K2) \<Rightarrow>
        set (open_fds K2) = set (open_fds K) \<and>
        epoll_fd s' < 0 \<and> signal_fd s' < 0 \<and> timer_fd s' < 0 \<and> listener_fd s' < 0 \<and>
        (if 0 \<le> listener_fd s then DAEMON_OPS_SOCKET_PATH \<notin> set (sock_files K2) else True))"
proof -
  obtain rc s K1 where i: "main_loop_init c dma K = (rc, s, K1)" using prod_cases3 .
  obtain s' K2 where t: "main_loop_teardown s K1 = (s', K2)" by force
  have "holds K s K1" by (rule main_loop_init_holds [OF i])
  then have "set (open_fds K2) = set (open_fds K)" using teardown_open(1) [OF t] by (auto simp: holds_def)
  moreover have "epoll_fd s' < 0 \<and> signal_fd s' < 0 \<and> timer_fd s' < 0 \<and> listener_fd s' < 0"
    using teardown_open(2) [OF t] by (simp add: own_def split: if_splits)
  ultimately show ?thesis using i t teardown_open(3) [OF t] by simp
qed

text \<open>
  C32: after a successful start the loop watches exactly its sources. The epoll set holds the signal, timer and
  listener descriptors and those of the DMA channels that have one, each with a tag for which the
  dispatcher calls the handler of that source; the timer is armed with 1.02 s and the socket file exists.
\<close>

theorem loop_init_watches_sources:
  assumes "main_loop_init c dma K = (Inr (), s, K')" "\<forall>(ep, fd, tag)\<in>set (interest K). ep \<in> set (open_fds K)"
  shows "{(fd, ml_source tag) | fd tag. (epoll_fd s, fd, tag) \<in> set (interest K')} =
      {(signal_fd s, SrcSignal), (timer_fd s, SrcTimer), (listener_fd s, SrcListener)} \<union>
      {(fd, SrcDma (of_nat (DmaChan_index ch))) | fd ch. dma_get_irq_fd dma ch = Inr fd \<and> 0 \<le> fd} \<and>
    (timer_fd s, 1, 20000000) \<in> set (timers K') \<and> DAEMON_OPS_SOCKET_PATH \<in> set (sock_files K')"
proof -
  obtain ep K1 where e: "k_open (c_epoll c) K = (Inr ep, K1)"
    using assms(1) by (auto simp: main_loop_init_def split: prod.splits sum.splits)
  let ?s = "no_fds\<lparr>epoll_fd := ep\<rparr>"
  have k1: "interest K1 = interest K" "ep \<notin> set (open_fds K)"
    using e fd_new_fresh by (auto simp: k_open_def split: option.splits)
  then have w0: "watched ep K1 = {}" using assms(2) by (force simp: watched_def)
  have "and_then (init_fd (ml_signalfd_setup c K1) (\<lambda>fd s. s\<lparr>signal_fd := fd\<rparr>) (c_add_signal c) (ml_tag ML_KIND_SIGNAL 0) ?s) (\<lambda>s K.
      and_then (init_fd (ml_timerfd_setup c ML_MULTIFRAME_NS K) (\<lambda>fd s. s\<lparr>timer_fd := fd\<rparr>) (c_add_timer c) (ml_tag ML_KIND_TIMER 0) s) (\<lambda>s K.
        and_then (init_fd (socket_server_listen c DAEMON_OPS_SOCKET_PATH K) (\<lambda>fd s. s\<lparr>listener_fd := fd\<rparr>) (c_add_listener c) (ml_tag ML_KIND_LISTENER 0) s)
          (init_dma_fds c dma all_chans))) = (Inr (), s, K')"
    using assms(1) e by (simp add: main_loop_init_def)
  then obtain s1 K2 where s1: "init_fd (ml_signalfd_setup c K1) (\<lambda>fd s. s\<lparr>signal_fd := fd\<rparr>) (c_add_signal c) (ml_tag ML_KIND_SIGNAL 0) ?s = (Inr (), s1, K2)"
    and r1: "and_then (init_fd (ml_timerfd_setup c ML_MULTIFRAME_NS K2) (\<lambda>fd s. s\<lparr>timer_fd := fd\<rparr>) (c_add_timer c) (ml_tag ML_KIND_TIMER 0) s1) (\<lambda>s K.
        and_then (init_fd (socket_server_listen c DAEMON_OPS_SOCKET_PATH K) (\<lambda>fd s. s\<lparr>listener_fd := fd\<rparr>) (c_add_listener c) (ml_tag ML_KIND_LISTENER 0) s)
          (init_dma_fds c dma all_chans)) = (Inr (), s, K')"
    by (rule and_thenE) simp
  from r1 obtain s2 K3 where s2: "init_fd (ml_timerfd_setup c ML_MULTIFRAME_NS K2) (\<lambda>fd s. s\<lparr>timer_fd := fd\<rparr>) (c_add_timer c) (ml_tag ML_KIND_TIMER 0) s1 = (Inr (), s2, K3)"
    and r2: "and_then (init_fd (socket_server_listen c DAEMON_OPS_SOCKET_PATH K3) (\<lambda>fd s. s\<lparr>listener_fd := fd\<rparr>) (c_add_listener c) (ml_tag ML_KIND_LISTENER 0) s2)
          (init_dma_fds c dma all_chans) = (Inr (), s, K')"
    by (rule and_thenE) simp
  from r2 obtain s3 K4 where s3: "init_fd (socket_server_listen c DAEMON_OPS_SOCKET_PATH K3) (\<lambda>fd s. s\<lparr>listener_fd := fd\<rparr>) (c_add_listener c) (ml_tag ML_KIND_LISTENER 0) s2 = (Inr (), s3, K4)"
    and r3: "init_dma_fds c dma all_chans s3 K4 = (Inr (), s, K')"
    by (rule and_thenE) simp
  obtain f1 J1 where a: "ml_signalfd_setup c K1 = (Inr f1, J1)" "s1 = ?s\<lparr>signal_fd := f1\<rparr>" "K2 = J1\<lparr>interest := (ep, f1, ml_tag ML_KIND_SIGNAL 0) # interest J1\<rparr>"
    by (rule init_fd_ok [OF s1]) (simp add: no_fds_def)
  obtain f2 J2 where b: "ml_timerfd_setup c ML_MULTIFRAME_NS K2 = (Inr f2, J2)" "s2 = s1\<lparr>timer_fd := f2\<rparr>" "K3 = J2\<lparr>interest := (epoll_fd s1, f2, ml_tag ML_KIND_TIMER 0) # interest J2\<rparr>"
    by (rule init_fd_ok [OF s2])
  obtain f3 J3 where d: "socket_server_listen c DAEMON_OPS_SOCKET_PATH K3 = (Inr f3, J3)" "s3 = s2\<lparr>listener_fd := f3\<rparr>" "K4 = J3\<lparr>interest := (epoll_fd s2, f3, ml_tag ML_KIND_LISTENER 0) # interest J3\<rparr>"
    by (rule init_fd_ok [OF s3])
  have ep: "epoll_fd s1 = ep" "epoll_fd s2 = ep" "epoll_fd s3 = ep" by (simp_all add: a b d)
  obtain x where s: "s = s3\<lparr>dma_irq_fd := x\<rparr>" using init_dma_ok [OF r3] by blast
  have f: "epoll_fd s = ep" "signal_fd s = f1" "timer_fd s = f2" "listener_fd s = f3" by (simp_all add: s a b d)
  have w: "watched ep J1 = {}" "watched ep J2 = watched ep K2" "watched ep J3 = watched ep K3"
    using w0 open_ok(1) [OF a(1)] open_ok(2) [OF b(1)] open_ok(3) [OF d(1)] by (simp_all add: watched_def)
  have "watched ep K' = {(f1, ml_tag ML_KIND_SIGNAL 0), (f2, ml_tag ML_KIND_TIMER 0), (f3, ml_tag ML_KIND_LISTENER 0)} \<union> dma_watched dma UNIV"
    using init_dma_ok [OF r3] w by (auto simp: a(3) b(3) d(3) ep watched_add all_chans_set)
  moreover have "{(fd, ml_source tag) | fd tag. (ep, fd, tag) \<in> set (interest K')} = (\<lambda>(fd, tag). (fd, ml_source tag)) ` watched ep K'"
    by (auto simp: watched_def)
  moreover have "(\<lambda>(fd, tag). (fd, ml_source tag)) ` dma_watched dma UNIV =
      {(fd, SrcDma (of_nat (DmaChan_index ch))) | fd ch. dma_get_irq_fd dma ch = Inr fd \<and> 0 \<le> fd}"
    by (force simp: dma_watched_def tag_source_dma)
  moreover have "(f2, 1, 20000000) \<in> set (timers K')" "DAEMON_OPS_SOCKET_PATH \<in> set (sock_files K')"
    using init_dma_ok [OF r3] open_ok(2) [OF b(1)] open_ok(3) [OF d(1)] by (simp_all add: b(3) d(3) ML_MULTIFRAME_NS_def)
  ultimately show ?thesis unfolding f by (simp add: image_Un tag_sources)
qed

theorem loop_init_watches_sources_witness:
  "\<exists>s K'. main_loop_init ok_calls (snd (dma_init [])) ex_kern = (Inr (), s, K') \<and>
    (timer_fd s, SrcTimer) \<in> {(fd, ml_source tag) | fd tag. (epoll_fd s, fd, tag) \<in> set (interest K')}"
proof -
  obtain s K' where i: "main_loop_init ok_calls (snd (dma_init [])) ex_kern = (Inr (), s, K')" using init_succeeds by blast
  have "\<forall>(ep, fd, tag)\<in>set (interest ex_kern). ep \<in> set (open_fds ex_kern)" by (simp add: ex_kern_def)
  from loop_init_watches_sources [OF i this] i show ?thesis by (auto simp del: split_paired_Ex)
qed

text \<open>How the loop ends, and which flags make the program print something instead.\<close>

lemma main_loop_waits_end:
  "main_loop_waits json_loads json_dumps ws st = Returned (rc, st') \<Longrightarrow>
    (case rc of Inr _ \<Rightarrow> shutdown_requested st' | Inl e \<Rightarrow> WaitErr e \<in> set ws \<and> \<not> shutdown_requested st')"
proof (induction ws arbitrary: st)
  case (Cons w ws)
  show ?case
  proof (cases "shutdown_requested st")
    case False
    with Cons show ?thesis by (cases w) (auto split: outcome.splits sum.splits)
  qed (use Cons.prems in auto)
qed (auto split: if_splits)

lemma cli_action_flags: "cli_action as \<noteq> None \<longleftrightarrow> (\<exists>a\<in>set as. a \<in> {''--help'', ''--list-ops'', ''--version''})"
  by (induction as) auto

text \<open>
  C33: what the exit codes mean. A run with one of the three flags ends with 0 and changes nothing.
  Otherwise start-up never fails before the event loop, whatever the files hold and the DMA set-up
  returns, and a run that ends has one of three codes: 7 exactly when the loop could not be set up, and
  then the files are as start-up left them; 1 exactly when waiting for events failed, no shutdown
  having been requested; 0 exactly when the loop ended because a shutdown was requested. Nothing is saved
  unless the shutdown was a clean one, and every descriptor of the loop is given back.
\<close>

theorem main_exit_codes:
  assumes "tetra_d_main g fs K = Returned (code, fs', K')"
  shows "set (open_fds K') = set (open_fds K) \<and>
    (if \<exists>a\<in>set (argv g). a \<in> {''--help'', ''--list-ops'', ''--version''} then code = 0 \<and> fs' = fs \<and> K' = K
     else \<exists>st f1. tetra_d_start (g_loads g) (unlink_tmp_ok g) (dma_open_sys g) (env_or (db_path_env g) DEFAULT_DB_PATH)
         (env_or (ast_path_env g) DEFAULT_AST_PATH) fs = (Inr st, f1) \<and>
       (if fst (main_loop_init (loop_calls g) (d_dma st) K) \<noteq> Inr () then code = 7 \<and> fs' = f1
        else \<exists>rc st'. main_loop_waits (g_loads g) (g_dumps g) (waits g) st = Returned (rc, st') \<and>
          (clean_shutdown_flag st' \<or> fs' = f1) \<and>
          (if shutdown_requested st' then code = 0 \<and> rc = Inr () else code = 1 \<and> (\<exists>e. rc = Inl e \<and> WaitErr e \<in> set (waits g)))))"
proof (cases "cli_action (argv g) = None")
  case False
  with assms cli_action_flags [of "argv g"] show ?thesis by (simp add: tetra_d_main_def)
next
  case True
  let ?start = "tetra_d_start (g_loads g) (unlink_tmp_ok g) (dma_open_sys g) (env_or (db_path_env g) DEFAULT_DB_PATH) (env_or (ast_path_env g) DEFAULT_AST_PATH) fs"
  let ?waits = "main_loop_waits (g_loads g) (g_dumps g) (waits g)"
  have flags: "\<not> (\<exists>a\<in>set (argv g). a \<in> {''--help'', ''--list-ops'', ''--version''})" using True cli_action_flags [of "argv g"] by simp
  obtain st f1 where st: "?start = (Inr st, f1)" using start_total by blast
  obtain rc s K1 where i: "main_loop_init (loop_calls g) (d_dma st) K = (rc, s, K1)" using prod_cases3 .
  obtain s' K2 where t: "main_loop_teardown s K1 = (s', K2)" by force
  have fds: "set (open_fds K2) = set (open_fds K)"
    using main_loop_init_holds [OF i] teardown_open(1) [OF t] by (auto simp: holds_def)
  show ?thesis
  proof (cases rc)
    case (Inl e)
    with assms True st i t have "code = 7" "fs' = f1" "K' = K2" by (auto simp: tetra_d_main_def)
    with fds st i Inl flags show ?thesis by simp
  next
    case (Inr u)
    with assms True st i t obtain rc2 st2 where w: "?waits st = Returned (rc2, st2)"
        "code = (if rc2 = Inr () then 0 else 1)" "fs' = tetra_d_finish (g_dumps g) (ast_calls g) (db_calls g) st2 f1" "K' = K2"
      by (cases "?waits st") (auto simp: tetra_d_main_def)
    have f: "clean_shutdown_flag st2 \<or> fs' = f1" by (auto simp: w(3) tetra_d_finish_def)
    have c: "if shutdown_requested st2 then code = 0 \<and> rc2 = Inr () else code = 1 \<and> (\<exists>e. rc2 = Inl e \<and> WaitErr e \<in> set (waits g))"
      using main_loop_waits_end [OF w(1)] w(2) by (auto split: sum.splits)
    from fds w(4) have fds: "set (open_fds K') = set (open_fds K)" by simp
    have "fst (main_loop_init (loop_calls g) (d_dma st) K) = Inr ()" using i Inr by simp
    with fds st w(1) f c flags show ?thesis by auto
  qed
qed

theorem main_exit_codes_witness:
  "\<exists>fs' K'. tetra_d_main ex_given Map.empty ex_kern = Returned (0, fs', K') \<and> set (open_fds K') = {0, 1, 2}"
proof -
  obtain st f where st: "tetra_d_start (\<lambda>_. None) True [] DEFAULT_DB_PATH DEFAULT_AST_PATH Map.empty = (Inr st, f)" using start_total by blast
  obtain s K' where i: "main_loop_init ok_calls (d_dma st) ex_kern = (Inr (), s, K')" using init_succeeds by blast
  have n: "\<not> shutdown_requested st" by (rule start_shape(7) [OF st])
  have w: "\<exists>st'. main_loop_waits (\<lambda>_. None) (\<lambda>_. None) [WaitIntr, WaitEvents [EvSignal True]] st = Returned (Inr (), st')"
    using n by (simp add: daemon_event_def ml_signal_event_def)
  have "\<exists>fs' K'. tetra_d_main ex_given Map.empty ex_kern = Returned (0, fs', K')"
    using st i w by (auto simp: tetra_d_main_def ex_given_def env_or_def)
  then obtain fs' K' where r: "tetra_d_main ex_given Map.empty ex_kern = Returned (0, fs', K')" by blast
  from main_exit_codes [OF r] r show ?thesis by (auto simp: ex_kern_def)
qed

end
