(* ===== verification/Cgi.thy ===== *)
theory Cgi
  imports Socket_Server
begin

text \<open>
  The web programs (\<open>sw/webui/cgi_common.c\<close>): each is started by the HTTP server for one request, checks
  the operation against its own list, and forwards one request to the socket of the daemon. C strings are
  \<open>string\<close>s cut at the first NUL; environment variables, the results of the system calls and the bytes of
  standard input and of the socket are given. Memory allocation and writing to standard output are taken
  to succeed.
\<close>

section \<open>Lengths, lists of operations\<close>

definition cgi_pack_len_be :: "u32 \<Rightarrow> u8 list" where
  "cgi_pack_len_be n = [ucast (drop_bit 24 n AND 0xFF), ucast (drop_bit 16 n AND 0xFF), ucast (drop_bit 8 n AND 0xFF), ucast (drop_bit 0 n AND 0xFF)]"

definition cgi_unpack_len_be :: "u8 list \<Rightarrow> u32" where
  "cgi_unpack_len_be b = push_bit 24 (ucast (b ! 0)) OR push_bit 16 (ucast (b ! 1)) OR push_bit 8 (ucast (b ! 2)) OR push_bit 0 (ucast (b ! 3))"

record CgiRunOpts =
  script_name :: string
  allowed_ops :: "string list"
  sock_path :: "string option"
  max_body_bytes :: nat
  fallback_op :: "string option"

definition cgi_op_allowed :: "CgiRunOpts \<Rightarrow> string \<Rightarrow> bool" where
  "cgi_op_allowed opts op \<longleftrightarrow> list_ex (\<lambda>a. a = op) (allowed_ops opts)"

section \<open>Raw input and output\<close>

text \<open>\<open>SIGPIPE\<close> is ignored here, so a closed connection is an error of \<open>write\<close>.\<close>

fun cgi_write_all :: "WriteRet list \<Rightarrow> u8 list \<Rightarrow> u8 list \<Rightarrow> (unit res \<times> u8 list \<times> WriteRet list) outcome" where
  "cgi_write_all [] bs sent = (if bs = [] then Returned (Inr (), sent, []) else Blocked)"
| "cgi_write_all (w # ws) bs sent =
     (if bs = [] then Returned (Inr (), sent, w # ws)
      else case w of
             WriteIntr \<Rightarrow> cgi_write_all ws bs sent
           | WriteErr e \<Rightarrow> Returned (Inl e, sent, ws)
           | WriteDone k \<Rightarrow>
               let n = min k (length bs) in
               if n = 0 then Returned (Inl EIO, sent, ws) else cgi_write_all ws (drop n bs) (sent @ take n bs))"

text \<open>One round of the reading loop: the deadline has passed, or \<open>select\<close> fails, times out, or lets \<open>read\<close> go.\<close>

datatype CgiRound = CrLate | CrSelectIntr | CrSelectErr errno | CrSelectTimeout | CrRead SockRead

fun cgi_read_loop :: "CgiRound list \<Rightarrow> u8 list \<Rightarrow> u8 list \<Rightarrow> nat \<Rightarrow> nat \<Rightarrow> (u8 list res \<times> u8 list \<times> CgiRound list) outcome" where
  "cgi_read_loop [] inp buf mn mx = (if length buf < mn then Blocked else Returned (Inr buf, inp, []))"
| "cgi_read_loop (r # rs) inp buf mn mx =
     (if length buf < mn
      then case r of
             CrLate \<Rightarrow> Returned (Inl ETIMEDOUT, inp, rs)
           | CrSelectIntr \<Rightarrow> cgi_read_loop rs inp buf mn mx
           | CrSelectErr e \<Rightarrow> Returned (Inl e, inp, rs)
           | CrSelectTimeout \<Rightarrow> Returned (Inl ETIMEDOUT, inp, rs)
           | CrRead SkReadIntr \<Rightarrow> cgi_read_loop rs inp buf mn mx
           | CrRead (SkReadErr e) \<Rightarrow> Returned (Inl e, inp, rs)
           | CrRead (SkRead k) \<Rightarrow>
               let n = min (min k (mx - length buf)) (length inp) in
               if n = 0 then Returned (Inl EIO, inp, rs)
               else cgi_read_loop rs (drop n inp) (buf @ take n inp) mn mx
      else Returned (Inr buf, inp, r # rs))"

definition cgi_read_atleast :: "CgiRound list \<Rightarrow> u8 list \<Rightarrow> nat \<Rightarrow> nat \<Rightarrow> (u8 list res \<times> u8 list \<times> CgiRound list) outcome" where
  "cgi_read_atleast rs inp mn mx =
     (if mx < mn then Returned (Inl EINVAL, inp, rs) else cgi_read_loop rs inp [] mn mx)"

section \<open>JSON text\<close>

text \<open>What \<open>%04x\<close> prints for a control character; a quoted string.\<close>

definition hex_digit :: "nat \<Rightarrow> char" where
  "hex_digit n = (''0123456789abcdef'') ! n"

definition quoted :: "string \<Rightarrow> string" where
  "quoted s = CHR 0x22 # s @ [CHR 0x22]"

definition json_escape_char :: "char \<Rightarrow> string" where
  "json_escape_char c =
     (if c = CHR 0x22 \<or> c = CHR 0x5C then [CHR 0x5C, c]
      else if c = CHR 0x0A then [CHR 0x5C, CHR ''n'']
      else if c = CHR 0x0D then [CHR 0x5C, CHR ''r'']
      else if c = CHR 0x09 then [CHR 0x5C, CHR ''t'']
      else if (of_char c :: nat) < 0x20
      then [CHR 0x5C, CHR ''u'', CHR ''0'', CHR ''0'', hex_digit (of_char c div 16), hex_digit (of_char c mod 16)]
      else [c])"

text \<open>The loop; \<open>out\<close> is what was written, which with its NUL must stay within \<open>lim\<close>.\<close>

fun json_escape_loop :: "nat \<Rightarrow> string \<Rightarrow> string \<Rightarrow> string option" where
  "json_escape_loop lim out [] = (if length out \<ge> lim then None else Some out)"
| "json_escape_loop lim out (c # s) =
     (if length out + length (json_escape_char c) \<ge> lim then None
      else json_escape_loop lim (out @ json_escape_char c) s)"

definition json_escape :: "nat \<Rightarrow> string \<Rightarrow> string option" where
  "json_escape lim s = json_escape_loop lim [] s"

definition cgi_build_request :: "nat \<Rightarrow> string \<Rightarrow> string \<Rightarrow> string option \<Rightarrow> string \<Rightarrow> string option" where
  "cgi_build_request out_cap op args_json req_id client_tag =
     (if out_cap < 16 then None
      else do {
        op_esc \<leftarrow> json_escape 256 op;
        rid_esc \<leftarrow> json_escape 64 (case req_id of Some r \<Rightarrow> r | None \<Rightarrow> []);
        tag_esc \<leftarrow> json_escape 128 client_tag;
        let args = (if args_json \<noteq> [] then args_json else ''{}'');
        let rid = (case req_id of Some r \<Rightarrow> if r \<noteq> [] then '','' @ quoted ''req_id'' @ '':'' @ quoted rid_esc else [] | None \<Rightarrow> []);
        let text = ''{'' @ quoted ''op'' @ '':'' @ quoted op_esc @ '','' @ quoted ''args'' @ '':'' @ args @ rid @
              '','' @ quoted ''client'' @ '':'' @ quoted tag_esc @ ''}'';
        if length text \<ge> out_cap then None else Some text
      })"

section \<open>Query strings\<close>

definition cstr :: "string \<Rightarrow> string" where
  "cstr s = takeWhile (\<lambda>c. c \<noteq> CHR 0x00) s"

text \<open>The character classes of the C locale, and the value of a hexadecimal digit.\<close>

definition char_between :: "char \<Rightarrow> char \<Rightarrow> char \<Rightarrow> bool" where
  "char_between lo hi c \<longleftrightarrow> (of_char lo :: nat) \<le> of_char c \<and> (of_char c :: nat) \<le> of_char hi"

definition isdigit :: "char \<Rightarrow> bool" where
  "isdigit c \<longleftrightarrow> char_between (CHR ''0'') (CHR ''9'') c"

definition isxdigit :: "char \<Rightarrow> bool" where
  "isxdigit c \<longleftrightarrow> isdigit c \<or> char_between (CHR ''a'') (CHR ''f'') c \<or> char_between (CHR ''A'') (CHR ''F'') c"

definition isalnum :: "char \<Rightarrow> bool" where
  "isalnum c \<longleftrightarrow> isdigit c \<or> char_between (CHR ''a'') (CHR ''z'') c \<or> char_between (CHR ''A'') (CHR ''Z'') c"

definition isspace :: "char \<Rightarrow> bool" where
  "isspace c \<longleftrightarrow> c \<in> {CHR '' '', CHR 0x09, CHR 0x0A, CHR 0x0B, CHR 0x0C, CHR 0x0D}"

definition hex_value :: "char \<Rightarrow> nat" where
  "hex_value c =
     (if isdigit c then of_char c - of_char (CHR ''0'')
      else if char_between (CHR ''a'') (CHR ''f'') c then of_char c - of_char (CHR ''a'') + 10
      else of_char c - of_char (CHR ''A'') + 10)"

fun url_decode :: "string \<Rightarrow> string" where
  "url_decode [] = []"
| "url_decode (c # s) =
     (if c = CHR ''+'' then CHR '' '' # url_decode s
      else case s of
             a # b # t \<Rightarrow> if c = CHR ''%'' \<and> isxdigit a \<and> isxdigit b then char_of (16 * hex_value a + hex_value b) # url_decode t
                         else c # url_decode s
           | _ \<Rightarrow> c # url_decode s)"

text \<open>The loops look for the first \<open>=\<close> and the first \<open>&\<close> of the rest of the string.\<close>

function qs_extract :: "string \<Rightarrow> string \<Rightarrow> string option" where
  "qs_extract p key =
     (case find_index (\<lambda>c. c = CHR ''='') p of
        None \<Rightarrow> None
      | Some eq \<Rightarrow>
          let amp = find_index (\<lambda>c. c = CHR ''&'') p in
          if take eq p = key
          then let vend = (case amp of Some a \<Rightarrow> a | None \<Rightarrow> length p) in
               if vend < eq + 1 then None else Some (cstr (url_decode (take (vend - (eq + 1)) (drop (eq + 1) p))))
          else (case amp of None \<Rightarrow> None | Some a \<Rightarrow> qs_extract (drop (a + 1) p) key))"
  by pat_completeness auto
termination
  by (relation "measure (\<lambda>(p, key). length p)") (auto dest!: find_index_SomeD(1))

text \<open>\<open>out\<close> is what was written so far; a parameter without \<open>=\<close> makes \<open>vlen\<close> wrap and be refused.\<close>

function qs_args_loop :: "nat \<Rightarrow> string \<Rightarrow> string \<Rightarrow> bool \<Rightarrow> string option" where
  "qs_args_loop lim p out first =
     (case find_index (\<lambda>c. c = CHR ''='') p of
        None \<Rightarrow> Some out
      | Some eq \<Rightarrow>
          let amp = find_index (\<lambda>c. c = CHR ''&'') p;
              vend = (case amp of Some a \<Rightarrow> a | None \<Rightarrow> length p);
              name = take eq p;
              val = take (vend - (eq + 1)) (drop (eq + 1) p);
              piece = (if name = ''op'' then Some (out, first)
                       else if length name \<ge> 64 \<or> vend < eq + 1 \<or> length val \<ge> 256 then None
                       else do {
                         name_esc \<leftarrow> json_escape 128 (cstr (url_decode name));
                         val_esc \<leftarrow> json_escape 512 (cstr (url_decode val));
                         let text = (if first then [] else '','') @ quoted name_esc @ '':'' @ quoted val_esc;
                         if length text \<ge> lim - length out then None else Some (out @ text, False)
                       })
          in case piece of
               None \<Rightarrow> None
             | Some (out, first) \<Rightarrow> (case amp of None \<Rightarrow> Some out | Some a \<Rightarrow> qs_args_loop lim (drop (a + 1) p) out first))"
  by pat_completeness auto
termination
  by (relation "measure (\<lambda>(lim, p, out, first). length p)") (auto dest!: find_index_SomeD(1))

definition qs_to_args_json :: "nat \<Rightarrow> string \<Rightarrow> string option" where
  "qs_to_args_json lim qs =
     (if lim < 3 then None
      else do {
        out \<leftarrow> qs_args_loop lim qs ''{'' True;
        if length out + 2 > lim then None else Some (out @ ''}'')
      })"

section \<open>Responses\<close>

definition http_reason :: "nat \<Rightarrow> string" where
  "http_reason status =
     (if status = 200 then ''OK'' else if status = 400 then ''Bad Request'' else if status = 403 then ''Forbidden''
      else if status = 413 then ''Payload Too Large'' else if status = 502 then ''Bad Gateway''
      else if status = 504 then ''Gateway Timeout'' else ''OK'')"

text \<open>Decimal digits, as \<open>%d\<close> prints them.\<close>

fun decimal :: "nat \<Rightarrow> string" where
  "decimal n = (if n < 10 then [char_of (48 + n)] else decimal (n div 10) @ [char_of (48 + n mod 10)])"

definition crlf :: string where
  "crlf = [CHR 0x0D, CHR 0x0A]"

definition cgi_emit_error :: "nat \<Rightarrow> string \<Rightarrow> string \<Rightarrow> string option" where
  "cgi_emit_error status_http code message = do {
     code_esc \<leftarrow> json_escape 64 code;
     msg_esc \<leftarrow> json_escape 256 message;
     let text = ''{'' @ quoted ''ok'' @ '':false,'' @ quoted ''error'' @ '':{'' @ quoted ''code'' @ '':'' @ quoted code_esc @ '','' @
       quoted ''message'' @ '':'' @ quoted msg_esc @ ''}}'';
     if length text \<ge> 512 then None
     else do {
       let hdr = ''Status: '' @ decimal status_http @ '' '' @ http_reason status_http @ crlf @
         ''Content-Type: application/json'' @ crlf @ ''Content-Length: '' @ decimal (length text) @ crlf @ crlf;
       if length hdr \<ge> 256 then None else Some (hdr @ text)
     }
   }"

definition cgi_emit_response :: "u8 list \<Rightarrow> u8 list" where
  "cgi_emit_response bs =
     bytes_of_text (''Status: 200 OK'' @ crlf @ ''Content-Type: application/json'' @ crlf @
       ''Content-Length: '' @ decimal (length bs) @ crlf @ crlf) @ bs"

section \<open>The request\<close>

definition CGI_DEFAULT_MAX_BODY :: nat where
  "CGI_DEFAULT_MAX_BODY = 256 * 1024"

definition CGI_ENVELOPE_MAX :: nat where
  "CGI_ENVELOPE_MAX = 1 * 1024 * 1024"

text \<open>\<open>strtoul(cl, &endp, 10)\<close>, with the 32-bit \<open>unsigned long\<close> of the board; \<open>None\<close> when no digit is found.\<close>

definition ULONG_MAX :: nat where
  "ULONG_MAX = 2 ^ 32 - 1"

definition strtoul10 :: "string \<Rightarrow> nat option" where
  "strtoul10 s =
     (let t = dropWhile isspace s;
          neg = (t \<noteq> [] \<and> hd t = CHR ''-'');
          u = (if t \<noteq> [] \<and> (hd t = CHR ''-'' \<or> hd t = CHR ''+'') then tl t else t);
          ds = takeWhile isdigit u;
          v = foldl (\<lambda>n d. 10 * n + hex_value d) 0 ds
      in if ds = [] then None
         else Some (if v > ULONG_MAX then ULONG_MAX else if neg then (2 ^ 32 - v) mod 2 ^ 32 else v))"

text \<open>The body of a request, or the error number.\<close>

definition slurp_stdin :: "nat \<Rightarrow> string option \<Rightarrow> CgiRound list \<Rightarrow> u8 list \<Rightarrow> string res outcome" where
  "slurp_stdin max_bytes content_length rs inp =
     (case content_length of
        None \<Rightarrow> Returned (Inr [])
      | Some cl \<Rightarrow>
          if cl = [] then Returned (Inr [])
          else (case strtoul10 cl of
                  None \<Rightarrow> Returned (Inl EINVAL)
                | Some want \<Rightarrow>
                    if want > max_bytes then Returned (Inl E2BIG)
                    else if want = 0 then Returned (Inr [])
                    else (case cgi_read_atleast rs inp want want of
                            Returned (Inl e, _, _) \<Rightarrow> Returned (Inl e)
                          | Returned (Inr bs, _, _) \<Rightarrow> Returned (Inr (text_of_bytes bs))
                          | Blocked \<Rightarrow> Blocked
                          | Aborted \<Rightarrow> Aborted)))"

text \<open>Up to the closing quote, a backslash taking the next character with it; \<open>None\<close> when it is missing.\<close>

fun scan_string :: "string \<Rightarrow> string option" where
  "scan_string [] = None"
| "scan_string (c # s) =
     (if c = CHR 0x22 then Some []
      else case s of
             d # t \<Rightarrow> if c = CHR 0x5C then map_option (\<lambda>v. c # d # v) (scan_string t)
                     else map_option ((#) c) (scan_string s)
           | [] \<Rightarrow> None)"

text \<open>What follows the name: \<open>None\<close> to go on searching, else the value found.\<close>

definition op_value :: "string \<Rightarrow> string option option" where
  "op_value q =
     (let q = dropWhile isspace q in
      if q = [] \<or> hd q \<noteq> CHR '':'' then None
      else let q = dropWhile isspace (tl q) in
           if q = [] \<or> hd q \<noteq> CHR 0x22 then None
           else Some (map_option cstr (scan_string (tl q))))"

fun json_extract_loop :: "char option \<Rightarrow> string \<Rightarrow> string option" where
  "json_extract_loop prev [] = None"
| "json_extract_loop prev (c # s) =
     (if length (c # s) \<le> 4 then None
      else if (case prev of None \<Rightarrow> True | Some b \<Rightarrow> \<not> isalnum b) \<and> take 4 (c # s) = quoted ''op''
      then (case op_value (drop 4 (c # s)) of
              Some r \<Rightarrow> r
            | None \<Rightarrow> json_extract_loop (Some c) s)
      else json_extract_loop (Some c) s)"

definition json_extract_op :: "string \<Rightarrow> string option" where
  "json_extract_op text = (if length text < 6 then None else json_extract_loop None text)"

text \<open>An error response: HTTP status, code, message.\<close>

type_synonym CgiError = "nat \<times> string \<times> string"

definition resolve_op :: "CgiRunOpts \<Rightarrow> string \<Rightarrow> string \<Rightarrow> string option" where
  "resolve_op opts qs text =
     (case (if text \<noteq> [] then json_extract_op text else None) of
        Some op \<Rightarrow> Some op
      | None \<Rightarrow> (case qs_extract qs ''op'' of Some op \<Rightarrow> Some op | None \<Rightarrow> fallback_op opts))"

text \<open>The arguments: a body that starts like an object is taken over verbatim.\<close>

definition request_args :: "bool \<Rightarrow> string \<Rightarrow> string \<Rightarrow> CgiError + string" where
  "request_args has_body qs text =
     (if has_body \<and> text \<noteq> [] then
        let t = dropWhile isspace text in
        if t \<noteq> [] \<and> hd t = CHR ''{''
        then if length t + 1 > 2048 then Inl (413, ''E2BIG'', ''body too large'') else Inr (cstr t)
        else (case qs_to_args_json 2048 (cstr text) of
                None \<Rightarrow> Inl (413, ''E2BIG'', ''form too large'')
              | Some a \<Rightarrow> Inr a)
      else (case qs_to_args_json 2048 qs of
              None \<Rightarrow> Inl (413, ''E2BIG'', ''query too large'')
            | Some a \<Rightarrow> Inr a))"

text \<open>Steps 2 to 4 of \<open>cgi_run\<close>: the text of the request to the daemon.\<close>

definition cgi_request :: "CgiRunOpts \<Rightarrow> bool \<Rightarrow> string \<Rightarrow> string \<Rightarrow> CgiError + string" where
  "cgi_request opts has_body qs text =
     (case resolve_op opts qs text of
        None \<Rightarrow> Inl (400, ''EINVAL'', ''missing op'')
      | Some op \<Rightarrow>
          if \<not> cgi_op_allowed opts op then Inl (403, ''FORBIDDEN_OP'', ''op not in CGI allow-list'')
          else (case request_args has_body qs text of
                  Inl e \<Rightarrow> Inl e
                | Inr args \<Rightarrow>
                    (case cgi_build_request CGI_DEFAULT_MAX_BODY op args None (take 63 (''cgi:'' @ script_name opts)) of
                       None \<Rightarrow> Inl (413, ''E2BIG'', ''request too large'')
                     | Some req \<Rightarrow> Inr req)))"

section \<open>The exchange\<close>

text \<open>
  The results of the system calls of \<open>connect_daemon\<close>: whether the deadline has passed, the error of
  \<open>socket\<close>, the result of \<open>connect\<close>, and, when it is still in progress, of \<open>select\<close> and \<open>getsockopt\<close>
  (its failure, or the pending error of the socket). The result is the path connected to.
\<close>

datatype ConnectRet = ConnDone | ConnInProgress | ConnErr errno

datatype SelectRet = SelReady | SelTimeout | SelErr errno

record ConnCalls =
  conn_late :: bool
  conn_socket :: "errno option"
  conn_connect :: ConnectRet
  conn_select :: SelectRet
  conn_getsockopt :: "errno option"
  conn_so_error :: "errno option"

definition CGI_DAEMON_SOCK_DEFAULT :: string where
  "CGI_DAEMON_SOCK_DEFAULT = ''/run/tetra_d.sock''"

definition UNIX_PATH_MAX :: nat where
  "UNIX_PATH_MAX = 108"

definition connect_daemon :: "string option \<Rightarrow> string option \<Rightarrow> ConnCalls \<Rightarrow> string res" where
  "connect_daemon path_in env cc =
     (let path = (case env of Some e \<Rightarrow> if e \<noteq> [] then Some e else path_in | None \<Rightarrow> path_in);
          path = (case path of Some q \<Rightarrow> if q = [] then CGI_DAEMON_SOCK_DEFAULT else q | None \<Rightarrow> CGI_DAEMON_SOCK_DEFAULT)
      in if conn_late cc then Inl ETIMEDOUT
         else case conn_socket cc of
                Some e \<Rightarrow> Inl e
              | None \<Rightarrow>
                  if length path \<ge> UNIX_PATH_MAX then Inl ENAMETOOLONG
                  else (case conn_connect cc of
                          ConnErr e \<Rightarrow> Inl e
                        | ConnDone \<Rightarrow> Inr path
                        | ConnInProgress \<Rightarrow>
                            (case conn_select cc of
                               SelTimeout \<Rightarrow> Inl ETIMEDOUT
                             | SelErr e \<Rightarrow> Inl e
                             | SelReady \<Rightarrow>
                                 if conn_getsockopt cc \<noteq> None then Inl EIO
                                 else (case conn_so_error cc of Some e \<Rightarrow> Inl e | None \<Rightarrow> Inr path))))"

text \<open>
  Step 5: the connection, the results of the writes and of the reading rounds, and the bytes the daemon
  sends. The result is the answer of the daemon, and what it was sent.
\<close>

definition cgi_exchange :: "string res \<Rightarrow> WriteRet list \<Rightarrow> CgiRound list \<Rightarrow> u8 list \<Rightarrow> string \<Rightarrow> ((CgiError + u8 list) \<times> u8 list) outcome" where
  "cgi_exchange sfd ws rs inp req =
     (case sfd of
        Inl _ \<Rightarrow> Returned (Inl (502, ''EINTERNAL'', ''daemon socket connect failed''), [])
      | Inr _ \<Rightarrow>
        (case cgi_write_all ws (cgi_pack_len_be (of_nat (length req))) [] of
           Blocked \<Rightarrow> Blocked
         | Aborted \<Rightarrow> Aborted
         | Returned (Inl _, sent, _) \<Rightarrow> Returned (Inl (502, ''EINTERNAL'', ''request write failed''), sent)
         | Returned (Inr _, sent, ws) \<Rightarrow>
             (case cgi_write_all ws (bytes_of_text req) sent of
                Blocked \<Rightarrow> Blocked
              | Aborted \<Rightarrow> Aborted
              | Returned (Inl _, sent, _) \<Rightarrow> Returned (Inl (502, ''EINTERNAL'', ''request write failed''), sent)
              | Returned (Inr _, sent, _) \<Rightarrow>
                  (case cgi_read_atleast rs inp 4 4 of
                     Blocked \<Rightarrow> Blocked
                   | Aborted \<Rightarrow> Aborted
                   | Returned (Inl e, _, _) \<Rightarrow>
                       Returned (Inl (if e = ETIMEDOUT then 504 else 502, ''EINTERNAL'', ''response header read failed''), sent)
                   | Returned (Inr rlp, inp, rs) \<Rightarrow>
                       let rlen = unat (cgi_unpack_len_be rlp) in
                       if rlen = 0 \<or> rlen > CGI_ENVELOPE_MAX
                       then Returned (Inl (502, ''EINTERNAL'', ''response length invalid''), sent)
                       else
                         (case cgi_read_atleast rs inp rlen rlen of
                            Blocked \<Rightarrow> Blocked
                          | Aborted \<Rightarrow> Aborted
                          | Returned (Inl e, _, _) \<Rightarrow>
                              Returned (Inl (if e = ETIMEDOUT then 504 else 502, ''EINTERNAL'', ''response body read failed''), sent)
                          | Returned (Inr resp, _, _) \<Rightarrow> Returned (Inr resp, sent))))))"

text \<open>The variables of one run: method, query, length of the body, standard input, \<open>TETRA_D_SOCK\<close>, socket.\<close>

record CgiEnv =
  request_method :: "string option"
  query_string :: "string option"
  content_length :: "string option"
  stdin_rounds :: "CgiRound list"
  stdin_bytes :: "u8 list"
  sock_env :: "string option"
  sock_conn :: ConnCalls
  sock_writes :: "WriteRet list"
  sock_rounds :: "CgiRound list"
  sock_bytes :: "u8 list"

text \<open>Standard output (an error response that does not fit its buffers is not written), and what the daemon was sent.\<close>

definition error_output :: "CgiError \<Rightarrow> u8 list" where
  "error_output e =
     (case e of (status, code, message) \<Rightarrow>
        (case cgi_emit_error status code message of Some t \<Rightarrow> bytes_of_text t | None \<Rightarrow> []))"

definition cgi_run :: "CgiRunOpts \<Rightarrow> CgiEnv \<Rightarrow> (u8 list \<times> u8 list) outcome" where
  "cgi_run opts env =
     (let max_body = (if max_body_bytes opts > 0 then max_body_bytes opts else CGI_DEFAULT_MAX_BODY);
          meth = (case request_method env of Some m \<Rightarrow> m | None \<Rightarrow> ''GET'');
          qs = (case query_string env of Some q \<Rightarrow> q | None \<Rightarrow> []);
          has_body = (meth = ''POST'' \<or> meth = ''PUT'')
      in case (if has_body then slurp_stdin max_body (content_length env) (stdin_rounds env) (stdin_bytes env) else Returned (Inr [])) of
           Blocked \<Rightarrow> Blocked
         | Aborted \<Rightarrow> Aborted
         | Returned (Inl e) \<Rightarrow>
             Returned (error_output (if e = E2BIG then (413, ''E2BIG'', ''stdin slurp failed'') else (400, ''EINVAL'', ''stdin slurp failed'')), [])
         | Returned (Inr text) \<Rightarrow>
             (case cgi_request opts has_body qs text of
                Inl e \<Rightarrow> Returned (error_output e, [])
              | Inr req \<Rightarrow>
                  (case cgi_exchange (connect_daemon (sock_path opts) (sock_env env) (sock_conn env)) (sock_writes env) (sock_rounds env) (sock_bytes env) req of
                     Blocked \<Rightarrow> Blocked
                   | Aborted \<Rightarrow> Aborted
                   | Returned (Inl e, sent) \<Rightarrow> Returned (error_output e, sent)
                   | Returned (Inr resp, sent) \<Rightarrow> Returned (cgi_emit_response resp, sent))))"

section \<open>The programs\<close>

text \<open>
  One \<open>*_main.c\<close> each: a name, a list of operations, a limit for the body (0 for the default), and the
  operation taken when the request has none.
\<close>

definition cgi_opts :: "string \<Rightarrow> string list \<Rightarrow> nat \<Rightarrow> string option \<Rightarrow> CgiRunOpts" where
  "cgi_opts nm ops mb fb = \<lparr>script_name = nm, allowed_ops = ops, sock_path = None, max_body_bytes = mb, fallback_op = fb\<rparr>"

definition k_policy_allowed :: "string list" where
  "k_policy_allowed =
     [''policy.get'', ''policy.put'']"

definition policy_cgi :: CgiRunOpts where
  "policy_cgi = cgi_opts ''policy.cgi'' k_policy_allowed 0 (Some ''policy.get'')"

definition k_db_allowed :: "string list" where
  "k_db_allowed =
     [''db.export'', ''db.import'', ''db.reset'']"

definition db_cgi :: CgiRunOpts where
  "db_cgi = cgi_opts ''db.cgi'' k_db_allowed (1024 * 1024) (Some ''db.export'')"

definition k_profiles_allowed :: "string list" where
  "k_profiles_allowed =
     [''profile.list'', ''profile.get'', ''profile.put'', ''profile.delete'', ''profile.reset'']"

definition profiles_cgi :: CgiRunOpts where
  "profiles_cgi = cgi_opts ''profiles.cgi'' k_profiles_allowed 0 (Some ''profile.list'')"

definition k_jobs_allowed :: "string list" where
  "k_jobs_allowed =
     [''jobs.list'', ''jobs.get'', ''jobs.cancel'']"

definition jobs_cgi :: CgiRunOpts where
  "jobs_cgi = cgi_opts ''jobs.cgi'' k_jobs_allowed 0 (Some ''jobs.list'')"

definition k_apply_allowed :: "string list" where
  "k_apply_allowed =
     [''apply.status'', ''apply.apply'', ''apply.discard'']"

definition apply_cgi :: CgiRunOpts where
  "apply_cgi = cgi_opts ''apply.cgi'' k_apply_allowed 0 (Some ''apply.status'')"

definition k_stop_allowed :: "string list" where
  "k_stop_allowed =
     [''daemon.stop'']"

definition stop_cgi :: CgiRunOpts where
  "stop_cgi = cgi_opts ''stop.cgi'' k_stop_allowed 0 (Some ''daemon.stop'')"

definition k_tools_allowed :: "string list" where
  "k_tools_allowed =
     [''tools.pdu_send_form'', ''tools.pdu_send'', ''tools.reset_counters'', ''tools.reset_ast'', ''tools.reg_write'',
      ''tools.bitstream_list'', ''tools.bitstream_switch'', ''tools.capture_start'', ''tools.capture_stop'',
      ''tools.capture_list'', ''tools.capture_download'', ''tools.decoder_upload'', ''tools.decoder_list'',
      ''tools.decoder_run'', ''tools.decoder_result'', ''tools.decoder_artifact'', ''daemon.restart'']"

definition tools_cgi :: CgiRunOpts where
  "tools_cgi = cgi_opts ''tools.cgi'' k_tools_allowed (1024 * 1024) None"

definition k_debug_allowed :: "string list" where
  "k_debug_allowed =
     [''debug.pdu_recent'', ''debug.pdu_stream'', ''debug.aach_recent'', ''debug.aach_stream'',
      ''debug.slot_schedule'', ''debug.irq_counters'', ''debug.msgbus_stream'', ''debug.log_tail'',
      ''debug.reg_read'', ''debug.reg_write'', ''debug.tmasap_recent'', ''debug.tmdsap_stats'']"

definition debug_cgi :: CgiRunOpts where
  "debug_cgi = cgi_opts ''debug.cgi'' k_debug_allowed 0 (Some ''debug.aach_recent'')"

definition k_sessions_allowed :: "string list" where
  "k_sessions_allowed =
     [''session.list'', ''session.get'', ''session.stats'']"

definition sessions_cgi :: CgiRunOpts where
  "sessions_cgi = cgi_opts ''sessions.cgi'' k_sessions_allowed 0 (Some ''session.list'')"

definition k_entities_allowed :: "string list" where
  "k_entities_allowed =
     [''entity.list'', ''entity.get'', ''entity.lookup'', ''entity.put'', ''entity.delete'', ''entity.clear_all'']"

definition entities_cgi :: CgiRunOpts where
  "entities_cgi = cgi_opts ''entities.cgi'' k_entities_allowed 0 (Some ''entity.list'')"

definition k_status_allowed :: "string list" where
  "k_status_allowed =
     [''status.summary'', ''status.layers'', ''status.phy_stats'', ''status.dma_stats'', ''status.txq'',
      ''status.msgbus'', ''status.calls'', ''status.groups'', ''status.fpga_regs'', ''status.aach_current'',
      ''status.snapshot'']"

definition k_config_allowed :: "string list" where
  "k_config_allowed =
     [''config.cell.get'', ''config.cell.put'', ''config.rf.get'', ''config.rf.put'', ''config.cipher.get'',
      ''config.cipher.put'', ''config.training.get'', ''config.training.put'', ''config.slot_table.get'',
      ''config.slot_table.put'', ''config.ad9361.get'', ''config.ad9361.put'', ''config.msgbus.get'',
      ''config.msgbus.put'', ''config.schema'']"

text \<open>\<open>strstr\<close>: the rest of the string from the first occurrence on.\<close>

fun strstr :: "string \<Rightarrow> string \<Rightarrow> string option" where
  "strstr [] k = (if k = [] then Some [] else None)"
| "strstr (c # s) k = (if take (length k) (c # s) = k then Some (c # s) else strstr s k)"

text \<open>The query of \<open>status.cgi\<close>: \<open>scope=NAME\<close> stands for \<open>op=status.NAME\<close>.\<close>

definition status_synthesised :: "string option \<Rightarrow> string" where
  "status_synthesised qs =
     (case qs of
        None \<Rightarrow> []
      | Some q \<Rightarrow>
          if strstr q ''op='' \<noteq> None then []
          else case strstr q ''scope='' of
                 None \<Rightarrow> []
               | Some s \<Rightarrow>
                   let s = drop 6 s;
                       n = (case find_index (\<lambda>c. c = CHR ''&'') s of Some e \<Rightarrow> e | None \<Rightarrow> length s)
                   in if n < 64 - 8 then ''status.'' @ take n s else [])"

definition status_cgi :: "string option \<Rightarrow> CgiRunOpts" where
  "status_cgi qs =
     (let synthesised = status_synthesised qs
      in cgi_opts ''status.cgi'' k_status_allowed 0 (Some (if synthesised \<noteq> [] then synthesised else ''status.summary'')))"

text \<open>\<open>extract_qs\<close> leaves its buffer empty unless it returns 1; \<open>None\<close> stands for the other results.\<close>

function extract_qs :: "nat \<Rightarrow> string \<Rightarrow> string \<Rightarrow> string option" where
  "extract_qs lim p key =
     (case find_index (\<lambda>c. c = CHR ''='') p of
        None \<Rightarrow> None
      | Some eq \<Rightarrow>
          let amp = find_index (\<lambda>c. c = CHR ''&'') p in
          if take eq p = key
          then let vend = (case amp of Some a \<Rightarrow> a | None \<Rightarrow> length p) in
               if vend < eq + 1 \<or> vend - (eq + 1) + 1 > lim then None
               else Some (take (vend - (eq + 1)) (drop (eq + 1) p))
          else (case amp of None \<Rightarrow> None | Some a \<Rightarrow> extract_qs lim (drop (a + 1) p) key))"
  by pat_completeness auto
termination
  by (relation "measure (\<lambda>(lim, p, key). length p)") (auto dest!: find_index_SomeD(1))

definition config_synth :: "string option \<Rightarrow> string" where
  "config_synth qs =
     (let get = (\<lambda>lim key. case qs of None \<Rightarrow> [] | Some q \<Rightarrow> (case extract_qs lim q key of Some v \<Rightarrow> v | None \<Rightarrow> []));
          op_q = get 16 ''op'';
          grp = get 32 ''group''
      in if op_q \<noteq> [] \<and> grp \<noteq> [] \<and> (op_q = ''get'' \<or> op_q = ''put'' \<or> op_q = ''schema'')
         then (if op_q = ''schema'' then ''config.schema'' else ''config.'' @ grp @ ''.'' @ op_q)
         else [])"

definition config_cgi :: "string option \<Rightarrow> CgiRunOpts" where
  "config_cgi qs =
     (let synth = config_synth qs in cgi_opts ''config.cgi'' k_config_allowed 0 (if synth \<noteq> [] then Some synth else None))"

text \<open>All of them, for a given query.\<close>

definition cgi_programs :: "string option \<Rightarrow> CgiRunOpts list" where
  "cgi_programs qs =
     [status_cgi qs, config_cgi qs, policy_cgi, db_cgi, profiles_cgi, jobs_cgi, apply_cgi, stop_cgi, tools_cgi, debug_cgi,
      sessions_cgi, entities_cgi]"

end
