(* ===== verification/Cgi_Text.thy ===== *)
theory Cgi_Text
  imports Cgi
begin

text \<open>
  The texts of the web programs: a reference reader for JSON texts, what escaping a string and folding a
  query into an object of arguments write for it, the requests built from them, and the operations a query
  or a body names.
\<close>

section \<open>Reading the request text\<close>

text \<open>
  A reference reader for a part of JSON (RFC 8259): objects and strings, with no white space. A byte of a
  string is itself or an escape; an object keeps its members in the order of the text.
\<close>

definition simple_escape :: "char \<Rightarrow> char option" where
  "simple_escape c =
     map_of [(CHR 0x22, CHR 0x22), (CHR 0x5C, CHR 0x5C), (CHR ''/'', CHR ''/''), (CHR ''b'', CHR 0x08), (CHR ''f'', CHR 0x0C),
       (CHR ''n'', CHR 0x0A), (CHR ''r'', CHR 0x0D), (CHR ''t'', CHR 0x09)] c"

definition plain_char :: "char \<Rightarrow> bool" where
  "plain_char c \<longleftrightarrow> (of_char c :: nat) \<ge> 0x20 \<and> c \<noteq> CHR 0x22 \<and> c \<noteq> CHR 0x5C"

definition hex_escape :: "string \<Rightarrow> char option" where
  "hex_escape h =
     (if length h = 4 \<and> take 2 h = ''00'' \<and> isxdigit (h ! 2) \<and> isxdigit (h ! 3)
      then let n = 16 * hex_value (h ! 2) + hex_value (h ! 3) in if 0 < n \<and> n < 0x80 then Some (char_of n) else None
      else None)"

fun read_string :: "string \<Rightarrow> (string \<times> string) option" where
  "read_string [] = None"
| "read_string (c # s) =
     (if c = CHR 0x22 then Some ([], s)
      else if plain_char c then map_option (map_prod ((#) c) id) (read_string s)
      else if c = CHR 0x5C \<and> s \<noteq> [] then
        (if hd s = CHR ''u''
         then case hex_escape (take 4 (tl s)) of
                Some d \<Rightarrow> map_option (map_prod ((#) d) id) (read_string (drop 4 (tl s)))
              | None \<Rightarrow> None
         else case simple_escape (hd s) of
                Some d \<Rightarrow> map_option (map_prod ((#) d) id) (read_string (tl s))
              | None \<Rightarrow> None)
      else None)"

fun read_value :: "nat \<Rightarrow> string \<Rightarrow> (Json \<times> string) option"
  and read_members :: "nat \<Rightarrow> string \<Rightarrow> ((string \<times> Json) list \<times> string) option" where
  "read_value 0 s = None"
| "read_value (Suc n) s =
     (if s = [] then None
      else if hd s = CHR 0x22 then map_option (map_prod JString id) (read_string (tl s))
      else if hd s = CHR ''{''
      then if tl s \<noteq> [] \<and> hd (tl s) = CHR ''}'' then Some (JObject [], tl (tl s))
           else map_option (map_prod JObject id) (read_members n (tl s))
      else None)"
| "read_members 0 s = None"
| "read_members (Suc n) s =
     (if s = [] \<or> hd s \<noteq> CHR 0x22 then None
      else do {
        (k, s) \<leftarrow> read_string (tl s);
        if s = [] \<or> hd s \<noteq> CHR '':'' then None
        else do {
          (v, s) \<leftarrow> read_value n (tl s);
          if s = [] then None
          else if hd s = CHR ''}'' then Some ([(k, v)], tl s)
          else if hd s = CHR '','' then map_option (map_prod ((#) (k, v)) id) (read_members n (tl s))
          else None
        }
      })"

text \<open>The value of a whole text, and the object a parser makes of it that lets a later member replace an earlier one.\<close>

definition read_text :: "string \<Rightarrow> Json option" where
  "read_text t = (case read_value (length t) t of Some (v, []) \<Rightarrow> Some v | _ \<Rightarrow> None)"

fun last_wins :: "(string \<times> Json) list \<Rightarrow> (string \<times> Json) list" where
  "last_wins [] = []"
| "last_wins ((k, v) # fs) = (if k \<in> fst ` set fs then last_wins fs else (k, v) # last_wins fs)"

fun collapse :: "Json \<Rightarrow> Json" where
  "collapse (JObject fs) = JObject (last_wins (map (\<lambda>(k, v). (k, collapse v)) fs))"
| "collapse v = v"

definition nul_free :: "string \<Rightarrow> bool" where
  "nul_free s \<longleftrightarrow> (\<forall>c\<in>set s. 0 < (of_char c :: nat))"

lemma nul_free_cstr [simp]: "nul_free (cstr s)"
proof -
  have "0 < (of_char c :: nat)" if "c \<noteq> CHR 0x00" for c
  proof (rule ccontr)
    assume "\<not> 0 < (of_char c :: nat)"
    then have "(of_char c :: nat) = of_char (CHR 0x00)" by simp
    then have "c = CHR 0x00" by (simp only: of_char_eq_iff)
    with that show False by simp
  qed
  then show ?thesis by (auto simp: nul_free_def cstr_def dest: set_takeWhileD)
qed

lemma control_escapes: "list_all (\<lambda>n. hex_escape [CHR ''0'', CHR ''0'', hex_digit (n div 16), hex_digit (n mod 16)] = Some (char_of n)) [1..<32]"
  by code_simp

lemma hex_escape_control:
  assumes "0 < (of_char c :: nat)" "(of_char c :: nat) < 0x20"
  shows "hex_escape [CHR ''0'', CHR ''0'', hex_digit (of_char c div 16), hex_digit (of_char c mod 16)] = Some c"
  using control_escapes assms by (simp add: list_all_iff)

lemma read_escape_char:
  assumes "0 < (of_char c :: nat)"
  shows "read_string (json_escape_char c @ s) = map_option (map_prod ((#) c) id) (read_string s)"
proof -
  consider "c \<in> {CHR 0x22, CHR 0x5C, CHR 0x0A, CHR 0x0D, CHR 0x09}"
    | "c \<notin> {CHR 0x22, CHR 0x5C, CHR 0x0A, CHR 0x0D, CHR 0x09}" "(of_char c :: nat) < 0x20"
    | "plain_char c" "c \<notin> {CHR 0x22, CHR 0x5C, CHR 0x0A, CHR 0x0D, CHR 0x09}"
    using assms by (force simp: plain_char_def)
  then show ?thesis
  proof cases
    case 1
    then show ?thesis by (auto simp: json_escape_char_def plain_char_def simple_escape_def)
  next
    case 2
    let ?h = "[CHR ''0'', CHR ''0'', hex_digit (of_char c div 16), hex_digit (of_char c mod 16)]"
    have "json_escape_char c = CHR 0x5C # CHR ''u'' # ?h" using 2 by (simp add: json_escape_char_def)
    moreover have "\<not> plain_char (CHR 0x5C)" by (simp add: plain_char_def)
    ultimately show ?thesis using hex_escape_control [OF assms 2(2)] by simp
  next
    case 3
    then show ?thesis by (auto simp: json_escape_char_def plain_char_def)
  qed
qed

lemma escape_loop: "json_escape_loop lim out s = Some e \<Longrightarrow> e = out @ concat (map json_escape_char s) \<and> length e < lim"
proof (induction s arbitrary: out)
  case (Cons c s)
  then have "json_escape_loop lim (out @ json_escape_char c) s = Some e" by (simp split: if_splits)
  from Cons.IH [OF this] show ?case by auto
qed (simp split: if_splits)

lemma read_escaped: "nul_free s \<Longrightarrow> read_string (concat (map json_escape_char s) @ CHR 0x22 # t) = Some (s, t)"
  by (induction s) (auto simp: nul_free_def read_escape_char)

lemma read_json_escape: "json_escape lim s = Some e \<Longrightarrow> nul_free s \<Longrightarrow> read_string (e @ CHR 0x22 # t) = Some (s, t)"
  using escape_loop [of lim "[]" s e] read_escaped by (simp add: json_escape_def)

text \<open>The fields of a query: the words between the \<open>&\<close>, up to the first that has no \<open>=\<close>.\<close>

fun split_on :: "char \<Rightarrow> string \<Rightarrow> string list" where
  "split_on d [] = [[]]"
| "split_on d (c # s) = (if c = d then [] # split_on d s else (c # hd (split_on d s)) # tl (split_on d s))"

definition field_name :: "string \<Rightarrow> string" where
  "field_name w = takeWhile (\<lambda>c. c \<noteq> CHR ''='') w"

definition field_value :: "string \<Rightarrow> string" where
  "field_value w = tl (dropWhile (\<lambda>c. c \<noteq> CHR ''='') w)"

definition query_fields :: "string \<Rightarrow> (string \<times> string) list" where
  "query_fields qs =
     map (\<lambda>w. (cstr (url_decode (field_name w)), cstr (url_decode (field_value w))))
       (filter (\<lambda>w. field_name w \<noteq> ''op'') (takeWhile (\<lambda>w. CHR ''='' \<in> set w) (split_on (CHR ''&'') qs)))"

definition member_text :: "string \<times> string \<Rightarrow> string" where
  "member_text f = quoted (concat (map json_escape_char (fst f))) @ '':'' @ quoted (concat (map json_escape_char (snd f)))"

fun members_text :: "bool \<Rightarrow> (string \<times> string) list \<Rightarrow> string" where
  "members_text first [] = []"
| "members_text first (f # fs) = (if first then [] else '','') @ member_text f @ members_text False fs"

declare qs_args_loop.simps [simp del] qs_extract.simps [simp del] extract_qs.simps [simp del] decimal.simps [simp del]

lemma split_on_ne: "split_on d s \<noteq> []"
  by (cases s) auto

lemma split_on_index:
  "find_index (\<lambda>c. c = d) p = None \<Longrightarrow> split_on d p = [p]"
  "find_index (\<lambda>c. c = d) p = Some a \<Longrightarrow> split_on d p = take a p # split_on d (drop (a + 1) p)"
proof -
  show "find_index (\<lambda>c. c = d) p = None \<Longrightarrow> split_on d p = [p]" by (induction p) (auto split: if_splits)
  show "find_index (\<lambda>c. c = d) p = Some a \<Longrightarrow> split_on d p = take a p # split_on d (drop (a + 1) p)"
    by (induction p arbitrary: a) (auto split: if_splits)
qed

lemma field_parts:
  assumes "find_index (\<lambda>c. c = CHR ''='') p = Some e" "e < v"
  shows "field_name (take v p) = take e p" "field_value (take v p) = take (v - (e + 1)) (drop (e + 1) p)"
    "CHR ''='' \<in> set (take v p)"
proof -
  have "take e p = takeWhile (\<lambda>c. c \<noteq> CHR ''='') (take v p) \<and>
      take (v - (e + 1)) (drop (e + 1) p) = tl (dropWhile (\<lambda>c. c \<noteq> CHR ''='') (take v p)) \<and> CHR ''='' \<in> set (take v p)"
    using assms
  proof (induction p arbitrary: e v)
    case (Cons c p)
    then obtain u where v: "v = Suc u" by (cases v) auto
    show ?case
    proof (cases "c = CHR ''=''")
      case False
      then obtain d where d: "e = Suc d" "find_index (\<lambda>c. c = CHR ''='') p = Some d" using Cons.prems by auto
      with Cons.IH [OF d(2), of u] Cons.prems(2) v False show ?thesis by simp
    next
      case True
      with Cons.prems v show ?thesis by simp
    qed
  qed simp
  then show "field_name (take v p) = take e p" "field_value (take v p) = take (v - (e + 1)) (drop (e + 1) p)"
    "CHR ''='' \<in> set (take v p)" by (simp_all add: field_name_def field_value_def)
qed

lemma query_fields_Nil: "find_index (\<lambda>c. c = CHR ''='') p = None \<Longrightarrow> query_fields p = []"
proof -
  assume "find_index (\<lambda>c. c = CHR ''='') p = None"
  then have n: "CHR ''='' \<notin> set p" by (auto simp: find_index_None_iff)
  show "query_fields p = []"
  proof (cases "find_index (\<lambda>c. c = CHR ''&'') p")
    case None
    with n show ?thesis by (simp add: query_fields_def split_on_index(1))
  next
    case (Some a)
    with n show ?thesis by (auto simp: query_fields_def split_on_index(2) dest: in_set_takeD)
  qed
qed

lemma query_fields_Cons:
  assumes "find_index (\<lambda>c. c = CHR ''='') p = Some e" "amp = find_index (\<lambda>c. c = CHR ''&'') p"
    and "v = (case amp of Some a \<Rightarrow> a | None \<Rightarrow> length p)" "e < v"
  shows "query_fields p =
    (if take e p = ''op'' then [] else [(cstr (url_decode (take e p)), cstr (url_decode (take (v - (e + 1)) (drop (e + 1) p))))]) @
    (case amp of None \<Rightarrow> [] | Some a \<Rightarrow> query_fields (drop (a + 1) p))"
proof (cases amp)
  case None
  with assms(2,3) field_parts [OF assms(1,4)] show ?thesis by (simp add: query_fields_def split_on_index(1))
next
  case (Some a)
  with assms(2) have "split_on (CHR ''&'') p = take a p # split_on (CHR ''&'') (drop (a + 1) p)"
    by (intro split_on_index(2)) simp
  with Some assms(3) field_parts [OF assms(1,4)] show ?thesis by (simp add: query_fields_def)
qed

lemma args_loop:
  "qs_args_loop lim p out first = Some out' \<Longrightarrow> out' = out @ members_text first (query_fields p)"
proof (induction "length p" arbitrary: p out first rule: less_induct)
  case less
  let ?eq = "find_index (\<lambda>c. c = CHR ''='') p"
  define amp where "amp = find_index (\<lambda>c. c = CHR ''&'') p"
  define vend where "vend = (case amp of Some a \<Rightarrow> a | None \<Rightarrow> length p)"
  show ?case
  proof (cases ?eq)
    case None
    with less.prems show ?thesis by (subst (asm) qs_args_loop.simps) (simp add: query_fields_Nil)
  next
    case (Some e)
    let ?name = "take e p" and ?val = "take (vend - (e + 1)) (drop (e + 1) p)"
    let ?here = "if ?name = ''op'' then [] else [(cstr (url_decode ?name), cstr (url_decode ?val))]"
    have op: "e < vend" if "?name = ''op''"
    proof (cases amp)
      case None
      then show ?thesis using find_index_SomeD(1) [OF Some] by (simp add: vend_def)
    next
      case (Some a)
      have a: "p ! a = CHR ''&''" "p ! e = CHR ''=''" "a < length p" "e < length p"
        using find_index_SomeD [OF Some [unfolded amp_def]] find_index_SomeD [OF \<open>?eq = Some e\<close>] by simp_all
      have "\<not> a < e"
      proof
        assume "a < e"
        then have "?name ! a = p ! a" "a < length ?name" using a by simp_all
        then have "?name ! a = p ! a" "?name ! a \<in> set ?name" by (simp, intro nth_mem)
        then have "CHR ''&'' \<in> set ''op''" using \<open>?name = ''op''\<close> a(1) by (simp only:)
        then show False by simp
      qed
      moreover have "a \<noteq> e" using a(1,2) by auto
      ultimately show ?thesis using Some by (simp add: vend_def)
    qed
    obtain out2 first2 where piece: "out2 = out @ members_text first ?here" "first2 = (first \<and> ?here = [])" "e < vend"
      and rest: "(case amp of None \<Rightarrow> Some out2 | Some a \<Rightarrow> qs_args_loop lim (drop (a + 1) p) out2 first2) = Some out'"
    proof (cases "?name = ''op''")
      case True
      have "(case amp of None \<Rightarrow> Some out | Some a \<Rightarrow> qs_args_loop lim (drop (a + 1) p) out first) = Some out'"
        using less.prems unfolding qs_args_loop.simps [of lim p out first] Some amp_def [symmetric] by (simp add: Let_def True)
      then show ?thesis using that [of out first] op True by simp
    next
      case False
      define sep where "sep = (if first then [] else '','')"
      obtain ne ve where ve: "\<not> vend < e + 1" "json_escape 128 (cstr (url_decode ?name)) = Some ne"
          "json_escape 512 (cstr (url_decode ?val)) = Some ve"
          "(case amp of None \<Rightarrow> Some (out @ sep @ quoted ne @ CHR '':'' # quoted ve)
            | Some a \<Rightarrow> qs_args_loop lim (drop (a + 1) p) (out @ sep @ quoted ne @ CHR '':'' # quoted ve) False) = Some out'"
        using less.prems unfolding qs_args_loop.simps [of lim p out first] Some amp_def [symmetric] sep_def [symmetric]
        by (auto simp: False Let_def vend_def [symmetric] split: if_splits Option.bind_splits)
      have "ne = concat (map json_escape_char (cstr (url_decode ?name)))" "ve = concat (map json_escape_char (cstr (url_decode ?val)))"
        using escape_loop ve(2,3) by (fastforce simp: json_escape_def)+
      then have m: "out @ sep @ quoted ne @ CHR '':'' # quoted ve = out @ members_text first ?here"
        using False by (simp add: member_text_def sep_def)
      have "e < vend" using ve(1) by simp
      show ?thesis by (rule that [OF m _ \<open>e < vend\<close> ve(4)]) (simp add: False)
    qed
    have q: "query_fields p = ?here @ (case amp of None \<Rightarrow> [] | Some a \<Rightarrow> query_fields (drop (a + 1) p))"
      by (rule query_fields_Cons [OF Some amp_def vend_def piece(3)])
    show ?thesis
    proof (cases amp)
      case None
      with rest piece q show ?thesis by simp
    next
      case (Some a)
      then have "length (drop (a + 1) p) < length p" using find_index_SomeD(1) [OF Some [unfolded amp_def]] by simp
      from less.hyps [OF this] rest Some have "out' = out2 @ members_text first2 (query_fields (drop (a + 1) p))" by simp
      with piece q Some show ?thesis by auto
    qed
  qed
qed

definition nul_free_fields :: "(string \<times> string) list \<Rightarrow> bool" where
  "nul_free_fields fs \<longleftrightarrow> (\<forall>(k, v)\<in>set fs. nul_free k \<and> nul_free v)"

lemma nul_free_query: "nul_free_fields (query_fields qs)"
  by (auto simp: nul_free_fields_def query_fields_def)

definition string_fields :: "(string \<times> string) list \<Rightarrow> (string \<times> Json) list" where
  "string_fields fs = map (\<lambda>(k, v). (k, JString v)) fs"

lemma members_text_tail: "members_text True (f # fs) = member_text f @ members_text False fs"
  "members_text False (f # fs) = '','' @ members_text True (f # fs)"
  by simp_all

lemma read_member:
  assumes "nul_free k" "nul_free v"
  shows "read_members (Suc (Suc n)) (member_text (k, v) @ t) =
    (if t = [] then None
     else if hd t = CHR ''}'' then Some ([(k, JString v)], tl t)
     else if hd t = CHR '','' then map_option (map_prod ((#) (k, JString v)) id) (read_members (Suc n) (tl t))
     else None)"
  using assms by (simp add: member_text_def quoted_def read_escaped)

lemma read_members_text:
  assumes "nul_free_fields fs" "fs \<noteq> []" "length fs < n"
  shows "read_members n (members_text True fs @ CHR ''}'' # t) = Some (string_fields fs, t)"
  using assms
proof (induction fs arbitrary: n)
  case (Cons f fs)
  obtain k v where f: "f = (k, v)" by (cases f)
  with Cons.prems have a: "nul_free k" "nul_free v" "nul_free_fields fs" by (auto simp: nul_free_fields_def)
  obtain m where n: "n = Suc (Suc m)" using Cons.prems(3) by (cases n; cases "n - 1") auto
  show ?case
  proof (cases fs)
    case Nil
    with f n read_member [OF a(1,2)] show ?thesis by (simp add: string_fields_def del: read_members.simps)
  next
    case (Cons g gs)
    have "read_members n (members_text True (f # fs) @ CHR ''}'' # t) =
        read_members (Suc (Suc m)) (member_text (k, v) @ CHR '','' # members_text True fs @ CHR ''}'' # t)"
      by (simp add: n f Cons del: read_members.simps)
    also have "\<dots> = map_option (map_prod ((#) (k, JString v)) id) (read_members (Suc m) (members_text True fs @ CHR ''}'' # t))"
      by (simp add: read_member [OF a(1,2)] del: read_members.simps)
    also have "read_members (Suc m) (members_text True fs @ CHR ''}'' # t) = Some (string_fields fs, t)"
      using Cons.IH [OF a(3)] Cons Cons.prems(3) n by (simp del: read_members.simps)
    finally show ?thesis by (simp add: f string_fields_def)
  qed
qed simp

lemma read_object_text:
  assumes "nul_free_fields fs" "length fs + 1 < n"
  shows "read_value n (''{'' @ members_text True fs @ CHR ''}'' # t) = Some (JObject (string_fields fs), t)"
proof -
  obtain m where n: "n = Suc m" using assms(2) by (cases n) auto
  show ?thesis
  proof (cases fs)
    case Nil
    with n show ?thesis by (simp add: string_fields_def)
  next
    case (Cons f gs)
    then have "hd (members_text True fs @ CHR ''}'' # t) = CHR 0x22" by (simp add: member_text_def quoted_def)
    with read_members_text [OF assms(1), of m t] Cons assms(2) n show ?thesis by (auto simp del: members_text.simps)
  qed
qed

lemma read_object_member:
  assumes "nul_free k" "nul_free_fields fs" "length fs + 1 < n"
  shows "read_members (Suc n) (quoted (concat (map json_escape_char k)) @ CHR '':'' # CHR ''{'' # members_text True fs @ CHR ''}'' # CHR '','' # t) =
    map_option (map_prod ((#) (k, JObject (string_fields fs))) id) (read_members n t)"
  using read_object_text [OF assms(2,3), of "'','' @ t"] read_escaped [OF assms(1)]
  by (simp add: quoted_def del: read_value.simps)

lemma members_text_length: "length fs \<le> length (members_text first fs)"
proof (induction fs arbitrary: first)
  case (Cons f fs)
  show ?case using Cons.IH [of False] by (simp add: member_text_def quoted_def)
qed simp

lemma args_text:
  assumes "qs_to_args_json lim qs = Some a"
  shows "a = ''{'' @ members_text True (query_fields qs) @ ''}''"
  using assms args_loop [of lim qs "''{''" True] by (auto simp: qs_to_args_json_def split: if_splits Option.bind_splits)

lemma escaped_text: "json_escape lim s = Some e \<Longrightarrow> e = concat (map json_escape_char s)"
  using escape_loop [of lim "[]" s e] by (simp add: json_escape_def)

text \<open>The text of a request without identifier whose arguments are a list of string members.\<close>

definition request_text :: "string \<Rightarrow> string \<Rightarrow> string \<Rightarrow> string" where
  "request_text op args tag =
     ''{'' @ quoted ''op'' @ '':'' @ quoted (concat (map json_escape_char op)) @ '','' @ quoted ''args'' @ '':'' @ args @
       '','' @ quoted ''client'' @ '':'' @ quoted (concat (map json_escape_char tag)) @ ''}''"

lemma build_request_text:
  assumes "cgi_build_request n op args None tag = Some req" "args \<noteq> []"
  shows "req = request_text op args tag" "length req < n"
  using assms unfolding cgi_build_request_def
  by (auto simp: request_text_def dest!: escaped_text split: if_splits Option.bind_splits)

lemma escape_names:
  "concat (map json_escape_char ''op'') = ''op''" "concat (map json_escape_char ''args'') = ''args''"
  "concat (map json_escape_char ''client'') = ''client''" "concat (map json_escape_char ''x'') = ''x''"
  by (simp_all add: json_escape_char_def)

lemma nul_free_names: "nul_free ''op''" "nul_free ''args''" "nul_free ''client''" "nul_free ''x''"
  by (simp_all add: nul_free_def)

text \<open>An object whose first member is a string.\<close>

lemma read_object_start:
  "read_value (Suc n) (CHR ''{'' # member_text f @ t) = map_option (map_prod JObject id) (read_members n (member_text f @ t))"
  by (simp add: member_text_def quoted_def del: read_members.simps)

lemma read_request_text:
  assumes "nul_free op" "nul_free tag" "nul_free_fields fs"
  shows "read_text (request_text op (''{'' @ members_text True fs @ ''}'') tag) =
    Some (JObject [(''op'', JString op), (''args'', JObject (string_fields fs)), (''client'', JString tag)])"
proof -
  let ?rest = "quoted (concat (map json_escape_char ''args'')) @ '':'' @ ''{'' @ members_text True fs @ ''},'' @ member_text (''client'', tag) @ ''}''"
  define n where "n = length (request_text op (''{'' @ members_text True fs @ ''}'') tag)"
  have "length fs + 10 \<le> n"
    using members_text_length [of fs True] by (simp add: n_def request_text_def quoted_def)
  then obtain m where n: "n = Suc (Suc (Suc (Suc (Suc m))))" "length fs + 1 < Suc (Suc m)"
    by (intro that [of "n - 5"]) simp_all
  have rt: "request_text op (''{'' @ members_text True fs @ ''}'') tag = ''{'' @ member_text (''op'', op) @ '','' @ ?rest"
    by (simp add: request_text_def member_text_def escape_names del: list.map concat.simps)
  show ?thesis
    unfolding read_text_def n_def [symmetric] unfolding rt n(1)
    using assms n(2)
    by (simp add: read_object_start read_member read_object_member nul_free_names del: read_members.simps read_value.simps members_text.simps list.map concat.simps)
qed

section \<open>Operations and the lists\<close>

text \<open>A character that is passed on as it is everywhere: from the dot on, and no backslash.\<close>

definition word_char :: "char \<Rightarrow> bool" where
  "word_char c \<longleftrightarrow> char_between (CHR ''.'') (CHR 0x7F) c \<and> c \<noteq> CHR 0x5C"

definition wordy :: "string \<Rightarrow> bool" where
  "wordy s \<longleftrightarrow> list_all word_char s"

definition all_allowed :: "string list" where
  "all_allowed = concat [k_status_allowed, k_config_allowed, k_policy_allowed, k_db_allowed, k_profiles_allowed, k_jobs_allowed,
     k_apply_allowed, k_stop_allowed, k_tools_allowed, k_debug_allowed, k_sessions_allowed, k_entities_allowed]"

definition script_names :: "string list" where
  "script_names = map script_name (cgi_programs None)"

definition word_bits :: "char \<Rightarrow> bool" where
  "word_bits c \<longleftrightarrow> \<not> digit7 c \<and> (digit6 c \<or> digit5 c \<and> (digit4 c \<or> digit3 c \<and> digit2 c \<and> digit1 c)) \<and> c \<noteq> CHR 0x5C"

lemma word_bits: "word_bits c \<Longrightarrow> word_char c"
proof (cases c)
  case (Char d0 d1 d2 d3 d4 d5 d6 d7)
  show "word_bits c \<Longrightarrow> word_char c"
    unfolding Char
    by (cases d0; cases d1; cases d2; cases d3; cases d4; cases d5; cases d6; cases d7)
       (simp_all add: word_bits_def word_char_def char_between_def)
qed

lemma allowed_names: "list_all (\<lambda>a. list_all word_bits a \<and> list_ex (\<lambda>c. c = CHR ''.'') a \<and> length a < 64) all_allowed"
  by code_simp

lemmas program_defs = cgi_programs_def cgi_opts_def status_cgi_def config_cgi_def policy_cgi_def db_cgi_def profiles_cgi_def
  jobs_cgi_def apply_cgi_def stop_cgi_def tools_cgi_def debug_cgi_def sessions_cgi_def entities_cgi_def

lemma script_names_short: "list_all (\<lambda>s. list_all word_bits s \<and> length s < 20) script_names"
  by (simp add: script_names_def program_defs word_bits_def Let_def)

lemma program_lists:
  "opts \<in> set (cgi_programs q) \<Longrightarrow> set (allowed_ops opts) \<subseteq> set all_allowed \<and> script_name opts \<in> set script_names"
  by (auto simp: program_defs all_allowed_def script_names_def Let_def)

lemma program_facts:
  assumes "opts \<in> set (cgi_programs q)"
  shows "a \<in> set (allowed_ops opts) \<Longrightarrow> wordy a \<and> CHR ''.'' \<in> set a \<and> length a < 64"
    and "wordy (script_name opts)" "length (script_name opts) < 20"
  using program_lists [OF assms] allowed_names script_names_short by (auto simp: list_all_iff list_ex_iff wordy_def word_bits)

lemma word_charD:
  assumes "word_char c"
  shows "0x2E \<le> (of_char c :: nat)" "(of_char c :: nat) < 0x80" "c \<noteq> CHR 0x5C"
  using assms by (auto simp: word_char_def char_between_def)

lemma word_char_plain:
  assumes "word_char c"
  shows "json_escape_char c = [c]" "c \<noteq> CHR 0x22" "c \<noteq> CHR 0x5C" "c \<noteq> CHR 0x00" "c \<noteq> CHR ''+''" "c \<noteq> CHR ''%''" "c \<noteq> CHR ''&''"
  using word_charD [OF assms] by (auto simp: json_escape_char_def)

lemma wordyD: "wordy s \<Longrightarrow> c \<in> set s \<Longrightarrow> word_char c"
  by (auto simp: wordy_def list_all_iff)

lemma wordy_escape: "wordy s \<Longrightarrow> concat (map json_escape_char s) = s"
  by (induction s) (auto simp: wordy_def word_char_plain)

lemma wordy_nul_free: "wordy s \<Longrightarrow> nul_free s"
  using word_charD(1) by (force simp: nul_free_def dest: wordyD)

lemma wordy_cstr: "wordy s \<Longrightarrow> cstr (s @ t) = s @ cstr t"
  by (induction s) (auto simp: wordy_def cstr_def word_char_plain)

lemma wordy_json_escape_loop: "wordy s \<Longrightarrow> length out + length s < lim \<Longrightarrow> json_escape_loop lim out s = Some (out @ s)"
  by (induction s arbitrary: out) (auto simp: wordy_def word_char_plain)

lemma wordy_json_escape: "wordy s \<Longrightarrow> length s < lim \<Longrightarrow> json_escape lim s = Some s"
  by (simp add: json_escape_def wordy_json_escape_loop)

lemma word_url_decode: "word_char c \<Longrightarrow> url_decode (c # s) = c # url_decode s"
  by (cases s; cases "tl s") (simp_all add: word_char_plain del: url_decode.simps(2), simp_all add: url_decode.simps(2) word_char_plain)

lemma wordy_url_decode: "wordy s \<Longrightarrow> url_decode s = s"
  by (induction s) (simp_all add: wordy_def word_url_decode del: url_decode.simps(2))

lemma wordy_scan: "wordy s \<Longrightarrow> scan_string (s @ CHR 0x22 # t) = Some s"
proof (induction s)
  case (Cons c s)
  then have "word_char c" "wordy s" by (auto simp: wordy_def)
  with Cons.IH show ?case by (cases s) (auto simp: word_char_plain)
qed simp

text \<open>The operation a body or a query names first.\<close>

lemma body_op: "wordy op \<Longrightarrow> json_extract_op (''{'' @ quoted ''op'' @ '':'' @ quoted op @ t) = Some op"
  using wordy_scan [of op t] wordy_cstr [of op "[]"]
  by (simp add: json_extract_op_def quoted_def op_value_def isspace_def Let_def isalnum_def isdigit_def char_between_def cstr_def)

lemma query_op:
  assumes "wordy op" "t = [] \<or> hd t = CHR ''&''"
  shows "qs_extract (''op='' @ op @ t) ''op'' = Some op"
proof -
  have "CHR ''&'' \<notin> set op" using assms(1) by (auto dest: wordyD word_char_plain(7))
  then have n: "find_index (\<lambda>c. c = CHR ''&'') (op @ t) = (if t = [] then None else Some (length op))"
    using assms(2) by (induction op) (auto simp: neq_Nil_conv)
  show ?thesis
    using wordy_url_decode [OF assms(1)] wordy_cstr [OF assms(1), of "[]"]
    by (subst qs_extract.simps) (auto simp: n Let_def cstr_def)
qed

section \<open>Queries as a form encodes them\<close>

text \<open>
  The encoder of the WHATWG URL standard for \<open>application/x-www-form-urlencoded\<close>: letters, digits and
  \<open>*-._\<close> stand for themselves, a space becomes a plus, any other byte \<open>%HH\<close>; a query is the list of its
  fields. It is the specification the decoding of the web programs is measured against.
\<close>

definition form_plain :: "char \<Rightarrow> bool" where
  "form_plain c \<longleftrightarrow> c \<in> set ''ABCDEFGHIJKLMNOPQRSTUVWXYZabcdefghijklmnopqrstuvwxyz0123456789*-._''"

definition form_char :: "char \<Rightarrow> string" where
  "form_char c =
     (if form_plain c then [c]
      else if c = CHR '' '' then ''+''
      else [CHR ''%'', (''0123456789ABCDEF'') ! (of_char c div 16), (''0123456789ABCDEF'') ! (of_char c mod 16)])"

definition form_encode :: "string \<Rightarrow> string" where
  "form_encode s = concat (map form_char s)"

definition form_field :: "string \<times> string \<Rightarrow> string" where
  "form_field f = form_encode (fst f) @ ''='' @ form_encode (snd f)"

fun form_query :: "(string \<times> string) list \<Rightarrow> string" where
  "form_query [] = []"
| "form_query [f] = form_field f"
| "form_query (f # g # fs) = form_field f @ ''&'' @ form_query (g # fs)"

text \<open>What the decoder makes of an encoded byte, and that no separator is left in it.\<close>

abbreviation hex_upper :: "nat \<Rightarrow> char" where
  "hex_upper n \<equiv> (''0123456789ABCDEF'') ! n"

lemma hex_upper_checked:
  "list_all (\<lambda>n. isxdigit (hex_upper n) \<and> hex_value (hex_upper n) = n \<and> hex_upper n \<noteq> CHR ''='' \<and> hex_upper n \<noteq> CHR ''&'') [0..<16]"
  by code_simp

lemma hex_upper:
  assumes "n < 16"
  shows "isxdigit (hex_upper n)" "hex_value (hex_upper n) = n" "hex_upper n \<noteq> CHR ''=''" "hex_upper n \<noteq> CHR ''&''"
  using hex_upper_checked assms unfolding list_all_iff by auto

lemma form_plain_other: "form_plain c \<Longrightarrow> c \<noteq> CHR ''='' \<and> c \<noteq> CHR ''&'' \<and> c \<noteq> CHR ''+'' \<and> c \<noteq> CHR ''%''"
  by (auto simp: form_plain_def)

lemma url_decode_plain: "c \<noteq> CHR ''+'' \<Longrightarrow> c \<noteq> CHR ''%'' \<Longrightarrow> url_decode (c # s) = c # url_decode s"
  by (cases s; cases "tl s") simp_all

lemma nibbles: "(of_char c :: nat) div 16 < 16" "(of_char c :: nat) mod 16 < 16"
proof -
  have "(of_char c :: nat) < 256" by simp
  then show "(of_char c :: nat) div 16 < 16" by (simp add: less_mult_imp_div_less)
qed simp

lemma decode_form_char: "url_decode (form_char c @ s) = c # url_decode s"
proof (cases "form_plain c")
  case True
  with form_plain_other [OF True] show ?thesis by (simp add: form_char_def url_decode_plain del: url_decode.simps(2))
next
  case False
  let ?a = "(of_char c :: nat) div 16" and ?b = "(of_char c :: nat) mod 16"
  have "16 * ?a + ?b = of_char c" by simp
  then have "(char_of (16 * hex_value (hex_upper ?a) + hex_value (hex_upper ?b)) :: char) = c"
    unfolding hex_upper(2) [OF nibbles(1)] hex_upper(2) [OF nibbles(2)] by simp
  with False hex_upper(1) [OF nibbles(1) [of c]] hex_upper(1) [OF nibbles(2) [of c]] show ?thesis by (simp add: form_char_def)
qed

lemma decode_form: "url_decode (form_encode s) = s"
  by (induction s) (simp_all add: form_encode_def decode_form_char del: url_decode.simps(2))

lemma form_no_separator: "CHR ''='' \<notin> set (form_encode s)" "CHR ''&'' \<notin> set (form_encode s)"
proof -
  have c: "CHR ''='' \<notin> set (form_char c)" "CHR ''&'' \<notin> set (form_char c)" for c
    using form_plain_other [of c] hex_upper(3,4) [OF nibbles(1) [of c]] hex_upper(3,4) [OF nibbles(2) [of c]]
    by (auto simp: form_char_def)
  show "CHR ''='' \<notin> set (form_encode s)" "CHR ''&'' \<notin> set (form_encode s)"
    using c by (simp_all add: form_encode_def)
qed

lemma form_encode_inj: "form_encode s = form_encode t \<longleftrightarrow> s = t"
  using decode_form by metis

lemma form_encode_op: "form_encode k = ''op'' \<longleftrightarrow> k = ''op''"
proof -
  have "form_encode ''op'' = ''op''" by (simp add: form_encode_def form_char_def form_plain_def)
  then show ?thesis using form_encode_inj by metis
qed

lemma form_char_length: "length (form_char c) \<le> 3"
  by (simp add: form_char_def)

lemma form_encode_length: "length (form_encode s) \<le> 3 * length s"
proof (induction s)
  case (Cons c s)
  then show ?case using form_char_length [of c] by (simp add: form_encode_def)
qed (simp add: form_encode_def)

lemma find_index_append:
  "d \<notin> set s \<Longrightarrow> find_index (\<lambda>c. c = d) (s @ t) = map_option ((+) (length s)) (find_index (\<lambda>c. c = d) t)"
proof (induction s)
  case Nil
  show ?case by (cases "find_index (\<lambda>c. c = d) t") simp_all
next
  case (Cons a s)
  then show ?case by (cases "find_index (\<lambda>c. c = d) t") auto
qed

lemma form_query_find:
  "find_index (\<lambda>c. c = CHR ''='') (form_query (f # fs)) = Some (length (form_encode (fst f)))"
  "find_index (\<lambda>c. c = CHR ''&'') (form_query (f # fs)) = (if fs = [] then None else Some (length (form_field f)))"
proof -
  have "CHR ''&'' \<notin> set (form_field f)" using form_no_separator by (simp add: form_field_def)
  then have n: "find_index (\<lambda>c. c = CHR ''&'') (form_field f @ t) = map_option ((+) (length (form_field f))) (find_index (\<lambda>c. c = CHR ''&'') t)" for t
    by (rule find_index_append)
  show "find_index (\<lambda>c. c = CHR ''='') (form_query (f # fs)) = Some (length (form_encode (fst f)))"
    by (cases fs) (simp_all add: form_field_def find_index_append form_no_separator)
  show "find_index (\<lambda>c. c = CHR ''&'') (form_query (f # fs)) = (if fs = [] then None else Some (length (form_field f)))"
    using n [of "[]"] by (cases fs) (simp_all add: n)
qed

lemma form_query_parts:
  assumes "p = form_query ((k, v) # fs)" "vend = (case find_index (\<lambda>c. c = CHR ''&'') p of Some a \<Rightarrow> a | None \<Rightarrow> length p)"
    and "e = length (form_encode k)"
  shows "find_index (\<lambda>c. c = CHR ''='') p = Some e" "take e p = form_encode k" "\<not> vend < e + 1" "e < vend"
    "take (vend - (e + 1)) (drop (e + 1) p) = form_encode v"
    "find_index (\<lambda>c. c = CHR ''&'') p = (if fs = [] then None else Some (length (form_field (k, v))))"
    "fs \<noteq> [] \<Longrightarrow> drop (length (form_field (k, v)) + 1) p = form_query fs"
proof -
  obtain t where p: "p = form_field (k, v) @ t" "fs = [] \<Longrightarrow> t = []" "fs \<noteq> [] \<Longrightarrow> t = ''&'' @ form_query fs"
    using assms(1) by (cases fs) simp_all
  note f = form_query_find [of "(k, v)" fs, folded assms(1)]
  have v: "vend = length (form_field (k, v))" using f(2) p(1,2) assms(2) by (cases "fs = []") simp_all
  then have v: "vend = e + 1 + length (form_encode v)" by (simp add: form_field_def assms(3))
  show "find_index (\<lambda>c. c = CHR ''='') p = Some e" using f(1) assms(3) by simp
  show "take e p = form_encode k" "\<not> vend < e + 1" "e < vend" "take (vend - (e + 1)) (drop (e + 1) p) = form_encode v"
    by (simp_all add: v p(1) form_field_def assms(3))
  show "find_index (\<lambda>c. c = CHR ''&'') p = (if fs = [] then None else Some (length (form_field (k, v))))" using f(2) by simp
  show "fs \<noteq> [] \<Longrightarrow> drop (length (form_field (k, v)) + 1) p = form_query fs" using p by simp
qed

lemma nul_free_cstr_id: "nul_free s \<Longrightarrow> cstr s = s"
  by (auto simp: cstr_def nul_free_def takeWhile_eq_all_conv)

text \<open>The fields are found again, the operation with them.\<close>

lemma form_query_fields: "nul_free_fields fs \<Longrightarrow> query_fields (form_query fs) = filter (\<lambda>f. fst f \<noteq> ''op'') fs"
proof (induction fs)
  case Nil
  show ?case by (simp add: query_fields_Nil)
next
  case (Cons f fs)
  obtain k v where f: "f = (k, v)" by (cases f)
  define p where "p = form_query ((k, v) # fs)"
  define vend where "vend = (case find_index (\<lambda>c. c = CHR ''&'') p of Some a \<Rightarrow> a | None \<Rightarrow> length p)"
  note parts = form_query_parts [OF p_def vend_def, OF HOL.refl]
  have c: "cstr k = k" "cstr v = v" "nul_free_fields fs" using Cons.prems f nul_free_cstr_id by (auto simp: nul_free_fields_def)
  have "query_fields p = (if k = ''op'' then [] else [(k, v)]) @ (if fs = [] then [] else query_fields (form_query fs))"
    using query_fields_Cons [OF parts(1) HOL.refl vend_def parts(4)] parts(2,5-7) c
    by (simp add: form_encode_op decode_form split: if_splits)
  then show ?case using Cons.IH c(3) by (simp add: p_def f)
qed

lemma form_query_op: "nul_free op \<Longrightarrow> qs_extract (form_query ((''op'', op) # fs)) ''op'' = Some op"
proof -
  define p where "p = form_query ((''op'', op) # fs)"
  define vend where "vend = (case find_index (\<lambda>c. c = CHR ''&'') p of Some a \<Rightarrow> a | None \<Rightarrow> length p)"
  note parts = form_query_parts [OF p_def vend_def, OF HOL.refl]
  have e: "form_encode ''op'' = ''op''" by (simp add: form_encode_op)
  show "nul_free op \<Longrightarrow> qs_extract (form_query ((''op'', op) # fs)) ''op'' = Some op"
    unfolding p_def [symmetric]
    by (subst qs_extract.simps) (use parts(1-3,5) in \<open>simp add: Let_def vend_def [symmetric] e decode_form nul_free_cstr_id\<close>)
qed

text \<open>Fields that fit the buffers of \<open>cgi_qs_to_args_json\<close>, every byte taking its longest escape.\<close>

definition field_cost :: "string \<times> string \<Rightarrow> nat" where
  "field_cost f = 6 * (length (fst f) + length (snd f) + 1)"

definition small_fields :: "(string \<times> string) list \<Rightarrow> bool" where
  "small_fields fs \<longleftrightarrow> (\<forall>f\<in>set fs. length (fst f) \<le> 21 \<and> length (snd f) \<le> 85) \<and> sum_list (map field_cost fs) \<le> 2045"

lemma escape_length: "length (concat (map json_escape_char s)) \<le> 6 * length s"
proof (induction s)
  case (Cons c s)
  have "length (json_escape_char c) \<le> 6" by (simp add: json_escape_char_def)
  with Cons.IH show ?case by simp
qed simp

lemma escape_loop_fits: "length out + length (concat (map json_escape_char s)) < lim \<Longrightarrow> json_escape_loop lim out s = Some (out @ concat (map json_escape_char s))"
  by (induction s arbitrary: out) simp_all

lemma json_escape_fits: "6 * length s < lim \<Longrightarrow> json_escape lim s = Some (concat (map json_escape_char s))"
  using escape_loop_fits [of "[]" s lim] escape_length [of s] by (simp add: json_escape_def)

lemma cstr_length: "length (cstr s) \<le> length s"
  by (simp add: cstr_def length_takeWhile_le)

lemma form_args_loop:
  assumes "\<forall>f\<in>set fs. length (fst f) \<le> 21 \<and> length (snd f) \<le> 85" "length out + sum_list (map field_cost fs) < lim"
  shows "\<exists>out'. qs_args_loop lim (form_query fs) out first = Some out' \<and> length out' \<le> length out + sum_list (map field_cost fs)"
  using assms
proof (induction fs arbitrary: out first)
  case Nil
  show ?case by (subst qs_args_loop.simps) simp
next
  case (Cons f fs)
  obtain k v where f: "f = (k, v)" by (cases f)
  define p where "p = form_query ((k, v) # fs)"
  define vend where "vend = (case find_index (\<lambda>c. c = CHR ''&'') p of Some a \<Rightarrow> a | None \<Rightarrow> length p)"
  note parts = form_query_parts [OF p_def vend_def, OF HOL.refl]
  have l: "length k \<le> 21" "length v \<le> 85" using Cons.prems(1) f by simp_all
  define pc where "pc = (if first then [] else '','') @ quoted (concat (map json_escape_char (cstr k))) @ '':'' @ quoted (concat (map json_escape_char (cstr v)))"
  have t: "length pc \<le> field_cost (k, v)"
    using escape_length [of "cstr k"] escape_length [of "cstr v"] cstr_length [of k] cstr_length [of v]
    by (simp add: pc_def field_cost_def quoted_def)
  have esc: "json_escape 128 (cstr k) = Some (concat (map json_escape_char (cstr k)))"
    "json_escape 512 (cstr v) = Some (concat (map json_escape_char (cstr v)))"
    using cstr_length [of k] cstr_length [of v] l by (simp_all add: json_escape_fits)
  have enc: "\<not> 64 \<le> length (form_encode k)" "\<not> 256 \<le> length (form_encode v)"
    using form_encode_length [of k] form_encode_length [of v] l by simp_all
  have fits: "\<not> lim - length out \<le> length pc" using Cons.prems(2) t f by simp
  obtain out1 first1 where o1: "length out1 \<le> length out + field_cost (k, v)"
      "qs_args_loop lim p out first = (if fs = [] then Some out1 else qs_args_loop lim (form_query fs) out1 first1)"
  proof (cases "k = ''op''")
    case True
    have "qs_args_loop lim p out first = (if fs = [] then Some out else qs_args_loop lim (form_query fs) out first)"
      by (subst qs_args_loop.simps) (use parts True in \<open>simp add: Let_def form_encode_op\<close>)
    then show ?thesis using that [of out first] by simp
  next
    case False
    have "qs_args_loop lim p out first = (if fs = [] then Some (out @ pc) else qs_args_loop lim (form_query fs) (out @ pc) False)"
      unfolding qs_args_loop.simps [of lim p out first] parts(1) option.case Let_def
      unfolding vend_def [symmetric]
      unfolding parts(2,5,6)
      using parts(3,7) False enc esc fits by (simp add: form_encode_op decode_form pc_def)
    then show ?thesis using that [of "out @ pc" False] t by simp
  qed
  show ?case
  proof (cases "fs = []")
    case True
    with o1 show ?thesis by (auto simp: f p_def)
  next
    case False
    have "length out1 + sum_list (map field_cost fs) < lim" using o1(1) Cons.prems(2) f by simp
    with Cons.IH [of out1 first1] Cons.prems(1) o1 False show ?thesis by (fastforce simp: f p_def)
  qed
qed

lemma form_op_skip:
  "qs_args_loop lim (form_query ((''op'', v) # fs)) out first = (if fs = [] then Some out else qs_args_loop lim (form_query fs) out first)"
proof -
  define p where "p = form_query ((''op'', v) # fs)"
  define vend where "vend = (case find_index (\<lambda>c. c = CHR ''&'') p of Some a \<Rightarrow> a | None \<Rightarrow> length p)"
  note parts = form_query_parts [OF p_def vend_def, OF HOL.refl]
  show ?thesis
    unfolding p_def [symmetric]
    by (subst qs_args_loop.simps) (use parts in \<open>simp add: Let_def form_encode_op\<close>)
qed

lemma form_args:
  assumes "small_fields fs"
  shows "\<exists>args. qs_to_args_json 2048 (form_query ((''op'', op) # fs)) = Some args \<and> length args < 2048"
proof -
  obtain t where "qs_args_loop 2048 (form_query fs) ''{'' True = Some t" "length t \<le> 1 + sum_list (map field_cost fs)"
    using form_args_loop [of fs "''{''" 2048 True] assms by (auto simp: small_fields_def)
  moreover from this have "qs_args_loop 2048 (form_query ((''op'', op) # fs)) ''{'' True = Some (if fs = [] then ''{'' else t)"
    by (simp add: form_op_skip)
  ultimately show ?thesis using assms by (auto simp: qs_to_args_json_def small_fields_def)
qed

end
