(* ===== verification/Web.thy ===== *)
theory Web
  imports Cgi_Text
begin

text \<open>
  The web programs and the daemon together: what a run of \<open>cgi_run\<close> sends to the socket, and what the
  daemon makes of it.
\<close>

section \<open>What is sent\<close>

lemma cgi_pack_put: "cgi_pack_len_be = put_be32"
  by (simp add: fun_eq_iff cgi_pack_len_be_def put_be32_def)

lemma write_all_prefix:
  "cgi_write_all ws bs sent = Returned (r, out, ws') \<Longrightarrow> \<exists>k. out = sent @ take k bs \<and> (r = Inr () \<longrightarrow> out = sent @ bs)"
proof (induction ws arbitrary: bs sent)
  case (Cons w ws)
  show ?case
  proof (cases "bs = []")
    case False
    show ?thesis
    proof (cases w)
      case (WriteDone k)
      let ?n = "min k (length bs)"
      show ?thesis
      proof (cases "?n = 0")
        case nz: False
        with Cons.prems False WriteDone have "cgi_write_all ws (drop ?n bs) (sent @ take ?n bs) = Returned (r, out, ws')" by (simp add: Let_def)
        from Cons.IH [OF this] obtain j
          where j: "out = (sent @ take ?n bs) @ take j (drop ?n bs)" "r = Inr () \<longrightarrow> out = (sent @ take ?n bs) @ drop ?n bs" by blast
        then have "out = sent @ take (?n + j) bs" by (simp add: take_add)
        moreover have "(sent @ take ?n bs) @ drop ?n bs = sent @ bs" by simp
        ultimately show ?thesis using j(2) by metis
      qed (use Cons.prems False WriteDone in \<open>auto simp: Let_def intro: exI [of _ 0]\<close>)
    next
      case WriteIntr
      with Cons.IH Cons.prems False show ?thesis by simp
    next
      case (WriteErr e)
      with Cons.prems False show ?thesis by (auto intro: exI [of _ 0])
    qed
  qed (use Cons.prems in auto)
qed (auto split: if_splits)

lemma exchange_prefix:
  assumes "cgi_exchange sfd ws rs inp req = Returned (r, out)"
  shows "\<exists>unsent. op_frame req = out @ unsent"
proof (cases sfd)
  case (Inl e)
  with assms show ?thesis by (simp add: cgi_exchange_def)
next
  case (Inr s)
  let ?len = "put_be32 (of_nat (length req))"
  have "\<exists>k. out = take k (op_frame req)"
  proof (cases "cgi_write_all ws ?len []")
    case (Returned x)
    obtain r1 o1 ws1 where x: "x = (r1, o1, ws1)" using prod_cases3 .
    obtain k where k: "o1 = [] @ take k ?len" "r1 = Inr () \<longrightarrow> o1 = [] @ ?len"
      using write_all_prefix [OF Returned [unfolded x]] by blast
    show ?thesis
    proof (cases r1)
      case (Inl e)
      with assms Inr Returned x have "out = o1" by (simp add: cgi_exchange_def cgi_pack_put)
      with k(1) have "out = take (min k (length ?len)) (op_frame req)" by (simp add: op_frame_def min_def)
      then show ?thesis by blast
    next
      case (Inr u)
      with k have o1: "o1 = ?len" by simp
      show ?thesis
      proof (cases "cgi_write_all ws1 (bytes_of_text req) ?len")
        case r2: (Returned y)
        obtain r3 o3 ws3 where y: "y = (r3, o3, ws3)" using prod_cases3 .
        obtain j where "o3 = ?len @ take j (bytes_of_text req)" using write_all_prefix [OF r2 [unfolded y]] by auto
        then have "o3 = take (length ?len + j) (op_frame req)" by (simp add: op_frame_def)
        moreover have "out = o3"
          using assms \<open>sfd = Inr s\<close> Returned x o1 Inr r2 y
          by (auto simp: cgi_exchange_def cgi_pack_put Let_def split: sum.splits outcome.splits if_splits)
        ultimately show ?thesis by blast
      qed (use assms \<open>sfd = Inr s\<close> Returned x o1 Inr in \<open>simp_all add: cgi_exchange_def cgi_pack_put\<close>)
    qed
  qed (use assms Inr in \<open>simp_all add: cgi_exchange_def cgi_pack_put\<close>)
  then obtain k where "out = take k (op_frame req)" ..
  then have "op_frame req = out @ drop k (op_frame req)" by simp
  then show ?thesis ..
qed

text \<open>Whether a request has a body, and its query.\<close>

definition has_body :: "CgiEnv \<Rightarrow> bool" where
  "has_body env \<longleftrightarrow> request_method env = Some ''POST'' \<or> request_method env = Some ''PUT''"

definition env_query :: "CgiEnv \<Rightarrow> string" where
  "env_query env = (case query_string env of Some q \<Rightarrow> q | None \<Rightarrow> [])"

definition env_body :: "CgiRunOpts \<Rightarrow> CgiEnv \<Rightarrow> string res outcome" where
  "env_body opts env =
     (if has_body env
      then slurp_stdin (if max_body_bytes opts > 0 then max_body_bytes opts else CGI_DEFAULT_MAX_BODY) (content_length env)
        (stdin_rounds env) (stdin_bytes env)
      else Returned (Inr []))"

lemma cgi_run_body:
  "env_body opts env = Returned (Inr text) \<Longrightarrow> cgi_run opts env =
    (case cgi_request opts (has_body env) (env_query env) text of
       Inl e \<Rightarrow> Returned (error_output e, [])
     | Inr req \<Rightarrow>
         (case cgi_exchange (connect_daemon (sock_path opts) (sock_env env) (sock_conn env)) (sock_writes env) (sock_rounds env) (sock_bytes env) req of
            Blocked \<Rightarrow> Blocked
          | Aborted \<Rightarrow> Aborted
          | Returned (Inl e, sent) \<Rightarrow> Returned (error_output e, sent)
          | Returned (Inr resp, sent) \<Rightarrow> Returned (cgi_emit_response resp, sent)))"
proof -
  have m: "((case request_method env of Some m \<Rightarrow> m | None \<Rightarrow> ''GET'') = ''POST'' \<or> (case request_method env of Some m \<Rightarrow> m | None \<Rightarrow> ''GET'') = ''PUT'') = has_body env"
    by (auto simp: has_body_def split: option.split)
  show "env_body opts env = Returned (Inr text) \<Longrightarrow> ?thesis"
    unfolding cgi_run_def Let_def m env_body_def env_query_def [symmetric] by simp
qed

lemma cgi_run_sends:
  assumes "cgi_run opts env = Returned (out, sent)" "sent \<noteq> []"
  shows "\<exists>text req unsent. env_body opts env = Returned (Inr text) \<and> cgi_request opts (has_body env) (env_query env) text = Inr req \<and>
    op_frame req = sent @ unsent"
proof -
  have m: "((case request_method env of Some m \<Rightarrow> m | None \<Rightarrow> ''GET'') = ''POST'' \<or> (case request_method env of Some m \<Rightarrow> m | None \<Rightarrow> ''GET'') = ''PUT'') = has_body env"
    by (auto simp: has_body_def split: option.split)
  obtain bd where t: "env_body opts env = Returned (Inr bd)"
    using assms unfolding cgi_run_def Let_def m env_body_def
    by (auto split: outcome.splits sum.splits if_splits)
  from assms obtain req where r: "cgi_request opts (has_body env) (env_query env) bd = Inr req"
    unfolding cgi_run_body [OF t] by (auto split: sum.splits)
  obtain x where x: "cgi_exchange (connect_daemon (sock_path opts) (sock_env env) (sock_conn env)) (sock_writes env) (sock_rounds env) (sock_bytes env) req = Returned (x, sent)"
    using assms unfolding cgi_run_body [OF t] r by (auto split: sum.splits outcome.splits)
  from exchange_prefix [OF x] t r show ?thesis by blast
qed

lemma cgi_request_parts:
  assumes "cgi_request opts hb qs text = Inr req"
  obtains op args where "resolve_op opts qs text = Some op" "op \<in> set (allowed_ops opts)" "request_args hb qs text = Inr args"
    "cgi_build_request CGI_DEFAULT_MAX_BODY op args None (take 63 (''cgi:'' @ script_name opts)) = Some req"
  using assms by (auto simp: cgi_request_def cgi_op_allowed_def list_ex_iff split: option.splits sum.splits if_splits)

section \<open>What the daemon makes of it\<close>

lemma read_full_result:
  "read_full rs inp buf want = Returned (Inr b, inp', rs') \<Longrightarrow> length buf \<le> want \<Longrightarrow>
    b = buf @ take (want - length buf) inp \<and> inp' = drop (want - length buf) inp \<and> want - length buf \<le> length inp"
proof (induction rs arbitrary: inp buf)
  case (Cons r rs)
  show ?case
  proof (cases "length buf < want \<and> (\<exists>k. r = SkRead k)")
    case True
    then obtain k where k: "r = SkRead k" "length buf < want" by blast
    define n where "n = min (min k (want - length buf)) (length inp)"
    have "read_full rs (drop n inp) (buf @ take n inp) want = Returned (Inr b, inp', rs')"
      using Cons.prems(1) k by (auto simp: n_def [symmetric] Let_def split: if_splits)
    moreover have n: "n \<le> want - length buf" "n \<le> length inp" by (simp_all add: n_def)
    then have "length (buf @ take n inp) \<le> want" using k(2) by simp
    ultimately have *: "b = (buf @ take n inp) @ take (want - (length buf + n)) (drop n inp) \<and>
        inp' = drop (want - (length buf + n)) (drop n inp) \<and> want - (length buf + n) \<le> length (drop n inp)"
      using Cons.IH [of "drop n inp" "buf @ take n inp"] n by simp
    have w: "want - length buf = n + (want - (length buf + n))" using n(1) by simp
    then have "take (want - length buf) inp = take n inp @ take (want - (length buf + n)) (drop n inp)" by (metis take_add)
    moreover have "drop (want - (length buf + n)) (drop n inp) = drop (want - length buf) inp" by (simp add: w add.commute)
    ultimately show ?thesis using * n by auto
  next
    case False
    with Cons show ?thesis by (auto split: SockRead.splits if_splits)
  qed
qed (auto split: if_splits)

lemma answer_state: "answer json_dumps ws env rc st = Returned (r, a, st') \<Longrightarrow> st' = st"
  by (auto simp: answer_def split: outcome.splits)

lemma serve_other_op:
  assumes "daemon_envelope_parse root = Inr (op, args, req_id, client)" "op \<noteq> ''daemon.stop''"
    and "serve_request json_dumps ws root st = Returned (r, a, st')"
  shows "st' = st"
proof (cases "daemon_op_table_find op")
  case None
  with assms show ?thesis by (simp add: serve_request_def answer_state)
next
  case (Some e)
  then have "e \<in> set s_op_table" "fst e = op"
    by (auto simp: daemon_op_table_find_def daemon_op_lookup_def find_index_Some_iff)
  then have e: "(op, snd e) \<in> set s_op_table" by (metis prod.collapse)
  show ?thesis
  proof (cases "run_op (snd e) st")
    case (Pair x s)
    have "s = st" using run_op_state [OF e Pair] assms(2) by simp
    with Pair Some assms show ?thesis by (cases x) (auto simp: serve_request_def split: prod.splits dest: answer_state)
  qed
qed

text \<open>A client that sends at most the frame of a text: nothing happens before the daemon has all of it.\<close>

lemma client_prefix:
  assumes "op_frame t = inp @ unsent" "0 < length t" "length t \<le> DAEMON_OPS_MAX_FRAME_BYTES"
    and "socket_server_handle_client json_loads json_dumps rs ws inp st = Returned (r, a, st')" "st' \<noteq> st"
  shows "\<exists>root. json_loads t = Some root \<and> json_is_object root \<and> serve_request json_dumps ws root st = Returned (r, a, st')"
proof -
  obtain b1 in1 rs1 where r1: "read_full rs inp [] 4 = Returned (Inr b1, in1, rs1)"
    using assms(4,5) by (auto simp: socket_server_handle_client_def DAEMON_OPS_LEN_PREFIX_BYTES_def split: outcome.splits sum.splits prod.splits)
  have b1: "b1 = take 4 inp" "in1 = drop 4 inp" "4 \<le> length inp" using read_full_result [OF r1] by simp_all
  then have "take 4 (op_frame t) = b1" using assms(1) by simp
  then have len: "unat (get_be32 b1) = length t" using op_frame_parts(2) [OF assms(3)] by simp
  obtain b2 in2 rs2 where r2: "read_full rs1 in1 [] (length t) = Returned (Inr b2, in2, rs2)"
    using assms(2-5) r1 len
    by (auto simp: socket_server_handle_client_def DAEMON_OPS_LEN_PREFIX_BYTES_def Let_def split: outcome.splits sum.splits prod.splits)
  have b2: "b2 = take (length t) (drop 4 inp)" "length t \<le> length inp - 4" using read_full_result [OF r2] b1 by simp_all
  have "drop 4 (op_frame t) = drop 4 inp @ unsent" using assms(1) b1(3) by simp
  then have "bytes_of_text t = drop 4 inp @ unsent" using op_frame_parts(3) [OF assms(3)] by simp
  then have "take (length t) (bytes_of_text t) = take (length t) (drop 4 inp)" using b2(2) by simp
  then have "bytes_of_text t = b2" using b2(1) by simp
  then have "text_of_bytes b2 = t" using text_roundtrip [of t] by simp
  with assms(2-5) r1 r2 len show ?thesis
    by (auto simp: socket_server_handle_client_def DAEMON_OPS_LEN_PREFIX_BYTES_def Let_def split: option.splits if_splits dest: answer_state)
qed

section \<open>Requests from the web to the daemon\<close>

text \<open>
  What is taken from the JSON library: a text it accepts is read as by the reference reader, the last of
  several members of the same name counting. \<open>json_loadb\<close> is called without flags: it accepts only an array
  or an object, of a bounded nesting (2048 by default); such an object in plain ASCII it does accept
  (other bytes must be UTF-8).
\<close>

definition json_reads :: "(string \<Rightarrow> Json option) \<Rightarrow> bool" where
  "json_reads json_loads \<longleftrightarrow> (\<forall>t v. read_text t = Some v \<longrightarrow> json_loads t = None \<or> json_loads t = Some (collapse v))"

definition ascii :: "string \<Rightarrow> bool" where
  "ascii s \<longleftrightarrow> (\<forall>c\<in>set s. (of_char c :: nat) < 0x80)"

fun json_depth :: "Json \<Rightarrow> nat" where
  "json_depth (JObject fs) = Suc (fold max (map (\<lambda>(k, v). json_depth v) fs) 0)"
| "json_depth (JArray vs) = Suc (fold max (map json_depth vs) 0)"
| "json_depth v = 1"

definition JSON_PARSER_MAX_DEPTH :: nat where
  "JSON_PARSER_MAX_DEPTH = 2048"

definition json_reads_ascii :: "(string \<Rightarrow> Json option) \<Rightarrow> bool" where
  "json_reads_ascii json_loads \<longleftrightarrow> (\<forall>t v. ascii t \<longrightarrow> read_text t = Some v \<longrightarrow> json_is_object v \<longrightarrow>
     json_depth v < JSON_PARSER_MAX_DEPTH \<longrightarrow> json_loads t = Some (collapse v))"

lemma reader_reads: "json_reads (\<lambda>t. map_option collapse (read_text t))" "json_reads_ascii (\<lambda>t. map_option collapse (read_text t))"
  by (simp_all add: json_reads_def json_reads_ascii_def)

lemma collapse_strings: "map (\<lambda>(k, v). (k, collapse v)) (string_fields fs) = string_fields fs"
  by (induction fs) (auto simp: string_fields_def)

lemma query_request:
  assumes "opts \<in> set (cgi_programs q)" "cgi_request opts False qs t = Inr req"
  shows "\<exists>op. resolve_op opts qs t = Some op \<and> op \<in> set (allowed_ops opts) \<and>
    0 < length req \<and> length req < CGI_DEFAULT_MAX_BODY \<and>
    read_text req = Some (JObject [(''op'', JString op), (''args'', JObject (string_fields (query_fields qs))), (''client'', JString (''cgi:'' @ script_name opts))])"
proof -
  obtain op args where op: "resolve_op opts qs t = Some op" "op \<in> set (allowed_ops opts)" "request_args False qs t = Inr args"
      "cgi_build_request CGI_DEFAULT_MAX_BODY op args None (take 63 (''cgi:'' @ script_name opts)) = Some req"
    by (rule cgi_request_parts [OF assms(2)])
  have tag: "take 63 (''cgi:'' @ script_name opts) = ''cgi:'' @ script_name opts" "nul_free (''cgi:'' @ script_name opts)"
    using program_facts(2,3) [OF assms(1)] wordy_nul_free [OF program_facts(2) [OF assms(1)]] by (simp_all add: nul_free_def)
  have "qs_to_args_json 2048 qs = Some args" using op(3) by (simp add: request_args_def split: option.splits)
  then have a: "args = ''{'' @ members_text True (query_fields qs) @ ''}''" by (rule args_text)
  have n: "nul_free op" using program_facts(1) [OF assms(1) op(2)] by (simp add: wordy_nul_free)
  have ne: "args \<noteq> []" using a by simp
  note req = build_request_text [OF op(4) ne, unfolded tag(1)]
  have "0 < length req" unfolding req(1) by (simp add: request_text_def)
  with read_request_text [OF n tag(2) nul_free_query [of qs]] op(1,2) req show ?thesis by (auto simp: a)
qed

lemma query_root:
  assumes "json_reads json_loads" "json_loads req = Some root"
    and "read_text req = Some (JObject [(''op'', JString op), (''args'', JObject (string_fields fs)), (''client'', JString tag)])"
  shows "daemon_envelope_parse root = Inr (op, Some (JObject (last_wins (string_fields fs))), None, Some tag)"
proof -
  have "root = collapse (JObject [(''op'', JString op), (''args'', JObject (string_fields fs)), (''client'', JString tag)])"
    using assms(1) [unfolded json_reads_def, rule_format, OF assms(3)] assms(2) by simp
  then show ?thesis by (simp add: daemon_envelope_parse_def collapse_strings)
qed

text \<open>A body that closes the object of the arguments itself, and what is read when it is folded into a request.\<close>

definition bypass_body :: "string \<Rightarrow> string \<Rightarrow> string" where
  "bypass_body a b = ''{'' @ quoted ''op'' @ '':'' @ quoted a @ ''},'' @ quoted ''op'' @ '':'' @ quoted b @ '','' @ quoted ''x'' @ '':{}''"

lemma read_bypass:
  assumes "wordy a" "wordy b" "wordy tag"
  shows "read_text (request_text a (bypass_body a b) tag) =
    Some (JObject [(''op'', JString a), (''args'', JObject [(''op'', JString a)]), (''op'', JString b), (''x'', JObject []), (''client'', JString tag)])"
proof -
  let ?client = "member_text (''client'', tag) @ ''}''"
  let ?x = "quoted (concat (map json_escape_char ''x'')) @ '':'' @ ''{'' @ members_text True [] @ ''},'' @ ?client"
  let ?args = "quoted (concat (map json_escape_char ''args'')) @ '':'' @ ''{'' @ members_text True [(''op'', a)] @ ''},'' @ member_text (''op'', b) @ '','' @ ?x"
  define n where "n = length (request_text a (bypass_body a b) tag)"
  have "20 \<le> n" by (simp add: n_def request_text_def quoted_def)
  then obtain m where n: "n = Suc (Suc (Suc (Suc (Suc (Suc (Suc m))))))"
    by (intro that [of "n - 7"]) simp
  have rt: "request_text a (bypass_body a b) tag = ''{'' @ member_text (''op'', a) @ '','' @ ?args"
    using wordy_escape assms
    by (simp add: request_text_def member_text_def bypass_body_def escape_names del: list.map(2) concat.simps(2))
  have nf: "nul_free a" "nul_free b" "nul_free tag" "nul_free_fields []" "nul_free_fields [(''op'', a)]"
    using assms wordy_nul_free by (simp_all add: nul_free_fields_def nul_free_names)
  have sf: "string_fields [] = []" "string_fields [(''op'', a)] = [(''op'', JString a)]" by (simp_all add: string_fields_def)
  show ?thesis
    unfolding read_text_def n_def [symmetric] unfolding rt n
    using nf
    by (simp add: read_object_start read_member read_object_member nul_free_names sf
        del: read_members.simps read_value.simps members_text.simps list.map(2) concat.simps(2))
qed

lemma op_names: "list_all (\<lambda>e. list_all word_bits (fst e) \<and> length (fst e) < 64) s_op_table"
  by code_simp

lemma build_request_plain:
  assumes "wordy op" "wordy tag" "length op < 64" "length tag < 64" "args \<noteq> []" "length args < 2048"
  shows "cgi_build_request CGI_DEFAULT_MAX_BODY op args None tag = Some (request_text op args tag)"
  using assms wordy_escape [OF assms(1)] wordy_escape [OF assms(2)]
  by (simp add: cgi_build_request_def wordy_json_escape json_escape_def [of _ "[]"] request_text_def quoted_def CGI_DEFAULT_MAX_BODY_def)

lemma bypass_request:
  assumes "opts \<in> set (cgi_programs q)" "a \<in> set (allowed_ops opts)" "(b, hdl) \<in> set s_op_table"
  shows "cgi_request opts True qs (bypass_body a b) = Inr (request_text a (bypass_body a b) (''cgi:'' @ script_name opts))"
    "wordy a" "wordy b" "wordy (''cgi:'' @ script_name opts)"
    "length (request_text a (bypass_body a b) (''cgi:'' @ script_name opts)) < 1000"
    "ascii (request_text a (bypass_body a b) (''cgi:'' @ script_name opts))"
proof -
  have b: "wordy b" "length b < 64" using assms(3) op_names by (auto simp: list_all_iff wordy_def word_bits)
  have a: "wordy a" "length a < 64" using program_facts(1) [OF assms(1,2)] by simp_all
  have tag: "wordy (''cgi:'' @ script_name opts)" "length (''cgi:'' @ script_name opts) < 64"
    using program_facts(2,3) [OF assms(1)] by (simp_all add: wordy_def word_char_def char_between_def)
  show "wordy a" "wordy b" "wordy (''cgi:'' @ script_name opts)" by fact+
  have len: "length (bypass_body a b) < 200" using a b by (simp add: bypass_body_def quoted_def)
  have nz: "nul_free (bypass_body a b)"
    using wordy_nul_free [OF a(1)] wordy_nul_free [OF b(1)] by (simp add: bypass_body_def quoted_def nul_free_def ball_Un)
  have "cstr (bypass_body a b) = bypass_body a b"
    using nz by (auto simp: cstr_def nul_free_def takeWhile_eq_all_conv)
  moreover have "dropWhile isspace (bypass_body a b) = bypass_body a b" "hd (bypass_body a b) = CHR ''{''" "bypass_body a b \<noteq> []"
    by (simp_all add: bypass_body_def isspace_def)
  ultimately have args: "request_args True qs (bypass_body a b) = Inr (bypass_body a b)"
    using len by (simp add: request_args_def Let_def)
  have "resolve_op opts qs (bypass_body a b) = Some a"
    using body_op [OF a(1)] by (simp add: resolve_op_def bypass_body_def)
  moreover have "take 63 (''cgi:'' @ script_name opts) = ''cgi:'' @ script_name opts" using tag(2) by simp
  moreover have "cgi_op_allowed opts a" using assms(2) by (auto simp: cgi_op_allowed_def list_ex_iff)
  ultimately show "cgi_request opts True qs (bypass_body a b) = Inr (request_text a (bypass_body a b) (''cgi:'' @ script_name opts))"
    using args build_request_plain [OF a(1) tag(1) a(2) tag(2), of "bypass_body a b"] len \<open>bypass_body a b \<noteq> []\<close>
    by (simp add: cgi_request_def)
  show "length (request_text a (bypass_body a b) (''cgi:'' @ script_name opts)) < 1000"
    unfolding request_text_def quoted_def wordy_escape [OF a(1)] wordy_escape [OF tag(1)] using a b tag len by simp
  have "ascii s" if "wordy s" for s using that by (auto simp: ascii_def dest: wordyD word_charD(2))
  then show "ascii (request_text a (bypass_body a b) (''cgi:'' @ script_name opts))"
    using a(1) b(1) tag(1) wordy_escape [OF a(1)] wordy_escape [OF tag(1)]
    by (simp add: ascii_def request_text_def bypass_body_def quoted_def ball_Un)
qed

section \<open>Properties\<close>

text \<open>A run without a body, whose socket takes everything and then does not answer in time.\<close>

definition ex_env :: "string option \<Rightarrow> CgiEnv" where
  "ex_env qs = \<lparr>request_method = Some ''GET'', query_string = qs, content_length = None, stdin_rounds = [], stdin_bytes = [],
     sock_env = None, sock_conn = \<lparr>conn_late = False, conn_socket = None, conn_connect = ConnDone, conn_select = SelReady,
       conn_getsockopt = None, conn_so_error = None\<rparr>,
     sock_writes = [WriteDone 4, WriteIntr, WriteDone 500], sock_rounds = [CrRead (SkRead 4), CrLate], sock_bytes = [0, 0, 0, 2]\<rparr>"

definition ex_query_text :: string where
  "ex_query_text = request_text ''status.summary'' (''{'' @ quoted ''n'' @ '':'' @ quoted ''5'' @ ''}'') ''cgi:status.cgi''"

lemma ex_programs: "status_cgi None \<in> set (cgi_programs None)" "config_cgi (Some ''op=get&group=cell'') \<in> set (cgi_programs (Some ''op=get&group=cell''))"
  by (simp_all add: cgi_programs_def)

lemma ex_status: "script_name (status_cgi None) = ''status.cgi''" "allowed_ops (status_cgi None) = k_status_allowed"
  "fallback_op (status_cgi None) = Some ''status.summary''"
  by (simp_all add: status_cgi_def cgi_opts_def status_synthesised_def)

lemma ex_cgi_request: "cgi_request (status_cgi None) False ''n=5'' [] = Inr ex_query_text"
proof -
  have "qs_to_args_json 2048 ''n=5'' = Some (''{'' @ quoted ''n'' @ '':'' @ quoted ''5'' @ ''}'')"
    by (simp add: qs_to_args_json_def qs_args_loop.simps [of _ "''n=5''"] Let_def json_escape_def json_escape_char_def quoted_def cstr_def)
  moreover have "resolve_op (status_cgi None) ''n=5'' [] = Some ''status.summary''"
    by (simp add: resolve_op_def qs_extract.simps [of "''n=5''"] Let_def ex_status)
  moreover have "cgi_op_allowed (status_cgi None) ''status.summary''" by (simp add: cgi_op_allowed_def ex_status k_status_allowed_def)
  moreover have "wordy ''status.summary''" "wordy ''cgi:status.cgi''" by (simp_all add: wordy_def word_char_def char_between_def)
  ultimately show ?thesis
    by (simp add: cgi_request_def request_args_def ex_status build_request_plain ex_query_text_def quoted_def)
qed

lemma ex_text_bounds: "0 < length ex_query_text" "length ex_query_text < 200" "length ex_query_text < CGI_DEFAULT_MAX_BODY"
  by (simp_all add: ex_query_text_def request_text_def quoted_def json_escape_char_def CGI_DEFAULT_MAX_BODY_def)

lemma ex_write: "bs \<noteq> [] \<Longrightarrow> length bs < 500 \<Longrightarrow> cgi_write_all [WriteIntr, WriteDone 500] bs sent = Returned (Inr (), sent @ bs, [])"
  by (simp add: Let_def)

lemma ex_run: "\<exists>out. cgi_run (status_cgi None) (ex_env (Some ''n=5'')) = Returned (out, op_frame ex_query_text)"
proof -
  have f: "length (bytes_of_text ex_query_text) < 500" "bytes_of_text ex_query_text \<noteq> []" "ex_query_text \<noteq> []"
    using ex_text_bounds by (simp_all add: bytes_of_text_def)
  have w1: "cgi_write_all (sock_writes (ex_env (Some ''n=5''))) (cgi_pack_len_be (of_nat (length ex_query_text))) [] =
      Returned (Inr (), put_be32 (of_nat (length ex_query_text)), [WriteIntr, WriteDone 500])"
    by (simp add: ex_env_def cgi_pack_put put_be32_def Let_def)
  have w2: "cgi_write_all [WriteIntr, WriteDone 500] (bytes_of_text ex_query_text) (put_be32 (of_nat (length ex_query_text))) =
      Returned (Inr (), op_frame ex_query_text, [])"
    unfolding op_frame_def by (rule ex_write [OF f(2,1)])
  have "\<exists>e. cgi_exchange (connect_daemon None None (sock_conn (ex_env (Some ''n=5'')))) (sock_writes (ex_env (Some ''n=5''))) (sock_rounds (ex_env (Some ''n=5'')))
      (sock_bytes (ex_env (Some ''n=5''))) ex_query_text = Returned (Inl e, op_frame ex_query_text)"
    unfolding cgi_exchange_def w1
    by (simp add: ex_env_def w2 connect_daemon_def Let_def CGI_DAEMON_SOCK_DEFAULT_def UNIX_PATH_MAX_def cgi_read_atleast_def cgi_unpack_len_be_def
        CGI_ENVELOPE_MAX_def del: cgi_write_all.simps)
  moreover have "env_body (status_cgi None) (ex_env (Some ''n=5'')) = Returned (Inr [])" "\<not> has_body (ex_env (Some ''n=5''))"
    "env_query (ex_env (Some ''n=5'')) = ''n=5''" "sock_path (status_cgi None) = None" "sock_env (ex_env (Some ''n=5'')) = None"
    by (simp_all add: env_body_def has_body_def ex_env_def env_query_def status_cgi_def cgi_opts_def Let_def)
  ultimately show ?thesis using cgi_run_body ex_cgi_request by fastforce
qed

abbreviation reader :: "string \<Rightarrow> Json option" where
  "reader \<equiv> \<lambda>t. map_option collapse (read_text t)"

lemma ex_reader: "\<exists>root. reader ex_query_text = Some root"
  using query_request [OF ex_programs(1) ex_cgi_request] by auto

lemma ex_served:
  "\<exists>r a st'. socket_server_handle_client reader (\<lambda>_. Some ''{}'') (replicate 300 (SkRead 9)) (replicate 10 (SkWrote 3)) (op_frame ex_query_text) st =
    Returned (r, a, st')"
proof -
  have a: "answer (\<lambda>_. Some ''{}'') (replicate 10 (SkWrote 3)) env None s = Returned (Inr (), op_frame ''{}'', s)" for env s
    using ex_client_facts(5) by (intro answer_sent) (simp_all add: writes_well_def)
  have b: "\<exists>r b st'. serve_request (\<lambda>_. Some ''{}'') (replicate 10 (SkWrote 3)) root st = Returned (r, b, st')" for root
    by (auto simp: serve_request_def a split: sum.split option.split prod.split)
  have l: "reads_well (replicate 300 (SkRead 9))" "4 + length ex_query_text \<le> length (replicate 300 (SkRead 9))"
    "length ex_query_text \<le> DAEMON_OPS_MAX_FRAME_BYTES"
    using ex_text_bounds by (simp_all add: reads_well_def DAEMON_OPS_MAX_FRAME_BYTES_def)
  show ?thesis
    using client_reads_frame [OF l(1,2) ex_text_bounds(1) l(3), of reader "\<lambda>_. Some ''{}''" "replicate 10 (SkWrote 3)" "[]" st] a b
    by (auto split: option.split)
qed

lemma form_request:
  assumes "opts \<in> set (cgi_programs q)" "nul_free op" "small_fields fs" "op \<in> set (allowed_ops opts)"
  shows "\<exists>req. cgi_request opts False (form_query ((''op'', op) # fs)) [] = Inr req"
proof -
  obtain args where a: "qs_to_args_json 2048 (form_query ((''op'', op) # fs)) = Some args" "length args < 2048"
    using form_args [OF assms(3)] by blast
  have ne: "args \<noteq> []" using args_text [OF a(1)] by simp
  have tag: "wordy (''cgi:'' @ script_name opts)" "length (''cgi:'' @ script_name opts) < 64"
    using program_facts(2,3) [OF assms(1)] by (simp_all add: wordy_def word_char_def char_between_def)
  then have t: "take 63 (''cgi:'' @ script_name opts) = ''cgi:'' @ script_name opts" by simp
  have o: "wordy op" "length op < 64" using program_facts(1) [OF assms(1,4)] by simp_all
  have "cgi_op_allowed opts op" using assms(4) by (auto simp: cgi_op_allowed_def list_ex_iff)
  with build_request_plain [OF o(1) tag(1) o(2) tag(2) ne a(2)] a(1) t form_query_op [OF assms(2)] show ?thesis
    by (simp add: cgi_request_def resolve_op_def request_args_def)
qed

text \<open>
  C27: a query arrives as it was meant, or not at all. Take the query a form encodes for an operation and
  further fields of bounded size: letters and digits as they are, a space as a plus, any other byte as
  \<open>%HH\<close>, fields joined by ampersands. A web program with the operation on its list makes a request of it, and
  whatever JSON library reads that request hands the daemon an envelope with exactly this operation,
  the name of the program and, as arguments, the fields as they were before the encoding, one string
  member each (the last of several with one name): no field can end its string and add a member. A
  program without the operation on its list answers 403.
\<close>

theorem web_query_reaches_daemon:
  assumes "opts \<in> set (cgi_programs q)" "json_reads json_loads" "nul_free op" "nul_free_fields fs" "''op'' \<notin> fst ` set fs" "small_fields fs"
  shows "if op \<in> set (allowed_ops opts)
    then \<exists>req. cgi_request opts False (form_query ((''op'', op) # fs)) [] = Inr req \<and>
      (\<forall>root. json_loads req = Some root \<longrightarrow>
         daemon_envelope_parse root = Inr (op, Some (JObject (last_wins (string_fields fs))), None, Some (''cgi:'' @ script_name opts)))
    else cgi_request opts False (form_query ((''op'', op) # fs)) [] = Inl (403, ''FORBIDDEN_OP'', ''op not in CGI allow-list'')"
proof (cases "op \<in> set (allowed_ops opts)")
  case True
  obtain req where req: "cgi_request opts False (form_query ((''op'', op) # fs)) [] = Inr req"
    using form_request [OF assms(1,3,6) True] ..
  have "nul_free_fields ((''op'', op) # fs)" using assms(3,4) by (simp add: nul_free_fields_def nul_free_names)
  moreover have "filter (\<lambda>f. fst f \<noteq> ''op'') fs = fs" using assms(5) by (force simp: filter_id_conv)
  ultimately have fields: "query_fields (form_query ((''op'', op) # fs)) = fs" by (simp add: form_query_fields)
  have "resolve_op opts (form_query ((''op'', op) # fs)) [] = Some op" using form_query_op [OF assms(3)] by (simp add: resolve_op_def)
  with query_request [OF assms(1) req] query_root [OF assms(2)] req True show ?thesis by (simp add: fields)
next
  case False
  then have "\<not> cgi_op_allowed opts op" by (auto simp: cgi_op_allowed_def list_ex_iff)
  with False form_query_op [OF assms(3)] show ?thesis by (simp add: cgi_request_def resolve_op_def)
qed

text \<open>A field whose name holds a space and whose value holds a space, an ampersand and a quote.\<close>

definition ex_fields :: "(string \<times> string) list" where
  "ex_fields = [(''n m'', ''a b&'' @ [CHR 0x22])]"

lemma ex_form: "form_query ((''op'', ''status.summary'') # ex_fields) = ''op=status.summary&n+m=a+b%26%22''"
  by code_simp

theorem web_query_reaches_daemon_witness:
  "\<exists>req root. cgi_request (status_cgi None) False ''op=status.summary&n+m=a+b%26%22'' [] = Inr req \<and> reader req = Some root \<and>
    daemon_envelope_parse root = Inr (''status.summary'', Some (JObject [(''n m'', JString (''a b&'' @ [CHR 0x22]))]), None, Some ''cgi:status.cgi'')"
proof -
  have h: "nul_free ''status.summary''" "nul_free_fields ex_fields" "''op'' \<notin> fst ` set ex_fields" "small_fields ex_fields"
    by (simp_all add: nul_free_def nul_free_fields_def ex_fields_def small_fields_def field_cost_def)
  have "''status.summary'' \<in> set (allowed_ops (status_cgi None))" by (simp add: ex_status k_status_allowed_def)
  with web_query_reaches_daemon [OF ex_programs(1) reader_reads(1) h] obtain req
    where req: "cgi_request (status_cgi None) False ''op=status.summary&n+m=a+b%26%22'' [] = Inr req"
      "\<forall>root. reader req = Some root \<longrightarrow> daemon_envelope_parse root =
         Inr (''status.summary'', Some (JObject (last_wins (string_fields ex_fields))), None, Some ''cgi:status.cgi'')"
    by (auto simp: ex_form ex_status)
  moreover obtain root where "reader req = Some root" using query_request [OF ex_programs(1) req(1)] by auto
  ultimately show ?thesis by (auto simp: ex_fields_def string_fields_def)
qed

text \<open>
  C12: no query stops the daemon. Whatever query a web program without \<open>daemon.stop\<close> on its list is started
  with, and however much of its request is written and read, serving what was sent leaves the state of
  the daemon unchanged.
\<close>

theorem web_query_cannot_stop:
  assumes "opts \<in> set (cgi_programs q)" "''daemon.stop'' \<notin> set (allowed_ops opts)" "\<not> has_body env" "json_reads json_loads"
    and "cgi_run opts env = Returned (out, sent)" "socket_server_handle_client json_loads json_dumps rs ws sent st = Returned (r, a, st')"
  shows "st' = st"
proof (rule ccontr)
  assume ne: "st' \<noteq> st"
  have "sent \<noteq> []"
  proof
    assume s: "sent = []"
    then have "\<not> (\<exists>b i r. read_full rs sent [] 4 = Returned (Inr b, i, r))" using read_full_result [of rs "[]" "[]" 4] by fastforce
    with assms(6) ne show False
      by (auto simp: socket_server_handle_client_def DAEMON_OPS_LEN_PREFIX_BYTES_def split: outcome.splits sum.splits prod.splits)
  qed
  with assms(3,5) obtain bd req unsent where r: "cgi_request opts False (env_query env) bd = Inr req" "op_frame req = sent @ unsent"
    using cgi_run_sends [of opts env out sent] by auto
  obtain op where op: "op \<in> set (allowed_ops opts)" "0 < length req" "length req < CGI_DEFAULT_MAX_BODY"
      "read_text req = Some (JObject [(''op'', JString op), (''args'', JObject (string_fields (query_fields (env_query env)))),
        (''client'', JString (''cgi:'' @ script_name opts))])"
    using query_request [OF assms(1) r(1)] by blast
  then have "length req \<le> DAEMON_OPS_MAX_FRAME_BYTES" by (simp add: CGI_DEFAULT_MAX_BODY_def DAEMON_OPS_MAX_FRAME_BYTES_def)
  from client_prefix [OF r(2) op(2) this assms(6) ne] obtain root
    where root: "json_loads req = Some root" "serve_request json_dumps ws root st = Returned (r, a, st')" by blast
  have "op \<noteq> ''daemon.stop''" using op(1) assms(2) by blast
  from serve_other_op [OF query_root [OF assms(4) root(1) op(4)] this root(2)] ne show False by simp
qed

theorem web_query_cannot_stop_witness:
  "\<forall>st. \<exists>r a. socket_server_handle_client reader (\<lambda>_. Some ''{}'') (replicate 300 (SkRead 9)) (replicate 10 (SkWrote 3)) (op_frame ex_query_text) st = Returned (r, a, st)"
proof
  fix st
  obtain out where run: "cgi_run (status_cgi None) (ex_env (Some ''n=5'')) = Returned (out, op_frame ex_query_text)" using ex_run ..
  obtain r a st' where h: "socket_server_handle_client reader (\<lambda>_. Some ''{}'') (replicate 300 (SkRead 9)) (replicate 10 (SkWrote 3)) (op_frame ex_query_text) st = Returned (r, a, st')" using ex_served by blast
  have "''daemon.stop'' \<notin> set (allowed_ops (status_cgi None))" "\<not> has_body (ex_env (Some ''n=5''))"
    by (simp_all add: ex_status k_status_allowed_def has_body_def ex_env_def)
  from web_query_cannot_stop [OF ex_programs(1) this reader_reads(1) run h] h show "\<exists>r a. socket_server_handle_client reader (\<lambda>_. Some ''{}'') (replicate 300 (SkRead 9)) (replicate 10 (SkWrote 3)) (op_frame ex_query_text) st = Returned (r, a, st)"
    by blast
qed

text \<open>
  C13: a body passes the list of operations. A body starting with a brace is taken over as the value of
  \<open>args\<close> without being parsed, while only its first \<open>op\<close> is looked up: the body
  \<open>{"op":"a"},"op":"b","x":{}\<close>, with an operation \<open>a\<close> on the list of any web program, makes that program
  forward a request for which the daemon runs any operation \<open>b\<close> of its table.
\<close>

theorem web_body_bypasses_allow_list:
  assumes "opts \<in> set (cgi_programs q)" "a \<in> set (allowed_ops opts)" "(b, hdl) \<in> set s_op_table" "json_reads_ascii json_loads"
    and "reads_well rs" "1004 \<le> length rs" "run_op hdl st = (Inr data, st')"
  shows "\<exists>req. cgi_request opts True qs (bypass_body a b) = Inr req \<and>
    socket_server_handle_client json_loads json_dumps rs ws (op_frame req) st =
      answer json_dumps ws (daemon_envelope_ok None (Some data)) None st'"
proof -
  let ?req = "request_text a (bypass_body a b) (''cgi:'' @ script_name opts)"
  note req = bypass_request [OF assms(1-3)]
  define root where "root = collapse (JObject [(''op'', JString a), (''args'', JObject [(''op'', JString a)]), (''op'', JString b), (''x'', JObject []),
    (''client'', JString (''cgi:'' @ script_name opts))])"
  have l: "json_loads ?req = Some root"
    unfolding root_def
    by (rule assms(4) [unfolded json_reads_ascii_def, rule_format, OF req(6) read_bypass [OF req(2-4)]])
      (simp_all add: JSON_PARSER_MAX_DEPTH_def)
  have root: "json_is_object root" "daemon_envelope_parse root = Inr (b, Some (JObject [(''op'', JString a)]), None, Some (''cgi:'' @ script_name opts))"
    by (simp_all add: root_def daemon_envelope_parse_def)
  have s: "serve_request json_dumps ws root st = answer json_dumps ws (daemon_envelope_ok None (Some data)) None st'"
    using assms(7) op_table_find [OF assms(3)] root(2) by (simp add: serve_request_def)
  have len: "4 + length ?req \<le> length rs" "0 < length ?req" "length ?req \<le> DAEMON_OPS_MAX_FRAME_BYTES"
    using assms(6) req(5) by (simp_all add: DAEMON_OPS_MAX_FRAME_BYTES_def) (simp add: request_text_def)
  have "socket_server_handle_client json_loads json_dumps rs ws (op_frame ?req) st = serve_request json_dumps ws root st"
    using client_reads_frame [OF assms(5) len, of json_loads json_dumps ws "[]" st] l root(1) by simp
  with req(1) s show ?thesis by auto
qed

theorem web_body_bypasses_allow_list_witness:
  "\<forall>st. \<exists>req data. cgi_request (status_cgi None) True [] (bypass_body ''status.summary'' ''daemon.stop'') = Inr req \<and>
    socket_server_handle_client reader (\<lambda>_. Some ''{}'') (replicate 1004 (SkRead 9)) (replicate 10 (SkWrote 3)) (op_frame req) st =
      answer (\<lambda>_. Some ''{}'') (replicate 10 (SkWrote 3)) (daemon_envelope_ok None (Some data)) None (stopped st)"
proof
  fix st
  have r: "run_op Op_daemon_stop st = (Inr (JObject [(''ok'', JBool True), (''ast_snapshotted'', JBool True)]), stopped st)"
    by (simp add: run_op_def daemon_request_shutdown_def)
  have a: "''status.summary'' \<in> set (allowed_ops (status_cgi None))" by (simp add: ex_status k_status_allowed_def)
  have w: "reads_well (replicate 1004 (SkRead 9))" "1004 \<le> length (replicate 1004 (SkRead 9))" by (simp_all add: reads_well_def)
  from web_body_bypasses_allow_list [where json_dumps = "\<lambda>_. Some ''{}''" and ws = "replicate 10 (SkWrote 3)" and qs = "[]",
      OF ex_programs(1) a ex_client_facts(3) reader_reads(2) w r]
  show "\<exists>req data. cgi_request (status_cgi None) True [] (bypass_body ''status.summary'' ''daemon.stop'') = Inr req \<and>
    socket_server_handle_client reader (\<lambda>_. Some ''{}'') (replicate 1004 (SkRead 9)) (replicate 10 (SkWrote 3)) (op_frame req) st =
      answer (\<lambda>_. Some ''{}'') (replicate 10 (SkWrote 3)) (daemon_envelope_ok None (Some data)) None (stopped st)"
    by blast
qed

text \<open>
  C28: the short forms of the operations are refused. An operation without a dot, as \<open>OPERATIONS.md\<close>
  documents for the programs (\<open>op=get&group=cell\<close>, \<open>{"op":"put"}\<close>), is answered with 403 by every web
  program, as query and in a body, and the daemon is sent nothing.
\<close>

theorem web_documented_forms_refused:
  assumes "opts \<in> set (cgi_programs q)" "wordy op" "CHR ''.'' \<notin> set op"
    and "t = [] \<or> hd t = CHR ''&''" "\<not> has_body env" "query_string env = Some (''op='' @ op @ t)"
  shows "cgi_run opts env = Returned (error_output (403, ''FORBIDDEN_OP'', ''op not in CGI allow-list''), []) \<and>
    cgi_request opts True qs (''{'' @ quoted ''op'' @ '':'' @ quoted op @ u) = Inl (403, ''FORBIDDEN_OP'', ''op not in CGI allow-list'')"
proof
  have n: "\<not> cgi_op_allowed opts op"
    using program_facts(1) [OF assms(1)] assms(3) by (auto simp: cgi_op_allowed_def list_ex_iff)
  show "cgi_request opts True qs (''{'' @ quoted ''op'' @ '':'' @ quoted op @ u) = Inl (403, ''FORBIDDEN_OP'', ''op not in CGI allow-list'')"
    using n body_op [OF assms(2), of u] by (simp add: cgi_request_def resolve_op_def)
  have "env_body opts env = Returned (Inr [])" using assms(5) by (simp add: env_body_def)
  from cgi_run_body [OF this] show "cgi_run opts env = Returned (error_output (403, ''FORBIDDEN_OP'', ''op not in CGI allow-list''), [])"
    using n query_op [OF assms(2,4)] assms(5,6) by (simp add: cgi_request_def resolve_op_def env_query_def)
qed

theorem web_documented_forms_refused_witness:
  "fallback_op (config_cgi (Some ''op=get&group=cell'')) = Some ''config.cell.get'' \<and>
   cgi_run (config_cgi (Some ''op=get&group=cell'')) (ex_env (Some ''op=get&group=cell'')) =
     Returned (error_output (403, ''FORBIDDEN_OP'', ''op not in CGI allow-list''), [])"
proof
  show "fallback_op (config_cgi (Some ''op=get&group=cell'')) = Some ''config.cell.get''" by code_simp
  have "wordy ''get''" by (simp add: wordy_def word_char_def char_between_def)
  from web_documented_forms_refused [OF ex_programs(2) this, of "''&group=cell''" "ex_env (Some ''op=get&group=cell'')" "[]" "[]"]
  show "cgi_run (config_cgi (Some ''op=get&group=cell'')) (ex_env (Some ''op=get&group=cell'')) =
     Returned (error_output (403, ''FORBIDDEN_OP'', ''op not in CGI allow-list''), [])"
    by (simp add: ex_env_def has_body_def)
qed

end
