(* ===== verification/Spec2Isabelle.thy ===== *)
theory Spec2Isabelle
  imports Loop_Setup Web
begin

text \<open>
  Verification of the TETRA base-station daemon \<open>tetra_d\<close> (C sources under \<open>src/sw\<close>).

  \<^bold>\<open>The program.\<close> One single-threaded process. Frames arrive from the FPGA over DMA channels
  (\<open>dma_io\<close>), are cut out of a byte stream and handed by the event loop (\<open>main_loop.c\<close>) to the LLC.
  The protocol entities LLC, MLE, MM and CMCE know each other only through the message bus
  (\<open>core/src/msgbus.c\<close>): each registers callbacks for a destination and a service access point at
  start-up, and every message is copied, byte for byte, through one of three bounded priority queues.
  The MLE and the MM consult the subscriber database; the database and the session table are JSON
  files written atomically (\<open>persistence\<close>). A timer tick drains the bus and sends the periodic
  network broadcast. \<open>tetra_d.c\<close> wires everything together and saves the files on a clean
  shutdown. Web clients are served over a local socket; on its other side are twelve small CGI programs
  (\<open>webui\<close>), each started by the HTTP server for one request, which check the operation against a list
  of their own and forward one JSON request.

  \<^bold>\<open>Theories\<close>, in the order of imports:

  \<^item> \<open>Prelude\<close>: collections (\<open>bits_simps\<close>, \<open>codec_simps\<close>), lists updated by index, bits of byte arrays.
  \<^item> \<open>Core_Types\<close>: \<open>core/include/tetra/types.h\<close> and \<open>sap.h\<close>: addresses, SAPs, priorities, request handles.
  \<^item> \<open>BitBuffer\<close>: \<open>core/src/bitbuffer.c\<close>. Fields written are read back; \<open>bb_put_bits\<close> changes exactly its bits.
  \<^item> \<open>MsgBus\<close>: \<open>core/src/msgbus.c\<close>. A ring buffer refines a bounded queue (locale \<open>bounded_fifo\<close>); the
    dispatcher runs every matching handler on the oldest most urgent message although handlers post
    meanwhile (locale \<open>bus_host\<close>, interpreted on the daemon in \<open>Daemon\<close>).
  \<^item> \<open>Env\<close>: what the entities share: the bus, the handle counter, little-endian images of structures.
  \<^item> \<open>Llc_Pdu\<close>, \<open>Llc\<close>: \<open>llc/llc_pdu.c\<close> and \<open>llc.c\<close>. PDU round trip, detection of single-bit errors by
    the FCS, stop-and-wait on both sides, no abort on any input.
  \<^item> \<open>Mm_Iep\<close>, \<open>Mm_Build\<close>: \<open>mm/mm_iep.c\<close>, \<open>mm_accept_builder.c\<close>. The parser accepts the layout of a
    group attachment request and never reads outside its input; the builders produce exactly the
    specified bits, with the patched element lengths.
  \<^item> \<open>Store\<close>, \<open>Db\<close>, \<open>Ast\<close>: \<open>persistence\<close>. All-or-nothing replacement under any failing system call; the
    database keeps profile 0 and survives save and open; the session table survives snapshot and reload.
  \<^item> \<open>Mm_Msg\<close>, \<open>Mle\<close>, \<open>Mm\<close>: \<open>mle/mle.c\<close>, \<open>mle_fsm.c\<close>, \<open>mm/mm.c\<close>, and the images of what they exchange.
    A session is registered only after an accept; requests are forwarded unchanged and answered exactly.
  \<^item> \<open>Cmce_Pdu\<close>, \<open>Cmce\<close>: \<open>cmce\<close>. Codec round trips, the call table, the answers, the broadcast schedule.
  \<^item> \<open>Dma_Io\<close>: \<open>dma_io/dma_io.c\<close>, pipe back end. Framing round trip however the calls split the bytes,
    resynchronisation after garbage, return of every call.
  \<^item> \<open>Daemon_State\<close>, \<open>Socket_Server\<close>: \<open>struct DaemonState\<close>, and \<open>socket_server.c\<close>: envelopes, operation
    table, the service of one web client: requests are answered or refused exactly; a client can only
    request a shutdown, or end the daemon by going away too early.
  \<^item> \<open>Daemon\<close>: \<open>tetra_d.c\<close> and \<open>main_loop.c\<close>: start-up, wiring, event loop, shutdown. The entities' safety
    theorems compose: no reachable state aborts. Routing, restart and draining properties.
  \<^item> \<open>Loop_Setup\<close>: \<open>main_loop_init\<close>, \<open>main_loop_teardown\<close>, the listening socket and \<open>main\<close>. What
    the loop opens it watches and gives back, whichever call fails; batches of events are taken in
    sequence; exit codes.
  \<^item> \<open>Cgi\<close>, \<open>Cgi_Text\<close>, \<open>Web\<close>: \<open>webui/cgi_common.c\<close> and the \<open>*_main.c\<close>. \<open>Cgi\<close> holds the definitions;
    \<open>Cgi_Text\<close> a reference reader for JSON texts, what the code's escaping and query folding write
    for it, and the encoder of web forms; \<open>Web\<close> the composition with \<open>Socket_Server\<close>: what a query can make the daemon do, that a
    body can pass the list of operations, and that the documented short operations are refused.

  \<^bold>\<open>Conventions.\<close> Structures are records, tagged enumerations datatypes with their codes, fixed-width
  integers words; sizes and counts that cannot wrap are \<open>nat\<close>. A C return code is a sum: \<open>Inl\<close> an
  error number, \<open>Inr\<close> the success value. A failed \<open>assert\<close> or an access outside an array is \<open>None\<close>
  (or \<open>Aborted\<close>), so that the safety theorems mean something. State is passed explicitly; an entity
  that holds a pointer to the bus or database takes it and returns it. Uninitialised locals are
  lists of zeros of the right length, standing for unspecified contents: the code overwrites what it
  uses of them, but for padding. What the operating system answers (results of
  \<open>read\<close>, \<open>write\<close>, \<open>poll\<close>, \<open>rename\<close>, ...) is a list given to the model, all lists being considered; a
  process that dies in the middle is a list that ends early. A file is what other processes see of it;
  loss of power, and what \<open>fsync\<close> makes durable, are outside the model. Parsing and printing JSON text (the
  jansson library) is a pair of functions given to the model, related, where a property needs it, by
  parsing what was printed for the document in question; \<open>Web\<close> assumes that a text it accepts is read
  as by the reference reader, the last of several members of one name counting (\<open>json_reads\<close>), and that
  ASCII texts of objects nested less than 2048 deep are accepted (\<open>json_reads_ascii\<close>).

  \<^bold>\<open>Specifications.\<close> What a property promises is written down apart from the code it is about: bit
  layouts (\<open>cmce_bits\<close>, \<open>accept_bits\<close>, \<open>call_proceeding_air\<close>), the fields of an answer (\<open>ack_of\<close>,
  \<open>demand_accept\<close>, \<open>indication_of\<close>, \<open>success_envelope\<close>, \<open>refusal\<close>), traces of events, the encoder of web
  forms (\<open>form_query\<close>), a reader for JSON texts (\<open>read_text\<close>).

  \<^bold>\<open>Loops and bounds.\<close> Loops are structural recursions on counters or on the given list of answers.
  The bus fan-out loop is bounded by the registration capacity 32, as in the code; a list of poll
  answers that ends is a call that blocks, and \<open>Daemon.daemon_drain_returns\<close> says how many answers are
  enough. The broadcast schedule is stated for ticks of one multiframe. The reader of \<open>Cgi_Text\<close> takes the
  length of the text as fuel, more than its nesting and number of members.

  \<^bold>\<open>Not modelled.\<close> What the program prints and logs, and the mode of the socket file. The Xilinx DMA back
  end: a skeleton whose receive path returns \<open>-ENOSYS\<close>, on a driver interface that is not there. The
  voice plane, SNDCP and the report channel: the code has no behaviour for them yet. Tests,
  co-simulation, the Unity framework and the FPGA design.
\<close>

end
